(* ===== verification/Prelude.thy ===== *)
theory Prelude
  imports Main "HOL-Library.Word" "HOL-Library.Sublist" "HOL-Library.List_Lexorder"
    "HOL-Library.Char_ord"
begin

text \<open>
  Shared vocabulary of the development: the Rust types the sources use everywhere
  (fixed-width integers, \<open>Result\<close>, \<open>Poll\<close>, streams polled by an executor, JSON values),
  the string operations of the standard library that occur in the sources, and the generic
  lemmas about them that the component theories rely on.
\<close>

section \<open>Named collections\<close>

named_theorems result_simps \<open>unfolding of the Result combinators\<close>
named_theorems inv_intros \<open>preservation of component invariants\<close>

section \<open>Machine integers and bytes\<close>

type_synonym u8 = "8 word"
type_synonym u16 = "16 word"
type_synonym u32 = "32 word"
type_synonym u64 = "64 word"
type_synonym i64 = "64 word"
type_synonym bytes = "u8 list"

text \<open>
  A Rust string is modelled as the list of its UTF-8 bytes, so \<open>len\<close> is \<open>length\<close>.
\<close>

section \<open>Results\<close>

text \<open>
  \<open>Result<A, E>\<close> is the sum \<open>'e + 'a\<close> with \<open>Inl\<close> for \<open>Err\<close>; \<open>rbind\<close> is the \<open>?\<close>
  operator, \<open>map_err\<close> and \<open>ok_or\<close> are the methods of the same name.
\<close>

definition rbind :: "'e + 'a \<Rightarrow> ('a \<Rightarrow> 'e + 'b) \<Rightarrow> 'e + 'b" where
  "rbind r f = (case r of Inl e \<Rightarrow> Inl e | Inr a \<Rightarrow> f a)"

definition map_err :: "('e \<Rightarrow> 'f) \<Rightarrow> 'e + 'a \<Rightarrow> 'f + 'a" where
  "map_err g r = (case r of Inl e \<Rightarrow> Inl (g e) | Inr a \<Rightarrow> Inr a)"

definition ok_or :: "'a option \<Rightarrow> 'e \<Rightarrow> 'e + 'a" where
  "ok_or x e = (case x of None \<Rightarrow> Inl e | Some a \<Rightarrow> Inr a)"

definition opt_or :: "'a option \<Rightarrow> 'a option \<Rightarrow> 'a option" where
  "opt_or x y = (case x of None \<Rightarrow> y | Some a \<Rightarrow> Some a)"

definition unwrap_or :: "'a option \<Rightarrow> 'a \<Rightarrow> 'a" where
  "unwrap_or x d = (case x of None \<Rightarrow> d | Some a \<Rightarrow> a)"

lemma rbind_simps [simp, result_simps]:
  "rbind (Inl e) f = Inl e" "rbind (Inr a) f = f a"
  by (simp_all add: rbind_def)

lemma rbind_cong [fundef_cong]:
  "\<lbrakk>r = r'; \<And>a. r' = Inr a \<Longrightarrow> f a = g a\<rbrakk> \<Longrightarrow> rbind r f = rbind r' g"
  by (cases r') simp_all

lemma map_err_simps [simp, result_simps]:
  "map_err g (Inl e) = Inl (g e)" "map_err g (Inr a) = Inr a"
  by (simp_all add: map_err_def)

lemma ok_or_simps [simp, result_simps]:
  "ok_or None e = Inl e" "ok_or (Some a) e = Inr a"
  by (simp_all add: ok_or_def)

lemma opt_or_simps [simp, result_simps]:
  "opt_or None y = y" "opt_or (Some a) y = Some a"
  by (simp_all add: opt_or_def)

lemma unwrap_or_simps [simp, result_simps]:
  "unwrap_or None d = d" "unwrap_or (Some a) d = a"
  by (simp_all add: unwrap_or_def)

lemma opt_or_assoc: "opt_or (opt_or x y) z = opt_or x (opt_or y z)"
  by (cases x) simp_all

lemma opt_or_None_right [simp]: "opt_or x None = x"
  by (cases x) simp_all

lemma opt_or_eq_None [simp]: "opt_or x y = None \<longleftrightarrow> x = None \<and> y = None"
  by (cases x) simp_all

lemma rbind_eq_Inr: "rbind r f = Inr b \<longleftrightarrow> (\<exists>a. r = Inr a \<and> f a = Inr b)"
  by (cases r) simp_all

lemma rbind_eq_Inl: "rbind r f = Inl e \<longleftrightarrow> r = Inl e \<or> (\<exists>a. r = Inr a \<and> f a = Inl e)"
  by (cases r) simp_all

lemma map_err_eq_Inr [simp]: "map_err g r = Inr a \<longleftrightarrow> r = Inr a"
  by (cases r) simp_all

lemma map_err_eq_Inl: "map_err g r = Inl e \<longleftrightarrow> (\<exists>d. r = Inl d \<and> e = g d)"
  by (cases r) auto

lemma ok_or_eq_Inr [simp]: "ok_or x e = Inr a \<longleftrightarrow> x = Some a"
  by (cases x) simp_all

lemma ok_or_eq_Inl: "ok_or x e = Inl d \<longleftrightarrow> x = None \<and> d = e"
  by (cases x) auto

section \<open>Polling\<close>

text \<open>
  \<open>Poll\<close> is \<open>std::task::Poll\<close>. A stream that a component polls is given by the finite
  sequence of answers it gives to successive polls of the run under consideration; once the
  sequence is used up every further poll is answered \<open>Pending\<close>. A future is the same with
  one item.
\<close>

datatype 'a poll = Ready 'a | Pending

type_synonym 'a stream_script = "'a option poll list"

fun poll_stream :: "'a stream_script \<Rightarrow> 'a option poll \<times> 'a stream_script" where
  "poll_stream [] = (Pending, [])"
| "poll_stream (a # as) = (a, as)"

lemma poll_stream_length: "length (snd (poll_stream s)) \<le> length s"
  by (cases s) simp_all

text \<open>
  The iteration order of a \<open>HashMap\<close> or \<open>HashSet\<close> is unspecified; what code may rely on is
  that an iteration visits every key once.
\<close>

locale hash_order =
  fixes iter :: "'k set \<Rightarrow> 'k list"
  assumes iter_keys: "finite K \<Longrightarrow> set (iter K) = K"
    and iter_distinct: "finite K \<Longrightarrow> distinct (iter K)"

interpretation sorted_order: hash_order "sorted_list_of_set :: 'k :: linorder set \<Rightarrow> 'k list"
  by unfold_locales simp_all

section \<open>JSON values\<close>

text \<open>
  \<open>serde_json::Value\<close>: an object is the list of its members in serialisation order.
\<close>

datatype json = JNull | JBool bool | JNum int | JStr string | JArr "json list"
  | JObj "(string \<times> json) list"

fun jget :: "string \<Rightarrow> json \<Rightarrow> json" where
  "jget k (JObj ms) = (case map_of ms k of None \<Rightarrow> JNull | Some v \<Rightarrow> v)"
| "jget k _ = JNull"

section \<open>Strings\<close>

text \<open>\<open>str::strip_prefix\<close>, \<open>str::splitn(2, c)\<close> and \<open>str::contains(char)\<close>.\<close>

fun strip_pre :: "string \<Rightarrow> string \<Rightarrow> string option" where
  "strip_pre [] s = Some s"
| "strip_pre (p # ps) [] = None"
| "strip_pre (p # ps) (c # cs) = (if p = c then strip_pre ps cs else None)"

lemma strip_pre_eq_Some: "strip_pre p s = Some t \<longleftrightarrow> s = p @ t"
  by (induction p s rule: strip_pre.induct) auto

lemma strip_pre_append [simp]: "strip_pre p (p @ t) = Some t"
  by (simp add: strip_pre_eq_Some)

lemma strip_pre_None: "strip_pre p s = None \<longleftrightarrow> \<not> prefix p s"
  by (induction p s rule: strip_pre.induct) auto

fun split_once :: "char \<Rightarrow> string \<Rightarrow> string \<times> string option" where
  "split_once c [] = ([], None)"
| "split_once c (x # xs) =
     (if x = c then ([], Some xs)
      else let (a, b) = split_once c xs in (x # a, b))"

lemma split_once_notin: "c \<notin> set s \<Longrightarrow> split_once c s = (s, None)"
  by (induction s) auto

lemma split_once_append: "c \<notin> set a \<Longrightarrow> split_once c (a @ c # b) = (a, Some b)"
  by (induction a) auto

lemma split_once_Some: "split_once c s = (a, Some b) \<Longrightarrow> s = a @ c # b \<and> c \<notin> set a"
proof (induction s arbitrary: a)
  case Nil
  then show ?case by simp
next
  case (Cons x xs)
  then show ?case by (cases "x = c") (auto split: prod.splits)
qed

lemma split_once_None: "split_once c s = (a, None) \<Longrightarrow> a = s \<and> c \<notin> set s"
proof (induction s arbitrary: a)
  case Nil
  then show ?case by simp
next
  case (Cons x xs)
  then show ?case by (cases "x = c") (auto split: prod.splits)
qed

text \<open>\<open>str::split(char)\<close>.\<close>

fun split_on :: "char \<Rightarrow> string \<Rightarrow> string list" where
  "split_on c [] = [[]]"
| "split_on c (x # xs) =
     (if x = c then [] # split_on c xs
      else case split_on c xs of [] \<Rightarrow> [[x]] | p # ps \<Rightarrow> (x # p) # ps)"

lemma split_on_notin: "c \<notin> set e \<Longrightarrow> split_on c e = [e]"
  by (induction e) auto

lemma split_on_append: "c \<notin> set e \<Longrightarrow> split_on c (e @ c # r) = e # split_on c r"
  by (induction e) auto

lemma split_on_concat:
  "\<forall>e \<in> set es. c \<notin> set e \<Longrightarrow> split_on c (concat (map (\<lambda>e. c # e) es)) = [] # es"
proof (induction es)
  case Nil
  then show ?case by simp
next
  case (Cons e es)
  then show ?case
  proof (cases es)
    case Nil
    with Cons show ?thesis by (simp add: split_on_notin)
  next
    case (Cons e' es')
    let ?r = "e' @ concat (map (\<lambda>e. c # e) es')"
    have "split_on c ?r = es" using Cons.IH Cons.prems Cons by simp
    with Cons.prems Cons show ?thesis by (simp add: split_on_append)
  qed
qed

definition ends_with :: "string \<Rightarrow> string \<Rightarrow> bool" where
  "ends_with s suf = suffix suf s"

section \<open>Decimal numerals\<close>

text \<open>
  \<open>to_string\<close> of an unsigned integer and \<open>str::parse::<u32>\<close>: an optional leading plus
  sign, then at least one decimal digit, failing on any other character and on overflow.
\<close>

definition digit_char :: "nat \<Rightarrow> char" where
  "digit_char d = char_of (48 + d)"

definition is_digit :: "char \<Rightarrow> bool" where
  "is_digit c = (CHR ''0'' \<le> c \<and> c \<le> CHR ''9'')"

definition digit_val :: "char \<Rightarrow> nat" where
  "digit_val c = of_char c - 48"

fun show_nat :: "nat \<Rightarrow> string" where
  "show_nat n = (if n < 10 then [digit_char n] else show_nat (n div 10) @ [digit_char (n mod 10)])"

declare show_nat.simps [simp del]

definition digits_val :: "string \<Rightarrow> nat" where
  "digits_val s = foldl (\<lambda>a c. 10 * a + digit_val c) 0 s"

definition parse_digits :: "nat \<Rightarrow> string \<Rightarrow> nat option" where
  "parse_digits bound s =
     (let ds = (if s \<noteq> [] \<and> hd s = CHR ''+'' then tl s else s) in
      if ds = [] \<or> \<not> list_all is_digit ds then None
      else if digits_val ds < bound then Some (digits_val ds) else None)"

definition parse_u32 :: "string \<Rightarrow> u32 option" where
  "parse_u32 s = map_option of_nat (parse_digits (2 ^ 32) s)"

definition show_u32 :: "u32 \<Rightarrow> string" where
  "show_u32 n = show_nat (unat n)"

definition show_int :: "int \<Rightarrow> string" where
  "show_int i = (if i < 0 then CHR ''-'' # show_nat (nat (- i)) else show_nat (nat i))"

definition show_i64 :: "i64 \<Rightarrow> string" where
  "show_i64 n = show_int (sint n)"

lemma digit_char_of: "d < 10 \<Longrightarrow> is_digit (digit_char d) \<and> digit_val (digit_char d) = d"
proof -
  assume d: "d < 10"
  have n: "(of_char (digit_char d) :: nat) = 48 + d"
    using d by (simp add: digit_char_def of_char_of)
  have "CHR ''0'' \<le> digit_char d" "digit_char d \<le> CHR ''9''"
    using d n by (simp_all add: less_eq_char_def)
  with n show ?thesis by (simp add: is_digit_def digit_val_def)
qed

lemma is_digit_digit_char [simp]: "d < 10 \<Longrightarrow> is_digit (digit_char d)"
  using digit_char_of by blast

lemma digit_val_digit_char [simp]: "d < 10 \<Longrightarrow> digit_val (digit_char d) = d"
  using digit_char_of by blast

lemma show_nat_digits: "list_all is_digit (show_nat n)"
proof (induction n rule: show_nat.induct)
  case (1 n)
  then show ?case by (subst show_nat.simps) auto
qed

lemma show_nat_nonempty [simp]: "show_nat n \<noteq> []"
  by (subst show_nat.simps) simp

lemma digits_val_snoc [simp]: "digits_val (s @ [c]) = 10 * digits_val s + digit_val c"
  by (simp add: digits_val_def)

lemma digits_val_show_nat [simp]: "digits_val (show_nat n) = n"
proof (induction n rule: show_nat.induct)
  case (1 n)
  show ?case
  proof (cases "n < 10")
    case True
    then show ?thesis by (subst show_nat.simps) (simp add: digits_val_def)
  next
    case False
    with 1 show ?thesis by (subst show_nat.simps) simp
  qed
qed

lemma plus_not_digit [simp]: "\<not> is_digit CHR ''+''"
  by (simp add: is_digit_def less_eq_char_def)

lemma parse_digits_digits:
  assumes "ds \<noteq> []" "list_all is_digit ds"
  shows "parse_digits b ds = (if digits_val ds < b then Some (digits_val ds) else None)"
proof -
  from assms obtain c cs where ds: "ds = c # cs" and c: "is_digit c" by (cases ds) auto
  then have "c \<noteq> CHR ''+''" by auto
  with assms ds show ?thesis by (simp add: parse_digits_def Let_def)
qed

lemma parse_digits_show_nat: "parse_digits b (show_nat n) = (if n < b then Some n else None)"
  by (subst parse_digits_digits) (simp_all add: show_nat_digits)

lemma parse_show_u32 [simp]: "parse_u32 (show_u32 n) = Some n"
proof -
  have "unat n < 2 ^ 32" using unsigned_less [of n] by simp
  then show ?thesis by (simp add: parse_u32_def show_u32_def parse_digits_show_nat)
qed

lemma parse_plus_show_u32 [simp]: "parse_u32 (CHR ''+'' # show_u32 n) = Some n"
proof -
  have "unat n < 2 ^ 32" using unsigned_less [of n] by simp
  then show ?thesis
    by (simp add: parse_u32_def parse_digits_def show_u32_def show_nat_digits)
qed

lemma show_u32_digits: "list_all is_digit (show_u32 n)"
  by (simp add: show_u32_def show_nat_digits)

lemma show_u32_nonempty [simp]: "show_u32 n \<noteq> []"
  by (simp add: show_u32_def)

lemma show_nat_inject [simp]: "show_nat m = show_nat n \<longleftrightarrow> m = n"
  by (metis digits_val_show_nat)

section \<open>Association and lookup lemmas\<close>

lemma find_Some_D: "List.find P xs = Some x \<Longrightarrow> x \<in> set xs \<and> P x"
  by (auto simp: find_Some_iff)

lemma find_filter: "List.find P (filter Q xs) = List.find (\<lambda>x. Q x \<and> P x) xs"
  by (induction xs) auto

lemma find_append:
  "List.find P (xs @ ys) = (case List.find P xs of None \<Rightarrow> List.find P ys | Some x \<Rightarrow> Some x)"
  by (induction xs) auto

lemma map_filter_append [simp]: "List.map_filter f (xs @ ys) = List.map_filter f xs @ List.map_filter f ys"
  by (simp add: List.map_filter_def)

end
