(* ===== verification/Core_Version.thy ===== *)
theory Core_Version
  imports Prelude "HOL-Library.Option_ord" "HOL-Library.Product_Lexorder"
begin

text \<open>
  \<open>kube-core/src/version.rs\<close>: the Kubernetes API version parser and its two orderings.
  \<open>Priority\<close> and \<open>Generation\<close> derive \<open>Ord\<close>, so they are compared field by field in
  declaration order: they are tuples under the lexicographic order here.
\<close>

section \<open>Versions and their parser\<close>

datatype version =
    Stable u32
  | Beta u32 "u32 option"
  | Alpha u32 "u32 option"
  | Nonconformant string

definition parse_suffix :: "(u32 \<Rightarrow> u32 option \<Rightarrow> version) \<Rightarrow> u32 \<Rightarrow> string \<Rightarrow> version option" where
  "parse_suffix mk major suf =
     (if suf = [] then Some (mk major None)
      else case parse_u32 suf of None \<Rightarrow> None | Some m \<Rightarrow> Some (mk major (Some m)))"

definition try_parse :: "string \<Rightarrow> version option" where
  "try_parse s =
     (case strip_pre ''v'' s of
        None \<Rightarrow> None
      | Some v \<Rightarrow>
          if v = [] then None
          else let major = takeWhile is_digit v; rest = drop (length major) v in
          case parse_u32 major of
            None \<Rightarrow> None
          | Some mj \<Rightarrow>
              if rest = [] then Some (Stable mj)
              else case strip_pre ''alpha'' rest of
                Some suf \<Rightarrow> parse_suffix Alpha mj suf
              | None \<Rightarrow>
                  (case strip_pre ''beta'' rest of
                     Some suf \<Rightarrow> parse_suffix Beta mj suf
                   | None \<Rightarrow> None))"

definition parse :: "string \<Rightarrow> version" where
  "parse s = (case try_parse s of Some v \<Rightarrow> v | None \<Rightarrow> Nonconformant s)"

definition from_str :: "string \<Rightarrow> 'e + version" where
  "from_str s = Inr (parse s)"

section \<open>Orderings\<close>

datatype stability = SNonconformant | SAlpha | SBeta | SStable

primrec stability_rank :: "stability \<Rightarrow> nat" where
  "stability_rank SNonconformant = 0"
| "stability_rank SAlpha = 1"
| "stability_rank SBeta = 2"
| "stability_rank SStable = 3"

lemma stability_rank_inject [simp]: "stability_rank a = stability_rank b \<longleftrightarrow> a = b"
  by (cases a; cases b) simp_all

instantiation stability :: linorder
begin

definition less_eq_stability :: "stability \<Rightarrow> stability \<Rightarrow> bool" where
  "less_eq_stability a b = (stability_rank a \<le> stability_rank b)"

definition less_stability :: "stability \<Rightarrow> stability \<Rightarrow> bool" where
  "less_stability a b = (stability_rank a < stability_rank b)"

instance
  by standard (auto simp: less_eq_stability_def less_stability_def)

end

text \<open>\<open>std::cmp::Reverse\<close>: the wrapper that flips an order.\<close>

datatype 'a reverse = Reverse (unreverse: 'a)

instantiation reverse :: (linorder) linorder
begin

definition less_eq_reverse :: "'a reverse \<Rightarrow> 'a reverse \<Rightarrow> bool" where
  "less_eq_reverse a b = (unreverse b \<le> unreverse a)"

definition less_reverse :: "'a reverse \<Rightarrow> 'a reverse \<Rightarrow> bool" where
  "less_reverse a b = (unreverse b < unreverse a)"

instance
proof
  fix x y z :: "'a reverse"
  show "x < y \<longleftrightarrow> x \<le> y \<and> \<not> y \<le> x"
    by (auto simp: less_eq_reverse_def less_reverse_def)
  show "x \<le> x" by (simp add: less_eq_reverse_def)
  show "x \<le> y \<Longrightarrow> y \<le> z \<Longrightarrow> x \<le> z" by (auto simp: less_eq_reverse_def)
  show "x \<le> y \<Longrightarrow> y \<le> x \<Longrightarrow> x = y"
    by (cases x; cases y) (auto simp: less_eq_reverse_def)
  show "x \<le> y \<or> y \<le> x" by (auto simp: less_eq_reverse_def)
qed

end

type_synonym priority_key = "stability \<times> u32 \<times> u32 option \<times> string reverse option"
type_synonym generation_key = "u32 \<times> stability \<times> u32 option \<times> string reverse option"

fun priority :: "version \<Rightarrow> priority_key" where
  "priority (Stable major) = (SStable, major, None, None)"
| "priority (Beta major minor) = (SBeta, major, minor, None)"
| "priority (Alpha major minor) = (SAlpha, major, minor, None)"
| "priority (Nonconformant s) = (SNonconformant, 0, None, Some (Reverse s))"

fun generation :: "version \<Rightarrow> generation_key" where
  "generation (Stable major) = (major, SStable, None, None)"
| "generation (Beta major minor) = (major, SBeta, minor, None)"
| "generation (Alpha major minor) = (major, SAlpha, minor, None)"
| "generation (Nonconformant s) = (0, SNonconformant, None, Some (Reverse s))"

section \<open>Reference notions\<close>

text \<open>How a conformant version is written, and its release class.\<close>

fun render :: "version \<Rightarrow> string" where
  "render (Stable major) = ''v'' @ show_u32 major"
| "render (Beta major minor) = ''v'' @ show_u32 major @ ''beta'' @ (case minor of None \<Rightarrow> [] | Some m \<Rightarrow> show_u32 m)"
| "render (Alpha major minor) = ''v'' @ show_u32 major @ ''alpha'' @ (case minor of None \<Rightarrow> [] | Some m \<Rightarrow> show_u32 m)"
| "render (Nonconformant s) = s"

fun conformant :: "version \<Rightarrow> bool" where
  "conformant (Nonconformant s) = False"
| "conformant _ = True"

fun release_class :: "version \<Rightarrow> stability" where
  "release_class (Stable _) = SStable"
| "release_class (Beta _ _) = SBeta"
| "release_class (Alpha _ _) = SAlpha"
| "release_class (Nonconformant _) = SNonconformant"

lemma takeWhile_digits_append:
  assumes "list_all is_digit ds" "rest = [] \<or> \<not> is_digit (hd rest)"
  shows "takeWhile is_digit (ds @ rest) = ds"
  using assms by (induction ds) (cases rest; auto)+

lemma try_parse_conformant_form:
  assumes rest: "rest = [] \<or> \<not> is_digit (hd rest)"
  shows "try_parse (''v'' @ show_u32 n @ rest) =
     (if rest = [] then Some (Stable n)
      else case strip_pre ''alpha'' rest of
        Some suf \<Rightarrow> parse_suffix Alpha n suf
      | None \<Rightarrow> (case strip_pre ''beta'' rest of
          Some suf \<Rightarrow> parse_suffix Beta n suf
        | None \<Rightarrow> None))"
proof -
  have tw: "takeWhile is_digit (show_u32 n @ rest) = show_u32 n"
    using show_u32_digits rest by (rule takeWhile_digits_append)
  have "strip_pre ''v'' (''v'' @ show_u32 n @ rest) = Some (show_u32 n @ rest)"
    by (rule strip_pre_append)
  moreover have "drop (length (show_u32 n)) (show_u32 n @ rest) = rest"
    by simp
  ultimately show ?thesis
    unfolding try_parse_def by (simp only: option.case Let_def tw) (simp del: drop_append)
qed

lemma letters_not_digit [simp]: "\<not> is_digit CHR ''a''" "\<not> is_digit CHR ''b''"
  by (simp_all add: is_digit_def less_eq_char_def)

lemma strip_alpha_beta [simp]:
  "strip_pre ''alpha'' (CHR ''a'' # CHR ''l'' # CHR ''p'' # CHR ''h'' # CHR ''a'' # t) = Some t"
  "strip_pre ''alpha'' (CHR ''b'' # t) = None"
  "strip_pre ''beta'' (CHR ''b'' # CHR ''e'' # CHR ''t'' # CHR ''a'' # t) = Some t"
  by simp_all

lemma parse_suffix_minor [simp]:
  "parse_suffix mk n (case m of None \<Rightarrow> [] | Some k \<Rightarrow> show_u32 k) = Some (mk n m)"
  by (cases m) (simp_all add: parse_suffix_def)

lemma try_parse_render: "conformant v \<Longrightarrow> try_parse (render v) = Some v"
proof (cases v)
  case (Stable n)
  then show ?thesis using try_parse_conformant_form [of "[]" n] by simp
next
  case (Beta n m)
  then show ?thesis
    using try_parse_conformant_form [of "''beta'' @ (case m of None \<Rightarrow> [] | Some k \<Rightarrow> show_u32 k)" n]
    by simp
next
  case (Alpha n m)
  then show ?thesis
    using try_parse_conformant_form [of "''alpha'' @ (case m of None \<Rightarrow> [] | Some k \<Rightarrow> show_u32 k)" n]
    by simp
qed simp

lemma try_parse_conformant: "try_parse s = Some v \<Longrightarrow> conformant v"
  by (auto simp: try_parse_def parse_suffix_def Let_def split: option.splits if_splits)

lemma priority_inject: "priority v = priority w \<longleftrightarrow> v = w"
  by (cases v; cases w) auto

lemma generation_inject: "generation v = generation w \<longleftrightarrow> v = w"
  by (cases v; cases w) auto

lemma priority_class: "fst (priority v) = release_class v"
  by (cases v) simp_all

lemma priority_release_class: "release_class v < release_class w \<Longrightarrow> priority v < priority w"
  by (cases "priority v"; cases "priority w") (metis fst_conv less_prod_simp priority_class)

section \<open>Properties\<close>

text \<open>
  C34: the parser and the written form of versions agree. Every conformant version is
  recovered from its written form, every result of the parser other than the conformant
  ones is the input string itself kept as nonconformant, and nonconformant results arise
  exactly for the strings the strict parser rejects.
\<close>

theorem parse_render_roundtrip:
  "parse (''v'' @ show_u32 major) = Stable major
   \<and> parse (render (Beta major minor)) = Beta major minor
   \<and> parse (render (Alpha major minor)) = Alpha major minor
   \<and> (conformant (parse s) \<longleftrightarrow> try_parse s \<noteq> None)
   \<and> (parse s = Nonconformant t \<longleftrightarrow> try_parse s = None \<and> t = s)"
proof -
  have r: "parse (render v) = v" if "conformant v" for v
    using try_parse_render [OF that] by (simp add: parse_def)
  have c: "conformant (parse s) \<longleftrightarrow> try_parse s \<noteq> None"
    by (auto simp: parse_def dest: try_parse_conformant split: option.splits)
  have n: "parse s = Nonconformant t \<longleftrightarrow> try_parse s = None \<and> t = s"
    by (auto simp: parse_def dest: try_parse_conformant split: option.splits)
  show ?thesis
    using r [of "Stable major"] r [of "Beta major minor"] r [of "Alpha major minor"] c n
    by simp
qed

text \<open>
  the kubectl priority order. The release class decides first (stable over beta over
  alpha over nonconformant) whatever the numbers are; inside a class the major version
  decides and then the minor one, a missing minor being the lowest; nonconformant versions
  are ordered in reverse alphabetical order; and two versions with the same priority are
  equal.
\<close>

theorem priority_order:
  "(priority v < priority w \<longleftrightarrow>
      release_class v < release_class w
      \<or> (\<exists>a b. v = Stable a \<and> w = Stable b \<and> a < b)
      \<or> (\<exists>a m b n. v = Beta a m \<and> w = Beta b n \<and> (a < b \<or> a = b \<and> m < n))
      \<or> (\<exists>a m b n. v = Alpha a m \<and> w = Alpha b n \<and> (a < b \<or> a = b \<and> m < n))
      \<or> (\<exists>s t. v = Nonconformant s \<and> w = Nonconformant t \<and> t < s))
   \<and> (priority v = priority w \<longleftrightarrow> v = w)"
proof -
  have "priority v < priority w \<longleftrightarrow>
      release_class v < release_class w
      \<or> (\<exists>a b. v = Stable a \<and> w = Stable b \<and> a < b)
      \<or> (\<exists>a m b n. v = Beta a m \<and> w = Beta b n \<and> (a < b \<or> a = b \<and> m < n))
      \<or> (\<exists>a m b n. v = Alpha a m \<and> w = Alpha b n \<and> (a < b \<or> a = b \<and> m < n))
      \<or> (\<exists>s t. v = Nonconformant s \<and> w = Nonconformant t \<and> t < s)"
    by (cases v; cases w) (auto simp: less_eq_stability_def less_stability_def less_reverse_def)
  then show ?thesis by (simp add: priority_inject)
qed

text \<open>
  The parser is laxer than the version grammar it documents. The minor number goes
  through \<open>str::parse::<u32>\<close>, which accepts a leading plus sign, so for every major and
  minor number the two different strings \<open>v<major>alpha<minor>\<close> and
  \<open>v<major>alpha+<minor>\<close> are parsed to the same conformant version.
\<close>

theorem parse_accepts_plus:
  "parse (''v'' @ show_u32 major @ ''alpha+'' @ show_u32 minor) = Alpha major (Some minor)
   \<and> parse (''v'' @ show_u32 major @ ''alpha'' @ show_u32 minor) = Alpha major (Some minor)"
proof -
  have "try_parse (''v'' @ show_u32 major @ ''alpha+'' @ show_u32 minor)
      = Some (Alpha major (Some minor))"
    using try_parse_conformant_form [of "''alpha+'' @ show_u32 minor" major]
    by (simp add: parse_suffix_def)
  moreover have "try_parse (''v'' @ show_u32 major @ ''alpha'' @ show_u32 minor)
      = Some (Alpha major (Some minor))"
    using try_parse_render [of "Alpha major (Some minor)"] by simp
  ultimately show ?thesis unfolding parse_def by (simp only: option.case)
qed

end
