(* ===== verification/Core_Params.thy ===== *)
theory Core_Params
  imports Prelude
begin

text \<open>
  \<open>kube-core/src/params.rs\<close>: the parameters of list, get, watch, post, patch and delete
  calls, their builders, their client-side validation and the query parameters they add.
  The query string serializer (\<open>form_urlencoded::Serializer\<close>) is a parameter: \<open>ap\<close> is its
  \<open>append_pair\<close>. A serializable value is represented by the JSON value it serializes to.
\<close>

datatype request_error = BuildRequest string | SerializeBody string | Validation string

text \<open>Optional and boolean query parameters.\<close>

definition append_some :: "('qp \<Rightarrow> string \<Rightarrow> string \<Rightarrow> 'qp) \<Rightarrow> string \<Rightarrow> string option \<Rightarrow> 'qp \<Rightarrow> 'qp" where
  "append_some ap k v qp = (case v of None \<Rightarrow> qp | Some x \<Rightarrow> ap qp k x)"

definition append_if :: "('qp \<Rightarrow> string \<Rightarrow> string \<Rightarrow> 'qp) \<Rightarrow> string \<Rightarrow> string \<Rightarrow> bool \<Rightarrow> 'qp \<Rightarrow> 'qp" where
  "append_if ap k v b qp = (if b then ap qp k v else qp)"

section \<open>ListParams\<close>

datatype version_match = NotOlderThan | Exact

record list_params =
  lp_label_selector :: "string option"
  lp_field_selector :: "string option"
  lp_timeout :: "u32 option"
  lp_limit :: "u32 option"
  lp_continue_token :: "string option"
  lp_version_match :: "version_match option"
  lp_resource_version :: "string option"

definition list_params_default :: list_params where
  "list_params_default = \<lparr>lp_label_selector = None, lp_field_selector = None, lp_timeout = None,
     lp_limit = None, lp_continue_token = None, lp_version_match = None, lp_resource_version = None\<rparr>"

definition list_validate :: "list_params \<Rightarrow> request_error + unit" where
  "list_validate lp =
     (case lp_resource_version lp of
        Some rv \<Rightarrow>
          if lp_version_match lp = Some Exact \<and> rv = ''0''
          then Inl (Validation ''A non-zero resource_version is required when using an Exact match'')
          else Inr ()
      | None \<Rightarrow>
          if lp_version_match lp \<noteq> None
          then Inl (Validation ''A resource_version is required when using an explicit match'')
          else Inr ())"

definition list_populate_qp :: "('qp \<Rightarrow> string \<Rightarrow> string \<Rightarrow> 'qp) \<Rightarrow> list_params \<Rightarrow> 'qp \<Rightarrow> 'qp" where
  "list_populate_qp ap lp qp =
     (let qp = append_some ap ''fieldSelector'' (lp_field_selector lp) qp;
          qp = append_some ap ''labelSelector'' (lp_label_selector lp) qp;
          qp = append_some ap ''limit'' (map_option show_u32 (lp_limit lp)) qp;
          qp = append_some ap ''continue'' (lp_continue_token lp) qp;
          qp = append_some ap ''resourceVersion'' (lp_resource_version lp) qp
      in case lp_version_match lp of
           None \<Rightarrow> qp
         | Some NotOlderThan \<Rightarrow> ap qp ''resourceVersionMatch'' ''NotOlderThan''
         | Some Exact \<Rightarrow> ap qp ''resourceVersionMatch'' ''Exact'')"

definition lp_set_timeout :: "list_params \<Rightarrow> u32 \<Rightarrow> list_params" where
  "lp_set_timeout lp timeout_secs = lp\<lparr>lp_timeout := Some timeout_secs\<rparr>"

definition lp_fields :: "list_params \<Rightarrow> string \<Rightarrow> list_params" where
  "lp_fields lp field_selector = lp\<lparr>lp_field_selector := Some field_selector\<rparr>"

definition lp_labels :: "list_params \<Rightarrow> string \<Rightarrow> list_params" where
  "lp_labels lp label_selector = lp\<lparr>lp_label_selector := Some label_selector\<rparr>"

definition lp_set_limit :: "list_params \<Rightarrow> u32 \<Rightarrow> list_params" where
  "lp_set_limit lp limit = lp\<lparr>lp_limit := Some limit\<rparr>"

definition lp_set_continue_token :: "list_params \<Rightarrow> string \<Rightarrow> list_params" where
  "lp_set_continue_token lp token = lp\<lparr>lp_continue_token := Some token\<rparr>"

definition lp_at :: "list_params \<Rightarrow> string \<Rightarrow> list_params" where
  "lp_at lp resource_version = lp\<lparr>lp_resource_version := Some resource_version\<rparr>"

definition lp_matching :: "list_params \<Rightarrow> version_match \<Rightarrow> list_params" where
  "lp_matching lp version_match = lp\<lparr>lp_version_match := Some version_match\<rparr>"

definition lp_match_any :: "list_params \<Rightarrow> list_params" where
  "lp_match_any lp = lp_at (lp_matching lp NotOlderThan) ''0''"

section \<open>GetParams\<close>

record get_params =
  gp_resource_version :: "string option"

definition get_params_default :: get_params where
  "get_params_default = \<lparr>gp_resource_version = None\<rparr>"

definition gp_at :: "string \<Rightarrow> get_params" where
  "gp_at resource_version = \<lparr>gp_resource_version = Some resource_version\<rparr>"

definition gp_any :: get_params where
  "gp_any = gp_at ''0''"

section \<open>WatchParams\<close>

record watch_params =
  wp_label_selector :: "string option"
  wp_field_selector :: "string option"
  wp_timeout :: "u32 option"
  wp_bookmarks :: bool

definition watch_validate :: "watch_params \<Rightarrow> request_error + unit" where
  "watch_validate wp =
     (case wp_timeout wp of
        Some t \<Rightarrow> if t \<ge> 295 then Inl (Validation ''WatchParams::timeout must be < 295s'') else Inr ()
      | None \<Rightarrow> Inr ())"

definition watch_populate_qp :: "('qp \<Rightarrow> string \<Rightarrow> string \<Rightarrow> 'qp) \<Rightarrow> watch_params \<Rightarrow> 'qp \<Rightarrow> 'qp" where
  "watch_populate_qp ap wp qp =
     (let qp = ap qp ''watch'' ''true'';
          qp = ap qp ''timeoutSeconds'' (show_u32 (unwrap_or (wp_timeout wp) 290));
          qp = append_some ap ''fieldSelector'' (wp_field_selector wp) qp;
          qp = append_some ap ''labelSelector'' (wp_label_selector wp) qp
      in append_if ap ''allowWatchBookmarks'' ''true'' (wp_bookmarks wp) qp)"

definition watch_params_default :: watch_params where
  "watch_params_default = \<lparr>wp_label_selector = None, wp_field_selector = None, wp_timeout = None,
     wp_bookmarks = True\<rparr>"

definition wp_set_timeout :: "watch_params \<Rightarrow> u32 \<Rightarrow> watch_params" where
  "wp_set_timeout wp timeout_secs = wp\<lparr>wp_timeout := Some timeout_secs\<rparr>"

definition wp_fields :: "watch_params \<Rightarrow> string \<Rightarrow> watch_params" where
  "wp_fields wp field_selector = wp\<lparr>wp_field_selector := Some field_selector\<rparr>"

definition wp_labels :: "watch_params \<Rightarrow> string \<Rightarrow> watch_params" where
  "wp_labels wp label_selector = wp\<lparr>wp_label_selector := Some label_selector\<rparr>"

definition wp_disable_bookmarks :: "watch_params \<Rightarrow> watch_params" where
  "wp_disable_bookmarks wp = wp\<lparr>wp_bookmarks := False\<rparr>"

section \<open>PostParams\<close>

record post_params =
  pp_dry_run :: bool
  pp_field_manager :: "string option"

definition post_params_default :: post_params where
  "post_params_default = \<lparr>pp_dry_run = False, pp_field_manager = None\<rparr>"

definition post_populate_qp :: "('qp \<Rightarrow> string \<Rightarrow> string \<Rightarrow> 'qp) \<Rightarrow> post_params \<Rightarrow> 'qp \<Rightarrow> 'qp" where
  "post_populate_qp ap pp qp =
     append_some ap ''fieldManager'' (pp_field_manager pp) (append_if ap ''dryRun'' ''All'' (pp_dry_run pp) qp)"

definition post_validate :: "post_params \<Rightarrow> request_error + unit" where
  "post_validate pp =
     (case pp_field_manager pp of
        Some field_manager \<Rightarrow>
          if length field_manager > 128
          then Inl (Validation ''Failed to validate PostParams::field_manager!'') else Inr ()
      | None \<Rightarrow> Inr ())"

section \<open>Patch and PatchParams\<close>

datatype validation_directive = Strict | Warn | Ignore

fun validation_as_str :: "validation_directive \<Rightarrow> string" where
  "validation_as_str Strict = ''Strict''"
| "validation_as_str Warn = ''Warn''"
| "validation_as_str Ignore = ''Ignore''"

datatype patch = Apply json | JsonPatch json | Merge json | Strategic json

fun is_apply :: "patch \<Rightarrow> bool" where
  "is_apply (Apply _) = True"
| "is_apply _ = False"

fun content_type :: "patch \<Rightarrow> string" where
  "content_type (Apply _) = ''application/apply-patch+yaml''"
| "content_type (JsonPatch _) = ''application/json-patch+json''"
| "content_type (Merge _) = ''application/merge-patch+json''"
| "content_type (Strategic _) = ''application/strategic-merge-patch+json''"

fun patch_serialize :: "(json \<Rightarrow> string + bytes) \<Rightarrow> patch \<Rightarrow> string + bytes" where
  "patch_serialize to_vec (Apply p) = to_vec p"
| "patch_serialize to_vec (JsonPatch p) = to_vec p"
| "patch_serialize to_vec (Strategic p) = to_vec p"
| "patch_serialize to_vec (Merge p) = to_vec p"

record patch_params =
  pt_dry_run :: bool
  pt_force :: bool
  pt_field_manager :: "string option"
  pt_field_validation :: "validation_directive option"

definition patch_params_default :: patch_params where
  "patch_params_default = \<lparr>pt_dry_run = False, pt_force = False, pt_field_manager = None,
     pt_field_validation = None\<rparr>"

definition patch_validate :: "patch_params \<Rightarrow> patch \<Rightarrow> request_error + unit" where
  "patch_validate pp patch =
     rbind (case pt_field_manager pp of
              Some field_manager \<Rightarrow>
                if length field_manager > 128
                then Inl (Validation ''Failed to validate PatchParams::field_manager!'') else Inr ()
            | None \<Rightarrow> Inr ())
       (\<lambda>_. if pt_force pp \<and> \<not> is_apply patch
            then Inl (Validation ''PatchParams::force only works with Patch::Apply'')
            else Inr ())"

definition patch_populate_qp :: "('qp \<Rightarrow> string \<Rightarrow> string \<Rightarrow> 'qp) \<Rightarrow> patch_params \<Rightarrow> 'qp \<Rightarrow> 'qp" where
  "patch_populate_qp ap pp qp =
     (let qp = append_if ap ''dryRun'' ''All'' (pt_dry_run pp) qp;
          qp = append_if ap ''force'' ''true'' (pt_force pp) qp;
          qp = append_some ap ''fieldManager'' (pt_field_manager pp) qp
      in append_some ap ''fieldValidation'' (map_option validation_as_str (pt_field_validation pp)) qp)"

definition pt_apply :: "string \<Rightarrow> patch_params" where
  "pt_apply manager = patch_params_default\<lparr>pt_field_manager := Some manager\<rparr>"

definition pt_set_force :: "patch_params \<Rightarrow> patch_params" where
  "pt_set_force pp = pp\<lparr>pt_force := True\<rparr>"

definition pt_set_dry_run :: "patch_params \<Rightarrow> patch_params" where
  "pt_set_dry_run pp = pp\<lparr>pt_dry_run := True\<rparr>"

definition pt_validation :: "patch_params \<Rightarrow> validation_directive \<Rightarrow> patch_params" where
  "pt_validation pp vd = pp\<lparr>pt_field_validation := Some vd\<rparr>"

definition pt_validation_ignore :: "patch_params \<Rightarrow> patch_params" where
  "pt_validation_ignore pp = pt_validation pp Ignore"

definition pt_validation_warn :: "patch_params \<Rightarrow> patch_params" where
  "pt_validation_warn pp = pt_validation pp Warn"

definition pt_validation_strict :: "patch_params \<Rightarrow> patch_params" where
  "pt_validation_strict pp = pt_validation pp Strict"

section \<open>DeleteParams\<close>

datatype propagation_policy = Orphan | Background | Foreground

record preconditions =
  pc_resource_version :: "string option"
  pc_uid :: "string option"

record delete_params =
  dp_dry_run :: bool
  dp_grace_period_seconds :: "u32 option"
  dp_propagation_policy :: "propagation_policy option"
  dp_preconditions :: "preconditions option"

definition delete_params_default :: delete_params where
  "delete_params_default = \<lparr>dp_dry_run = False, dp_grace_period_seconds = None,
     dp_propagation_policy = None, dp_preconditions = None\<rparr>"

definition dp_background :: delete_params where
  "dp_background = delete_params_default\<lparr>dp_propagation_policy := Some Background\<rparr>"

definition dp_foreground :: delete_params where
  "dp_foreground = delete_params_default\<lparr>dp_propagation_policy := Some Foreground\<rparr>"

definition dp_orphan :: delete_params where
  "dp_orphan = delete_params_default\<lparr>dp_propagation_policy := Some Orphan\<rparr>"

definition dp_set_dry_run :: "delete_params \<Rightarrow> delete_params" where
  "dp_set_dry_run dp = dp\<lparr>dp_dry_run := True\<rparr>"

definition dp_grace_period :: "delete_params \<Rightarrow> u32 \<Rightarrow> delete_params" where
  "dp_grace_period dp secs = dp\<lparr>dp_grace_period_seconds := Some secs\<rparr>"

definition dp_set_preconditions :: "delete_params \<Rightarrow> preconditions \<Rightarrow> delete_params" where
  "dp_set_preconditions dp pc = dp\<lparr>dp_preconditions := Some pc\<rparr>"

definition dp_is_default :: "delete_params \<Rightarrow> bool" where
  "dp_is_default dp \<longleftrightarrow> \<not> dp_dry_run dp \<and> dp_grace_period_seconds dp = None
     \<and> dp_propagation_policy dp = None \<and> dp_preconditions dp = None"

text \<open>The derived \<open>Serialize\<close> instances: absent options and a false \<open>dry_run\<close> are left out.\<close>

definition jfield :: "string \<Rightarrow> json option \<Rightarrow> (string \<times> json) list" where
  "jfield k v = (case v of None \<Rightarrow> [] | Some x \<Rightarrow> [(k, x)])"

fun dry_run_all_ser :: "bool \<Rightarrow> json" where
  "dry_run_all_ser True = JArr [JStr ''All'']"
| "dry_run_all_ser False = JNull"

fun propagation_json :: "propagation_policy \<Rightarrow> json" where
  "propagation_json Orphan = JStr ''Orphan''"
| "propagation_json Background = JStr ''Background''"
| "propagation_json Foreground = JStr ''Foreground''"

definition preconditions_json :: "preconditions \<Rightarrow> json" where
  "preconditions_json pc = JObj (jfield ''resourceVersion'' (map_option JStr (pc_resource_version pc))
     @ jfield ''uid'' (map_option JStr (pc_uid pc)))"

definition delete_params_json :: "delete_params \<Rightarrow> json" where
  "delete_params_json dp = JObj
     ((if dp_dry_run dp then [(''dryRun'', dry_run_all_ser (dp_dry_run dp))] else [])
      @ jfield ''gracePeriodSeconds'' (map_option (\<lambda>n. JNum (uint n)) (dp_grace_period_seconds dp))
      @ jfield ''propagationPolicy'' (map_option propagation_json (dp_propagation_policy dp))
      @ jfield ''preconditions'' (map_option preconditions_json (dp_preconditions dp)))"

end
