(* ===== verification/Core_Request.thy ===== *)
theory Core_Request
  imports Core_Params
begin

text \<open>
  \<open>kube-core/src/request.rs\<close>, \<open>subresource.rs\<close> and \<open>util.rs\<close>: the builders that turn
  call parameters into HTTP requests. Third-party code is the record \<open>req_env\<close>: the query
  serializer \<open>form_urlencoded::Serializer\<close> (\<open>ser_new\<close>, \<open>append_pair\<close>, \<open>ser_finish\<close>),
  \<open>serde_json::to_vec\<close>, and the check that \<open>http::request::Builder::body\<close> makes of the
  collected parts (\<open>http_check\<close>, the error if there is one).
\<close>

section \<open>Requests\<close>

datatype http_method = GET | POST | PUT | PATCH | DELETE

record http_request =
  req_method :: http_method
  uri :: string
  headers :: "(string \<times> string) list"
  body :: bytes

record 'qp req_env =
  ser_new :: "string \<Rightarrow> 'qp"
  append_pair :: "'qp \<Rightarrow> string \<Rightarrow> string \<Rightarrow> 'qp"
  ser_finish :: "'qp \<Rightarrow> string"
  to_vec :: "json \<Rightarrow> string + bytes"
  http_check :: "http_request \<Rightarrow> string option"

definition JSON_MIME :: string where
  "JSON_MIME = ''application/json''"

definition JSON_METADATA_MIME :: string where
  "JSON_METADATA_MIME = ''application/json;as=PartialObjectMetadata;g=meta.k8s.io;v=v1''"

definition JSON_METADATA_LIST_MIME :: string where
  "JSON_METADATA_LIST_MIME = ''application/json;as=PartialObjectMetadataList;g=meta.k8s.io;v=v1''"

record request =
  url_path :: string

definition request_new :: "string \<Rightarrow> request" where
  "request_new url = \<lparr>url_path = url\<rparr>"

definition build_body :: "'qp req_env \<Rightarrow> http_method \<Rightarrow> string \<Rightarrow> (string \<times> string) list \<Rightarrow> bytes
    \<Rightarrow> request_error + http_request" where
  "build_body E m urlstr hs b =
     (let req = \<lparr>req_method = m, uri = urlstr, headers = hs, body = b\<rparr> in
      case http_check E req of None \<Rightarrow> Inr req | Some e \<Rightarrow> Inl (BuildRequest e))"

section \<open>Builders of request.rs\<close>

definition req_list :: "'qp req_env \<Rightarrow> request \<Rightarrow> list_params \<Rightarrow> request_error + http_request" where
  "req_list E rq lp =
     (let qp = ser_new E (url_path rq @ ''?'') in
      rbind (list_validate lp) (\<lambda>_.
        let urlstr = ser_finish E (list_populate_qp (append_pair E) lp qp) in
        build_body E GET urlstr [] []))"

definition req_watch :: "'qp req_env \<Rightarrow> request \<Rightarrow> watch_params \<Rightarrow> string \<Rightarrow> request_error + http_request" where
  "req_watch E rq wp ver =
     (let qp = ser_new E (url_path rq @ ''?'') in
      rbind (watch_validate wp) (\<lambda>_.
        let qp = watch_populate_qp (append_pair E) wp qp;
            qp = append_pair E qp ''resourceVersion'' ver in
        build_body E GET (ser_finish E qp) [] []))"

definition get_url :: "'qp req_env \<Rightarrow> request \<Rightarrow> string \<Rightarrow> get_params \<Rightarrow> string" where
  "get_url E rq name gp =
     (case gp_resource_version gp of
        Some rv \<Rightarrow> ser_finish E (append_pair E (ser_new E (url_path rq @ ''/'' @ name @ ''?'')) ''resourceVersion'' rv)
      | None \<Rightarrow> ser_finish E (ser_new E (url_path rq @ ''/'' @ name)))"

definition req_get :: "'qp req_env \<Rightarrow> request \<Rightarrow> string \<Rightarrow> get_params \<Rightarrow> request_error + http_request" where
  "req_get E rq name gp = build_body E GET (get_url E rq name gp) [] []"

definition req_create :: "'qp req_env \<Rightarrow> request \<Rightarrow> post_params \<Rightarrow> bytes \<Rightarrow> request_error + http_request" where
  "req_create E rq pp data =
     rbind (post_validate pp) (\<lambda>_.
       let qp = ser_new E (url_path rq @ ''?'') in
       build_body E POST (ser_finish E (post_populate_qp (append_pair E) pp qp))
         [(''content-type'', JSON_MIME)] data)"

definition req_delete :: "'qp req_env \<Rightarrow> request \<Rightarrow> string \<Rightarrow> delete_params \<Rightarrow> request_error + http_request" where
  "req_delete E rq name dp =
     (let urlstr = ser_finish E (ser_new E (url_path rq @ ''/'' @ name @ ''?'')) in
      rbind (map_err SerializeBody (to_vec E (delete_params_json dp))) (\<lambda>b.
        build_body E DELETE urlstr [(''content-type'', JSON_MIME)] b))"

definition req_delete_collection ::
  "'qp req_env \<Rightarrow> request \<Rightarrow> delete_params \<Rightarrow> list_params \<Rightarrow> request_error + http_request" where
  "req_delete_collection E rq dp lp =
     (let qp = ser_new E (url_path rq @ ''?'');
          qp = append_some (append_pair E) ''fieldSelector'' (lp_field_selector lp) qp;
          qp = append_some (append_pair E) ''labelSelector'' (lp_label_selector lp) qp;
          urlstr = ser_finish E qp in
      rbind (if dp_is_default dp then Inr []
             else map_err SerializeBody (to_vec E (delete_params_json dp))) (\<lambda>data.
        build_body E DELETE urlstr [(''content-type'', JSON_MIME)] data))"

definition send_patch :: "'qp req_env \<Rightarrow> string \<Rightarrow> string \<Rightarrow> patch_params \<Rightarrow> patch \<Rightarrow> request_error + http_request" where
  "send_patch E accept target pp patch =
     rbind (patch_validate pp patch) (\<lambda>_.
       let urlstr = ser_finish E (patch_populate_qp (append_pair E) pp (ser_new E target)) in
       rbind (map_err SerializeBody (patch_serialize (to_vec E) patch)) (\<lambda>b.
         build_body E PATCH urlstr [(''accept'', accept), (''content-type'', content_type patch)] b))"

definition req_patch :: "'qp req_env \<Rightarrow> request \<Rightarrow> string \<Rightarrow> patch_params \<Rightarrow> patch \<Rightarrow> request_error + http_request" where
  "req_patch E rq name pp patch =
     send_patch E JSON_MIME (url_path rq @ ''/'' @ name @ ''?'') pp patch"

definition req_replace :: "'qp req_env \<Rightarrow> request \<Rightarrow> string \<Rightarrow> post_params \<Rightarrow> bytes \<Rightarrow> request_error + http_request" where
  "req_replace E rq name pp data =
     (let qp = ser_new E (url_path rq @ ''/'' @ name @ ''?'') in
      build_body E PUT (ser_finish E (post_populate_qp (append_pair E) pp qp))
        [(''content-type'', JSON_MIME)] data)"

definition subresource_path :: "request \<Rightarrow> string \<Rightarrow> string \<Rightarrow> string" where
  "subresource_path rq name sub = url_path rq @ ''/'' @ name @ ''/'' @ sub"

definition req_get_subresource :: "'qp req_env \<Rightarrow> request \<Rightarrow> string \<Rightarrow> string \<Rightarrow> request_error + http_request" where
  "req_get_subresource E rq subresource_name name =
     build_body E GET (ser_finish E (ser_new E (subresource_path rq name subresource_name))) [] []"

definition req_create_subresource ::
  "'qp req_env \<Rightarrow> request \<Rightarrow> string \<Rightarrow> string \<Rightarrow> post_params \<Rightarrow> bytes \<Rightarrow> request_error + http_request" where
  "req_create_subresource E rq subresource_name name pp data =
     (let qp = ser_new E (subresource_path rq name subresource_name @ ''?'') in
      build_body E POST (ser_finish E (post_populate_qp (append_pair E) pp qp))
        [(''content-type'', JSON_MIME)] data)"

definition req_patch_subresource ::
  "'qp req_env \<Rightarrow> request \<Rightarrow> string \<Rightarrow> string \<Rightarrow> patch_params \<Rightarrow> patch \<Rightarrow> request_error + http_request" where
  "req_patch_subresource E rq subresource_name name pp patch =
     send_patch E JSON_MIME (subresource_path rq name subresource_name @ ''?'') pp patch"

definition req_replace_subresource ::
  "'qp req_env \<Rightarrow> request \<Rightarrow> string \<Rightarrow> string \<Rightarrow> post_params \<Rightarrow> bytes \<Rightarrow> request_error + http_request" where
  "req_replace_subresource E rq subresource_name name pp data =
     (let qp = ser_new E (subresource_path rq name subresource_name @ ''?'') in
      build_body E PUT (ser_finish E (post_populate_qp (append_pair E) pp qp))
        [(''content-type'', JSON_MIME)] data)"

definition req_get_metadata :: "'qp req_env \<Rightarrow> request \<Rightarrow> string \<Rightarrow> get_params \<Rightarrow> request_error + http_request" where
  "req_get_metadata E rq name gp =
     build_body E GET (get_url E rq name gp)
       [(''accept'', JSON_METADATA_MIME), (''content-type'', JSON_MIME)] []"

definition req_list_metadata :: "'qp req_env \<Rightarrow> request \<Rightarrow> list_params \<Rightarrow> request_error + http_request" where
  "req_list_metadata E rq lp =
     (let qp = ser_new E (url_path rq @ ''?'') in
      rbind (list_validate lp) (\<lambda>_.
        let urlstr = ser_finish E (list_populate_qp (append_pair E) lp qp) in
        build_body E GET urlstr
          [(''accept'', JSON_METADATA_LIST_MIME), (''content-type'', JSON_MIME)] []))"

definition req_watch_metadata :: "'qp req_env \<Rightarrow> request \<Rightarrow> watch_params \<Rightarrow> string \<Rightarrow> request_error + http_request" where
  "req_watch_metadata E rq wp ver =
     (let qp = ser_new E (url_path rq @ ''?'') in
      rbind (watch_validate wp) (\<lambda>_.
        let qp = watch_populate_qp (append_pair E) wp qp;
            qp = append_pair E qp ''resourceVersion'' ver in
        build_body E GET (ser_finish E qp)
          [(''accept'', JSON_METADATA_MIME), (''content-type'', JSON_MIME)] []))"

definition req_patch_metadata :: "'qp req_env \<Rightarrow> request \<Rightarrow> string \<Rightarrow> patch_params \<Rightarrow> patch \<Rightarrow> request_error + http_request" where
  "req_patch_metadata E rq name pp patch =
     send_patch E JSON_METADATA_MIME (url_path rq @ ''/'' @ name @ ''?'') pp patch"

section \<open>Builders of subresource.rs\<close>

record log_params =
  lg_container :: "string option"
  lg_follow :: bool
  lg_limit_bytes :: "i64 option"
  lg_pretty :: bool
  lg_previous :: bool
  lg_since_seconds :: "i64 option"
  lg_tail_lines :: "i64 option"
  lg_timestamps :: bool

definition req_logs :: "'qp req_env \<Rightarrow> request \<Rightarrow> string \<Rightarrow> log_params \<Rightarrow> request_error + http_request" where
  "req_logs E rq name lp =
     (let ap = append_pair E;
          qp = ser_new E (url_path rq @ ''/'' @ name @ ''/log?'');
          qp = append_some ap ''container'' (lg_container lp) qp;
          qp = append_if ap ''follow'' ''true'' (lg_follow lp) qp;
          qp = append_some ap ''limitBytes'' (map_option show_i64 (lg_limit_bytes lp)) qp;
          qp = append_if ap ''pretty'' ''true'' (lg_pretty lp) qp;
          qp = append_if ap ''previous'' ''true'' (lg_previous lp) qp;
          qp = append_some ap ''sinceSeconds'' (map_option show_i64 (lg_since_seconds lp)) qp;
          qp = append_some ap ''tailLines'' (map_option show_i64 (lg_tail_lines lp)) qp;
          qp = append_if ap ''timestamps'' ''true'' (lg_timestamps lp) qp
      in build_body E GET (ser_finish E qp) [] [])"

record evict_params =
  ev_delete_options :: "delete_params option"
  ev_post_options :: post_params

definition evict_json :: "string \<Rightarrow> evict_params \<Rightarrow> json" where
  "evict_json name ep = JObj
     [(''delete_options'', case ev_delete_options ep of None \<Rightarrow> JNull | Some dp \<Rightarrow> delete_params_json dp),
      (''metadata'', JObj [(''name'', JStr name)])]"

definition req_evict :: "'qp req_env \<Rightarrow> request \<Rightarrow> string \<Rightarrow> evict_params \<Rightarrow> request_error + http_request" where
  "req_evict E rq name ep =
     (let target = url_path rq @ ''/'' @ name @ ''/eviction?''; pp = ev_post_options ep in
      rbind (post_validate pp) (\<lambda>_.
        let urlstr = ser_finish E (post_populate_qp (append_pair E) pp (ser_new E target)) in
        rbind (map_err SerializeBody (to_vec E (evict_json name ep))) (\<lambda>data.
          build_body E POST urlstr [(''content-type'', JSON_MIME)] data)))"

record attach_params =
  at_container :: "string option"
  at_stdin :: bool
  at_stdout :: bool
  at_stderr :: bool
  at_tty :: bool
  at_max_stdin_buf_size :: "nat option"
  at_max_stdout_buf_size :: "nat option"
  at_max_stderr_buf_size :: "nat option"

definition attach_params_default :: attach_params where
  "attach_params_default = \<lparr>at_container = None, at_stdin = False, at_stdout = True, at_stderr = True,
     at_tty = False, at_max_stdin_buf_size = None, at_max_stdout_buf_size = None,
     at_max_stderr_buf_size = None\<rparr>"

definition at_interactive_tty :: attach_params where
  "at_interactive_tty = attach_params_default\<lparr>at_stdin := True, at_stdout := True, at_stderr := False,
     at_tty := True\<rparr>"

definition at_set_container :: "attach_params \<Rightarrow> string \<Rightarrow> attach_params" where
  "at_set_container ap container = ap\<lparr>at_container := Some container\<rparr>"

definition at_set_stdin :: "attach_params \<Rightarrow> bool \<Rightarrow> attach_params" where
  "at_set_stdin ap enable = ap\<lparr>at_stdin := enable\<rparr>"

definition at_set_stdout :: "attach_params \<Rightarrow> bool \<Rightarrow> attach_params" where
  "at_set_stdout ap enable = ap\<lparr>at_stdout := enable\<rparr>"

definition at_set_stderr :: "attach_params \<Rightarrow> bool \<Rightarrow> attach_params" where
  "at_set_stderr ap enable = ap\<lparr>at_stderr := enable\<rparr>"

definition at_set_tty :: "attach_params \<Rightarrow> bool \<Rightarrow> attach_params" where
  "at_set_tty ap enable = ap\<lparr>at_tty := enable\<rparr>"

definition at_set_max_stdin_buf_size :: "attach_params \<Rightarrow> nat \<Rightarrow> attach_params" where
  "at_set_max_stdin_buf_size ap n = ap\<lparr>at_max_stdin_buf_size := Some n\<rparr>"

definition at_set_max_stdout_buf_size :: "attach_params \<Rightarrow> nat \<Rightarrow> attach_params" where
  "at_set_max_stdout_buf_size ap n = ap\<lparr>at_max_stdout_buf_size := Some n\<rparr>"

definition at_set_max_stderr_buf_size :: "attach_params \<Rightarrow> nat \<Rightarrow> attach_params" where
  "at_set_max_stderr_buf_size ap n = ap\<lparr>at_max_stderr_buf_size := Some n\<rparr>"

definition attach_validate :: "attach_params \<Rightarrow> request_error + unit" where
  "attach_validate ap =
     (if \<not> at_stdin ap \<and> \<not> at_stdout ap \<and> \<not> at_stderr ap
      then Inl (Validation ''AttachParams: one of stdin, stdout, or stderr must be true'')
      else if at_stderr ap \<and> at_tty ap
      then Inl (Validation ''AttachParams: tty and stderr cannot both be true'')
      else Inr ())"

definition append_to_url_serializer :: "('qp \<Rightarrow> string \<Rightarrow> string \<Rightarrow> 'qp) \<Rightarrow> attach_params \<Rightarrow> 'qp \<Rightarrow> 'qp" where
  "append_to_url_serializer app ap qp =
     (let qp = append_if app ''stdin'' ''true'' (at_stdin ap) qp;
          qp = append_if app ''stdout'' ''true'' (at_stdout ap) qp;
          qp = append_if app ''stderr'' ''true'' (at_stderr ap) qp;
          qp = append_if app ''tty'' ''true'' (at_tty ap) qp
      in append_some app ''container'' (at_container ap) qp)"

definition req_attach :: "'qp req_env \<Rightarrow> request \<Rightarrow> string \<Rightarrow> attach_params \<Rightarrow> request_error + http_request" where
  "req_attach E rq name ap =
     rbind (attach_validate ap) (\<lambda>_.
       let qp = append_to_url_serializer (append_pair E) ap (ser_new E (url_path rq @ ''/'' @ name @ ''/attach?'')) in
       build_body E GET (ser_finish E qp) [] [])"

definition req_exec :: "'qp req_env \<Rightarrow> request \<Rightarrow> string \<Rightarrow> string list \<Rightarrow> attach_params \<Rightarrow> request_error + http_request" where
  "req_exec E rq name command ap =
     rbind (attach_validate ap) (\<lambda>_.
       let qp = append_to_url_serializer (append_pair E) ap (ser_new E (url_path rq @ ''/'' @ name @ ''/exec?''));
           qp = foldl (\<lambda>q c. append_pair E q ''command'' c) qp command in
       build_body E GET (ser_finish E qp) [] [])"

definition show_u16 :: "u16 \<Rightarrow> string" where
  "show_u16 n = show_nat (unat n)"

fun join :: "string \<Rightarrow> string list \<Rightarrow> string" where
  "join sep [] = []"
| "join sep [x] = x"
| "join sep (x # y # xs) = x @ sep @ join sep (y # xs)"

fun first_repeated :: "u16 set \<Rightarrow> u16 list \<Rightarrow> u16 option" where
  "first_repeated seen [] = None"
| "first_repeated seen (port # ports) =
     (if port \<in> seen then Some port else first_repeated (insert port seen) ports)"

definition req_portforward :: "'qp req_env \<Rightarrow> request \<Rightarrow> string \<Rightarrow> u16 list \<Rightarrow> request_error + http_request" where
  "req_portforward E rq name ports =
     (if ports = [] then Inl (Validation ''ports cannot be empty'')
      else if length ports > 128 then Inl (Validation ''the number of ports cannot be more than 128'')
      else case (if length ports > 1 then first_repeated {} ports else None) of
        Some port \<Rightarrow> Inl (Validation (''ports must be unique, found multiple '' @ show_u16 port))
      | None \<Rightarrow>
          let qp = ser_new E (url_path rq @ ''/'' @ name @ ''/portforward?'');
              qp = append_pair E qp ''ports'' (join '','' (map show_u16 ports)) in
          build_body E GET (ser_finish E qp) [] [])"

section \<open>Builders of util.rs\<close>

text \<open>\<open>rfc3339_now\<close> is \<open>Utc::now().to_rfc3339()\<close>.\<close>

definition req_restart :: "'qp req_env \<Rightarrow> string \<Rightarrow> request \<Rightarrow> string \<Rightarrow> request_error + http_request" where
  "req_restart E rfc3339_now rq name =
     (let patch = JObj [(''spec'', JObj [(''template'', JObj [(''metadata'', JObj [(''annotations'',
            JObj [(''kube.kubernetes.io/restartedAt'', JStr rfc3339_now)])])])])] in
      req_patch E rq name patch_params_default (Merge patch))"

definition set_unschedulable :: "'qp req_env \<Rightarrow> request \<Rightarrow> string \<Rightarrow> bool \<Rightarrow> request_error + http_request" where
  "set_unschedulable E rq node_name v =
     req_patch E rq node_name patch_params_default
       (Strategic (JObj [(''spec'', JObj [(''unschedulable'', JBool v)])]))"

definition req_cordon :: "'qp req_env \<Rightarrow> request \<Rightarrow> string \<Rightarrow> request_error + http_request" where
  "req_cordon E rq name = set_unschedulable E rq name True"

definition req_uncordon :: "'qp req_env \<Rightarrow> request \<Rightarrow> string \<Rightarrow> request_error + http_request" where
  "req_uncordon E rq name = set_unschedulable E rq name False"

section \<open>What a server reads out of a request\<close>

text \<open>
  Path and query of a URI, the query decoded as \<open>application/x-www-form-urlencoded\<close>: pairs
  separated by ampersands, empty pairs skipped, plus signs and percent escapes undone.
\<close>

fun hex_val :: "char \<Rightarrow> nat" where
  "hex_val c = (let n = of_char c in if n \<ge> 97 then n - 87 else if n \<ge> 65 then n - 55 else n - 48)"

fun form_unescape :: "string \<Rightarrow> string" where
  "form_unescape [] = []"
| "form_unescape (c # cs) =
     (if c = CHR ''+'' then CHR '' '' # form_unescape cs
      else if c = CHR ''%'' then
        (case cs of h # l # rest \<Rightarrow> char_of (16 * hex_val h + hex_val l) # form_unescape rest
         | _ \<Rightarrow> c # form_unescape cs)
      else c # form_unescape cs)"

definition form_pair :: "string \<Rightarrow> string \<times> string" where
  "form_pair p = (let (k, v) = split_once (CHR ''='') p in (form_unescape k, form_unescape (unwrap_or v [])))"

definition form_decode :: "string \<Rightarrow> (string \<times> string) list" where
  "form_decode q = map form_pair (filter (\<lambda>p. p \<noteq> []) (split_on (CHR ''&'') q))"

definition uri_path :: "string \<Rightarrow> string" where
  "uri_path u = fst (split_once (CHR ''?'') u)"

definition uri_query :: "string \<Rightarrow> (string \<times> string) list" where
  "uri_query u = form_decode (unwrap_or (snd (split_once (CHR ''?'') u)) [])"

text \<open>The pairs that a builder appends, recorded instead of serialized.\<close>

definition rec_pair :: "(string \<times> string) list \<Rightarrow> string \<Rightarrow> string \<Rightarrow> (string \<times> string) list" where
  "rec_pair kvs k v = kvs @ [(k, v)]"

text \<open>
  What the builders rely on in the serializer: it keeps its target and the pairs in order,
  gives back an untouched target, and writes the pairs so that the query of the URI decodes
  to them.
\<close>

locale form_serializer =
  fixes E :: "'qp req_env"
    and content :: "'qp \<Rightarrow> string \<times> (string \<times> string) list"
  assumes content_new: "content (ser_new E t) = (t, [])"
    and content_append: "content (append_pair E q k v) = (fst (content q), rec_pair (snd (content q)) k v)"
    and finish_untouched: "content q = (t, []) \<Longrightarrow> ser_finish E q = t"
    and finish_query: "\<lbrakk>content q = (p @ ''?'', kvs); CHR ''?'' \<notin> set p\<rbrakk>
          \<Longrightarrow> uri_path (ser_finish E q) = p \<and> uri_query (ser_finish E q) = kvs"
begin

lemma content_append_some:
  "content (append_some (append_pair E) k v q) = (fst (content q), append_some rec_pair k v (snd (content q)))"
  by (cases v) (simp_all add: append_some_def content_append)

lemma content_append_if:
  "content (append_if (append_pair E) k v b q) = (fst (content q), append_if rec_pair k v b (snd (content q)))"
  by (simp add: append_if_def content_append)

lemmas content_simps = content_new content_append content_append_some content_append_if

lemma content_list:
  "content (list_populate_qp (append_pair E) lp q) = (fst (content q), list_populate_qp rec_pair lp (snd (content q)))"
  by (simp add: list_populate_qp_def content_simps Let_def split: option.splits version_match.splits)

lemma content_watch:
  "content (watch_populate_qp (append_pair E) wp q) = (fst (content q), watch_populate_qp rec_pair wp (snd (content q)))"
  by (simp add: watch_populate_qp_def content_simps Let_def)

lemma content_post:
  "content (post_populate_qp (append_pair E) pp q) = (fst (content q), post_populate_qp rec_pair pp (snd (content q)))"
  by (simp add: post_populate_qp_def content_simps Let_def)

lemma content_patch:
  "content (patch_populate_qp (append_pair E) pp q) = (fst (content q), patch_populate_qp rec_pair pp (snd (content q)))"
  by (simp add: patch_populate_qp_def content_simps Let_def)

lemma finish_content:
  assumes "fst (content q) = p @ ''?''" "CHR ''?'' \<notin> set p"
  shows "uri_path (ser_finish E q) = p" "uri_query (ser_finish E q) = snd (content q)"
  using finish_query [of q p "snd (content q)"] assms by (auto simp: prod_eq_iff)

end

text \<open>Reading a parameter back; each builder appends a parameter at most once.\<close>

lemma map_of_rec_pair: "map_of (rec_pair kvs k v) k' = opt_or (map_of kvs k') (if k' = k then Some v else None)"
  by (auto simp: rec_pair_def map_of_append map_add_def opt_or_def split: option.splits)

lemma map_of_append_some:
  "map_of (append_some rec_pair k v kvs) k' = opt_or (map_of kvs k') (if k' = k then v else None)"
  by (cases v) (simp_all add: append_some_def map_of_rec_pair)

lemma map_of_append_if:
  "map_of (append_if rec_pair k v b kvs) k' = opt_or (map_of kvs k') (if k' = k \<and> b then Some v else None)"
  by (simp add: append_if_def map_of_rec_pair)

lemmas map_of_pairs = map_of_rec_pair map_of_append_some map_of_append_if

lemma opt_or_if_None [simp]: "opt_or (if b then x else None) None = (if b then x else None)"
  by simp

definition parse_version_match :: "string \<Rightarrow> version_match option" where
  "parse_version_match s = (if s = ''NotOlderThan'' then Some NotOlderThan
     else if s = ''Exact'' then Some Exact else None)"

definition read_list_params :: "(string \<times> string) list \<Rightarrow> list_params" where
  "read_list_params kvs = \<lparr>lp_label_selector = map_of kvs ''labelSelector'',
     lp_field_selector = map_of kvs ''fieldSelector'', lp_timeout = Option.bind (map_of kvs ''timeoutSeconds'') parse_u32,
     lp_limit = Option.bind (map_of kvs ''limit'') parse_u32, lp_continue_token = map_of kvs ''continue'',
     lp_version_match = Option.bind (map_of kvs ''resourceVersionMatch'') parse_version_match,
     lp_resource_version = map_of kvs ''resourceVersion''\<rparr>"

definition read_watch_params :: "(string \<times> string) list \<Rightarrow> watch_params" where
  "read_watch_params kvs = \<lparr>wp_label_selector = map_of kvs ''labelSelector'',
     wp_field_selector = map_of kvs ''fieldSelector'', wp_timeout = Option.bind (map_of kvs ''timeoutSeconds'') parse_u32,
     wp_bookmarks = (map_of kvs ''allowWatchBookmarks'' = Some ''true'')\<rparr>"

definition parse_directive :: "string \<Rightarrow> validation_directive option" where
  "parse_directive s = (if s = ''Strict'' then Some Strict else if s = ''Warn'' then Some Warn
     else if s = ''Ignore'' then Some Ignore else None)"

definition read_patch_params :: "(string \<times> string) list \<Rightarrow> patch_params" where
  "read_patch_params kvs = \<lparr>pt_dry_run = (map_of kvs ''dryRun'' = Some ''All''),
     pt_force = (map_of kvs ''force'' = Some ''true''), pt_field_manager = map_of kvs ''fieldManager'',
     pt_field_validation = Option.bind (map_of kvs ''fieldValidation'') parse_directive\<rparr>"

lemma bind_parse_show [simp]: "Option.bind (map_option show_u32 x) parse_u32 = x"
  by (cases x) simp_all

lemma read_list_populate: "read_list_params (list_populate_qp rec_pair lp []) = lp\<lparr>lp_timeout := None\<rparr>"
  by (cases "lp_version_match lp"; cases "the (lp_version_match lp)")
     (simp_all add: read_list_params_def list_populate_qp_def Let_def map_of_pairs parse_version_match_def)

lemma read_watch_populate:
  "read_watch_params (rec_pair (watch_populate_qp rec_pair wp []) ''resourceVersion'' ver)
     = wp\<lparr>wp_timeout := Some (unwrap_or (wp_timeout wp) 290)\<rparr>
   \<and> map_of (rec_pair (watch_populate_qp rec_pair wp []) ''resourceVersion'' ver) ''resourceVersion'' = Some ver
   \<and> map_of (rec_pair (watch_populate_qp rec_pair wp []) ''resourceVersion'' ver) ''watch'' = Some ''true''"
  by (simp add: read_watch_params_def watch_populate_qp_def Let_def map_of_pairs)

lemma bind_directive [simp]: "Option.bind (map_option validation_as_str x) parse_directive = x"
  by (cases x; cases "the x") (simp_all add: parse_directive_def)

lemma read_patch_populate: "read_patch_params (patch_populate_qp rec_pair pp []) = pp"
  by (simp add: read_patch_params_def patch_populate_qp_def Let_def map_of_pairs)

section \<open>A serializer that satisfies the contract\<close>

text \<open>
  The byte serializer of the URL standard: letters, digits and \<open>*-._\<close> are kept, a space is
  a plus sign, every other byte is a percent escape.
\<close>

definition unreserved :: "char \<Rightarrow> bool" where
  "unreserved c = (let n = of_char c :: nat in
     48 \<le> n \<and> n \<le> 57 \<or> 65 \<le> n \<and> n \<le> 90 \<or> 97 \<le> n \<and> n \<le> 122 \<or> n \<in> {42, 45, 46, 95})"

definition hex_digit :: "nat \<Rightarrow> char" where
  "hex_digit n = (if n < 10 then char_of (48 + n) else char_of (55 + n))"

definition escape_char :: "char \<Rightarrow> string" where
  "escape_char c = (if unreserved c then [c] else if c = CHR '' '' then ''+''
     else [CHR ''%'', hex_digit (of_char c div 16), hex_digit (of_char c mod 16)])"

definition form_escape :: "string \<Rightarrow> string" where
  "form_escape s = concat (map escape_char s)"

definition form_finish :: "string \<times> (string \<times> string) list \<Rightarrow> string" where
  "form_finish q = fst q @ concat (map (\<lambda>e. CHR ''&'' # e)
     (map (\<lambda>(k, v). form_escape k @ CHR ''='' # form_escape v) (snd q)))"

definition form_env :: "(json \<Rightarrow> string + bytes) \<Rightarrow> (http_request \<Rightarrow> string option)
    \<Rightarrow> (string \<times> (string \<times> string) list) req_env" where
  "form_env vec chk = \<lparr>ser_new = (\<lambda>t. (t, [])), append_pair = (\<lambda>q k v. (fst q, rec_pair (snd q) k v)),
     ser_finish = form_finish, to_vec = vec, http_check = chk\<rparr>"

lemma of_char_less [simp]: "(of_char c :: nat) < 256"
  using nat_of_char_less_256 by simp

lemma of_hex_digit: "n < 16 \<Longrightarrow> (of_char (hex_digit n) :: nat) = (if n < 10 then 48 + n else 55 + n)"
  by (simp add: hex_digit_def)

lemma hex_val_digit: "n < 16 \<Longrightarrow> hex_val (hex_digit n) = n"
  by (simp add: Let_def of_hex_digit)

lemma char_eq_nat: "c = d \<longleftrightarrow> (of_char c :: nat) = of_char d"
  by (metis char_of_char)

lemma unreserved_not_special:
  "unreserved c \<Longrightarrow> c \<notin> {CHR ''+'', CHR ''%'', CHR ''&'', CHR ''='', CHR ''?'', CHR '' ''}"
  by (auto simp: unreserved_def Let_def)

lemma hex_digit_not_special:
  "n < 16 \<Longrightarrow> hex_digit n \<notin> {CHR ''+'', CHR ''%'', CHR ''&'', CHR ''='', CHR ''?''}"
  by (auto simp: char_eq_nat [of "hex_digit n"] of_hex_digit split: if_splits)

lemma div_mod_16 [simp]: "(of_char c :: nat) div 16 < 16" "(of_char c :: nat) mod 16 < 16"
  using of_char_less [of c] by linarith+

lemma unescape_escape_char: "form_unescape (escape_char c @ rest) = c # form_unescape rest"
proof (cases "unreserved c \<or> c = CHR '' ''")
  case True
  then show ?thesis using unreserved_not_special [of c] by (auto simp: escape_char_def)
next
  case False
  then have "form_unescape (escape_char c @ rest) =
      char_of (16 * (of_char c div 16) + of_char c mod 16 :: nat) # form_unescape rest"
    by (simp add: escape_char_def hex_val_digit del: hex_val.simps)
  then show ?thesis by simp
qed

lemma unescape_escape [simp]: "form_unescape (form_escape s) = s"
  by (induction s) (simp_all add: form_escape_def unescape_escape_char del: form_unescape.simps(2))

lemma escape_not_special:
  assumes "x \<in> set (form_escape s)"
  shows "x \<notin> {CHR ''&'', CHR ''='', CHR ''?''}"
proof -
  obtain c where "x \<in> set (escape_char c)" using assms by (auto simp: form_escape_def)
  then show ?thesis
    using unreserved_not_special [of c] hex_digit_not_special [of "of_char c div 16"]
      hex_digit_not_special [of "of_char c mod 16"]
    by (auto simp: escape_char_def split: if_splits)
qed

lemma form_pair_escape: "form_pair (form_escape k @ CHR ''='' # form_escape v) = (k, v)"
proof -
  have "CHR ''='' \<notin> set (form_escape k)" using escape_not_special by blast
  then show ?thesis by (simp add: form_pair_def split_once_append)
qed

lemma form_decode_pairs:
  "form_decode (concat (map (\<lambda>e. CHR ''&'' # e) (map (\<lambda>(k, v). form_escape k @ CHR ''='' # form_escape v) kvs))) = kvs"
proof -
  let ?es = "map (\<lambda>(k, v). form_escape k @ CHR ''='' # form_escape v) kvs"
  have "\<forall>e \<in> set ?es. CHR ''&'' \<notin> set e" using escape_not_special by fastforce
  then have "form_decode (concat (map (\<lambda>e. CHR ''&'' # e) ?es)) = map form_pair (filter (\<lambda>p. p \<noteq> []) ([] # ?es))"
    by (simp only: form_decode_def split_on_concat)
  also have "filter (\<lambda>p. p \<noteq> []) ([] # ?es) = ?es" by (simp, rule filter_True) auto
  also have "map form_pair ?es = kvs" by (simp add: comp_def case_prod_beta form_pair_escape)
  finally show ?thesis .
qed

lemma form_env_serializer: "form_serializer (form_env vec chk) (\<lambda>q. q)"
proof (unfold_locales, goal_cases)
  case (4 q p kvs)
  then have "ser_finish (form_env vec chk) q = p @ CHR ''?'' # concat (map (\<lambda>e. CHR ''&'' # e)
      (map (\<lambda>(k, v). form_escape k @ CHR ''='' # form_escape v) kvs))"
    by (simp add: form_env_def form_finish_def)
  then show ?case
    by (simp only: uri_path_def uri_query_def split_once_append [OF 4(2)] fst_conv snd_conv
        unwrap_or_simps form_decode_pairs simp_thms)
qed (simp_all add: form_env_def form_finish_def)

interpretation form: form_serializer "form_env vec chk" "\<lambda>q. q"
  by (rule form_env_serializer)

lemma build_body_Inr [simp]:
  "build_body E m u hs b = Inr r \<longleftrightarrow> http_check E r = None \<and> r = \<lparr>req_method = m, uri = u, headers = hs, body = b\<rparr>"
  by (auto simp: build_body_def Let_def split: option.splits)

context form_serializer
begin

lemma list_request:
  assumes "CHR ''?'' \<notin> set (url_path rq)" and "req_list E rq lp = Inr r"
  shows "req_method r = GET \<and> uri_path (uri r) = url_path rq
       \<and> read_list_params (uri_query (uri r)) = lp\<lparr>lp_timeout := None\<rparr>"
  using assms(2) finish_content [OF _ assms(1)]
  by (auto simp: req_list_def Let_def rbind_eq_Inr content_list content_new read_list_populate)

lemma watch_request:
  assumes "CHR ''?'' \<notin> set (url_path rq)" and "req_watch E rq wp ver = Inr r"
  shows "req_method r = GET \<and> uri_path (uri r) = url_path rq
       \<and> read_watch_params (uri_query (uri r)) = wp\<lparr>wp_timeout := Some (unwrap_or (wp_timeout wp) 290)\<rparr>
       \<and> map_of (uri_query (uri r)) ''resourceVersion'' = Some ver
       \<and> map_of (uri_query (uri r)) ''watch'' = Some ''true''
       \<and> unwrap_or (wp_timeout wp) 290 < 295"
proof -
  let ?q = "append_pair E (watch_populate_qp (append_pair E) wp (ser_new E (url_path rq @ ''?''))) ''resourceVersion'' ver"
  have r: "req_method r = GET" "uri r = ser_finish E ?q"
    using assms(2) by (auto simp: req_watch_def Let_def rbind_eq_Inr)
  have "content ?q = (url_path rq @ ''?'', rec_pair (watch_populate_qp rec_pair wp []) ''resourceVersion'' ver)"
    by (simp add: content_append content_watch content_new)
  then have "uri_path (uri r) = url_path rq"
    "uri_query (uri r) = rec_pair (watch_populate_qp rec_pair wp []) ''resourceVersion'' ver"
    using finish_content [of ?q "url_path rq"] assms(1) r by simp_all
  moreover have "unwrap_or (wp_timeout wp) 290 < 295"
    using assms(2) by (auto simp: req_watch_def watch_validate_def rbind_eq_Inr split: option.splits if_splits)
  ultimately show ?thesis using r read_watch_populate by simp
qed

lemma send_patch_request:
  assumes "CHR ''?'' \<notin> set p" and "send_patch E accept (p @ ''?'') pp patch = Inr r"
  shows "req_method r = PATCH \<and> uri_path (uri r) = p \<and> read_patch_params (uri_query (uri r)) = pp
       \<and> map_of (headers r) ''content-type'' = Some (content_type patch)
       \<and> patch_serialize (to_vec E) patch = Inr (body r)
       \<and> (pt_force pp \<longrightarrow> is_apply patch)"
  using assms(2) finish_content [OF _ assms(1)]
  by (auto simp: send_patch_def Let_def rbind_eq_Inr content_patch content_new read_patch_populate
      patch_validate_def split: if_splits)

end

section \<open>Properties\<close>

text \<open>
  C19: a list request says what the parameters say, except the timeout. Whenever \<open>list\<close>
  gives a request, it is a GET on the resource's own path, and decoding its query gives back
  the selectors, limit, continue token, resource version and match strategy of the
  parameters; the timeout of \<open>ListParams\<close> is never part of the query.
\<close>

theorem list_roundtrip:
  assumes "form_serializer E content" and "CHR ''?'' \<notin> set (url_path rq)"
    and "req_list E rq lp = Inr r"
  shows "req_method r = GET \<and> uri_path (uri r) = url_path rq
       \<and> read_list_params (uri_query (uri r)) = lp\<lparr>lp_timeout := None\<rparr>"
  by (rule form_serializer.list_request [OF assms])

definition example_env :: "(string \<times> (string \<times> string) list) req_env" where
  "example_env = form_env (\<lambda>j. Inr []) (\<lambda>r. None)"

definition pods :: request where
  "pods = request_new ''/api/v1/pods''"

theorem list_roundtrip_witness:
  "\<exists>r. req_list example_env pods (lp_labels (lp_set_timeout list_params_default 60) ''app=a&b'') = Inr r
     \<and> uri_path (uri r) = ''/api/v1/pods'' \<and> lp_label_selector (read_list_params (uri_query (uri r))) = Some ''app=a&b''"
proof -
  let ?lp = "lp_labels (lp_set_timeout list_params_default 60) ''app=a&b''"
  obtain r where r: "req_list example_env pods ?lp = Inr r"
    by (simp add: req_list_def build_body_def list_validate_def lp_labels_def lp_set_timeout_def
        list_params_default_def example_env_def form_env_def)
  have "CHR ''?'' \<notin> set (url_path pods)" by (simp add: pods_def request_new_def)
  with list_roundtrip [OF form_env_serializer [of "\<lambda>j. Inr []" "\<lambda>r. None", folded example_env_def] _ r] r show ?thesis
    by (simp add: pods_def request_new_def lp_labels_def)
qed

text \<open>
  a watch request says what the parameters say. Whenever \<open>watch\<close> gives a request, it is
  a GET on the resource's own path that asks for a watch from the given version, decoding
  its query gives back the selectors and the bookmark flag, and it always carries a timeout
  below 295 seconds: the one of the parameters, or 290 when there is none.
\<close>

theorem watch_roundtrip:
  assumes "form_serializer E content" and "CHR ''?'' \<notin> set (url_path rq)"
    and "req_watch E rq wp ver = Inr r"
  shows "req_method r = GET \<and> uri_path (uri r) = url_path rq
       \<and> read_watch_params (uri_query (uri r)) = wp\<lparr>wp_timeout := Some (unwrap_or (wp_timeout wp) 290)\<rparr>
       \<and> map_of (uri_query (uri r)) ''resourceVersion'' = Some ver
       \<and> map_of (uri_query (uri r)) ''watch'' = Some ''true''
       \<and> unwrap_or (wp_timeout wp) 290 < 295"
  by (rule form_serializer.watch_request [OF assms])

theorem watch_roundtrip_witness:
  "\<exists>r. req_watch example_env pods (wp_fields watch_params_default ''spec.nodeName=n'') ''17'' = Inr r
     \<and> map_of (uri_query (uri r)) ''resourceVersion'' = Some ''17''
     \<and> wp_timeout (read_watch_params (uri_query (uri r))) = Some 290"
proof -
  let ?wp = "wp_fields watch_params_default ''spec.nodeName=n''"
  obtain r where r: "req_watch example_env pods ?wp ''17'' = Inr r"
    by (simp add: req_watch_def build_body_def watch_validate_def wp_fields_def
        watch_params_default_def example_env_def form_env_def Let_def)
  have "CHR ''?'' \<notin> set (url_path pods)" by (simp add: pods_def request_new_def)
  with watch_roundtrip [OF form_env_serializer [of "\<lambda>j. Inr []" "\<lambda>r. None", folded example_env_def] _ r] r show ?thesis
    by (simp add: wp_fields_def watch_params_default_def)
qed

text \<open>
  a patch request says what the parameters say. Whenever one of the patch builders gives
  a request, it is a PATCH whose decoded query gives back exactly the patch parameters, whose
  content type is the one of the patch strategy and whose body is the serialized patch; and a
  forced patch is always a server-side apply.
\<close>

theorem patch_roundtrip:
  assumes "form_serializer E content" and "CHR ''?'' \<notin> set (url_path rq @ ''/'' @ name)"
    and "req_patch E rq name pp patch = Inr r"
  shows "req_method r = PATCH \<and> uri_path (uri r) = url_path rq @ ''/'' @ name
       \<and> read_patch_params (uri_query (uri r)) = pp
       \<and> map_of (headers r) ''content-type'' = Some (content_type patch)
       \<and> patch_serialize (to_vec E) patch = Inr (body r)
       \<and> (pt_force pp \<longrightarrow> is_apply patch)"
  using form_serializer.send_patch_request [OF assms(1,2), of JSON_MIME pp patch r] assms(3)
  by (simp add: req_patch_def)

theorem patch_roundtrip_witness:
  "\<exists>r. req_patch example_env pods ''blog'' (pt_validation_warn (pt_set_force (pt_apply ''ctrl''))) (Apply JNull) = Inr r
     \<and> read_patch_params (uri_query (uri r)) = pt_validation_warn (pt_set_force (pt_apply ''ctrl''))"
proof -
  let ?pp = "pt_validation_warn (pt_set_force (pt_apply ''ctrl''))"
  obtain r where r: "req_patch example_env pods ''blog'' ?pp (Apply JNull) = Inr r"
    by (simp add: req_patch_def send_patch_def build_body_def patch_validate_def pt_apply_def pt_set_force_def
        pt_validation_warn_def pt_validation_def patch_params_default_def example_env_def form_env_def)
  have "CHR ''?'' \<notin> set (url_path pods @ ''/'' @ ''blog'')" by (simp add: pods_def request_new_def)
  with patch_roundtrip [OF form_env_serializer [of "\<lambda>j. Inr []" "\<lambda>r. None", folded example_env_def] _ r] r
  show ?thesis by blast
qed

text \<open>
  client-side validation of the request builders. With parts that the HTTP library
  accepts, a list is refused exactly when a match strategy is given without a version or an
  exact match is asked for version 0; a watch exactly when its timeout is at least 295
  seconds; a create exactly when its field manager has more than 128 bytes. \<open>replace\<close>
  never refuses its parameters, although it takes the same \<open>PostParams\<close> as \<open>create\<close>.
\<close>

theorem validation_errors:
  assumes "\<forall>req. http_check E req = None"
  shows "((\<exists>e. req_list E rq lp = Inl e) \<longleftrightarrow>
            lp_version_match lp \<noteq> None \<and> lp_resource_version lp = None
            \<or> lp_version_match lp = Some Exact \<and> lp_resource_version lp = Some ''0'')
       \<and> ((\<exists>e. req_watch E rq wp ver = Inl e) \<longleftrightarrow> (\<exists>t. wp_timeout wp = Some t \<and> 295 \<le> t))
       \<and> ((\<exists>e. req_create E rq pp data = Inl e) \<longleftrightarrow> (\<exists>fm. pp_field_manager pp = Some fm \<and> 128 < length fm))
       \<and> (\<exists>r. req_replace E rq name pp data = Inr r)"
  using assms
  by (auto simp: req_list_def req_watch_def req_create_def req_replace_def build_body_def list_validate_def
      watch_validate_def post_validate_def Let_def rbind_eq_Inl split: option.splits)

theorem validation_errors_witness:
  "(\<exists>e. req_list example_env pods (lp_matching list_params_default Exact) = Inl e)
   \<and> (\<exists>r. req_replace example_env pods ''a'' \<lparr>pp_dry_run = False, pp_field_manager = Some (replicate 200 CHR ''x'')\<rparr> [] = Inr r)"
  using validation_errors [of example_env pods "lp_matching list_params_default Exact" watch_params_default "[]"
      "\<lparr>pp_dry_run = False, pp_field_manager = Some (replicate 200 CHR ''x'')\<rparr>" "[]" "''a''"]
  by (simp add: example_env_def form_env_def lp_matching_def list_params_default_def)

lemma first_repeated_None: "first_repeated seen ports = None \<longleftrightarrow> distinct ports \<and> set ports \<inter> seen = {}"
  by (induction seen ports rule: first_repeated.induct) auto

lemma distinct_single: "length ports \<le> 1 \<Longrightarrow> distinct ports"
  by (cases ports) auto

text \<open>
  a port forward is accepted exactly for one to 128 pairwise different ports, and a
  refusal for a repeated port names a port that occurs twice.
\<close>

theorem portforward_ports:
  assumes "\<forall>req. http_check E req = None"
  shows "(\<exists>r. req_portforward E rq name ports = Inr r) \<longleftrightarrow> 0 < length ports \<and> length ports \<le> 128 \<and> distinct ports"
proof -
  have "(if length ports > 1 then first_repeated {} ports else None) = None \<longleftrightarrow> distinct ports"
    using distinct_single [of ports] by (auto simp: first_repeated_None)
  then show ?thesis
    using assms by (auto simp: req_portforward_def build_body_def Let_def split: option.split)
qed

theorem portforward_ports_witness:
  "(\<exists>r. req_portforward example_env pods ''p'' [80, 443] = Inr r)
   \<and> (\<nexists>r. req_portforward example_env pods ''p'' [80, 443, 80] = Inr r)"
  using portforward_ports [of example_env pods "''p''" "[80, 443]"]
    portforward_ports [of example_env pods "''p''" "[80, 443, 80]"]
  by (simp add: example_env_def form_env_def)

end
