(* ===== verification/Core_Resource.thy ===== *)
theory Core_Resource
  imports Prelude
begin

text \<open>
  \<open>kube-core/src/gvk.rs\<close>, \<open>discovery.rs\<close>, \<open>resource.rs\<close>, \<open>metadata.rs\<close>, \<open>object.rs\<close>,
  \<open>dynamic.rs\<close>, \<open>watch.rs\<close> and \<open>error.rs\<close>: group, version and kind of a resource, its URL
  path, its metadata accessors, the generic object wrappers and the events of the watch API.
  The trait \<open>Resource\<close> is the record of its type-level functions (\<open>'dt resource_class\<close>);
  \<open>object_meta\<close> has the fields of k8s_openapi's \<open>ObjectMeta\<close> that the sources use.
\<close>

section \<open>Group, version, kind\<close>

record type_meta =
  tm_api_version :: string
  tm_kind :: string

record group_version_kind =
  gvk_group :: string
  gvk_version :: string
  gvk_kind :: string

record group_version =
  gv_group :: string
  gv_version :: string

record group_version_resource =
  gvr_group :: string
  gvr_version :: string
  gvr_resource :: string
  gvr_api_version :: string

datatype parse_group_version_error = ParseGroupVersionError string

definition gvk_new :: "string \<Rightarrow> string \<Rightarrow> string \<Rightarrow> group_version_kind" where
  "gvk_new g v k = \<lparr>gvk_group = g, gvk_version = v, gvk_kind = k\<rparr>"

definition gv_new :: "string \<Rightarrow> string \<Rightarrow> group_version" where
  "gv_new g v = \<lparr>gv_group = g, gv_version = v\<rparr>"

definition with_kind :: "group_version \<Rightarrow> string \<Rightarrow> group_version_kind" where
  "with_kind gv k = \<lparr>gvk_group = gv_group gv, gvk_version = gv_version gv, gvk_kind = k\<rparr>"

definition splitn2 :: "char \<Rightarrow> string \<Rightarrow> string list" where
  "splitn2 c s = (case split_once c s of (a, None) \<Rightarrow> [a] | (a, Some b) \<Rightarrow> [a, b])"

definition gv_from_str :: "string \<Rightarrow> parse_group_version_error + group_version" where
  "gv_from_str gv =
     (case splitn2 (CHR ''/'') gv of
        [g, v] \<Rightarrow> Inr (gv_new g v)
      | [v] \<Rightarrow> Inr (gv_new [] v)
      | _ \<Rightarrow> Inl (ParseGroupVersionError gv))"

definition gvk_try_from :: "type_meta \<Rightarrow> parse_group_version_error + group_version_kind" where
  "gvk_try_from tm = rbind (gv_from_str (tm_api_version tm)) (\<lambda>gv. Inr (with_kind gv (tm_kind tm)))"

definition gv_api_version :: "group_version \<Rightarrow> string" where
  "gv_api_version gv = (if gv_group gv = [] then gv_version gv else gv_group gv @ ''/'' @ gv_version gv)"

definition gvk_api_version :: "group_version_kind \<Rightarrow> string" where
  "gvk_api_version gvk =
     (if gvk_group gvk = [] then gvk_version gvk else gvk_group gvk @ ''/'' @ gvk_version gvk)"

definition gvr_new :: "string \<Rightarrow> string \<Rightarrow> string \<Rightarrow> group_version_resource" where
  "gvr_new g v r = \<lparr>gvr_group = g, gvr_version = v, gvr_resource = r,
     gvr_api_version = (if g = [] then v else g @ ''/'' @ v)\<rparr>"

section \<open>API resources\<close>

record api_resource =
  ar_group :: string
  ar_version :: string
  ar_api_version :: string
  ar_kind :: string
  ar_plural :: string

text \<open>The characters of a UTF-8 string: a leading byte with its continuation bytes.\<close>

definition continuation :: "char \<Rightarrow> bool" where
  "continuation c = (let n = of_char c :: nat in 128 \<le> n \<and> n < 192)"

fun chars :: "string \<Rightarrow> string list" where
  "chars [] = []"
| "chars [c] = [[c]]"
| "chars (c # d # ds) =
     (if continuation d then (case chars (d # ds) of [] \<Rightarrow> [[c]] | x # xs \<Rightarrow> (c # x) # xs)
      else [c] # chars (d # ds))"

definition to_ascii_lowercase :: "string \<Rightarrow> string" where
  "to_ascii_lowercase s = map (\<lambda>c. let n = of_char c :: nat in
     if 65 \<le> n \<and> n \<le> 90 then char_of (n + 32) else c) s"

text \<open>
  \<open>to_plural\<close> subtracts 2 from the length of a word that ends in \<open>y\<close>; the result is
  \<open>None\<close> when that subtraction overflows, which panics in a checked build.
\<close>

definition to_plural :: "string \<Rightarrow> string option" where
  "to_plural word =
     (if word = ''endpoints'' \<or> word = ''endpointslices'' then Some word
      else if word = ''nodemetrics'' then Some ''nodes''
      else if word = ''podmetrics'' then Some ''pods''
      else if ends_with word ''s'' \<or> ends_with word ''x'' \<or> ends_with word ''z''
              \<or> ends_with word ''ch'' \<or> ends_with word ''sh''
      then Some (word @ ''es'')
      else if ends_with word ''y'' then
        (if length word < 2 then None
         else let cs = chars word; i = length word - 2 in
              if i < length cs \<and> cs ! i \<notin> {''a'', ''e'', ''i'', ''o'', ''u''}
              then Some (butlast word @ ''ies'')
              else Some (word @ ''s''))
      else Some (word @ ''s''))"

definition from_gvk_with_plural :: "group_version_kind \<Rightarrow> string \<Rightarrow> api_resource" where
  "from_gvk_with_plural gvk plural = \<lparr>ar_group = gvk_group gvk, ar_version = gvk_version gvk,
     ar_api_version = gvk_api_version gvk, ar_kind = gvk_kind gvk, ar_plural = plural\<rparr>"

definition from_gvk :: "group_version_kind \<Rightarrow> api_resource option" where
  "from_gvk gvk = map_option (from_gvk_with_plural gvk) (to_plural (to_ascii_lowercase (gvk_kind gvk)))"

datatype scope = Cluster | Namespaced

datatype api_capabilities = ApiCapabilities
  (cap_scope: scope)
  (cap_subresources: "(api_resource \<times> api_capabilities) list")
  (cap_operations: "string list")

definition supports_operation :: "api_capabilities \<Rightarrow> string \<Rightarrow> bool" where
  "supports_operation caps operation = list_ex (\<lambda>op. op = operation) (cap_operations caps)"

section \<open>Resource\<close>

record 'dt resource_class =
  kind_of :: "'dt \<Rightarrow> string"
  group_of :: "'dt \<Rightarrow> string"
  version_of :: "'dt \<Rightarrow> string"
  api_version_of :: "'dt \<Rightarrow> string"
  plural_of :: "'dt \<Rightarrow> string"

definition default_api_version :: "'dt resource_class \<Rightarrow> 'dt \<Rightarrow> string" where
  "default_api_version K dt =
     (if group_of K dt = [] then version_of K dt else group_of K dt @ ''/'' @ version_of K dt)"

definition resource_url_path :: "'dt resource_class \<Rightarrow> 'dt \<Rightarrow> string option \<Rightarrow> string" where
  "resource_url_path K dt ns =
     (let n = (case ns of Some s \<Rightarrow> ''namespaces/'' @ s @ ''/'' | None \<Rightarrow> [])
      in ''/'' @ (if group_of K dt = [] then ''api'' else ''apis'') @ ''/'' @ api_version_of K dt @ ''/''
         @ n @ plural_of K dt)"

definition erase :: "'dt resource_class \<Rightarrow> 'dt \<Rightarrow> api_resource" where
  "erase K dt = \<lparr>ar_group = group_of K dt, ar_version = version_of K dt,
     ar_api_version = api_version_of K dt, ar_kind = kind_of K dt, ar_plural = plural_of K dt\<rparr>"

record owner_reference =
  or_api_version :: string
  or_kind :: string
  or_name :: string
  or_uid :: string
  or_controller :: "bool option"
  or_block_owner_deletion :: "bool option"

record object_reference =
  oref_api_version :: "string option"
  oref_field_path :: "string option"
  oref_kind :: "string option"
  oref_name :: "string option"
  oref_namespace :: "string option"
  oref_resource_version :: "string option"
  oref_uid :: "string option"

type_synonym str_map = "string \<rightharpoonup> string"

record object_meta =
  m_name :: "string option"
  m_generate_name :: "string option"
  m_namespace :: "string option"
  m_uid :: "string option"
  m_resource_version :: "string option"
  m_creation_timestamp :: "string option"
  m_deletion_timestamp :: "string option"
  m_generation :: "int option"
  m_labels :: "str_map option"
  m_annotations :: "str_map option"
  m_owner_references :: "owner_reference list option"
  m_finalizers :: "string list option"
  m_managed_fields :: "json list option"

definition object_meta_default :: object_meta where
  "object_meta_default = \<lparr>m_name = None, m_generate_name = None, m_namespace = None, m_uid = None,
     m_resource_version = None, m_creation_timestamp = None, m_deletion_timestamp = None,
     m_generation = None, m_labels = None, m_annotations = None, m_owner_references = None,
     m_finalizers = None, m_managed_fields = None\<rparr>"

definition object_ref :: "'dt resource_class \<Rightarrow> 'dt \<Rightarrow> object_meta \<Rightarrow> object_reference" where
  "object_ref K dt meta = \<lparr>oref_api_version = Some (api_version_of K dt), oref_field_path = None,
     oref_kind = Some (kind_of K dt), oref_name = m_name meta, oref_namespace = m_namespace meta,
     oref_resource_version = None, oref_uid = m_uid meta\<rparr>"

definition controller_owner_ref :: "'dt resource_class \<Rightarrow> 'dt \<Rightarrow> object_meta \<Rightarrow> owner_reference option" where
  "controller_owner_ref K dt meta =
     (case m_name meta of
        None \<Rightarrow> None
      | Some n \<Rightarrow>
          (case m_uid meta of
             None \<Rightarrow> None
           | Some u \<Rightarrow> Some \<lparr>or_api_version = api_version_of K dt, or_kind = kind_of K dt, or_name = n,
                              or_uid = u, or_controller = Some True, or_block_owner_deletion = None\<rparr>))"

section \<open>ResourceExt\<close>

text \<open>\<open>name_unchecked\<close> panics (\<open>None\<close>) when the name is not set.\<close>

definition name_unchecked :: "object_meta \<Rightarrow> string option" where
  "name_unchecked meta = m_name meta"

definition name_any :: "object_meta \<Rightarrow> string" where
  "name_any meta = unwrap_or (opt_or (m_name meta) (m_generate_name meta)) []"

definition labels :: "object_meta \<Rightarrow> str_map" where
  "labels meta = unwrap_or (m_labels meta) Map.empty"

definition labels_mut :: "(str_map \<Rightarrow> str_map) \<Rightarrow> object_meta \<Rightarrow> object_meta" where
  "labels_mut f meta = meta\<lparr>m_labels := Some (f (unwrap_or (m_labels meta) Map.empty))\<rparr>"

definition annotations :: "object_meta \<Rightarrow> str_map" where
  "annotations meta = unwrap_or (m_annotations meta) Map.empty"

definition annotations_mut :: "(str_map \<Rightarrow> str_map) \<Rightarrow> object_meta \<Rightarrow> object_meta" where
  "annotations_mut f meta = meta\<lparr>m_annotations := Some (f (unwrap_or (m_annotations meta) Map.empty))\<rparr>"

definition owner_references :: "object_meta \<Rightarrow> owner_reference list" where
  "owner_references meta = unwrap_or (m_owner_references meta) []"

definition owner_references_mut ::
  "(owner_reference list \<Rightarrow> owner_reference list) \<Rightarrow> object_meta \<Rightarrow> object_meta" where
  "owner_references_mut f meta =
     meta\<lparr>m_owner_references := Some (f (unwrap_or (m_owner_references meta) []))\<rparr>"

definition finalizers :: "object_meta \<Rightarrow> string list" where
  "finalizers meta = unwrap_or (m_finalizers meta) []"

definition finalizers_mut :: "(string list \<Rightarrow> string list) \<Rightarrow> object_meta \<Rightarrow> object_meta" where
  "finalizers_mut f meta = meta\<lparr>m_finalizers := Some (f (unwrap_or (m_finalizers meta) []))\<rparr>"

definition managed_fields :: "object_meta \<Rightarrow> json list" where
  "managed_fields meta = unwrap_or (m_managed_fields meta) []"

definition managed_fields_mut :: "(json list \<Rightarrow> json list) \<Rightarrow> object_meta \<Rightarrow> object_meta" where
  "managed_fields_mut f meta =
     meta\<lparr>m_managed_fields := Some (f (unwrap_or (m_managed_fields meta) []))\<rparr>"

section \<open>Object wrappers\<close>

record partial_object_meta =
  pom_types :: "type_meta option"
  pom_metadata :: object_meta

definition into_request_partial :: "'dt resource_class \<Rightarrow> 'dt \<Rightarrow> object_meta \<Rightarrow> partial_object_meta" where
  "into_request_partial K dt meta =
     \<lparr>pom_types = Some \<lparr>tm_api_version = api_version_of K dt, tm_kind = kind_of K dt\<rparr>, pom_metadata = meta\<rparr>"

definition into_response_partial :: "object_meta \<Rightarrow> partial_object_meta" where
  "into_response_partial meta =
     \<lparr>pom_types = Some \<lparr>tm_api_version = ''meta.k8s.io/v1'', tm_kind = ''PartialObjectMetadata''\<rparr>,
      pom_metadata = meta\<rparr>"

text \<open>\<open>PartialObjectMeta\<close> inherits everything but \<open>api_version\<close>, which stays the default.\<close>

definition partial_class :: "'dt resource_class \<Rightarrow> 'dt resource_class" where
  "partial_class K = K\<lparr>api_version_of := default_api_version K\<rparr>"

definition dynamic_class :: "api_resource resource_class" where
  "dynamic_class = \<lparr>kind_of = ar_kind, group_of = ar_group, version_of = ar_version,
     api_version_of = ar_api_version, plural_of = ar_plural\<rparr>"

record dynamic_object =
  do_types :: "type_meta option"
  do_metadata :: object_meta
  do_data :: json

definition dynamic_new :: "string \<Rightarrow> api_resource \<Rightarrow> dynamic_object" where
  "dynamic_new n ar = \<lparr>do_types = Some \<lparr>tm_api_version = ar_api_version ar, tm_kind = ar_kind ar\<rparr>,
     do_metadata = object_meta_default\<lparr>m_name := Some n\<rparr>, do_data = JNull\<rparr>"

definition dynamic_data :: "dynamic_object \<Rightarrow> json \<Rightarrow> dynamic_object" where
  "dynamic_data obj d = obj\<lparr>do_data := d\<rparr>"

definition dynamic_within :: "dynamic_object \<Rightarrow> string \<Rightarrow> dynamic_object" where
  "dynamic_within obj ns = obj\<lparr>do_metadata := (do_metadata obj)\<lparr>m_namespace := Some ns\<rparr>\<rparr>"

record ('p, 'u) kobject =
  ob_types :: "type_meta option"
  ob_metadata :: object_meta
  ob_spec :: 'p
  ob_status :: "'u option"

definition object_new :: "string \<Rightarrow> api_resource \<Rightarrow> 'p \<Rightarrow> ('p, 'u) kobject" where
  "object_new n ar spec = \<lparr>ob_types = Some \<lparr>tm_api_version = ar_api_version ar, tm_kind = ar_kind ar\<rparr>,
     ob_metadata = object_meta_default\<lparr>m_name := Some n\<rparr>, ob_spec = spec, ob_status = None\<rparr>"

definition object_within :: "('p, 'u) kobject \<Rightarrow> string \<Rightarrow> ('p, 'u) kobject" where
  "object_within obj ns = obj\<lparr>ob_metadata := (ob_metadata obj)\<lparr>m_namespace := Some ns\<rparr>\<rparr>"

record list_meta =
  lm_continue :: "string option"
  lm_remaining_item_count :: "int option"
  lm_resource_version :: "string option"

record 'k object_list =
  ol_metadata :: list_meta
  ol_items :: "'k list"

section \<open>Watch events and API errors\<close>

record error_response =
  er_status :: string
  er_message :: string
  er_reason :: string
  er_code :: u16

record bookmark =
  bm_types :: type_meta
  bm_resource_version :: string

datatype 'k watch_event =
    WAdded 'k
  | WModified 'k
  | WDeleted 'k
  | WBookmark bookmark
  | WError error_response

section \<open>Lemmas\<close>

lemma gv_from_str_notin: "CHR ''/'' \<notin> set v \<Longrightarrow> gv_from_str v = Inr (gv_new [] v)"
  by (simp add: gv_from_str_def splitn2_def split_once_notin)

lemma gv_from_str_append: "CHR ''/'' \<notin> set g \<Longrightarrow> gv_from_str (g @ CHR ''/'' # v) = Inr (gv_new g v)"
  by (simp add: gv_from_str_def splitn2_def split_once_append)

lemma gv_from_str_total: "\<exists>gv. gv_from_str s = Inr gv \<and> CHR ''/'' \<notin> set (gv_group gv)"
proof (cases "split_once (CHR ''/'') s")
  case (Pair a b)
  then show ?thesis
    by (cases b) (auto simp: gv_from_str_def splitn2_def gv_new_def dest: split_once_Some)
qed

definition consistent :: "api_resource \<Rightarrow> bool" where
  "consistent ar \<longleftrightarrow> ar_api_version ar = (if ar_group ar = [] then ar_version ar else ar_group ar @ ''/'' @ ar_version ar)"

lemma gv_parse_written:
  "gv_from_str (gv_api_version gv) = Inr gv \<longleftrightarrow>
     CHR ''/'' \<notin> set (gv_group gv) \<and> (gv_group gv = [] \<longrightarrow> CHR ''/'' \<notin> set (gv_version gv))"
proof -
  obtain g v where gv: "gv = \<lparr>gv_group = g, gv_version = v\<rparr>" by (cases gv) auto
  consider "CHR ''/'' \<in> set g" | "g = []" "CHR ''/'' \<in> set v" | "g = []" "CHR ''/'' \<notin> set v" | "g \<noteq> []" "CHR ''/'' \<notin> set g"
    by blast
  then show ?thesis
  proof cases
    case 1
    then show ?thesis using gv_from_str_total [of "gv_api_version gv"] gv by auto
  next
    case 2
    then obtain a b where ab: "v = a @ CHR ''/'' # b" "CHR ''/'' \<notin> set a" by (meson split_list_first)
    then have "gv_from_str v = Inr (gv_new a b)" "b \<noteq> v" by (auto simp: gv_from_str_append)
    then show ?thesis using gv 2 by (auto simp: gv_api_version_def gv_new_def)
  qed (auto simp: gv gv_api_version_def gv_from_str_notin gv_from_str_append gv_new_def)
qed

lemma gv_write_parsed: "\<exists>gv. gv_from_str s = Inr gv \<and> (gv_api_version gv = s \<longleftrightarrow> \<not> prefix ''/'' s)"
proof (cases "CHR ''/'' \<in> set s")
  case True
  then obtain a b where ab: "s = a @ CHR ''/'' # b" "CHR ''/'' \<notin> set a" by (meson split_list_first)
  then have "gv_from_str s = Inr (gv_new a b)" by (simp add: gv_from_str_append)
  then show ?thesis using ab by (cases a) (auto simp: gv_api_version_def gv_new_def)
next
  case False
  then show ?thesis by (cases s) (auto simp: gv_from_str_notin gv_api_version_def gv_new_def)
qed

lemma chars_ascii: "list_all (\<lambda>c. \<not> continuation c) w \<Longrightarrow> chars w = map (\<lambda>c. [c]) w"
  by (induction w rule: chars.induct) simp_all

section \<open>Properties\<close>

text \<open>
  \<open>apiVersion\<close> strings round trip. Parsing never fails; parsing the string of a group and
  version gives them back exactly when the group has no slash and a version without group has
  none; writing what was parsed gives the string back exactly unless it starts with a slash,
  since a leading slash is an empty group.
\<close>

theorem gv_roundtrip:
  "(gv_from_str (gv_api_version gv) = Inr gv \<longleftrightarrow>
      CHR ''/'' \<notin> set (gv_group gv) \<and> (gv_group gv = [] \<longrightarrow> CHR ''/'' \<notin> set (gv_version gv)))
   \<and> (\<exists>gv. gv_from_str s = Inr gv \<and> (gv_api_version gv = s \<longleftrightarrow> \<not> prefix ''/'' s))"
  using gv_parse_written gv_write_parsed by blast

theorem gv_roundtrip_witness:
  "gv_from_str (gv_api_version (gv_new ''apps'' ''v1'')) = Inr (gv_new ''apps'' ''v1'')"
  using gv_roundtrip [of "gv_new ''apps'' ''v1''" "[]"] by (simp add: gv_new_def)

text \<open>
  type erasure keeps a resource's identity. Erasing a resource to an \<open>ApiResource\<close> and
  using that dynamically gives the same URL paths and object references, erasing again
  changes nothing, and the metadata-only view of a resource, which recomputes its
  \<open>apiVersion\<close>, has the same paths exactly when the \<open>apiVersion\<close> is the one of its group
  and version.
\<close>

theorem erase_faithful:
  "resource_url_path dynamic_class (erase K dt) ns = resource_url_path K dt ns
   \<and> object_ref dynamic_class (erase K dt) meta = object_ref K dt meta
   \<and> controller_owner_ref dynamic_class (erase K dt) meta = controller_owner_ref K dt meta
   \<and> erase dynamic_class (erase K dt) = erase K dt
   \<and> (resource_url_path (partial_class K) dt ns = resource_url_path K dt ns \<longleftrightarrow> consistent (erase K dt))"
  by (auto simp: resource_url_path_def erase_def dynamic_class_def object_ref_def controller_owner_ref_def
      partial_class_def default_api_version_def consistent_def Let_def split: option.splits)

text \<open>The segments of a URL path; a path is determined by them when no segment has a slash.\<close>

definition segments :: "api_resource \<Rightarrow> string option \<Rightarrow> string list" where
  "segments ar ns = (if ar_group ar = [] then [''api'', ar_version ar] else [''apis'', ar_group ar, ar_version ar])
     @ (case ns of Some s \<Rightarrow> [''namespaces'', s] | None \<Rightarrow> []) @ [ar_plural ar]"

definition path_safe :: "api_resource \<Rightarrow> string option \<Rightarrow> bool" where
  "path_safe ar ns \<longleftrightarrow> consistent ar \<and> (\<forall>s \<in> {ar_group ar, ar_version ar, ar_plural ar} \<union> set_option ns. CHR ''/'' \<notin> set s)"

lemma url_path_segments:
  "consistent ar \<Longrightarrow> resource_url_path dynamic_class ar ns = concat (map (\<lambda>e. CHR ''/'' # e) (segments ar ns))"
  by (auto simp: resource_url_path_def dynamic_class_def segments_def consistent_def Let_def split: option.splits)

lemma split_url_path:
  assumes "path_safe ar ns"
  shows "split_on (CHR ''/'') (resource_url_path dynamic_class ar ns) = [] # segments ar ns"
proof -
  have "\<forall>e \<in> set (segments ar ns). CHR ''/'' \<notin> set e"
    using assms by (auto simp: path_safe_def segments_def split: option.splits if_splits)
  then show ?thesis using assms split_on_concat by (simp add: url_path_segments path_safe_def)
qed

text \<open>
  C35: URL paths do not collide. Two resources whose group, version and plural (and namespace)
  have no slash and whose \<open>apiVersion\<close> is the one of their group and version have the same
  URL path only if they agree in group, version, plural and namespace.
\<close>

theorem url_path_injective:
  assumes "path_safe ar ns" and "path_safe ar' ns'"
    and "resource_url_path dynamic_class ar ns = resource_url_path dynamic_class ar' ns'"
  shows "ar_group ar = ar_group ar' \<and> ar_version ar = ar_version ar' \<and> ar_plural ar = ar_plural ar' \<and> ns = ns'"
proof -
  have "segments ar ns = segments ar' ns'"
    using split_url_path [OF assms(1)] split_url_path [OF assms(2)] assms(3) by simp
  then show ?thesis by (auto simp: segments_def split: option.splits if_splits)
qed

definition pod_resource :: api_resource where
  "pod_resource = from_gvk_with_plural (gvk_new [] ''v1'' ''Pod'') ''pods''"

theorem url_path_injective_witness:
  "path_safe pod_resource (Some ''ns'')
   \<and> resource_url_path dynamic_class pod_resource (Some ''ns'') = ''/api/v1/namespaces/ns/pods''
   \<and> ar_plural pod_resource = ar_plural (pod_resource\<lparr>ar_kind := ''Other''\<rparr>)"
proof -
  have safe: "path_safe pod_resource (Some ''ns'')" "path_safe (pod_resource\<lparr>ar_kind := ''Other''\<rparr>) (Some ''ns'')"
    by (auto simp: path_safe_def consistent_def pod_resource_def from_gvk_with_plural_def gvk_new_def gvk_api_version_def)
  have same: "resource_url_path dynamic_class pod_resource (Some ''ns'')
      = resource_url_path dynamic_class (pod_resource\<lparr>ar_kind := ''Other''\<rparr>) (Some ''ns'')"
    by (simp add: resource_url_path_def dynamic_class_def)
  have "resource_url_path dynamic_class pod_resource (Some ''ns'') = ''/api/v1/namespaces/ns/pods''"
    by (simp add: resource_url_path_def dynamic_class_def pod_resource_def from_gvk_with_plural_def gvk_new_def gvk_api_version_def)
  with url_path_injective [OF safe same] safe show ?thesis by blast
qed

lemma to_plural_None: "to_plural w = None \<longleftrightarrow> w = ''y''"
proof
  assume n: "to_plural w = None"
  have "ends_with w ''y'' \<and> length w < 2"
    using n unfolding to_plural_def by (simp add: Let_def split: if_splits)
  then show "w = ''y''" by (auto simp: ends_with_def suffix_def)
next
  assume "w = ''y''"
  then show "to_plural w = None" by (simp add: to_plural_def ends_with_def suffix_def Cons_eq_append_conv)
qed

text \<open>
  the pluralizer panics in exactly one case. Guessing the plural of a kind subtracts two
  from the length of a word that ends in \<open>y\<close>; this overflows exactly for the one-letter
  kinds \<open>Y\<close> and \<open>y\<close>, and every other kind gets an \<open>ApiResource\<close> whose \<open>apiVersion\<close> is the
  one of its group and version.
\<close>

theorem from_gvk_panics:
  "(from_gvk gvk = None \<longleftrightarrow> to_ascii_lowercase (gvk_kind gvk) = ''y'')
   \<and> (\<forall>ar. from_gvk gvk = Some ar \<longrightarrow> consistent ar \<and> ar_kind ar = gvk_kind gvk)"
  by (auto simp: from_gvk_def to_plural_None from_gvk_with_plural_def consistent_def gvk_api_version_def)

theorem from_gvk_panics_witness:
  "from_gvk (gvk_new ''g'' ''v1'' ''Y'') = None"
proof -
  have "to_ascii_lowercase ''Y'' = ''y''" by code_simp
  then show ?thesis using from_gvk_panics [of "gvk_new ''g'' ''v1'' ''Y''"] by (simp add: gvk_new_def)
qed

end
