(* ===== verification/Rt_Scheduler.thy ===== *)
theory Rt_Scheduler
  imports Prelude
begin

text \<open>
  \<open>kube-runtime/src/scheduler.rs\<close>: the stream transformer that delays and deduplicates
  reconciliation requests. The timer wheel \<open>tokio_util::time::DelayQueue\<close> and the iteration
  order of \<open>std::collections::HashSet\<close> are parameters (the record \<open>sched_env\<close>); the
  documented behaviour of the former is the locale \<open>delay_queue\<close>. A panic of the source is
  a value of \<open>sched_panic\<close>, a loop that never ends is \<open>None\<close>.
\<close>

section \<open>State\<close>

type_synonym instant = nat
type_synonym duration = nat
type_synonym queue_key = nat

record ('q, 'm) sched_env =
  dq_insert_at :: "'q \<Rightarrow> 'm \<Rightarrow> instant \<Rightarrow> queue_key \<times> 'q"
  dq_reset_at :: "'q \<Rightarrow> queue_key \<Rightarrow> instant \<Rightarrow> 'q option"
  dq_poll_expired :: "'q \<Rightarrow> instant \<Rightarrow> 'm option poll \<times> 'q"
  hash_iter :: "'m set \<Rightarrow> 'm list"

record 'm schedule_request =
  message :: 'm
  req_run_at :: instant

record scheduled_entry =
  run_at :: instant
  entry_queue_key :: queue_key

record ('q, 'm) scheduler =
  queue :: 'q
  scheduled :: "'m \<rightharpoonup> scheduled_entry"
  pending :: "'m set"
  requests :: "'m schedule_request stream_script"

datatype sched_panic = ResetOfUnknownKey | ExpiredNotInMetadata

definition scheduler_new :: "'q \<Rightarrow> 'm schedule_request stream_script \<Rightarrow> ('q, 'm) scheduler" where
  "scheduler_new q rs = \<lparr>queue = q, scheduled = Map.empty, pending = {}, requests = rs\<rparr>"

section \<open>Operations\<close>

definition schedule_message ::
  "('q, 'm) sched_env \<Rightarrow> ('q, 'm) scheduler \<Rightarrow> 'm schedule_request \<Rightarrow> sched_panic + ('q, 'm) scheduler" where
  "schedule_message E s request =
     (if message request \<in> pending s then Inr s
      else case scheduled s (message request) of
        Some old_entry \<Rightarrow>
          if run_at old_entry \<ge> req_run_at request then
            (case dq_reset_at E (queue s) (entry_queue_key old_entry) (req_run_at request) of
               None \<Rightarrow> Inl ResetOfUnknownKey
             | Some q \<Rightarrow>
                 Inr (s\<lparr>queue := q,
                        scheduled := (scheduled s)(message request \<mapsto>
                          old_entry\<lparr>run_at := req_run_at request\<rparr>)\<rparr>))
          else Inr s
      | None \<Rightarrow>
          let (key, q) = dq_insert_at E (queue s) (message request) (req_run_at request) in
          Inr (s\<lparr>queue := q,
                 scheduled := (scheduled s)(message request \<mapsto>
                   \<lparr>run_at = req_run_at request, entry_queue_key = key\<rparr>)\<rparr>))"

partial_function (option) pop_loop ::
  "('q, 'm) sched_env \<Rightarrow> instant \<Rightarrow> ('m \<Rightarrow> bool) \<Rightarrow> ('q, 'm) scheduler
     \<Rightarrow> (sched_panic + 'm poll \<times> ('q, 'm) scheduler) option" where
  "pop_loop E now can_take_message s =
     (case dq_poll_expired E (queue s) now of (r, q) \<Rightarrow>
        (case r of
           Ready (Some msg) \<Rightarrow>
             (case scheduled s msg of
                None \<Rightarrow> Some (Inl ExpiredNotInMetadata)
              | Some _ \<Rightarrow>
                  let s' = s\<lparr>queue := q, scheduled := (scheduled s)(msg := None)\<rparr> in
                  if can_take_message msg then Some (Inr (Ready msg, s'))
                  else pop_loop E now can_take_message (s'\<lparr>pending := insert msg (pending s')\<rparr>))
         | Ready None \<Rightarrow> Some (Inr (Pending, s\<lparr>queue := q\<rparr>))
         | Pending \<Rightarrow> Some (Inr (Pending, s\<lparr>queue := q\<rparr>))))"

definition poll_pop_queue_message ::
  "('q, 'm) sched_env \<Rightarrow> instant \<Rightarrow> ('m \<Rightarrow> bool) \<Rightarrow> ('q, 'm) scheduler
     \<Rightarrow> (sched_panic + 'm poll \<times> ('q, 'm) scheduler) option" where
  "poll_pop_queue_message E now can_take_message s =
     (case List.find can_take_message (hash_iter E (pending s)) of
        Some msg \<Rightarrow> Some (Inr (Ready msg, s\<lparr>pending := pending s - {msg}\<rparr>))
      | None \<Rightarrow> pop_loop E now can_take_message s)"

text \<open>
  The loop at the start of \<open>poll_next\<close>: it schedules every request that is ready, and tells
  whether the request stream has ended (\<open>True\<close>) or is pending (\<open>False\<close>). The stream is
  fused: once it has ended, every later poll of it answers that it has ended.
\<close>

fun drain_requests ::
  "('q, 'm) sched_env \<Rightarrow> 'm schedule_request stream_script \<Rightarrow> ('q, 'm) scheduler
     \<Rightarrow> sched_panic + bool \<times> ('q, 'm) scheduler" where
  "drain_requests E [] s = Inr (False, s\<lparr>requests := []\<rparr>)"
| "drain_requests E (Ready (Some request) # rs) s =
     rbind (schedule_message E s request) (drain_requests E rs)"
| "drain_requests E (Ready None # rs) s = Inr (True, s\<lparr>requests := [Ready None]\<rparr>)"
| "drain_requests E (Pending # rs) s = Inr (False, s\<lparr>requests := rs\<rparr>)"

definition hold_unless_poll_next ::
  "('q, 'm) sched_env \<Rightarrow> instant \<Rightarrow> ('m \<Rightarrow> bool) \<Rightarrow> ('q, 'm) scheduler
     \<Rightarrow> (sched_panic + 'm option poll \<times> ('q, 'm) scheduler) option" where
  "hold_unless_poll_next E now can_take_message s =
     (case drain_requests E (requests s) s of
        Inl p \<Rightarrow> Some (Inl p)
      | Inr (True, s') \<Rightarrow> Some (Inr (Ready None, s'))
      | Inr (False, s') \<Rightarrow>
          map_option
            (\<lambda>res. case res of
               Inl p \<Rightarrow> Inl p
             | Inr (Ready expired, s'') \<Rightarrow> Inr (Ready (Some expired), s'')
             | Inr (Pending, s'') \<Rightarrow> Inr (Pending, s''))
            (poll_pop_queue_message E now can_take_message s'))"

definition scheduler_poll_next ::
  "('q, 'm) sched_env \<Rightarrow> instant \<Rightarrow> ('q, 'm) scheduler
     \<Rightarrow> (sched_panic + 'm option poll \<times> ('q, 'm) scheduler) option" where
  "scheduler_poll_next E now s = hold_unless_poll_next E now (\<lambda>_. True) s"

definition contains_pending :: "('q, 'm) scheduler \<Rightarrow> 'm \<Rightarrow> bool" where
  "contains_pending s msg = (msg \<in> pending s)"

section \<open>What a scheduler promises\<close>

text \<open>
  The abstract state of one message: absent, due at an instant, or held back after it became
  due. Scheduling keeps the earlier instant and leaves held messages alone.
\<close>

datatype msg_state = Absent | Due instant | Held

definition view :: "('q, 'm) scheduler \<Rightarrow> 'm \<Rightarrow> msg_state" where
  "view s m = (if m \<in> pending s then Held
               else case scheduled s m of None \<Rightarrow> Absent | Some e \<Rightarrow> Due (run_at e))"

fun merge_request :: "msg_state \<Rightarrow> instant \<Rightarrow> msg_state" where
  "merge_request Absent t = Due t"
| "merge_request (Due t0) t = Due (min t0 t)"
| "merge_request Held t = Held"

fun ready_items :: "'a stream_script \<Rightarrow> 'a list" where
  "ready_items (Ready (Some a) # rs) = a # ready_items rs"
| "ready_items _ = []"

fun stream_ends :: "'a stream_script \<Rightarrow> bool" where
  "stream_ends (Ready (Some a) # rs) = stream_ends rs"
| "stream_ends (Ready None # rs) = True"
| "stream_ends _ = False"

definition merge_all :: "'m schedule_request list \<Rightarrow> ('m \<Rightarrow> msg_state) \<Rightarrow> 'm \<Rightarrow> msg_state" where
  "merge_all reqs v = fold (\<lambda>r v. v(message r := merge_request (v (message r)) (req_run_at r))) reqs v"

lemma merge_all_simps [simp]:
  "merge_all [] v = v"
  "merge_all (r # rs) v = merge_all rs (v(message r := merge_request (v (message r)) (req_run_at r)))"
  by (simp_all add: merge_all_def)

definition takeable :: "instant \<Rightarrow> ('m \<Rightarrow> bool) \<Rightarrow> 'm \<Rightarrow> msg_state \<Rightarrow> bool" where
  "takeable now can m v \<longleftrightarrow> can m \<and> (v = Held \<or> (\<exists>t \<le> now. v = Due t))"

text \<open>
  One attempt to take a message: messages that are due but not takeable become held; the
  attempt is pending only when nothing is takeable, and otherwise gives exactly one takeable
  message away and keeps all others.
\<close>

definition hold_expired :: "instant \<Rightarrow> ('m \<Rightarrow> bool) \<Rightarrow> ('m \<Rightarrow> msg_state) \<Rightarrow> 'm \<Rightarrow> msg_state" where
  "hold_expired now can v m =
     (case v m of Due t \<Rightarrow> if t \<le> now \<and> \<not> can m then Held else Due t | x \<Rightarrow> x)"

definition pop_spec ::
  "instant \<Rightarrow> ('m \<Rightarrow> bool) \<Rightarrow> ('m \<Rightarrow> msg_state) \<Rightarrow> 'm poll \<Rightarrow> ('m \<Rightarrow> msg_state) \<Rightarrow> bool" where
  "pop_spec now can v r v' =
     (case r of
        Pending \<Rightarrow> v' = hold_expired now can v \<and> (\<forall>m. \<not> takeable now can m (v m))
      | Ready msg \<Rightarrow> takeable now can msg (v msg) \<and> v' msg = Absent
          \<and> (\<forall>m. m \<noteq> msg \<longrightarrow> v' m = v m \<or> v' m = hold_expired now can v m))"

definition poll_spec ::
  "instant \<Rightarrow> ('m \<Rightarrow> bool) \<Rightarrow> 'm schedule_request stream_script \<Rightarrow> ('m \<Rightarrow> msg_state)
     \<Rightarrow> 'm option poll \<Rightarrow> ('m \<Rightarrow> msg_state) \<Rightarrow> bool" where
  "poll_spec now can reqs v r v' =
     (let v1 = merge_all (ready_items reqs) v in
      if stream_ends reqs then r = Ready None \<and> v' = v1
      else case r of
        Ready None \<Rightarrow> False
      | Ready (Some msg) \<Rightarrow> pop_spec now can v1 (Ready msg) v'
      | Pending \<Rightarrow> pop_spec now can v1 Pending v')"

text \<open>The messages a scheduler still has to emit, and what is left to do in it.\<close>

definition live :: "('m \<Rightarrow> msg_state) \<Rightarrow> 'm set" where
  "live v = {m. v m \<noteq> Absent}"

definition work :: "('q, 'm) scheduler \<Rightarrow> nat" where
  "work s = length (requests s) + card (live (view s))"

lemma merge_request_not_Absent [simp]: "merge_request x t \<noteq> Absent"
  by (cases x) simp_all

lemma live_merge_all:
  "finite (live v) \<Longrightarrow> finite (live (merge_all rs v)) \<and> card (live (merge_all rs v)) \<le> card (live v) + length rs"
proof (induction rs arbitrary: v)
  case Nil
  then show ?case by simp
next
  case (Cons r rs)
  let ?v = "v(message r := merge_request (v (message r)) (req_run_at r))"
  have l: "live ?v = insert (message r) (live v)" by (auto simp: live_def)
  then have "finite (live ?v)" "card (live ?v) \<le> Suc (card (live v))"
    using Cons.prems card_insert_le_m1 [of "Suc (card (live v))" "live v"] by (simp_all add: card_insert_if)
  with Cons.IH [of ?v] show ?case by (auto simp del: fun_upd_apply)
qed

lemma hold_expired_Absent [simp]: "hold_expired now can v m = Absent \<longleftrightarrow> v m = Absent"
  by (auto simp: hold_expired_def split: msg_state.splits if_splits)

lemma pop_spec_live:
  assumes "pop_spec now can v (Ready msg) v'"
  shows "msg \<in> live v \<and> live v' \<subseteq> live v - {msg}"
proof -
  have "v m \<noteq> Absent" if "v' m \<noteq> Absent" "m \<noteq> msg" for m
    using assms that hold_expired_Absent [of now can v m] by (auto simp: pop_spec_def)
  then show ?thesis using assms by (auto simp: pop_spec_def takeable_def live_def)
qed

text \<open>The concrete state and the content of the delay queue describe the same messages.\<close>

definition sched_inv :: "('q \<Rightarrow> queue_key \<rightharpoonup> 'm \<times> instant) \<Rightarrow> ('q, 'm) scheduler \<Rightarrow> bool" where
  "sched_inv content s \<longleftrightarrow>
     (\<forall>m e. scheduled s m = Some e \<longrightarrow> content (queue s) (entry_queue_key e) = Some (m, run_at e)) \<and>
     (\<forall>k m t. content (queue s) k = Some (m, t) \<longrightarrow>
        scheduled s m = Some \<lparr>run_at = t, entry_queue_key = k\<rparr>) \<and>
     finite (pending s) \<and>
     pending s \<inter> dom (scheduled s) = {}"

lemma sched_inv_requests [simp]: "sched_inv content (s\<lparr>requests := r\<rparr>) = sched_inv content s"
  by (simp add: sched_inv_def)

lemma sched_inv_content:
  assumes "sched_inv content s"
  shows "scheduled s m = Some e \<Longrightarrow> content (queue s) (entry_queue_key e) = Some (m, run_at e)"
    and "content (queue s) k = Some (m, t) \<Longrightarrow> scheduled s m = Some \<lparr>run_at = t, entry_queue_key = k\<rparr>"
  using assms by (simp_all add: sched_inv_def)

lemma sched_inv_put:
  assumes inv: "sched_inv content s" and np: "m \<notin> pending s"
    and k: "content (queue s) k = None \<and> scheduled s m = None \<or> content (queue s) k = Some (m, t0)"
    and q: "content q = (content (queue s))(k \<mapsto> (m, t))"
  shows "sched_inv content (s\<lparr>queue := q,
           scheduled := (scheduled s)(m \<mapsto> \<lparr>run_at = t, entry_queue_key = k\<rparr>)\<rparr>)"
proof -
  have keys: "entry_queue_key e \<noteq> k" if "scheduled s m' = Some e" "m' \<noteq> m" for m' e
    using sched_inv_content(1) [OF inv that(1)] k that(2) by auto
  have msgs: "m' \<noteq> m" if "content (queue s) k' = Some (m', t')" "k' \<noteq> k" for k' m' t'
    using sched_inv_content(2) [OF inv that(1)] sched_inv_content(2) [OF inv, of k m t0] k that(2)
    by auto
  show ?thesis
    using inv np keys msgs by (auto simp: sched_inv_def q split: if_splits)
qed

lemma sched_inv_remove:
  assumes inv: "sched_inv content s" and k: "content (queue s) k = Some (m, t)"
    and q: "content q = (content (queue s))(k := None)"
  shows "sched_inv content (s\<lparr>queue := q, scheduled := (scheduled s)(m := None)\<rparr>)"
proof -
  have keys: "entry_queue_key e \<noteq> k" if "scheduled s m' = Some e" "m' \<noteq> m" for m' e
    using sched_inv_content(1) [OF inv that(1)] k that(2) by auto
  have msgs: "m' \<noteq> m" if "content (queue s) k' = Some (m', t')" "k' \<noteq> k" for k' m' t'
    using sched_inv_content(2) [OF inv that(1)] sched_inv_content(2) [OF inv k] that(2) by auto
  show ?thesis
    using inv keys msgs by (auto simp: sched_inv_def q split: if_splits)
qed

lemma view_requests [simp]: "view (s\<lparr>requests := r\<rparr>) = view s"
  by (rule ext) (simp add: view_def)

lemma entry_queue_key_update [simp]:
  "(e :: scheduled_entry)\<lparr>run_at := t\<rparr> = \<lparr>run_at = t, entry_queue_key = entry_queue_key e\<rparr>"
  by simp

lemma pop_spec_PendingI:
  assumes "\<forall>m e. scheduled s m = Some e \<longrightarrow> now < run_at e" and "\<forall>m \<in> pending s. \<not> can m"
  shows "pop_spec now can (view s) Pending (view (s\<lparr>queue := q\<rparr>))"
proof -
  have "view (s\<lparr>queue := q\<rparr>) m = hold_expired now can (view s) m" for m
    using assms(1) by (fastforce simp: view_def hold_expired_def split: option.splits)
  moreover have "\<not> takeable now can m (view s m)" for m
    using assms by (fastforce simp: view_def takeable_def split: option.splits if_splits)
  ultimately show ?thesis by (auto simp: pop_spec_def)
qed

text \<open>Holding back one more due message first does not change what the attempt achieves.\<close>

lemma pop_spec_hold:
  assumes "pop_spec now can (v(msg := Held)) r v'" and "v msg = Due t" "t \<le> now" "\<not> can msg"
  shows "pop_spec now can v r v'"
proof -
  have h: "hold_expired now can (v(msg := Held)) = hold_expired now can v"
    using assms(2-4) by (auto simp: hold_expired_def)
  have t: "takeable now can m ((v(msg := Held)) m) = takeable now can m (v m)" for m
    using assms(2-4) by (auto simp: takeable_def)
  have hm: "hold_expired now can v msg = Held"
    using assms(2-4) by (simp add: hold_expired_def)
  show ?thesis
  proof (cases r)
    case (Ready x)
    have tk: "takeable now can x (v x)" and ab: "v' x = Absent"
      and oth: "\<forall>m. m \<noteq> x \<longrightarrow> v' m = (v(msg := Held)) m \<or> v' m = hold_expired now can v m"
      using assms(1) Ready h t by (auto simp: pop_spec_def)
    have "v' m = v m \<or> v' m = hold_expired now can v m" if "m \<noteq> x" for m
      using oth that hm by (cases "m = msg") auto
    with tk ab Ready show ?thesis by (simp add: pop_spec_def)
  next
    case Pending
    with assms(1) h t show ?thesis by (simp add: pop_spec_def)
  qed
qed

lemma view_new [simp]: "view (scheduler_new q rs) m = Absent"
  by (simp add: view_def scheduler_new_def)

section \<open>The delay queue contract and the scheduler built on it\<close>

locale delay_queue =
  fixes E :: "('q, 'm) sched_env"
    and content :: "'q \<Rightarrow> queue_key \<rightharpoonup> 'm \<times> instant"
  assumes finite_content: "finite (dom (content q))"
    and insert_fresh: "dq_insert_at E q m t = (k, q') \<Longrightarrow> content q k = None"
    and insert_content: "dq_insert_at E q m t = (k, q') \<Longrightarrow> content q' = (content q)(k \<mapsto> (m, t))"
    and reset_content: "content q k = Some (m, t0) \<Longrightarrow>
          \<exists>q'. dq_reset_at E q k t = Some q' \<and> content q' = (content q)(k \<mapsto> (m, t))"
    and expired_content: "dq_poll_expired E q now = (Ready (Some m), q') \<Longrightarrow>
          \<exists>k t. content q k = Some (m, t) \<and> t \<le> now \<and> content q' = (content q)(k := None)"
    and empty_content: "dq_poll_expired E q now = (Ready None, q') \<Longrightarrow>
          content q = Map.empty \<and> content q' = Map.empty"
    and pending_content: "dq_poll_expired E q now = (Pending, q') \<Longrightarrow>
          content q' = content q \<and> (\<forall>k m t. content q k = Some (m, t) \<longrightarrow> now < t)"
    and iter_set: "finite M \<Longrightarrow> set (hash_iter E M) = M"
begin

lemma schedule_message_ok:
  assumes inv: "sched_inv content s"
  shows "\<exists>s'. schedule_message E s r = Inr s' \<and> sched_inv content s' \<and> requests s' = requests s
           \<and> view s' = (view s)(message r := merge_request (view s (message r)) (req_run_at r))"
proof (cases "message r \<in> pending s")
  case True
  then show ?thesis using inv by (auto simp: schedule_message_def view_def fun_upd_idem)
next
  case np: False
  show ?thesis
  proof (cases "scheduled s (message r)")
    case None
    obtain k q where ins: "dq_insert_at E (queue s) (message r) (req_run_at r) = (k, q)"
      by (cases "dq_insert_at E (queue s) (message r) (req_run_at r)")
    let ?s' = "s\<lparr>queue := q, scheduled := (scheduled s)(message r \<mapsto>
                 \<lparr>run_at = req_run_at r, entry_queue_key = k\<rparr>)\<rparr>"
    have "sched_inv content ?s'"
      using sched_inv_put [OF inv np] insert_fresh [OF ins] insert_content [OF ins] None by blast
    moreover have "view ?s' = (view s)(message r := merge_request (view s (message r)) (req_run_at r))"
      using np None by (auto simp: view_def)
    moreover have "schedule_message E s r = Inr ?s'"
      using np None ins by (simp add: schedule_message_def)
    ultimately show ?thesis by auto
  next
    case (Some e)
    then have c: "content (queue s) (entry_queue_key e) = Some (message r, run_at e)"
      using inv by (simp add: sched_inv_def)
    show ?thesis
    proof (cases "run_at e \<ge> req_run_at r")
      case True
      obtain q where q: "dq_reset_at E (queue s) (entry_queue_key e) (req_run_at r) = Some q"
        and cq: "content q = (content (queue s))(entry_queue_key e \<mapsto> (message r, req_run_at r))"
        using reset_content [OF c] by blast
      let ?s' = "s\<lparr>queue := q, scheduled := (scheduled s)(message r \<mapsto> e\<lparr>run_at := req_run_at r\<rparr>)\<rparr>"
      have "sched_inv content ?s'"
        using sched_inv_put [OF inv np _ cq] c by simp
      moreover have "view ?s' = (view s)(message r := merge_request (view s (message r)) (req_run_at r))"
        using np Some True by (auto simp: view_def min_def)
      moreover have "schedule_message E s r = Inr ?s'"
        using np Some True q by (simp add: schedule_message_def)
      ultimately show ?thesis by auto
    next
      case False
      then have "schedule_message E s r = Inr s"
        using np Some by (simp add: schedule_message_def)
      moreover have "(view s)(message r := merge_request (view s (message r)) (req_run_at r)) = view s"
        using np Some False by (auto simp: view_def min_def)
      ultimately show ?thesis using inv by auto
    qed
  qed
qed

lemma drain_requests_ok:
  assumes "sched_inv content s"
  shows "\<exists>s'. drain_requests E rs s = Inr (stream_ends rs, s') \<and> sched_inv content s'
           \<and> view s' = merge_all (ready_items rs) (view s)
           \<and> length (requests s') + length (ready_items rs) \<le> length rs"
  using assms
proof (induction rs arbitrary: s rule: ready_items.induct)
  case (1 r rs)
  obtain s1 where s1: "schedule_message E s r = Inr s1" "sched_inv content s1"
    "view s1 = (view s)(message r := merge_request (view s (message r)) (req_run_at r))"
    using schedule_message_ok [OF "1.prems"] by blast
  obtain s2 where s2: "drain_requests E rs s1 = Inr (stream_ends rs, s2)" "sched_inv content s2"
    "view s2 = merge_all (ready_items rs) (view s1)"
    "length (requests s2) + length (ready_items rs) \<le> length rs"
    using "1.IH" [OF s1(2)] by blast
  then show ?case using s1(1) by (intro exI [of _ s2]) (simp add: s1(3) del: fun_upd_apply)
qed auto

lemma pop_loop_ok:
  assumes "sched_inv content s" and "\<forall>m \<in> pending s. \<not> can m"
  shows "\<exists>r s'. pop_loop E now can s = Some (Inr (r, s')) \<and> sched_inv content s'
           \<and> requests s' = requests s \<and> pop_spec now can (view s) r (view s')"
  using assms
proof (induction "card (dom (content (queue s)))" arbitrary: s rule: less_induct)
  case less
  obtain p q where pq: "dq_poll_expired E (queue s) now = (p, q)" by fastforce
  note inv = \<open>sched_inv content s\<close>
  show ?case
  proof (cases p)
    case Pending
    have "content q = content (queue s)" and late: "\<forall>k m t. content (queue s) k = Some (m, t) \<longrightarrow> now < t"
      using pending_content [OF pq [unfolded Pending]] by auto
    then have "sched_inv content (s\<lparr>queue := q\<rparr>)" using inv by (simp add: sched_inv_def)
    moreover have "pop_spec now can (view s) Pending (view (s\<lparr>queue := q\<rparr>))"
      using late less.prems(2) by (intro pop_spec_PendingI) (auto dest: sched_inv_content [OF inv])
    ultimately show ?thesis using pq Pending by (subst pop_loop.simps) auto
  next
    case (Ready x)
    show ?thesis
    proof (cases x)
      case None
      have e: "content (queue s) = Map.empty" "content q = Map.empty"
        using empty_content [OF pq [unfolded Ready None]] by auto
      then have "sched_inv content (s\<lparr>queue := q\<rparr>)" using inv by (simp add: sched_inv_def)
      moreover have "pop_spec now can (view s) Pending (view (s\<lparr>queue := q\<rparr>))"
        using e less.prems(2) by (intro pop_spec_PendingI) (auto dest: sched_inv_content [OF inv])
      ultimately show ?thesis using pq Ready None by (subst pop_loop.simps) auto
    next
      case (Some msg)
      obtain k t where k: "content (queue s) k = Some (msg, t)" "t \<le> now"
        and q: "content q = (content (queue s))(k := None)"
        using expired_content [OF pq [unfolded Ready Some]] by blast
      have sm: "scheduled s msg = Some \<lparr>run_at = t, entry_queue_key = k\<rparr>"
        using inv k by (simp add: sched_inv_def)
      then have np: "msg \<notin> pending s" using inv by (auto simp: sched_inv_def)
      let ?s' = "s\<lparr>queue := q, scheduled := (scheduled s)(msg := None)\<rparr>"
      have inv': "sched_inv content ?s'"
        using inv k(1) q by (rule sched_inv_remove)
      show ?thesis
      proof (cases "can msg")
        case True
        have "pop_spec now can (view s) (Ready msg) (view ?s')"
          using True np sm k by (auto simp: pop_spec_def takeable_def view_def)
        then show ?thesis using pq Ready Some sm True inv'
          by (subst pop_loop.simps) (auto simp: Let_def)
      next
        case False
        let ?s2 = "?s'\<lparr>pending := insert msg (pending ?s')\<rparr>"
        have inv2: "sched_inv content ?s2"
          using inv' np by (auto simp: sched_inv_def)
        have "dom (content (queue ?s2)) = dom (content (queue s)) - {k}" "k \<in> dom (content (queue s))"
          using k q by auto
        then have sm2: "card (dom (content (queue ?s2))) < card (dom (content (queue s)))"
          using card_Diff1_less [OF finite_content] by simp
        have "\<forall>m \<in> pending ?s2. \<not> can m" using less.prems(2) False by simp
        from less.hyps [OF sm2 inv2 this]
        obtain r s3 where s3: "pop_loop E now can ?s2 = Some (Inr (r, s3))" "sched_inv content s3"
          "requests s3 = requests ?s2" "pop_spec now can (view ?s2) r (view s3)"
          by blast
        have v2: "view ?s2 = (view s)(msg := Held)" "view s msg = Due t"
          using np sm by (auto simp: view_def)
        have "pop_spec now can (view s) r (view s3)"
          using s3(4) v2(2) k(2) False unfolding v2(1) by (rule pop_spec_hold)
        moreover have "pop_loop E now can s = pop_loop E now can ?s2"
          using pq Ready Some sm False by (subst pop_loop.simps) (simp add: Let_def)
        ultimately show ?thesis using s3 by auto
      qed
    qed
  qed
qed

lemma poll_pop_ok:
  assumes inv: "sched_inv content s"
  shows "\<exists>r s'. poll_pop_queue_message E now can s = Some (Inr (r, s')) \<and> sched_inv content s'
           \<and> requests s' = requests s \<and> pop_spec now can (view s) r (view s')"
proof (cases "List.find can (hash_iter E (pending s))")
  case None
  then have "\<forall>m \<in> pending s. \<not> can m"
    using iter_set [of "pending s"] inv by (auto simp: find_None_iff sched_inv_def)
  with pop_loop_ok [OF inv] None show ?thesis by (simp add: poll_pop_queue_message_def)
next
  case (Some msg)
  then have m: "msg \<in> pending s" "can msg"
    using iter_set [of "pending s"] inv by (auto dest!: find_Some_D simp: sched_inv_def)
  let ?s' = "s\<lparr>pending := pending s - {msg}\<rparr>"
  have "sched_inv content ?s'" using inv by (auto simp: sched_inv_def)
  moreover have "pop_spec now can (view s) (Ready msg) (view ?s')"
    using m inv by (auto simp: pop_spec_def takeable_def view_def sched_inv_def split: option.splits)
  ultimately show ?thesis using Some by (auto simp: poll_pop_queue_message_def)
qed

text \<open>One whole poll of the held view of the scheduler.\<close>

lemma hold_unless_ok:
  assumes inv: "sched_inv content s"
  shows "\<exists>r s'. hold_unless_poll_next E now can s = Some (Inr (r, s')) \<and> sched_inv content s'
           \<and> poll_spec now can (requests s) (view s) r (view s')
           \<and> length (requests s') + length (ready_items (requests s)) \<le> length (requests s)"
proof -
  obtain s1 where s1: "drain_requests E (requests s) s = Inr (stream_ends (requests s), s1)"
    "sched_inv content s1" "view s1 = merge_all (ready_items (requests s)) (view s)"
    "length (requests s1) + length (ready_items (requests s)) \<le> length (requests s)"
    using drain_requests_ok [OF inv] by blast
  show ?thesis
  proof (cases "stream_ends (requests s)")
    case True
    then show ?thesis using s1 by (auto simp: hold_unless_poll_next_def poll_spec_def)
  next
    case False
    obtain r s2 where "poll_pop_queue_message E now can s1 = Some (Inr (r, s2))"
      "sched_inv content s2" "pop_spec now can (view s1) r (view s2)" "requests s2 = requests s1"
      using poll_pop_ok [OF s1(2)] by blast
    then show ?thesis using s1 False
      by (cases r) (auto simp: hold_unless_poll_next_def poll_spec_def)
  qed
qed

lemma finite_live:
  assumes inv: "sched_inv content s"
  shows "finite (live (view s))"
proof -
  have "dom (scheduled s) \<subseteq> (\<lambda>k. fst (the (content (queue s) k))) ` dom (content (queue s))"
  proof
    fix m assume "m \<in> dom (scheduled s)"
    then obtain e where "scheduled s m = Some e" by blast
    then have "content (queue s) (entry_queue_key e) = Some (m, run_at e)"
      using sched_inv_content(1) [OF inv] by blast
    then show "m \<in> (\<lambda>k. fst (the (content (queue s) k))) ` dom (content (queue s))"
      by (intro image_eqI [of _ _ "entry_queue_key e"]) auto
  qed
  then have d: "finite (dom (scheduled s))"
    by (rule finite_subset [OF _ finite_imageI [OF finite_content]])
  have p: "finite (pending s)" using inv by (simp add: sched_inv_def)
  have "m \<in> pending s \<union> dom (scheduled s)" if "m \<in> live (view s)" for m
    using that by (cases "scheduled s m") (simp_all add: live_def view_def dom_def split: if_splits)
  then show ?thesis by (intro finite_subset [OF _ finite_UnI [OF p d]] subsetI)
qed

lemma hold_unless_progress:
  assumes inv: "sched_inv content s"
    and poll: "hold_unless_poll_next E now can s = Some (Inr (Ready (Some msg), s'))"
  shows "work s' < work s"
proof -
  let ?v = "merge_all (ready_items (requests s)) (view s)"
  have ps: "poll_spec now can (requests s) (view s) (Ready (Some msg)) (view s')"
    and len: "length (requests s') + length (ready_items (requests s)) \<le> length (requests s)"
    using hold_unless_ok [OF inv, of now can] poll by auto
  have pop: "pop_spec now can ?v (Ready msg) (view s')"
    using ps by (simp add: poll_spec_def Let_def split: if_splits)
  note l = conjunct1 [OF pop_spec_live [OF pop]] conjunct2 [OF pop_spec_live [OF pop]]
  have f: "finite (live ?v)" "card (live ?v) \<le> card (live (view s)) + length (ready_items (requests s))"
    by (rule conjunct1 [OF live_merge_all [OF finite_live [OF inv]]]
             conjunct2 [OF live_merge_all [OF finite_live [OF inv]]])+
  have "live (view s') \<subset> live ?v" using l by blast
  then have "card (live (view s')) < card (live ?v)"
    by (rule psubset_card_mono [OF f(1)])
  with f(2) len show ?thesis by (simp add: work_def)
qed

end

section \<open>A delay queue that satisfies the contract\<close>

text \<open>
  The contract is satisfiable for every message type: a list of keyed entries with fresh
  keys, where an expired entry is any one whose deadline has passed, the earliest in list
  order first.
\<close>

type_synonym 'm list_queue = "(queue_key \<times> 'm \<times> instant) list"

definition lq_content :: "'m list_queue \<Rightarrow> queue_key \<rightharpoonup> 'm \<times> instant" where
  "lq_content q = map_of q"

definition lq_insert_at :: "'m list_queue \<Rightarrow> 'm \<Rightarrow> instant \<Rightarrow> queue_key \<times> 'm list_queue" where
  "lq_insert_at q m t = (let k = Suc (Max (insert 0 (set (map fst q)))) in (k, (k, m, t) # q))"

definition lq_reset_at :: "'m list_queue \<Rightarrow> queue_key \<Rightarrow> instant \<Rightarrow> 'm list_queue option" where
  "lq_reset_at q k t = map_option (\<lambda>(m, _). (k, m, t) # q) (map_of q k)"

definition lq_poll_expired :: "'m list_queue \<Rightarrow> instant \<Rightarrow> 'm option poll \<times> 'm list_queue" where
  "lq_poll_expired q now =
     (if q = [] then (Ready None, q)
      else case List.find (\<lambda>k. case map_of q k of Some (m, t) \<Rightarrow> t \<le> now | None \<Rightarrow> False) (map fst q) of
        None \<Rightarrow> (Pending, q)
      | Some k \<Rightarrow> (Ready (map_option fst (map_of q k)), filter (\<lambda>e. fst e \<noteq> k) q))"

definition lq_env :: "('m set \<Rightarrow> 'm list) \<Rightarrow> ('m list_queue, 'm) sched_env" where
  "lq_env iter = \<lparr>dq_insert_at = lq_insert_at, dq_reset_at = lq_reset_at,
     dq_poll_expired = lq_poll_expired, hash_iter = iter\<rparr>"

lemma lq_fresh: "map_of q (Suc (Max (insert 0 (set (map fst q))))) = None"
proof -
  have "Suc (Max (insert 0 (set (map fst q)))) \<notin> fst ` set q"
    using Max_ge [of "insert 0 (set (map fst q))"] by (metis List.finite_set Suc_n_not_le_n finite_insert insertCI list.set_map)
  then show ?thesis by (simp add: map_of_eq_None_iff)
qed

lemma map_of_filter_key: "map_of (filter (\<lambda>e. fst e \<noteq> k) q) = (map_of q)(k := None)"
  by (rule ext) (induction q, auto)

lemma lq_poll_expired_cases:
  assumes "lq_poll_expired q now = (r, q')"
  shows "(r = Ready None \<and> q = [] \<and> q' = [])
       \<or> (r = Pending \<and> q' = q \<and> (\<forall>k m t. map_of q k = Some (m, t) \<longrightarrow> now < t))
       \<or> (\<exists>k m t. r = Ready (Some m) \<and> map_of q k = Some (m, t) \<and> t \<le> now
            \<and> q' = filter (\<lambda>e. fst e \<noteq> k) q)"
proof (cases "q = []")
  case True
  then show ?thesis using assms by (simp add: lq_poll_expired_def)
next
  case False
  let ?P = "\<lambda>k. case map_of q k of Some (m, t) \<Rightarrow> t \<le> now | None \<Rightarrow> False"
  show ?thesis
  proof (cases "List.find ?P (map fst q)")
    case None
    then have "now < t" if "map_of q k = Some (m, t)" for k m t
    proof -
      have "k \<in> set (map fst q)" using that by (force dest: map_of_SomeD)
      then have "\<not> ?P k" using None unfolding find_None_iff by blast
      then show ?thesis using that by simp
    qed
    then show ?thesis using assms False None by (simp add: lq_poll_expired_def)
  next
    case (Some k)
    then have "?P k" by (auto dest: find_Some_D)
    then obtain m t where "map_of q k = Some (m, t)" "t \<le> now" by (auto split: option.splits)
    then show ?thesis using assms False Some by (auto simp: lq_poll_expired_def)
  qed
qed

lemma lq_delay_queue:
  assumes "\<And>M. finite M \<Longrightarrow> set (iter M) = M"
  shows "delay_queue (lq_env iter) lq_content"
proof (unfold_locales, goal_cases)
  case (1 q)
  then show ?case by (simp add: lq_content_def finite_dom_map_of)
next
  case (2 q m t k q')
  then show ?case using lq_fresh by (auto simp: lq_env_def lq_insert_at_def Let_def lq_content_def)
next
  case (3 q m t k q')
  then show ?case by (auto simp: lq_env_def lq_insert_at_def Let_def lq_content_def)
next
  case (4 q k m t0 t)
  then show ?case by (auto simp: lq_env_def lq_reset_at_def lq_content_def)
next
  case (5 q now m q')
  then show ?case
    using lq_poll_expired_cases [of q now] by (fastforce simp: lq_env_def lq_content_def map_of_filter_key)
next
  case (6 q now q')
  then show ?case
    using lq_poll_expired_cases [of q now] by (fastforce simp: lq_env_def lq_content_def)
next
  case (7 q now q')
  then show ?case
    using lq_poll_expired_cases [of q now] by (fastforce simp: lq_env_def lq_content_def)
next
  case (8 M)
  then show ?case using assms by (simp add: lq_env_def)
qed

text \<open>The scheduler over this queue, with any ordered message type.\<close>

interpretation lq: delay_queue
  "lq_env sorted_list_of_set :: ('m :: linorder list_queue, 'm) sched_env" lq_content
  by (rule lq_delay_queue) simp

lemma lq_new_inv: "sched_inv lq_content (scheduler_new [] rs)"
  by (simp add: sched_inv_def scheduler_new_def lq_content_def)

section \<open>Properties\<close>



text \<open>
  deduplication. Scheduling a message never fails, touches no other message, and leaves
  the message due at the earlier of its old and its new instant; a held message is not
  rescheduled.
\<close>

theorem schedule_message_dedup:
  assumes "delay_queue E content" and "sched_inv content s"
  shows "\<exists>s'. schedule_message E s \<lparr>message = m, req_run_at = t\<rparr> = Inr s' \<and> sched_inv content s'
           \<and> (\<forall>m'. m' \<noteq> m \<longrightarrow> view s' m' = view s m')
           \<and> view s' m = (case view s m of Absent \<Rightarrow> Due t | Due t0 \<Rightarrow> Due (min t0 t) | Held \<Rightarrow> Held)"
  using delay_queue.schedule_message_ok [OF assms, of "\<lparr>message = m, req_run_at = t\<rparr>"]
  by (auto split: msg_state.split)

theorem schedule_message_dedup_witness:
  "\<exists>s'. schedule_message (lq_env sorted_list_of_set) (scheduler_new [] [])
          \<lparr>message = (2::nat), req_run_at = 9\<rparr> = Inr s' \<and> sched_inv lq_content s'
          \<and> view s' 2 = Due 9"
  using schedule_message_dedup [OF lq.delay_queue_axioms lq_new_inv [of "[]"], where m = 2 and t = 9]
  by auto

end
