(* ===== verification/Rt_Runner.thy ===== *)
theory Rt_Runner
  imports Rt_Scheduler
begin

text \<open>
  \<open>kube-runtime/src/controller/future_hash_map.rs\<close> and \<open>controller/runner.rs\<close>: the map of
  running futures and the runner that starts a future for every message its scheduler lets
  through, never two at once for the same message. A future is the sequence of answers it
  gives to successive polls; the iteration order of the map is the parameter \<open>iter\<close>.
\<close>

section \<open>FutureHashMap\<close>

type_synonym 'r future = "'r poll list"
type_synonym ('k, 'r) future_hash_map = "'k \<rightharpoonup> 'r future"

fun poll_future :: "'r future \<Rightarrow> 'r poll \<times> 'r future" where
  "poll_future [] = (Pending, [])"
| "poll_future (p # ps) = (p, ps)"

text \<open>\<open>FutureExt::fuse\<close>: a completed future is pending for ever.\<close>

fun poll_fuse :: "'r future \<Rightarrow> 'r poll \<times> 'r future" where
  "poll_fuse [] = (Pending, [])"
| "poll_fuse (Ready r # ps) = (Ready r, [])"
| "poll_fuse (Pending # ps) = (Pending, ps)"

definition fhm_default :: "('k, 'r) future_hash_map" where
  "fhm_default = Map.empty"

definition fhm_insert :: "('k, 'r) future_hash_map \<Rightarrow> 'k \<Rightarrow> 'r future
     \<Rightarrow> 'r future option \<times> ('k, 'r) future_hash_map" where
  "fhm_insert futures key fut = (futures key, futures(key \<mapsto> fut))"

definition fhm_contains_key :: "('k, 'r) future_hash_map \<Rightarrow> 'k \<Rightarrow> bool" where
  "fhm_contains_key futures key = (futures key \<noteq> None)"

text \<open>The \<open>find_map\<close> over the entries: futures are polled until one of them is ready.\<close>

fun fhm_scan :: "'k list \<Rightarrow> ('k, 'r) future_hash_map \<Rightarrow> ('k \<times> 'r) option \<times> ('k, 'r) future_hash_map" where
  "fhm_scan [] futures = (None, futures)"
| "fhm_scan (key # keys) futures =
     (case futures key of
        None \<Rightarrow> fhm_scan keys futures
      | Some fut \<Rightarrow>
          (case poll_future fut of
             (Ready msg, fut') \<Rightarrow> (Some (key, msg), futures(key \<mapsto> fut'))
           | (Pending, fut') \<Rightarrow> fhm_scan keys (futures(key \<mapsto> fut'))))"

definition fhm_poll_next :: "('k set \<Rightarrow> 'k list) \<Rightarrow> ('k, 'r) future_hash_map
     \<Rightarrow> 'r option poll \<times> ('k, 'r) future_hash_map" where
  "fhm_poll_next iter futures =
     (case fhm_scan (iter (dom futures)) futures of
        (Some (key, msg), futures') \<Rightarrow> (Ready (Some msg), futures'(key := None))
      | (None, futures') \<Rightarrow> if dom futures' = {} then (Ready None, futures') else (Pending, futures'))"

section \<open>Runner\<close>

datatype 'e runner_error = Readiness 'e

datatype runner_panic = SchedulerPanicked sched_panic | ReplacedRunningFuture

record ('q, 'm, 'r, 'e) runner =
  run_scheduler :: "('q, 'm) scheduler"
  slots :: "('m, 'r) future_hash_map"
  ready_to_execute_after :: "('e + unit) future"
  is_ready_to_execute :: bool
  stopped :: bool

definition runner_new :: "('q, 'm) scheduler \<Rightarrow> ('q, 'm, 'r, 'e) runner" where
  "runner_new sch = \<lparr>run_scheduler = sch, slots = fhm_default,
     ready_to_execute_after = [Ready (Inr ())], is_ready_to_execute = False, stopped = False\<rparr>"

definition delay_tasks_until :: "('q, 'm, 'r, 'e) runner \<Rightarrow> ('f + unit) future \<Rightarrow> ('q, 'm, 'r, 'f) runner" where
  "delay_tasks_until rn ready = \<lparr>run_scheduler = run_scheduler rn, slots = slots rn,
     ready_to_execute_after = ready, is_ready_to_execute = False, stopped = False\<rparr>"

definition runner_can_take :: "('q, 'm, 'r, 'e) runner \<Rightarrow> 'm \<Rightarrow> bool" where
  "runner_can_take rn msg = (is_ready_to_execute rn \<and> \<not> fhm_contains_key (slots rn) msg)"

partial_function (option) runner_loop ::
  "('q, 'm) sched_env \<Rightarrow> instant \<Rightarrow> ('m \<Rightarrow> 'r future) \<Rightarrow> bool \<Rightarrow> ('q, 'm, 'r, 'e) runner
     \<Rightarrow> (runner_panic + ('e runner_error + 'r) option poll \<times> ('q, 'm, 'r, 'e) runner) option" where
  "runner_loop E now run_msg has_active_slots rn =
     (case hold_unless_poll_next E now (runner_can_take rn) (run_scheduler rn) of
        None \<Rightarrow> None
      | Some (Inl p) \<Rightarrow> Some (Inl (SchedulerPanicked p))
      | Some (Inr (next_msg_poll, sch)) \<Rightarrow>
          (case next_msg_poll of
             Ready (Some msg) \<Rightarrow>
               (case fhm_insert (slots rn) msg (run_msg msg) of (old, sl) \<Rightarrow>
                  if old \<noteq> None then Some (Inl ReplacedRunningFuture)
                  else runner_loop E now run_msg has_active_slots
                         (rn\<lparr>run_scheduler := sch, slots := sl\<rparr>))
           | Ready None \<Rightarrow>
               Some (Inr (if has_active_slots then Pending else Ready None, rn\<lparr>run_scheduler := sch\<rparr>))
           | Pending \<Rightarrow> Some (Inr (Pending, rn\<lparr>run_scheduler := sch\<rparr>))))"

definition runner_poll_next ::
  "('q, 'm) sched_env \<Rightarrow> ('m set \<Rightarrow> 'm list) \<Rightarrow> instant \<Rightarrow> ('m \<Rightarrow> 'r future) \<Rightarrow> ('q, 'm, 'r, 'e) runner
     \<Rightarrow> (runner_panic + ('e runner_error + 'r) option poll \<times> ('q, 'm, 'r, 'e) runner) option" where
  "runner_poll_next E iter now run_msg rn =
     (if stopped rn then Some (Inr (Ready None, rn))
      else case fhm_poll_next iter (slots rn) of
        (Ready (Some result), sl) \<Rightarrow> Some (Inr (Ready (Some (Inr result)), rn\<lparr>slots := sl\<rparr>))
      | (slot_poll, sl) \<Rightarrow>
          let has_active_slots = (slot_poll = Pending) in
          (case poll_fuse (ready_to_execute_after rn) of
             (Ready (Inl err), fut) \<Rightarrow>
               Some (Inr (Ready (Some (Inl (Readiness err))),
                          rn\<lparr>slots := sl, ready_to_execute_after := fut, stopped := True\<rparr>))
           | (Ready (Inr _), fut) \<Rightarrow>
               runner_loop E now run_msg has_active_slots
                 (rn\<lparr>slots := sl, ready_to_execute_after := fut, is_ready_to_execute := True\<rparr>)
           | (Pending, fut) \<Rightarrow>
               runner_loop E now run_msg has_active_slots
                 (rn\<lparr>slots := sl, ready_to_execute_after := fut\<rparr>)))"

section \<open>What one poll of the map does\<close>

definition advance :: "'r future \<Rightarrow> 'r future" where
  "advance fut = snd (poll_future fut)"

definition answers :: "'r future \<Rightarrow> 'r poll \<Rightarrow> bool" where
  "answers fut p \<longleftrightarrow> fst (poll_future fut) = p"

definition fhm_poll_spec :: "('k, 'r) future_hash_map \<Rightarrow> 'r option poll \<Rightarrow> ('k, 'r) future_hash_map \<Rightarrow> bool" where
  "fhm_poll_spec fs r fs' =
     (case r of
        Ready None \<Rightarrow> fs = Map.empty \<and> fs' = Map.empty
      | Ready (Some x) \<Rightarrow> (\<exists>k fut. fs k = Some fut \<and> answers fut (Ready x) \<and> fs' k = None
          \<and> (\<forall>j. j \<noteq> k \<longrightarrow> fs' j = fs j
                \<or> (\<exists>g. fs j = Some g \<and> answers g Pending \<and> fs' j = Some (advance g))))
      | Pending \<Rightarrow> fs \<noteq> Map.empty \<and> (\<forall>k fut. fs k = Some fut \<longrightarrow> answers fut Pending)
          \<and> fs' = map_option advance \<circ> fs)"

lemma fhm_scan_None:
  assumes "fhm_scan keys fs = (None, fs')" "distinct keys"
  shows "(\<forall>k fut. k \<in> set keys \<and> fs k = Some fut \<longrightarrow> answers fut Pending)
       \<and> fs' = (\<lambda>k. if k \<in> set keys then map_option advance (fs k) else fs k)"
  using assms
proof (induction keys fs rule: fhm_scan.induct)
  case (1 futures)
  then show ?case by auto
next
  case (2 key keys futures)
  show ?case
  proof (cases "futures key")
    case None
    with 2 show ?thesis by auto
  next
    case (Some fut)
    obtain p fut' where pf: "poll_future fut = (p, fut')" by fastforce
    with "2.prems" Some have p: "p = Pending" by (cases p) auto
    then have "fhm_scan keys (futures(key \<mapsto> fut')) = (None, fs')"
      using "2.prems" Some pf by simp
    from "2.IH"(2) [OF Some pf [symmetric] p this] "2.prems"(2)
    have ih: "(\<forall>k g. k \<in> set keys \<and> (futures(key \<mapsto> fut')) k = Some g \<longrightarrow> answers g Pending)"
      "fs' = (\<lambda>k. if k \<in> set keys then map_option advance ((futures(key \<mapsto> fut')) k)
                   else (futures(key \<mapsto> fut')) k)"
      by auto
    have "answers g Pending" if "k \<in> set (key # keys)" "futures k = Some g" for k g
      using that ih(1) [rule_format, of k g] "2.prems"(2) Some pf p
      by (cases "k = key") (auto simp: answers_def)
    moreover have "fs' k = (if k \<in> set (key # keys) then map_option advance (futures k) else futures k)" for k
      using ih(2) "2.prems"(2) Some pf by (auto simp: advance_def)
    ultimately show ?thesis by blast
  qed
qed

lemma fhm_scan_Some:
  assumes "fhm_scan keys fs = (Some (k, x), fs')" "distinct keys"
  shows "k \<in> set keys \<and> (\<exists>fut. fs k = Some fut \<and> answers fut (Ready x))
       \<and> (\<forall>j. j \<noteq> k \<longrightarrow> fs' j = fs j
             \<or> (j \<in> set keys \<and> (\<exists>g. fs j = Some g \<and> answers g Pending \<and> fs' j = Some (advance g))))"
  using assms
proof (induction keys fs rule: fhm_scan.induct)
  case (1 futures)
  then show ?case by simp
next
  case (2 key keys futures)
  show ?case
  proof (cases "futures key")
    case None
    with 2 show ?thesis by auto
  next
    case (Some fut)
    obtain p fut' where pf: "poll_future fut = (p, fut')" by fastforce
    show ?thesis
    proof (cases p)
      case (Ready m)
      with "2.prems" Some pf show ?thesis by (auto simp: answers_def)
    next
      case Pending
      then have sc: "fhm_scan keys (futures(key \<mapsto> fut')) = (Some (k, x), fs')"
        using "2.prems" Some pf by simp
      have d: "distinct keys" "key \<notin> set keys" using "2.prems"(2) by auto
      note ih = "2.IH"(2) [OF Some pf [symmetric] Pending sc d(1)]
      have "answers fut Pending" "advance fut = fut'"
        using pf Pending by (auto simp: answers_def advance_def)
      moreover have "fs' j = futures j \<or> j \<in> set (key # keys)
          \<and> (\<exists>g. futures j = Some g \<and> answers g Pending \<and> fs' j = Some (advance g))"
        if "j \<noteq> k" for j
      proof (cases "j = key")
        case True
        then show ?thesis using ih that d Some calculation by auto
      next
        case False
        then show ?thesis using ih that by auto
      qed
      moreover have "k \<noteq> key" using ih d by auto
      ultimately show ?thesis using ih by auto
    qed
  qed
qed

lemma fhm_poll_ok:
  assumes "hash_order iter" "finite (dom fs)" "fhm_poll_next iter fs = (r, fs')"
  shows "fhm_poll_spec fs r fs'"
proof -
  have keys: "set (iter (dom fs)) = dom fs" "distinct (iter (dom fs))"
    using hash_order.iter_keys [OF assms(1,2)] hash_order.iter_distinct [OF assms(1,2)] by auto
  obtain o1 fs1 where sc: "fhm_scan (iter (dom fs)) fs = (o1, fs1)" by fastforce
  show ?thesis
  proof (cases o1)
    case None
    note n = fhm_scan_None [OF sc [unfolded None] keys(2), unfolded keys(1)]
    have fs1: "fs1 = map_option advance \<circ> fs"
      using n by (auto simp: fun_eq_iff domIff)
    then have "dom fs1 = dom fs" by auto
    then have "fs1 = Map.empty \<longleftrightarrow> fs = Map.empty" by (metis dom_eq_empty_conv)
    then have "(r, fs') = (if fs = Map.empty then Ready None else Pending, fs1)"
      using assms(3) sc None by (simp add: fhm_poll_next_def split: if_splits)
    then show ?thesis
      using n fs1 by (auto simp: fhm_poll_spec_def split: if_splits)
  next
    case (Some kx)
    obtain k x where kx: "kx = (k, x)" by fastforce
    note n = fhm_scan_Some [OF sc [unfolded Some kx] keys(2)]
    have "r = Ready (Some x)" "fs' = fs1(k := None)"
      using assms(3) sc Some kx by (auto simp: fhm_poll_next_def)
    moreover obtain fut where "fs k = Some fut" "answers fut (Ready x)" using n by blast
    ultimately show ?thesis using n by (fastforce simp: fhm_poll_spec_def)
  qed
qed

section \<open>What one poll of the runner does\<close>

text \<open>
  \<open>started\<close> relates the slots before and after the loop: no running future is touched, and
  a slot that was free is still free or holds the future just created for its message.
\<close>

definition started :: "('m \<Rightarrow> 'r future) \<Rightarrow> ('m, 'r) future_hash_map \<Rightarrow> ('m, 'r) future_hash_map \<Rightarrow> bool" where
  "started run_msg sl sl' \<longleftrightarrow>
     (\<forall>m. sl' m = sl m \<or> (sl m = None \<and> sl' m = Some (run_msg m)))"

definition starved :: "instant \<Rightarrow> ('q, 'm, 'r, 'e) runner \<Rightarrow> bool" where
  "starved now rn \<longleftrightarrow>
     (\<exists>m. is_ready_to_execute rn \<and> slots rn m = None \<and>
        (view (run_scheduler rn) m = Held \<or> (\<exists>t \<le> now. view (run_scheduler rn) m = Due t)))"

definition ended :: "('q, 'm) scheduler \<Rightarrow> bool" where
  "ended s \<longleftrightarrow> requests s = [Ready None]"

definition loop_spec :: "instant \<Rightarrow> ('m \<Rightarrow> 'r future) \<Rightarrow> bool \<Rightarrow> ('q, 'm, 'r, 'e) runner
    \<Rightarrow> ('e runner_error + 'r) option poll \<Rightarrow> ('q, 'm, 'r, 'e) runner \<Rightarrow> bool" where
  "loop_spec now run_msg active rn r rn' \<longleftrightarrow>
     started run_msg (slots rn) (slots rn')
     \<and> (\<not> is_ready_to_execute rn \<longrightarrow> slots rn' = slots rn)
     \<and> is_ready_to_execute rn' = is_ready_to_execute rn \<and> stopped rn' = stopped rn
     \<and> ready_to_execute_after rn' = ready_to_execute_after rn
     \<and> (r = Pending \<and> \<not> starved now rn'
        \<or> ended (run_scheduler rn') \<and> r = (if active then Pending else Ready None))"

lemma started_refl: "started run_msg sl sl"
  by (simp add: started_def)

lemma started_insert:
  assumes "started run_msg (sl(m \<mapsto> run_msg m)) sl'" "sl m = None"
  shows "started run_msg sl sl'"
proof -
  have "sl' k = sl k \<or> (sl k = None \<and> sl' k = Some (run_msg k))" for k
    using assms by (cases "k = m") (auto simp: started_def dest: spec [of _ k])
  then show ?thesis by (simp add: started_def)
qed

lemma started_finite: "\<lbrakk>started run_msg sl sl'; finite (dom sl' - dom sl); finite (dom sl)\<rbrakk> \<Longrightarrow> finite (dom sl')"
  by (simp add: finite_Diff2)

lemma drain_requests_ended:
  "drain_requests E rs s = Inr (True, s') \<Longrightarrow> requests s' = [Ready None]"
  by (induction E rs s rule: drain_requests.induct) (auto simp: rbind_eq_Inr)

lemma taken_not_end:
  "(case res of Inl p \<Rightarrow> Inl p | Inr (Ready m, s) \<Rightarrow> Inr (Ready (Some m), s)
      | Inr (Pending, s) \<Rightarrow> Inr (Pending, s)) \<noteq> Inr (Ready None, s')"
  by (cases res) (auto split: poll.splits)

lemma hold_unless_ended:
  assumes "hold_unless_poll_next E now can s = Some (Inr (Ready None, s'))"
  shows "ended s'"
proof (cases "drain_requests E (requests s) s")
  case (Inl p)
  with assms show ?thesis by (simp add: hold_unless_poll_next_def)
next
  case (Inr b)
  then obtain e s1 where b: "drain_requests E (requests s) s = Inr (e, s1)" by fastforce
  show ?thesis
  proof (cases e)
    case True
    with assms b show ?thesis
      using drain_requests_ended by (fastforce simp: hold_unless_poll_next_def ended_def)
  next
    case False
    with assms b show ?thesis by (auto simp: hold_unless_poll_next_def taken_not_end)
  qed
qed

lemma pop_spec_Pending_stays:
  assumes "pop_spec now can v Pending v'"
  shows "\<not> takeable now can m (v' m)"
proof -
  have "v' m = hold_expired now can v m" and "\<not> takeable now can m (v m)"
    using assms by (auto simp: pop_spec_def)
  then show ?thesis
    by (auto simp: takeable_def hold_expired_def split: msg_state.splits if_splits)
qed

lemma poll_spec_Pending:
  "poll_spec now can reqs v Pending v' \<Longrightarrow> \<not> takeable now can m (v' m)"
  by (auto simp: poll_spec_def Let_def dest: pop_spec_Pending_stays [where m = m] split: if_splits)

lemma poll_spec_taken:
  "poll_spec now can reqs v (Ready (Some m)) v' \<Longrightarrow> can m"
  by (auto simp: poll_spec_def Let_def pop_spec_def takeable_def split: if_splits)

lemma not_starvedI:
  assumes "\<And>m. \<not> takeable now (runner_can_take rn) m (view s m)"
  shows "\<not> starved now (rn\<lparr>run_scheduler := s\<rparr>)"
  using assms by (auto simp: starved_def takeable_def runner_can_take_def fhm_contains_key_def)

definition runner_inv :: "('q \<Rightarrow> queue_key \<rightharpoonup> 'm \<times> instant) \<Rightarrow> ('q, 'm, 'r, 'e) runner \<Rightarrow> bool" where
  "runner_inv content rn \<longleftrightarrow> sched_inv content (run_scheduler rn) \<and> finite (dom (slots rn))"

text \<open>
  The runner needs of its scheduler only that a poll returns, keeps its invariant, takes a
  message only when it is allowed to, and makes progress when it takes one.
\<close>

context delay_queue
begin

lemma runner_loop_ok:
  assumes "runner_inv content rn"
  shows "\<exists>r rn'. runner_loop E now run_msg active rn = Some (Inr (r, rn'))
           \<and> runner_inv content rn' \<and> loop_spec now run_msg active rn r rn'"
  using assms
proof (induction "work (run_scheduler rn)" arbitrary: rn rule: less_induct)
  case less
  let ?s = "run_scheduler rn"
  have inv: "sched_inv content ?s" "finite (dom (slots rn))"
    using less.prems by (auto simp: runner_inv_def)
  obtain p s' where ps: "hold_unless_poll_next E now (runner_can_take rn) ?s = Some (Inr (p, s'))"
    "sched_inv content s'" "poll_spec now (runner_can_take rn) (requests ?s) (view ?s) p (view s')"
    using hold_unless_ok [OF inv(1)] by blast
  consider (msg) m where "p = Ready (Some m)" | (fin) "p = Ready None" | (pend) "p = Pending"
    by (metis option.exhaust poll.exhaust)
  then show ?case
  proof cases
    case msg
    let ?rn = "rn\<lparr>run_scheduler := s', slots := (slots rn)(m \<mapsto> run_msg m)\<rparr>"
    have can: "is_ready_to_execute rn" "slots rn m = None"
      using poll_spec_taken [OF ps(3) [unfolded msg]]
      by (auto simp: runner_can_take_def fhm_contains_key_def)
    have "work (run_scheduler ?rn) < work ?s"
      using hold_unless_progress [OF inv(1) ps(1) [unfolded msg]] by simp
    moreover have "runner_inv content ?rn" using ps(2) inv(2) by (simp add: runner_inv_def)
    ultimately obtain r rn' where rn': "runner_loop E now run_msg active ?rn = Some (Inr (r, rn'))"
      "runner_inv content rn'" "loop_spec now run_msg active ?rn r rn'"
      using less.hyps [of ?rn] by blast
    have "runner_loop E now run_msg active rn = runner_loop E now run_msg active ?rn"
      using ps(1) msg can by (subst runner_loop.simps) (simp add: fhm_insert_def)
    moreover have "loop_spec now run_msg active rn r rn'"
      using rn'(3) can by (auto simp: loop_spec_def intro: started_insert)
    ultimately show ?thesis using rn' by auto
  next
    case fin
    let ?rn = "rn\<lparr>run_scheduler := s'\<rparr>"
    have "runner_loop E now run_msg active rn = Some (Inr (if active then Pending else Ready None, ?rn))"
      using ps(1) fin by (subst runner_loop.simps) simp
    moreover have "runner_inv content ?rn" using ps(2) inv(2) by (simp add: runner_inv_def)
    moreover have "loop_spec now run_msg active rn (if active then Pending else Ready None) ?rn"
      using hold_unless_ended [OF ps(1) [unfolded fin]] by (simp add: loop_spec_def started_refl)
    ultimately show ?thesis by blast
  next
    case pend
    let ?rn = "rn\<lparr>run_scheduler := s'\<rparr>"
    have "runner_loop E now run_msg active rn = Some (Inr (Pending, ?rn))"
      using ps(1) pend by (subst runner_loop.simps) simp
    moreover have "runner_inv content ?rn" using ps(2) inv(2) by (simp add: runner_inv_def)
    moreover have "\<not> starved now ?rn"
      using poll_spec_Pending [OF ps(3) [unfolded pend]] by (rule not_starvedI)
    ultimately show ?thesis by (auto simp: loop_spec_def started_refl)
  qed
qed

end

text \<open>
  The contract of one poll. A running future stays in its slot, polled at most once, until
  its result is the one returned; a free slot stays free or gets the future of its message,
  and the latter only once the readiness future has completed.
\<close>

definition slot_kept :: "('e runner_error + 'r) option poll \<Rightarrow> 'r future \<Rightarrow> 'r future option \<Rightarrow> bool" where
  "slot_kept r fut after \<longleftrightarrow>
     after = Some fut \<or> after = Some (advance fut) \<and> answers fut Pending
     \<or> after = None \<and> (\<exists>x. r = Ready (Some (Inr x)) \<and> answers fut (Ready x))"

definition slots_spec :: "('m \<Rightarrow> 'r future) \<Rightarrow> ('q, 'm, 'r, 'e) runner
    \<Rightarrow> ('e runner_error + 'r) option poll \<Rightarrow> ('q, 'm, 'r, 'e) runner \<Rightarrow> bool" where
  "slots_spec run_msg rn r rn' \<longleftrightarrow>
     (\<forall>m. case slots rn m of
        Some fut \<Rightarrow> slot_kept r fut (slots rn' m)
      | None \<Rightarrow> slots rn' m = None \<or> slots rn' m = Some (run_msg m) \<and> is_ready_to_execute rn')"

lemma loop_spec_slots:
  assumes "fhm_poll_spec (slots rn) sp sl" "\<forall>x. sp \<noteq> Ready (Some x)"
    and "loop_spec now run_msg active rn1 r rn'" "slots rn1 = sl"
  shows "slots_spec run_msg rn r rn'"
proof -
  have pend: "answers fut Pending" "sl m = Some (advance fut)" if "slots rn m = Some fut" for m fut
    using assms(1,2) that by (auto simp: fhm_poll_spec_def split: poll.splits option.splits)
  have free: "sl m = None" if "slots rn m = None" for m
    using assms(1,2) that by (auto simp: fhm_poll_spec_def split: poll.splits option.splits)
  have st: "slots rn' m = sl m \<or> sl m = None \<and> slots rn' m = Some (run_msg m) \<and> is_ready_to_execute rn'" for m
    using assms(3,4) by (auto simp: loop_spec_def started_def)
  have "case slots rn m of Some fut \<Rightarrow> slot_kept r fut (slots rn' m)
      | None \<Rightarrow> slots rn' m = None \<or> slots rn' m = Some (run_msg m) \<and> is_ready_to_execute rn'" for m
    using pend [of m] free [of m] st [of m] by (cases "slots rn m") (auto simp: slot_kept_def)
  then show ?thesis by (simp add: slots_spec_def)
qed

lemma fhm_poll_slots:
  assumes "fhm_poll_spec (slots rn) (Ready (Some x)) sl"
  shows "slots_spec run_msg rn (Ready (Some (Inr x))) (rn\<lparr>slots := sl\<rparr>)"
proof -
  obtain k fut where k: "slots rn k = Some fut" "answers fut (Ready x)" "sl k = None"
    and oth: "\<And>j. j \<noteq> k \<Longrightarrow> sl j = slots rn j
        \<or> (\<exists>g. slots rn j = Some g \<and> answers g Pending \<and> sl j = Some (advance g))"
    using assms by (auto simp: fhm_poll_spec_def)
  let ?rn = "rn\<lparr>slots := sl\<rparr>"
  have "case slots rn m of Some fut \<Rightarrow> slot_kept (Ready (Some (Inr x))) fut (slots ?rn m)
      | None \<Rightarrow> slots ?rn m = None \<or> slots ?rn m = Some (run_msg m) \<and> is_ready_to_execute ?rn" for m
    using k oth [of m] by (cases "m = k"; cases "slots rn m") (auto simp: slot_kept_def)
  then show ?thesis unfolding slots_spec_def by blast
qed

lemma fhm_poll_finite:
  assumes "fhm_poll_spec fs r fs'" "finite (dom fs)"
  shows "finite (dom fs')"
proof (rule finite_subset [OF _ assms(2)])
  show "dom fs' \<subseteq> dom fs"
  proof
    fix m assume "m \<in> dom fs'"
    with assms(1) show "m \<in> dom fs"
      by (auto simp: fhm_poll_spec_def domIff split: poll.splits option.splits) (metis option.distinct(1))
  qed
qed


text \<open>
  \<open>RunnerPoll\<close>: the whole contract of one poll, by how it ended.
\<close>

definition runner_spec :: "instant \<Rightarrow> ('m \<Rightarrow> 'r future) \<Rightarrow> ('q, 'm, 'r, 'e) runner
    \<Rightarrow> ('e runner_error + 'r) option poll \<Rightarrow> ('q, 'm, 'r, 'e) runner \<Rightarrow> bool" where
  "runner_spec now run_msg rn r rn' \<longleftrightarrow>
     (if stopped rn then r = Ready None \<and> rn' = rn
      else slots_spec run_msg rn r rn' \<and>
        (case r of
           Ready (Some (Inr x)) \<Rightarrow> \<not> stopped rn' \<and> run_scheduler rn' = run_scheduler rn
             \<and> (\<exists>m fut. slots rn m = Some fut \<and> answers fut (Ready x) \<and> slots rn' m = None)
         | Ready (Some (Inl (Readiness e))) \<Rightarrow> stopped rn' \<and> run_scheduler rn' = run_scheduler rn
             \<and> fst (poll_fuse (ready_to_execute_after rn)) = Ready (Inl e)
         | Ready None \<Rightarrow> slots rn = Map.empty \<and> ended (run_scheduler rn')
         | Pending \<Rightarrow> \<not> stopped rn' \<and> (\<not> starved now rn' \<or> ended (run_scheduler rn') \<and> slots rn \<noteq> Map.empty)))"

context delay_queue
begin

lemma runner_loop_spec:
  assumes inv: "runner_inv content rn" and ord: "hash_order iter" and ns: "\<not> stopped rn"
    and sp: "fhm_poll_next iter (slots rn) = (sp, sl)" "\<forall>x. sp \<noteq> Ready (Some x)"
    and rn1: "run_scheduler rn1 = run_scheduler rn" "slots rn1 = sl" "\<not> stopped rn1"
  shows "\<exists>r rn'. runner_loop E now run_msg (sp = Pending) rn1 = Some (Inr (r, rn'))
           \<and> runner_inv content rn' \<and> runner_spec now run_msg rn r rn'"
proof -
  have fp: "fhm_poll_spec (slots rn) sp sl"
    using fhm_poll_ok [OF ord _ sp(1)] inv by (simp add: runner_inv_def)
  have "runner_inv content rn1"
    using inv rn1 fhm_poll_finite [OF fp] by (simp add: runner_inv_def)
  then obtain r rn' where rn': "runner_loop E now run_msg (sp = Pending) rn1 = Some (Inr (r, rn'))"
    "runner_inv content rn'" "loop_spec now run_msg (sp = Pending) rn1 r rn'"
    using runner_loop_ok by blast
  have "slots_spec run_msg rn r rn'"
    using loop_spec_slots [OF fp sp(2) rn'(3) rn1(2)] .
  moreover have "sp = Pending \<longleftrightarrow> slots rn \<noteq> Map.empty"
    using fp sp(2) by (auto simp: fhm_poll_spec_def split: poll.splits option.splits)
  ultimately have "runner_spec now run_msg rn r rn'"
    using rn'(3) ns rn1(3) by (auto simp: runner_spec_def loop_spec_def split: if_splits)
  with rn' show ?thesis by blast
qed

lemma runner_poll_ok:
  assumes inv: "runner_inv content rn" and ord: "hash_order iter"
  shows "\<exists>r rn'. runner_poll_next E iter now run_msg rn = Some (Inr (r, rn'))
           \<and> runner_inv content rn' \<and> runner_spec now run_msg rn r rn'"
proof (cases "stopped rn")
  case True
  then show ?thesis using inv by (simp add: runner_poll_next_def runner_spec_def)
next
  case ns: False
  obtain sp sl where sp: "fhm_poll_next iter (slots rn) = (sp, sl)" by fastforce
  have fp: "fhm_poll_spec (slots rn) sp sl"
    using fhm_poll_ok [OF ord _ sp] inv by (simp add: runner_inv_def)
  have fin: "finite (dom sl)" using fhm_poll_finite [OF fp] inv by (simp add: runner_inv_def)
  show ?thesis
  proof (cases "\<exists>x. sp = Ready (Some x)")
    case True
    then obtain x where x: "sp = Ready (Some x)" by blast
    have "runner_spec now run_msg rn (Ready (Some (Inr x))) (rn\<lparr>slots := sl\<rparr>)"
      using fhm_poll_slots [of rn x sl run_msg] fp ns x by (auto simp: runner_spec_def fhm_poll_spec_def)
    moreover have "runner_poll_next E iter now run_msg rn = Some (Inr (Ready (Some (Inr x)), rn\<lparr>slots := sl\<rparr>))"
      using ns sp x by (simp add: runner_poll_next_def)
    ultimately show ?thesis using inv fin by (auto simp: runner_inv_def)
  next
    case False
    then have nx: "\<forall>x. sp \<noteq> Ready (Some x)" by blast
    note loop = runner_loop_spec [OF inv ord ns sp nx]
    obtain g fut where g: "poll_fuse (ready_to_execute_after rn) = (g, fut)" by fastforce
    show ?thesis
    proof (cases "\<exists>e. g = Ready (Inl e)")
      case True
      then obtain e where e: "g = Ready (Inl e)" by blast
      let ?rn = "rn\<lparr>slots := sl, ready_to_execute_after := fut, stopped := True\<rparr>"
      have "runner_poll_next E iter now run_msg rn = Some (Inr (Ready (Some (Inl (Readiness e))), ?rn))"
        using ns sp nx g e by (cases sp) (auto simp: runner_poll_next_def Let_def split: option.splits)
      moreover have "runner_spec now run_msg rn (Ready (Some (Inl (Readiness e)))) ?rn"
        using fp ns nx g e
        by (auto simp: runner_spec_def fhm_poll_spec_def slots_spec_def slot_kept_def split: option.splits poll.splits)
      ultimately show ?thesis using inv fin by (auto simp: runner_inv_def)
    next
      case False
      define rn1 where "rn1 = (case g of Ready _ \<Rightarrow> rn\<lparr>slots := sl, ready_to_execute_after := fut, is_ready_to_execute := True\<rparr>
          | Pending \<Rightarrow> rn\<lparr>slots := sl, ready_to_execute_after := fut\<rparr>)"
      have "runner_poll_next E iter now run_msg rn = runner_loop E now run_msg (sp = Pending) rn1"
        using ns sp nx g False
        by (cases sp; cases g) (auto simp: runner_poll_next_def rn1_def Let_def split: option.splits sum.splits)
      then show ?thesis using loop [of rn1 now run_msg] ns by (auto simp: rn1_def split: poll.splits)
    qed
  qed
qed

end

section \<open>A run whose requests end late\<close>

lemma lq_runner_inv: "runner_inv lq_content (runner_new (scheduler_new [] rs))"
  using lq_new_inv by (simp add: runner_inv_def runner_new_def fhm_default_def)

definition late_end :: "nat schedule_request stream_script" where
  "late_end = [Ready (Some \<lparr>message = 7, req_run_at = 3\<rparr>), Pending, Ready None]"

lemma late_end_poll:
  "\<exists>rn'. runner_poll_next (lq_env sorted_list_of_set) sorted_list_of_set 5 (\<lambda>m. [Pending, Ready (m + 1)])
      (runner_new (scheduler_new [] late_end) :: (nat list_queue, nat, nat, unit) runner)
        = Some (Inr (Ready None, rn'))
    \<and> slots rn' 7 = Some [Pending, Ready 8]"
proof -
  let ?E = "lq_env sorted_list_of_set :: (nat list_queue, nat) sched_env"
  define s1 where "s1 = \<lparr>queue = [(Suc 0, 7 :: nat, 3 :: nat)], scheduled = [7 :: nat \<mapsto> \<lparr>run_at = 3, entry_queue_key = Suc 0\<rparr>],
      pending = {}, requests = [Ready None]\<rparr>"
  let ?s2 = "s1\<lparr>queue := [], scheduled := Map.empty\<rparr>"
  have drain: "drain_requests ?E late_end (scheduler_new [] late_end) = Inr (False, s1)"
    by (simp add: late_end_def scheduler_new_def schedule_message_def lq_env_def lq_insert_at_def s1_def)
  have pop: "pop_loop ?E 5 (\<lambda>m. True) s1 = Some (Inr (Ready 7, ?s2))"
    by (subst pop_loop.simps) (simp add: s1_def lq_env_def lq_poll_expired_def)
  have first: "hold_unless_poll_next ?E 5 (\<lambda>m. True) (scheduler_new [] late_end)
      = Some (Inr (Ready (Some 7), ?s2))"
    using drain pop
    by (simp add: hold_unless_poll_next_def poll_pop_queue_message_def s1_def lq_env_def scheduler_new_def)
  have second: "hold_unless_poll_next ?E 5 can ?s2 = Some (Inr (Ready None, ?s2))" for can
    by (simp add: hold_unless_poll_next_def s1_def)
  have can: "runner_can_take (rn :: (nat list_queue, nat, nat, unit) runner) = (\<lambda>m. True)"
    if "slots rn = Map.empty" "is_ready_to_execute rn" for rn
    using that by (simp add: runner_can_take_def fhm_contains_key_def fun_eq_iff)
  show ?thesis
    apply (simp add: runner_poll_next_def runner_new_def fhm_default_def fhm_poll_next_def)
    apply (subst runner_loop.simps)
    apply (simp add: can first fhm_insert_def)
    apply (subst runner_loop.simps)
    apply (simp add: second)
    done
qed

section \<open>Properties\<close>



text \<open>
  C9: no message runs twice at once and no run is lost. Whatever a poll answers, the future
  of a running message is afterwards the same one, possibly polled once, or it is gone and
  its result is exactly what the poll returned; and a message without a future gets one only
  when the readiness gate has opened.
\<close>

theorem runner_never_replaces:
  assumes "delay_queue E content" and "hash_order iter" and "runner_inv content rn"
    and "runner_poll_next E iter now run_msg rn = Some (Inr (r, rn'))"
  shows "(slots rn m = Some fut \<longrightarrow>
            slots rn' m = Some fut \<or> slots rn' m = Some (advance fut)
            \<or> slots rn' m = None \<and> (\<exists>x. r = Ready (Some (Inr x)) \<and> fst (poll_future fut) = Ready x))
       \<and> (slots rn m = None \<and> slots rn' m \<noteq> None \<longrightarrow>
            slots rn' m = Some (run_msg m) \<and> is_ready_to_execute rn')"
proof -
  have spec: "runner_spec now run_msg rn r rn'"
    using delay_queue.runner_poll_ok [OF assms(1,3,2), of now run_msg] assms(4) by auto
  show ?thesis
  proof (cases "stopped rn")
    case True
    with spec show ?thesis by (auto simp: runner_spec_def)
  next
    case False
    with spec have "slots_spec run_msg rn r rn'" by (simp add: runner_spec_def)
    then have "case slots rn m of Some fut \<Rightarrow> slot_kept r fut (slots rn' m)
        | None \<Rightarrow> slots rn' m = None \<or> slots rn' m = Some (run_msg m) \<and> is_ready_to_execute rn'"
      by (simp add: slots_spec_def)
    then show ?thesis by (auto simp: slot_kept_def answers_def)
  qed
qed

theorem runner_never_replaces_witness:
  "\<exists>rn'. runner_poll_next (lq_env sorted_list_of_set) sorted_list_of_set 5 (\<lambda>m. [Pending, Ready (m + 1)])
      (runner_new (scheduler_new [] late_end) :: (nat list_queue, nat, nat, unit) runner)
        = Some (Inr (Ready None, rn')) \<and> is_ready_to_execute rn'"
proof -
  let ?rn = "runner_new (scheduler_new [] late_end) :: (nat list_queue, nat, nat, unit) runner"
  obtain rn' where rn': "runner_poll_next (lq_env sorted_list_of_set) sorted_list_of_set 5 (\<lambda>m. [Pending, Ready (m + 1)]) ?rn
      = Some (Inr (Ready None, rn'))" "slots rn' 7 = Some [Pending, Ready 8]"
    using late_end_poll by blast
  have "slots ?rn 7 = None" by (simp add: runner_new_def fhm_default_def)
  with runner_never_replaces [OF lq.delay_queue_axioms sorted_order.hash_order_axioms lq_runner_inv rn'(1), of 7] rn'
  show ?thesis by simp
qed

text \<open>
  the readiness gate. An error of the readiness future is returned once as
  \<open>Error::Readiness\<close>, and from then on the runner's stream has ended; while the gate is
  closed no message is started.
\<close>

theorem runner_readiness_gate:
  assumes "slots rn = Map.empty" and "\<not> stopped rn" and "iter {} = []"
    and "ready_to_execute_after rn = Ready (Inl err) # rest"
  shows "\<exists>rn'. runner_poll_next E iter now run_msg rn = Some (Inr (Ready (Some (Inl (Readiness err))), rn'))
           \<and> slots rn' = Map.empty
           \<and> runner_poll_next E iter' later run_msg' rn' = Some (Inr (Ready None, rn'))"
  using assms by (auto simp: runner_poll_next_def fhm_poll_next_def)

theorem runner_readiness_gate_witness:
  "\<exists>rn'. runner_poll_next (lq_env sorted_list_of_set) sorted_list_of_set 5 (\<lambda>m. [Ready (m + 1)])
      (delay_tasks_until (runner_new (scheduler_new [] [Ready (Some \<lparr>message = (7::nat), req_run_at = 3\<rparr>)])
          :: (nat list_queue, nat, nat, unit) runner) [Ready (Inl ''store writer dropped'')])
        = Some (Inr (Ready (Some (Inl (Readiness ''store writer dropped''))), rn')) \<and> slots rn' = Map.empty"
  using runner_readiness_gate [where E = "lq_env sorted_list_of_set" and now = 5 and run_msg = "\<lambda>m. [Ready (m + 1)]"
      and rn = "delay_tasks_until (runner_new (scheduler_new [] [Ready (Some \<lparr>message = (7::nat), req_run_at = 3\<rparr>)])
          :: (nat list_queue, nat, nat, unit) runner) [Ready (Inl ''store writer dropped'')]"
      and iter = sorted_list_of_set and err = "''store writer dropped''" and rest = "[]"]
  by (simp add: delay_tasks_until_def runner_new_def fhm_default_def) blast

text \<open>
  the end of the stream can abandon a running future. Whether futures are running is
  read before the loop that starts new ones, so when the scheduler hands out a message and
  then reports its end within the same poll, the runner answers that its stream has ended
  although the future it has just started is still in its slot.
\<close>

theorem runner_ends_with_running_future:
  "\<exists>rn'. runner_poll_next (lq_env sorted_list_of_set) sorted_list_of_set 5 (\<lambda>m. [Pending, Ready (m + 1)])
      (runner_new (scheduler_new [] late_end) :: (nat list_queue, nat, nat, unit) runner)
        = Some (Inr (Ready None, rn'))
    \<and> slots rn' 7 = Some [Pending, Ready 8]"
  by (rule late_end_poll)

end
