(* ===== verification/Rt_Watcher.thy ===== *)
theory Rt_Watcher
  imports Core_Params Core_Resource
begin

text \<open>
  \<open>kube-runtime/src/watcher.rs\<close>: the state machine that lists a resource, watches it from
  the listed version on and recovers from errors. The API it calls is a parameter with a
  state of its own; a watch stream is the list of the items it still delivers, at whose end
  the connection is closed. \<open>meta\<close> is \<open>Resource::meta\<close> of the watched type. A missing
  \<open>metadata.resourceVersion\<close> of a watched object is a panic (\<open>unwrap\<close>), and a trampoline
  that never gets an event is \<open>None\<close>.
\<close>

section \<open>Data\<close>

datatype client_error = CApi error_response | COther string

datatype watcher_error =
    InitialListFailed client_error
  | WatchStartFailed client_error
  | WatchError error_response
  | WatchFailed client_error
  | NoResourceVersion
  | TooManyObjects

datatype 'k event = Applied 'k | Deleted 'k | Restarted "'k list"

fun into_iter_applied :: "'k event \<Rightarrow> 'k list" where
  "into_iter_applied (Applied obj) = [obj]"
| "into_iter_applied (Deleted _) = []"
| "into_iter_applied (Restarted objs) = objs"

fun into_iter_touched :: "'k event \<Rightarrow> 'k list" where
  "into_iter_touched (Applied obj) = [obj]"
| "into_iter_touched (Deleted obj) = [obj]"
| "into_iter_touched (Restarted objs) = objs"

fun event_modify :: "('k \<Rightarrow> 'k) \<Rightarrow> 'k event \<Rightarrow> 'k event" where
  "event_modify f (Applied obj) = Applied (f obj)"
| "event_modify f (Deleted obj) = Deleted (f obj)"
| "event_modify f (Restarted objs) = Restarted (map f objs)"

type_synonym 'k watch_stream = "(client_error + 'k watch_event) list"

datatype 'k wstate =
    Empty
  | InitListed (rv_of: string)
  | Watching (rv_of: string) "'k watch_stream"

datatype list_semantic = MostRecent | AnyVersion

record watcher_config =
  wc_label_selector :: "string option"
  wc_field_selector :: "string option"
  wc_timeout :: "u32 option"
  wc_list_semantic :: list_semantic
  wc_bookmarks :: bool

definition config_default :: watcher_config where
  "config_default = \<lparr>wc_label_selector = None, wc_field_selector = None, wc_timeout = None,
     wc_list_semantic = MostRecent, wc_bookmarks = True\<rparr>"

definition wc_set_timeout :: "watcher_config \<Rightarrow> u32 \<Rightarrow> watcher_config" where
  "wc_set_timeout wc timeout_secs = wc\<lparr>wc_timeout := Some timeout_secs\<rparr>"

definition wc_fields :: "watcher_config \<Rightarrow> string \<Rightarrow> watcher_config" where
  "wc_fields wc field_selector = wc\<lparr>wc_field_selector := Some field_selector\<rparr>"

definition wc_labels :: "watcher_config \<Rightarrow> string \<Rightarrow> watcher_config" where
  "wc_labels wc label_selector = wc\<lparr>wc_label_selector := Some label_selector\<rparr>"

definition wc_set_list_semantic :: "watcher_config \<Rightarrow> list_semantic \<Rightarrow> watcher_config" where
  "wc_set_list_semantic wc semantic = wc\<lparr>wc_list_semantic := semantic\<rparr>"

definition wc_any_semantic :: "watcher_config \<Rightarrow> watcher_config" where
  "wc_any_semantic wc = wc_set_list_semantic wc AnyVersion"

definition wc_disable_bookmarks :: "watcher_config \<Rightarrow> watcher_config" where
  "wc_disable_bookmarks wc = wc\<lparr>wc_bookmarks := False\<rparr>"

definition to_list_params :: "watcher_config \<Rightarrow> list_params" where
  "to_list_params wc =
     (let (resource_version, version_match) =
            (case wc_list_semantic wc of
               AnyVersion \<Rightarrow> (Some ''0'', Some NotOlderThan)
             | MostRecent \<Rightarrow> (None, None)) in
      \<lparr>lp_label_selector = wc_label_selector wc, lp_field_selector = wc_field_selector wc,
       lp_timeout = wc_timeout wc, lp_limit = None, lp_continue_token = None,
       lp_version_match = version_match, lp_resource_version = resource_version\<rparr>)"

definition to_watch_params :: "watcher_config \<Rightarrow> watch_params" where
  "to_watch_params wc = \<lparr>wp_label_selector = wc_label_selector wc,
     wp_field_selector = wc_field_selector wc, wp_timeout = wc_timeout wc, wp_bookmarks = wc_bookmarks wc\<rparr>"

section \<open>The API the watcher calls\<close>

record ('s, 'k) api_mode =
  am_list :: "'s \<Rightarrow> list_params \<Rightarrow> (client_error + 'k object_list) \<times> 's"
  am_watch :: "'s \<Rightarrow> watch_params \<Rightarrow> string \<Rightarrow> (client_error + 'k watch_stream) \<times> 's"

record ('s, 'k) api =
  api_list :: "'s \<Rightarrow> list_params \<Rightarrow> (client_error + 'k object_list) \<times> 's"
  api_watch :: "'s \<Rightarrow> watch_params \<Rightarrow> string \<Rightarrow> (client_error + 'k watch_stream) \<times> 's"
  api_list_metadata :: "'s \<Rightarrow> list_params \<Rightarrow> (client_error + partial_object_meta object_list) \<times> 's"
  api_watch_metadata :: "'s \<Rightarrow> watch_params \<Rightarrow> string \<Rightarrow> (client_error + partial_object_meta watch_stream) \<times> 's"

definition full_object :: "('s, 'k) api \<Rightarrow> ('s, 'k) api_mode" where
  "full_object a = \<lparr>am_list = api_list a, am_watch = api_watch a\<rparr>"

definition meta_only :: "('s, 'k) api \<Rightarrow> ('s, partial_object_meta) api_mode" where
  "meta_only a = \<lparr>am_list = api_list_metadata a, am_watch = api_watch_metadata a\<rparr>"

section \<open>Steps\<close>

datatype watch_panic = MissingResourceVersion

definition step_trampolined ::
  "('s, 'k) api_mode \<Rightarrow> ('k \<Rightarrow> object_meta) \<Rightarrow> watcher_config \<Rightarrow> 'k wstate \<Rightarrow> 's
     \<Rightarrow> watch_panic + (watcher_error + 'k event) option \<times> 'k wstate \<times> 's" where
  "step_trampolined A meta wc state s =
     (case state of
        Empty \<Rightarrow>
          (case am_list A s (to_list_params wc) of
             (Inr list, s') \<Rightarrow>
               (case lm_resource_version (ol_metadata list) of
                  Some resource_version \<Rightarrow> Inr (Some (Inr (Restarted (ol_items list))), InitListed resource_version, s')
                | None \<Rightarrow> Inr (Some (Inl NoResourceVersion), Empty, s'))
           | (Inl err, s') \<Rightarrow> Inr (Some (Inl (InitialListFailed err)), Empty, s'))
      | InitListed resource_version \<Rightarrow>
          (case am_watch A s (to_watch_params wc) resource_version of
             (Inr stream, s') \<Rightarrow> Inr (None, Watching resource_version stream, s')
           | (Inl err, s') \<Rightarrow> Inr (Some (Inl (WatchStartFailed err)), InitListed resource_version, s'))
      | Watching resource_version stream \<Rightarrow>
          (case stream of
             [] \<Rightarrow> Inr (None, InitListed resource_version, s)
           | item # rest \<Rightarrow>
               (case item of
                  Inr (WAdded obj) \<Rightarrow>
                    (case m_resource_version (meta obj) of
                       None \<Rightarrow> Inl MissingResourceVersion
                     | Some rv \<Rightarrow> Inr (Some (Inr (Applied obj)), Watching rv rest, s))
                | Inr (WModified obj) \<Rightarrow>
                    (case m_resource_version (meta obj) of
                       None \<Rightarrow> Inl MissingResourceVersion
                     | Some rv \<Rightarrow> Inr (Some (Inr (Applied obj)), Watching rv rest, s))
                | Inr (WDeleted obj) \<Rightarrow>
                    (case m_resource_version (meta obj) of
                       None \<Rightarrow> Inl MissingResourceVersion
                     | Some rv \<Rightarrow> Inr (Some (Inr (Deleted obj)), Watching rv rest, s))
                | Inr (WBookmark bm) \<Rightarrow> Inr (None, Watching (bm_resource_version bm) rest, s)
                | Inr (WError err) \<Rightarrow>
                    Inr (Some (Inl (WatchError err)),
                         if er_code err = 410 then Empty else Watching resource_version rest, s)
                | Inl err \<Rightarrow> Inr (Some (Inl (WatchFailed err)), Watching resource_version rest, s))))"

partial_function (option) watcher_step ::
  "('s, 'k) api_mode \<Rightarrow> ('k \<Rightarrow> object_meta) \<Rightarrow> watcher_config \<Rightarrow> 'k wstate \<Rightarrow> 's
     \<Rightarrow> (watch_panic + (watcher_error + 'k event) \<times> 'k wstate \<times> 's) option" where
  "watcher_step A meta wc state s =
     (case step_trampolined A meta wc state s of
        Inl p \<Rightarrow> Some (Inl p)
      | Inr (Some result, new_state, s') \<Rightarrow> Some (Inr (result, new_state, s'))
      | Inr (None, new_state, s') \<Rightarrow> watcher_step A meta wc new_state s')"

text \<open>
  \<open>watcher\<close> and \<open>metadata_watcher\<close> unfold \<open>step\<close> from \<open>Empty\<close>: the first \<open>n\<close> items of the
  stream, with the state they leave.
\<close>

primrec unfold_steps ::
  "('s, 'k) api_mode \<Rightarrow> ('k \<Rightarrow> object_meta) \<Rightarrow> watcher_config \<Rightarrow> nat \<Rightarrow> 'k wstate \<Rightarrow> 's
     \<Rightarrow> (watch_panic + (watcher_error + 'k event) list \<times> 'k wstate \<times> 's) option" where
  "unfold_steps A meta wc 0 state s = Some (Inr ([], state, s))"
| "unfold_steps A meta wc (Suc n) state s =
     (case watcher_step A meta wc state s of
        None \<Rightarrow> None
      | Some (Inl p) \<Rightarrow> Some (Inl p)
      | Some (Inr (result, state', s')) \<Rightarrow>
          map_option (map_sum id (\<lambda>(results, rest). (result # results, rest)))
            (unfold_steps A meta wc n state' s'))"

definition watcher :: "('s, 'k) api \<Rightarrow> ('k \<Rightarrow> object_meta) \<Rightarrow> watcher_config \<Rightarrow> nat \<Rightarrow> 's
     \<Rightarrow> (watch_panic + (watcher_error + 'k event) list \<times> 'k wstate \<times> 's) option" where
  "watcher a meta wc n s = unfold_steps (full_object a) meta wc n Empty s"

definition metadata_watcher :: "('s, 'k) api \<Rightarrow> watcher_config \<Rightarrow> nat \<Rightarrow> 's
     \<Rightarrow> (watch_panic + (watcher_error + partial_object_meta event) list \<times> partial_object_meta wstate \<times> 's) option" where
  "metadata_watcher a wc n s = unfold_steps (meta_only a) pom_metadata wc n Empty s"

fun watch_object_item :: "watcher_error + 'k event \<Rightarrow> watcher_error + 'k option" where
  "watch_object_item (Inl e) = Inl e"
| "watch_object_item (Inr (Deleted _)) = Inr None"
| "watch_object_item (Inr (Restarted objs)) =
     (if length objs > 1 then Inl TooManyObjects
      else Inr (if objs = [] then None else Some (last objs)))"
| "watch_object_item (Inr (Applied obj)) = Inr (Some obj)"

definition watch_object :: "('s, 'k) api \<Rightarrow> ('k \<Rightarrow> object_meta) \<Rightarrow> string \<Rightarrow> nat \<Rightarrow> 's
     \<Rightarrow> (watch_panic + (watcher_error + 'k option) list \<times> 'k wstate \<times> 's) option" where
  "watch_object a meta name n s =
     map_option (map_sum id (\<lambda>(results, rest). (map watch_object_item results, rest)))
       (watcher a meta (wc_fields config_default (''metadata.name='' @ name)) n s)"

section \<open>Reasoning about steps\<close>

lemma watcher_step_induct [consumes 1, case_names panic item skip]:
  fixes A :: "('s, 'k) api_mode" and meta :: "'k \<Rightarrow> object_meta"
  assumes "watcher_step A meta wc state s = Some r"
    and panic: "\<And>state s p. step_trampolined A meta wc state s = Inl p \<Longrightarrow> P state s (Inl p)"
    and item: "\<And>state s result state' s'. step_trampolined A meta wc state s = Inr (Some result, state', s')
                 \<Longrightarrow> P state s (Inr (result, state', s'))"
    and skip: "\<And>state s state' s' r. \<lbrakk>step_trampolined A meta wc state s = Inr (None, state', s'); P state' s' r\<rbrakk>
                 \<Longrightarrow> P state s r"
  shows "P state s r"
proof -
  have "A = A \<longrightarrow> meta = meta \<longrightarrow> wc = wc \<longrightarrow> P state s r"
    using assms(1)
  proof (rule watcher_step.raw_induct [where P = "\<lambda>A' meta' wc' state s r. A' = A \<longrightarrow> meta' = meta \<longrightarrow> wc' = wc \<longrightarrow> P state s r", rotated])
    fix f :: "('s, 'k) api_mode \<Rightarrow> ('k \<Rightarrow> object_meta) \<Rightarrow> watcher_config \<Rightarrow> 'k wstate \<Rightarrow> 's
        \<Rightarrow> (watch_panic + (watcher_error + 'k event) \<times> 'k wstate \<times> 's) option"
      and A' meta' wc' state s r
    assume ih: "\<And>A' meta' wc' state s r. f A' meta' wc' state s = Some r \<Longrightarrow>
        A' = A \<longrightarrow> meta' = meta \<longrightarrow> wc' = wc \<longrightarrow> P state s r"
      and eq: "(case step_trampolined A' meta' wc' state s of Inl p \<Rightarrow> Some (Inl p)
          | Inr (None, new_state, s') \<Rightarrow> f A' meta' wc' new_state s'
          | Inr (Some result, new_state, s') \<Rightarrow> Some (Inr (result, new_state, s'))) = Some r"
    show "A' = A \<longrightarrow> meta' = meta \<longrightarrow> wc' = wc \<longrightarrow> P state s r"
      using eq ih panic item skip by (auto split: sum.splits option.splits prod.splits)
  qed
  then show ?thesis by simp
qed

definition bookmark_item :: "client_error + 'k watch_event \<Rightarrow> bool" where
  "bookmark_item item \<longleftrightarrow> (\<exists>bm. item = Inr (WBookmark bm))"

definition bookmarks_then :: "string \<Rightarrow> bookmark list \<Rightarrow> string" where
  "bookmarks_then rv bms = (if bms = [] then rv else bm_resource_version (last bms))"

lemma step_bookmarks:
  "watcher_step A meta wc (Watching rv (map (Inr \<circ> WBookmark) bms @ rest)) s
     = watcher_step A meta wc (Watching (bookmarks_then rv bms) rest) s"
proof (induction bms arbitrary: rv)
  case Nil
  then show ?case by (simp add: bookmarks_then_def)
next
  case (Cons bm bms)
  have "watcher_step A meta wc (Watching rv (map (Inr \<circ> WBookmark) (bm # bms) @ rest)) s
      = watcher_step A meta wc (Watching (bm_resource_version bm) (map (Inr \<circ> WBookmark) bms @ rest)) s"
    by (subst watcher_step.simps) (simp add: step_trampolined_def)
  also have "\<dots> = watcher_step A meta wc (Watching (bookmarks_then (bm_resource_version bm) bms) rest) s"
    by (rule Cons.IH)
  also have "bookmarks_then (bm_resource_version bm) bms = bookmarks_then rv (bm # bms)"
    by (simp add: bookmarks_then_def)
  finally show ?case .
qed

lemma step_item_returns: "\<not> bookmark_item item \<Longrightarrow> \<exists>r. watcher_step A meta wc (Watching rv (item # rest)) s = Some r"
  by (subst watcher_step.simps)
    (auto simp: step_trampolined_def bookmark_item_def split: sum.splits watch_event.splits option.splits)

lemma stream_returns:
  "\<exists>item \<in> set st. \<not> bookmark_item item \<Longrightarrow> \<exists>r. watcher_step A meta wc (Watching rv st) s = Some r"
proof (induction st arbitrary: rv)
  case (Cons item st)
  show ?case
  proof (cases "bookmark_item item")
    case True
    then obtain bm where "item = Inr (WBookmark bm)" by (auto simp: bookmark_item_def)
    then show ?thesis using step_bookmarks [of A meta wc rv "[bm]" st s] Cons True
      by (auto simp: bookmarks_then_def)
  next
    case False
    then show ?thesis by (rule step_item_returns)
  qed
qed simp

definition unreachable_api :: "(unit, object_meta) api" where
  "unreachable_api = \<lparr>api_list = (\<lambda>s lp. (Inl (COther ''unreachable''), s)),
     api_watch = (\<lambda>s wp rv. (Inl (COther ''unreachable''), s)),
     api_list_metadata = (\<lambda>s lp. (Inl (COther ''unreachable''), s)),
     api_watch_metadata = (\<lambda>s wp rv. (Inl (COther ''unreachable''), s))\<rparr>"

section \<open>Properties\<close>

text \<open>
  what one step of the watcher does with a running watch. Bookmarks are absorbed and
  only move the resource version; an object event is emitted and moves it to the object's
  version; a \<open>410 Gone\<close> error discards the watch so that the next step lists again; every
  other error is emitted and keeps both the version and the rest of the stream; and when the
  stream ends the watch is resumed at the last version seen.
\<close>

theorem watching_step:
  "watcher_step A meta wc (Watching rv (map (Inr \<circ> WBookmark) bms)) s
     = watcher_step A meta wc (InitListed (bookmarks_then rv bms)) s
   \<and> (m_resource_version (meta obj) = Some v \<longrightarrow>
        watcher_step A meta wc (Watching rv (map (Inr \<circ> WBookmark) bms @ Inr (WAdded obj) # rest)) s
          = Some (Inr (Inr (Applied obj), Watching v rest, s))
        \<and> watcher_step A meta wc (Watching rv (map (Inr \<circ> WBookmark) bms @ Inr (WModified obj) # rest)) s
          = Some (Inr (Inr (Applied obj), Watching v rest, s))
        \<and> watcher_step A meta wc (Watching rv (map (Inr \<circ> WBookmark) bms @ Inr (WDeleted obj) # rest)) s
          = Some (Inr (Inr (Deleted obj), Watching v rest, s)))
   \<and> watcher_step A meta wc (Watching rv (map (Inr \<circ> WBookmark) bms @ Inr (WError err) # rest)) s
        = Some (Inr (Inl (WatchError err),
                     if er_code err = 410 then Empty else Watching (bookmarks_then rv bms) rest, s))
   \<and> watcher_step A meta wc (Watching rv (map (Inr \<circ> WBookmark) bms @ Inl cerr # rest)) s
        = Some (Inr (Inl (WatchFailed cerr), Watching (bookmarks_then rv bms) rest, s))"
proof -
  have closed: "watcher_step A meta wc (Watching v' []) s = watcher_step A meta wc (InitListed v') s" for v'
    by (subst watcher_step.simps) (simp add: step_trampolined_def)
  have one: "watcher_step A meta wc (Watching v' (item # rest)) s = Some (Inr (r, st', s))"
    if "step_trampolined A meta wc (Watching v' (item # rest)) s = Inr (Some r, st', s)" for v' item r st'
    using that by (subst watcher_step.simps) simp
  show ?thesis
    using step_bookmarks [of A meta wc rv bms "[]" s]
    by (auto simp: step_bookmarks closed intro!: one simp: step_trampolined_def)
qed

theorem watching_step_witness:
  "watcher_step (full_object unreachable_api) (\<lambda>m. m) config_default
      (Watching ''1'' (map (Inr \<circ> WBookmark) [] @ [Inr (WAdded (object_meta_default\<lparr>m_resource_version := Some ''2''\<rparr>))])) ()
    = Some (Inr (Inr (Applied (object_meta_default\<lparr>m_resource_version := Some ''2''\<rparr>)), Watching ''2'' [], ()))"
  using watching_step [where A = "full_object unreachable_api" and meta = "\<lambda>m. m" and wc = config_default and rv = "''1''"
      and bms = "[]" and rest = "[]" and s = "()" and v = "''2''"
      and obj = "object_meta_default\<lparr>m_resource_version := Some ''2''\<rparr>"]
  by simp



text \<open>
  the parameters a watcher sends. The list parameters made from a configuration always
  pass validation and never page; the watch parameters pass validation exactly when the
  configured timeout is below 295 seconds, so with a larger timeout the watcher lists and
  then fails to start its watch; both carry the configured selectors.
\<close>

theorem config_params:
  "list_validate (to_list_params wc) = Inr ()
   \<and> lp_limit (to_list_params wc) = None \<and> lp_continue_token (to_list_params wc) = None
   \<and> (watch_validate (to_watch_params wc) = Inr () \<longleftrightarrow> (case wc_timeout wc of None \<Rightarrow> True | Some t \<Rightarrow> t < 295))
   \<and> lp_label_selector (to_list_params wc) = wp_label_selector (to_watch_params wc)
   \<and> lp_field_selector (to_list_params wc) = wp_field_selector (to_watch_params wc)"
  by (auto simp: to_list_params_def to_watch_params_def list_validate_def watch_validate_def Let_def
      split: list_semantic.splits option.splits)

end
