(* ===== verification/Rt_Reflector.thy ===== *)
theory Rt_Reflector
  imports Rt_Watcher
begin

text \<open>
  \<open>kube-runtime/src/reflector\<close>: object references, the writer and the readers of the
  object store, and the reflector that feeds a watcher's events to a store. References are
  compared without their \<open>extra\<close> part, so the store is a map over the remaining part (the
  \<open>ref_key\<close>). The store behind the shared lock is the explicit state of the writer, and a
  reader handle is that state. An object without a name panics (\<open>None\<close>).
\<close>

section \<open>Object references\<close>

record extra =
  ex_resource_version :: "string option"
  ex_uid :: "string option"

record 'dt kref =
  kr_dyntype :: 'dt
  kr_name :: string
  kr_namespace :: "string option"
  kr_extra :: extra

definition extra_default :: extra where
  "extra_default = \<lparr>ex_resource_version = None, ex_uid = None\<rparr>"

definition from_obj_meta :: "object_meta \<Rightarrow> extra" where
  "from_obj_meta meta = \<lparr>ex_resource_version = m_resource_version meta, ex_uid = m_uid meta\<rparr>"

definition kref_new_with :: "string \<Rightarrow> 'dt \<Rightarrow> 'dt kref" where
  "kref_new_with n dt = \<lparr>kr_dyntype = dt, kr_name = n, kr_namespace = None, kr_extra = extra_default\<rparr>"

definition kref_within :: "'dt kref \<Rightarrow> string \<Rightarrow> 'dt kref" where
  "kref_within r ns = r\<lparr>kr_namespace := Some ns\<rparr>"

definition from_obj_with :: "object_meta \<Rightarrow> 'dt \<Rightarrow> 'dt kref option" where
  "from_obj_with meta dt = map_option (\<lambda>n. \<lparr>kr_dyntype = dt, kr_name = n,
     kr_namespace = m_namespace meta, kr_extra = from_obj_meta meta\<rparr>) (name_unchecked meta)"

definition from_owner_ref :: "'dt resource_class \<Rightarrow> string option \<Rightarrow> owner_reference \<Rightarrow> 'dt \<Rightarrow> 'dt kref option" where
  "from_owner_ref K ns owner dt =
     (if or_api_version owner = api_version_of K dt \<and> or_kind owner = kind_of K dt
      then Some \<lparr>kr_dyntype = dt, kr_name = or_name owner, kr_namespace = ns,
                 kr_extra = \<lparr>ex_resource_version = None, ex_uid = Some (or_uid owner)\<rparr>\<rparr>
      else None)"

definition into_kind_unchecked :: "'dt kref \<Rightarrow> 'dt2 \<Rightarrow> 'dt2 kref" where
  "into_kind_unchecked r dt2 = \<lparr>kr_dyntype = dt2, kr_name = kr_name r, kr_namespace = kr_namespace r,
     kr_extra = kr_extra r\<rparr>"

definition kref_erase :: "'dt resource_class \<Rightarrow> 'dt kref \<Rightarrow> api_resource kref" where
  "kref_erase K r = \<lparr>kr_dyntype = erase K (kr_dyntype r), kr_name = kr_name r,
     kr_namespace = kr_namespace r, kr_extra = kr_extra r\<rparr>"

definition to_object_reference :: "'dt resource_class \<Rightarrow> 'dt kref \<Rightarrow> object_reference" where
  "to_object_reference K r = \<lparr>oref_api_version = Some (api_version_of K (kr_dyntype r)),
     oref_field_path = None, oref_kind = Some (kind_of K (kr_dyntype r)), oref_name = Some (kr_name r),
     oref_namespace = kr_namespace r, oref_resource_version = ex_resource_version (kr_extra r),
     oref_uid = ex_uid (kr_extra r)\<rparr>"

definition kref_display :: "'dt resource_class \<Rightarrow> 'dt kref \<Rightarrow> string" where
  "kref_display K r = kind_of K (kr_dyntype r) @ ''.'' @ version_of K (kr_dyntype r) @ ''.''
     @ group_of K (kr_dyntype r) @ ''/'' @ kr_name r
     @ (case kr_namespace r of None \<Rightarrow> [] | Some ns \<Rightarrow> ''.'' @ ns)"

text \<open>Equality and hashing skip \<open>extra\<close>.\<close>

type_synonym 'dt ref_key = "'dt \<times> string \<times> string option"

definition key_of :: "'dt kref \<Rightarrow> 'dt ref_key" where
  "key_of r = (kr_dyntype r, kr_name r, kr_namespace r)"

definition kref_eq :: "'dt kref \<Rightarrow> 'dt kref \<Rightarrow> bool" where
  "kref_eq a b = (key_of a = key_of b)"

section \<open>The store\<close>

type_synonym ('dt, 'k) cache = "'dt ref_key \<rightharpoonup> 'k"

record ('dt, 'k) store_writer =
  w_store :: "('dt, 'k) cache"
  w_dyntype :: 'dt
  w_ready_tx :: bool
  w_ready :: bool

definition writer_new :: "'dt \<Rightarrow> ('dt, 'k) store_writer" where
  "writer_new dt = \<lparr>w_store = Map.empty, w_dyntype = dt, w_ready_tx = True, w_ready = False\<rparr>"

definition obj_key :: "('k \<Rightarrow> object_meta) \<Rightarrow> 'dt \<Rightarrow> 'k \<Rightarrow> 'dt ref_key option" where
  "obj_key meta dt obj = map_option key_of (from_obj_with (meta obj) dt)"

fun collect_objs :: "('k \<Rightarrow> object_meta) \<Rightarrow> 'dt \<Rightarrow> 'k list \<Rightarrow> ('dt, 'k) cache \<Rightarrow> ('dt, 'k) cache option" where
  "collect_objs meta dt [] m = Some m"
| "collect_objs meta dt (obj # objs) m =
     (case obj_key meta dt obj of None \<Rightarrow> None | Some key \<Rightarrow> collect_objs meta dt objs (m(key \<mapsto> obj)))"

fun apply_event_store :: "('k \<Rightarrow> object_meta) \<Rightarrow> 'dt \<Rightarrow> 'k event \<Rightarrow> ('dt, 'k) cache \<Rightarrow> ('dt, 'k) cache option" where
  "apply_event_store meta dt (Applied obj) m =
     (case obj_key meta dt obj of None \<Rightarrow> None | Some key \<Rightarrow> Some (m(key \<mapsto> obj)))"
| "apply_event_store meta dt (Deleted obj) m =
     (case obj_key meta dt obj of None \<Rightarrow> None | Some key \<Rightarrow> Some (m(key := None)))"
| "apply_event_store meta dt (Restarted new_objs) m = collect_objs meta dt new_objs Map.empty"

definition apply_watcher_event ::
  "('k \<Rightarrow> object_meta) \<Rightarrow> ('dt, 'k) store_writer \<Rightarrow> 'k event \<Rightarrow> ('dt, 'k) store_writer option" where
  "apply_watcher_event meta w event =
     (case apply_event_store meta (w_dyntype w) event (w_store w) of
        None \<Rightarrow> None
      | Some m \<Rightarrow> Some (if w_ready_tx w then w\<lparr>w_store := m, w_ready_tx := False, w_ready := True\<rparr>
                        else w\<lparr>w_store := m\<rparr>))"

definition store_get :: "('dt, 'k) store_writer \<Rightarrow> 'dt kref \<Rightarrow> 'k option" where
  "store_get w key = opt_or (w_store w (key_of key)) (w_store w (key_of (key\<lparr>kr_namespace := None\<rparr>)))"

definition store_state :: "('dt ref_key set \<Rightarrow> 'dt ref_key list) \<Rightarrow> ('dt, 'k) store_writer \<Rightarrow> 'k list" where
  "store_state iter w = map (\<lambda>k. the (w_store w k)) (iter (dom (w_store w)))"

definition store_find :: "('dt ref_key set \<Rightarrow> 'dt ref_key list) \<Rightarrow> ('dt, 'k) store_writer \<Rightarrow> ('k \<Rightarrow> bool) \<Rightarrow> 'k option" where
  "store_find iter w predicate = List.find predicate (map (\<lambda>k. the (w_store w k)) (iter (dom (w_store w))))"

definition store_len :: "('dt, 'k) store_writer \<Rightarrow> nat" where
  "store_len w = card (dom (w_store w))"

definition store_is_empty :: "('dt, 'k) store_writer \<Rightarrow> bool" where
  "store_is_empty w = (w_store w = Map.empty)"

text \<open>\<open>reflector\<close>: every \<open>Ok\<close> event of the stream is applied, every item is passed on.\<close>

fun reflector :: "('k \<Rightarrow> object_meta) \<Rightarrow> ('dt, 'k) store_writer \<Rightarrow> ('e + 'k event) list
     \<Rightarrow> (('e + 'k event) list \<times> ('dt, 'k) store_writer) option" where
  "reflector meta w [] = Some ([], w)"
| "reflector meta w (item # items) =
     (case item of
        Inl e \<Rightarrow> map_option (map_prod ((#) item) id) (reflector meta w items)
      | Inr event \<Rightarrow>
          (case apply_watcher_event meta w event of
             None \<Rightarrow> None
           | Some w' \<Rightarrow> map_option (map_prod ((#) item) id) (reflector meta w' items)))"

section \<open>Lemmas about the store\<close>

lemma obj_key_Some:
  "obj_key meta dt obj = Some k \<longleftrightarrow> (\<exists>n. m_name (meta obj) = Some n \<and> k = (dt, n, m_namespace (meta obj)))"
  by (auto simp: obj_key_def from_obj_with_def name_unchecked_def key_of_def)

lemma obj_key_cases:
  "obj_key meta dt obj = (case m_name (meta obj) of None \<Rightarrow> None | Some n \<Rightarrow> Some (dt, n, m_namespace (meta obj)))"
  by (auto simp: obj_key_def from_obj_with_def name_unchecked_def key_of_def split: option.splits)

lemma obj_key_None: "obj_key meta dt obj = None \<longleftrightarrow> m_name (meta obj) = None"
  by (simp add: obj_key_def from_obj_with_def name_unchecked_def)

lemma collect_objs_None: "collect_objs meta dt objs m = None \<longleftrightarrow> (\<exists>obj \<in> set objs. m_name (meta obj) = None)"
proof (induction objs arbitrary: m)
  case (Cons obj objs)
  then show ?case by (cases "m_name (meta obj)") (auto simp: obj_key_cases)
qed simp

lemma collect_objs_lookup:
  "collect_objs meta dt objs m = Some m' \<Longrightarrow>
     m' k = opt_or (List.find (\<lambda>obj. obj_key meta dt obj = Some k) (rev objs)) (m k)"
proof (induction objs arbitrary: m)
  case (Cons obj objs)
  then obtain key where key: "obj_key meta dt obj = Some key" by (cases "obj_key meta dt obj") auto
  with Cons have "m' k = opt_or (List.find (\<lambda>obj. obj_key meta dt obj = Some k) (rev objs)) ((m(key \<mapsto> obj)) k)"
    by simp
  then show ?case using key by (cases "List.find (\<lambda>obj. obj_key meta dt obj = Some k) (rev objs)")
      (auto simp: find_append)
qed simp

lemma apply_event_ready:
  "apply_watcher_event meta w event = Some w' \<Longrightarrow> w_ready w' = (w_ready_tx w \<or> w_ready w) \<and> \<not> w_ready_tx w'
     \<and> w_dyntype w' = w_dyntype w"
  by (auto simp: apply_watcher_event_def split: option.splits if_splits)

lemma reflector_passes: "reflector meta w items = Some (out, w') \<Longrightarrow> out = items"
  by (induction meta w items arbitrary: out w' rule: reflector.induct) (auto split: sum.splits option.splits)

section \<open>A store that mirrors its API server\<close>

text \<open>
  \<open>stream_ok\<close>: what a watch from version \<open>rv\<close> promises. \<open>state_at\<close> is the collection as of a
  version; every object event moves from one version to the next by that object's change,
  a bookmark moves to a version with the same collection, errors move nothing.
\<close>

fun stream_ok :: "('k \<Rightarrow> object_meta) \<Rightarrow> 'dt \<Rightarrow> (string \<Rightarrow> ('dt, 'k) cache) \<Rightarrow> string \<Rightarrow> 'k watch_stream \<Rightarrow> bool" where
  "stream_ok meta dt state_at rv [] = True"
| "stream_ok meta dt state_at rv (Inl e # st) = stream_ok meta dt state_at rv st"
| "stream_ok meta dt state_at rv (Inr (WAdded obj) # st) =
     (case (obj_key meta dt obj, m_resource_version (meta obj)) of
        (Some k, Some rv') \<Rightarrow> state_at rv' = (state_at rv)(k \<mapsto> obj) \<and> stream_ok meta dt state_at rv' st
      | _ \<Rightarrow> False)"
| "stream_ok meta dt state_at rv (Inr (WModified obj) # st) =
     (case (obj_key meta dt obj, m_resource_version (meta obj)) of
        (Some k, Some rv') \<Rightarrow> state_at rv' = (state_at rv)(k \<mapsto> obj) \<and> stream_ok meta dt state_at rv' st
      | _ \<Rightarrow> False)"
| "stream_ok meta dt state_at rv (Inr (WDeleted obj) # st) =
     (case (obj_key meta dt obj, m_resource_version (meta obj)) of
        (Some k, Some rv') \<Rightarrow> state_at rv' = (state_at rv)(k := None) \<and> stream_ok meta dt state_at rv' st
      | _ \<Rightarrow> False)"
| "stream_ok meta dt state_at rv (Inr (WBookmark bm) # st) =
     (state_at (bm_resource_version bm) = state_at rv \<and> stream_ok meta dt state_at (bm_resource_version bm) st)"
| "stream_ok meta dt state_at rv (Inr (WError e) # st) = stream_ok meta dt state_at rv st"

definition mirrors :: "('k \<Rightarrow> object_meta) \<Rightarrow> 'dt \<Rightarrow> (string \<Rightarrow> ('dt, 'k) cache) \<Rightarrow> 'k wstate \<Rightarrow> ('dt, 'k) cache \<Rightarrow> bool" where
  "mirrors meta dt state_at state m =
     (case state of
        Empty \<Rightarrow> True
      | InitListed rv \<Rightarrow> m = state_at rv
      | Watching rv st \<Rightarrow> m = state_at rv \<and> stream_ok meta dt state_at rv st)"

fun store_after :: "('k \<Rightarrow> object_meta) \<Rightarrow> 'dt \<Rightarrow> (watcher_error + 'k event) option \<Rightarrow> ('dt, 'k) cache \<Rightarrow> ('dt, 'k) cache option" where
  "store_after meta dt (Some (Inr ev)) m = apply_event_store meta dt ev m"
| "store_after meta dt _ m = Some m"

text \<open>
  The API server as the watcher sees it: a list is the collection as of the version it
  carries, and a watch starts at the version asked for.
\<close>

locale watched_collection =
  fixes A :: "('s, 'k) api_mode"
    and meta :: "'k \<Rightarrow> object_meta"
    and dt :: 'dt
    and state_at :: "string \<Rightarrow> ('dt, 'k) cache"
  assumes list_at: "\<lbrakk>am_list A s lp = (Inr l, s'); lm_resource_version (ol_metadata l) = Some rv\<rbrakk>
            \<Longrightarrow> collect_objs meta dt (ol_items l) Map.empty = Some (state_at rv)"
    and watch_at: "am_watch A s wp rv = (Inr st, s') \<Longrightarrow> stream_ok meta dt state_at rv st"
begin

lemma trampolined_mirrors:
  assumes "mirrors meta dt state_at state m"
  shows "\<exists>out state' s' m'. step_trampolined A meta wc state s = Inr (out, state', s')
           \<and> store_after meta dt out m = Some m' \<and> mirrors meta dt state_at state' m'"
proof (cases state)
  case Empty
  obtain r s' where r: "am_list A s (to_list_params wc) = (r, s')" by fastforce
  show ?thesis
  proof (cases r)
    case (Inl e)
    with Empty r show ?thesis by (simp add: step_trampolined_def mirrors_def)
  next
    case (Inr l)
    then show ?thesis
      using Empty r list_at [of s "to_list_params wc" l s']
      by (cases "lm_resource_version (ol_metadata l)") (auto simp: step_trampolined_def mirrors_def)
  qed
next
  case (InitListed rv)
  obtain r s' where "am_watch A s (to_watch_params wc) rv = (r, s')" by fastforce
  then show ?thesis
    using InitListed assms watch_at by (cases r) (auto simp: step_trampolined_def mirrors_def)
next
  case (Watching rv st)
  show ?thesis
  proof (cases st)
    case Nil
    with Watching assms show ?thesis by (simp add: step_trampolined_def mirrors_def)
  next
    case (Cons item rest)
    have m: "m = state_at rv" "stream_ok meta dt state_at rv (item # rest)"
      using assms Watching Cons by (auto simp: mirrors_def)
    show ?thesis
    proof (cases item)
      case (Inl e)
      with Watching Cons m show ?thesis by (simp add: step_trampolined_def mirrors_def)
    next
      case (Inr ev)
      with Watching Cons m show ?thesis
        by (cases ev) (auto simp: step_trampolined_def mirrors_def split: option.splits)
    qed
  qed
qed

lemma step_mirrors:
  assumes "watcher_step A meta wc state s = Some r" and "mirrors meta dt state_at state m"
  shows "\<exists>item state' s' m'. r = Inr (item, state', s')
           \<and> store_after meta dt (Some item) m = Some m' \<and> mirrors meta dt state_at state' m'"
proof -
  have "\<forall>m. mirrors meta dt state_at state m \<longrightarrow> (\<exists>item state' s' m'. r = Inr (item, state', s')
           \<and> store_after meta dt (Some item) m = Some m' \<and> mirrors meta dt state_at state' m')"
    using assms(1)
  proof (induction rule: watcher_step_induct)
    case (panic state s p)
    then show ?case using trampolined_mirrors [of state _ wc s] by fastforce
  next
    case (item state s result state' s')
    then show ?case using trampolined_mirrors [of state _ wc s] by fastforce
  next
    case (skip state s state' s' r)
    then show ?case using trampolined_mirrors [of state _ wc s] by fastforce
  qed
  with assms(2) show ?thesis by blast
qed

lemma unfold_mirrors:
  assumes "unfold_steps A meta wc n state s = Some r"
    and "mirrors meta dt state_at state (w_store w)" and "w_dyntype w = dt"
  shows "\<exists>results state' s' w'. r = Inr (results, state', s') \<and> reflector meta w results = Some (results, w')
           \<and> mirrors meta dt state_at state' (w_store w')"
  using assms
proof (induction n arbitrary: state s w r)
  case 0
  then show ?case by auto
next
  case (Suc n)
  obtain r1 where "watcher_step A meta wc state s = Some r1"
    using Suc.prems(1) by (auto split: option.splits)
  moreover from step_mirrors [OF this Suc.prems(2)] obtain item state1 s1 m1 where
    one: "r1 = Inr (item, state1, s1)" "store_after meta dt (Some item) (w_store w) = Some m1"
      "mirrors meta dt state_at state1 m1"
    by blast
  ultimately obtain r2 where r2: "unfold_steps A meta wc n state1 s1 = Some r2"
    "r = map_sum id (\<lambda>(results, rest). (item # results, rest)) r2"
    using Suc.prems(1) by auto
  obtain w1 where w1: "reflector meta w [item] = Some ([item], w1)" "w_store w1 = m1" "w_dyntype w1 = dt"
    using one(2) Suc.prems(3) by (cases item) (auto simp: apply_watcher_event_def)
  obtain results state' s' w' where "r2 = Inr (results, state', s')"
    "reflector meta w1 results = Some (results, w')" "mirrors meta dt state_at state' (w_store w')"
    using Suc.IH [OF r2(1), of w1] one(3) w1 by auto
  then show ?case using r2(2) w1(1) by (auto split: sum.splits option.splits)
qed

end

section \<open>A server that satisfies the contract\<close>

text \<open>
  A server that keeps the log of all changes of a collection. Version \<open>n\<close> is the collection
  after the first \<open>n\<close> changes, a list gives the newest version, a watch gives the changes
  after the version asked for, and a version that never existed is gone.
\<close>

datatype change = Put string | Del string

definition log_object :: "nat \<Rightarrow> string \<Rightarrow> object_meta" where
  "log_object n name = object_meta_default\<lparr>m_name := Some name, m_resource_version := Some (show_nat n)\<rparr>"

fun change_event :: "nat \<Rightarrow> change \<Rightarrow> object_meta watch_event" where
  "change_event n (Put name) = WModified (log_object n name)"
| "change_event n (Del name) = WDeleted (log_object n name)"

fun change_state :: "nat \<Rightarrow> change \<Rightarrow> (unit, object_meta) cache \<Rightarrow> (unit, object_meta) cache" where
  "change_state n (Put name) m = m(((), name, None) \<mapsto> log_object n name)"
| "change_state n (Del name) m = m(((), name, None) := None)"

fun log_state :: "change list \<Rightarrow> nat \<Rightarrow> (unit, object_meta) cache" where
  "log_state log 0 = Map.empty"
| "log_state log (Suc n) = (if n < length log then change_state (Suc n) (log ! n) (log_state log n) else log_state log n)"

fun log_names :: "change list \<Rightarrow> string list" where
  "log_names [] = []"
| "log_names (Put name # log) = name # log_names log"
| "log_names (Del name # log) = name # log_names log"

definition log_items :: "change list \<Rightarrow> object_meta list" where
  "log_items log = List.map_filter (\<lambda>name. log_state log (length log) ((), name, None)) (remdups (log_names log))"

definition log_version :: "change list \<Rightarrow> string \<Rightarrow> nat option" where
  "log_version log rv = parse_digits (Suc (length log)) rv"

definition log_state_at :: "change list \<Rightarrow> string \<Rightarrow> (unit, object_meta) cache" where
  "log_state_at log rv = log_state log (unwrap_or (log_version log rv) 0)"

definition log_stream :: "change list \<Rightarrow> nat \<Rightarrow> object_meta watch_stream" where
  "log_stream log n = map (\<lambda>i. Inr (change_event (Suc i) (log ! i))) [n..<length log]"

definition log_server :: "change list \<Rightarrow> ('s, object_meta) api_mode" where
  "log_server log = \<lparr>am_list = (\<lambda>s lp. (Inr \<lparr>ol_metadata = \<lparr>lm_continue = None, lm_remaining_item_count = None,
        lm_resource_version = Some (show_nat (length log))\<rparr>, ol_items = log_items log\<rparr>, s)),
     am_watch = (\<lambda>s wp rv. case log_version log rv of
        None \<Rightarrow> (Inl (COther ''gone''), s)
      | Some n \<Rightarrow> (Inr (log_stream log n), s))\<rparr>"

lemma log_version_show [simp]: "n \<le> length log \<Longrightarrow> log_version log (show_nat n) = Some n"
  by (simp add: log_version_def parse_digits_show_nat)

lemma log_state_at_show [simp]: "n \<le> length log \<Longrightarrow> log_state_at log (show_nat n) = log_state log n"
  by (simp add: log_state_at_def)

lemma log_key [simp]: "obj_key (\<lambda>m. m) () (log_object n name) = Some ((), name, None)"
  by (simp add: obj_key_cases log_object_def object_meta_default_def)

lemma log_rv [simp]: "m_resource_version (log_object n name) = Some (show_nat n)"
  by (simp add: log_object_def)

lemma log_stream_ok:
  assumes "log_version log rv = Some n"
  shows "stream_ok (\<lambda>m. m) () (log_state_at log) rv (log_stream log n)"
proof -
  have "n \<le> length log"
    using assms by (auto simp: log_version_def parse_digits_def Let_def split: if_splits)
  moreover have "log_state_at log rv = log_state log n" using assms by (simp add: log_state_at_def)
  ultimately show ?thesis
  proof (induction "length log - n" arbitrary: n rv)
    case 0
    then show ?case by (simp add: log_stream_def)
  next
    case (Suc d)
    then have n: "n < length log" by simp
    then have cons: "log_stream log n = Inr (change_event (Suc n) (log ! n)) # log_stream log (Suc n)"
      by (simp add: log_stream_def upt_conv_Cons)
    have "stream_ok (\<lambda>m. m) () (log_state_at log) (show_nat (Suc n)) (log_stream log (Suc n))"
      using Suc.hyps(1) [of "Suc n"] Suc.hyps(2) n by simp
    with cons n Suc.prems show ?case by (cases "log ! n") simp_all
  qed
qed

lemma log_state_dom:
  "log_state log n k = Some obj \<Longrightarrow> \<exists>i name. k = ((), name, None) \<and> obj = log_object i name \<and> name \<in> set (log_names log)"
proof (induction n arbitrary: obj)
  case (Suc n)
  have names: "Put name \<in> set log \<Longrightarrow> name \<in> set (log_names log)" for name
    by (induction log rule: log_names.induct) auto
  show ?case
  proof (cases "n < length log")
    case True
    then have "log ! n \<in> set log" by simp
    with Suc True names show ?thesis by (cases "log ! n") (auto split: if_splits)
  next
    case False
    with Suc show ?thesis by simp
  qed
qed simp

lemma collect_map_filter:
  assumes "distinct names" "\<And>k obj. m k = Some obj \<Longrightarrow> \<exists>i name. k = ((), name, None) \<and> obj = log_object i name"
  shows "collect_objs (\<lambda>m. m) () (List.map_filter (\<lambda>name. m ((), name, None)) names) acc
       = Some (\<lambda>k. if fst (snd k) \<in> set names \<and> m k \<noteq> None then m k else acc k)"
  using assms(1)
proof (induction names arbitrary: acc)
  case Nil
  then show ?case by (simp add: List.map_filter_def)
next
  case (Cons name names)
  show ?case
  proof (cases "m ((), name, None)")
    case None
    have "(if fst (snd k) \<in> set (name # names) \<and> m k \<noteq> None then m k else acc k)
        = (if fst (snd k) \<in> set names \<and> m k \<noteq> None then m k else acc k)" for k
      using None assms(2) [of k] by (cases "m k") auto
    with Cons None show ?thesis by (simp add: List.map_filter_simps)
  next
    case (Some obj)
    then obtain i where obj: "obj = log_object i name" using assms(2) by blast
    have "(if fst (snd k) \<in> set (name # names) \<and> m k \<noteq> None then m k else acc k)
        = (if fst (snd k) \<in> set names \<and> m k \<noteq> None then m k else (acc(((), name, None) \<mapsto> obj)) k)" for k
      using Some Cons.prems assms(2) [of k] by (cases "m k") auto
    moreover have "obj_key (\<lambda>m. m) () obj = Some ((), name, None)" using obj by simp
    ultimately show ?thesis using Cons Some by (simp add: List.map_filter_simps)
  qed
qed

lemma log_collect: "collect_objs (\<lambda>m. m) () (log_items log) Map.empty = Some (log_state log (length log))"
proof -
  let ?m = "log_state log (length log)"
  have "collect_objs (\<lambda>m. m) () (log_items log) Map.empty
      = Some (\<lambda>k. if fst (snd k) \<in> set (remdups (log_names log)) \<and> ?m k \<noteq> None then ?m k else None)"
    unfolding log_items_def
  proof (rule collect_map_filter)
    show "distinct (remdups (log_names log))" by simp
    show "\<exists>i name. k = ((), name, None) \<and> obj = log_object i name" if "?m k = Some obj" for k obj
      using log_state_dom [OF that] by blast
  qed
  also have "(\<lambda>k. if fst (snd k) \<in> set (remdups (log_names log)) \<and> ?m k \<noteq> None then ?m k else None) = ?m"
  proof
    fix k
    show "(if fst (snd k) \<in> set (remdups (log_names log)) \<and> ?m k \<noteq> None then ?m k else None) = ?m k"
      using log_state_dom [of log "length log" k] by (cases "?m k") auto
  qed
  finally show ?thesis .
qed

interpretation log: watched_collection "log_server log" "\<lambda>m. m" "()" "log_state_at log"
  by unfold_locales
    (auto simp: log_server_def log_collect log_stream_ok split: option.splits)

section \<open>Properties\<close>

text \<open>
  C2: a reflector's store mirrors the API server. Whatever number of items the watcher has
  emitted, through lists, watches, bookmarks, errors and relists, it has not panicked, the
  reflector has passed all items on unchanged, and unless the watcher is about to list again
  its store is exactly the collection as of the resource version the watcher has reached.
\<close>

theorem reflector_mirrors_server:
  assumes "watched_collection A meta dt state_at"
    and "unfold_steps A meta wc n Empty s = Some r"
  shows "\<exists>results state' s' w'. r = Inr (results, state', s')
           \<and> reflector meta (writer_new dt) results = Some (results, w')
           \<and> (state' = Empty \<or> w_store w' = state_at (rv_of state'))"
proof -
  have "mirrors meta dt state_at Empty (w_store (writer_new dt))" "w_dyntype (writer_new dt) = dt"
    by (simp_all add: mirrors_def writer_new_def)
  from watched_collection.unfold_mirrors [OF assms this] show ?thesis
    by (fastforce simp: mirrors_def split: wstate.splits)
qed

theorem reflector_mirrors_server_witness:
  "\<exists>results state' s' w'. unfold_steps (log_server [Put ''a'', Put ''b'', Del ''a'']) (\<lambda>m. m) config_default 1 Empty ()
       = Some (Inr (results, state', s'))
     \<and> reflector (\<lambda>m. m) (writer_new ()) results = Some (results, w')
     \<and> (state' = Empty \<or> w_store w' = log_state_at [Put ''a'', Put ''b'', Del ''a''] (rv_of state'))"
proof -
  have "\<exists>r. unfold_steps (log_server [Put ''a'', Put ''b'', Del ''a'']) (\<lambda>m. m) config_default 1 Empty () = Some r"
    unfolding One_nat_def by (simp add: watcher_step.simps [of _ _ _ Empty] step_trampolined_def log_server_def)
  then obtain r where r: "unfold_steps (log_server [Put ''a'', Put ''b'', Del ''a'']) (\<lambda>m. m) config_default 1 Empty () = Some r"
    by blast
  from reflector_mirrors_server [OF log.watched_collection_axioms r] r show ?thesis by auto
qed

text \<open>
  applying an event. An event panics exactly when one of its objects that has to be
  keyed has no name; otherwise the store is marked ready, and a restart replaces the whole
  content: a lookup finds the last listed object with that reference, or else the last listed
  cluster-scoped object of that name, and nothing that was in the store before.
\<close>

theorem apply_event_semantics:
  "(apply_watcher_event meta w event = None \<longleftrightarrow> (\<exists>obj \<in> set (into_iter_touched event). m_name (meta obj) = None))
   \<and> (\<forall>w'. apply_watcher_event meta w event = Some w' \<longrightarrow> \<not> w_ready_tx w' \<and> (w_ready_tx w \<or> w_ready w \<longrightarrow> w_ready w'))
   \<and> (\<forall>w'. apply_watcher_event meta w (Restarted objs) = Some w' \<longrightarrow> w_dyntype w = kr_dyntype ref \<longrightarrow>
        store_get w' ref = opt_or (List.find (\<lambda>obj. m_name (meta obj) = Some (kr_name ref) \<and> m_namespace (meta obj) = kr_namespace ref) (rev objs))
                                  (List.find (\<lambda>obj. m_name (meta obj) = Some (kr_name ref) \<and> m_namespace (meta obj) = None) (rev objs)))"
proof -
  have p: "apply_watcher_event meta w event = None \<longleftrightarrow> (\<exists>obj \<in> set (into_iter_touched event). m_name (meta obj) = None)"
  proof (cases event)
    case (Restarted objs)
    then have "apply_watcher_event meta w event = None \<longleftrightarrow> collect_objs meta (w_dyntype w) objs Map.empty = None"
      by (simp add: apply_watcher_event_def split: option.splits)
    then show ?thesis using Restarted by (simp only: collect_objs_None into_iter_touched.simps)
  qed (auto simp: apply_watcher_event_def obj_key_cases split: option.splits)
  have g: "store_get w' ref = opt_or (List.find (\<lambda>obj. m_name (meta obj) = Some (kr_name ref) \<and> m_namespace (meta obj) = kr_namespace ref) (rev objs))
                                  (List.find (\<lambda>obj. m_name (meta obj) = Some (kr_name ref) \<and> m_namespace (meta obj) = None) (rev objs))"
    if "apply_watcher_event meta w (Restarted objs) = Some w'" "w_dyntype w = kr_dyntype ref" for w'
  proof -
    have c: "collect_objs meta (kr_dyntype ref) objs Map.empty = Some (w_store w')"
      using that by (auto simp: apply_watcher_event_def split: option.splits if_splits)
    have "(obj_key meta (kr_dyntype ref) obj = Some (kr_dyntype ref, n, ns)) \<longleftrightarrow>
        m_name (meta obj) = Some n \<and> m_namespace (meta obj) = ns" for obj n ns
      by (auto simp: obj_key_Some)
    then show ?thesis by (simp add: store_get_def key_of_def collect_objs_lookup [OF c])
  qed
  from p g show ?thesis using apply_event_ready by blast
qed

theorem apply_event_semantics_witness:
  "\<exists>w'. apply_watcher_event (\<lambda>m. m) (writer_new ()) (Restarted [log_object 1 ''a'', log_object 2 ''a'']) = Some w'
     \<and> store_get w' (kref_within (kref_new_with ''a'' ()) ''ns'') = Some (log_object 2 ''a'')"
proof -
  obtain w' where w': "apply_watcher_event (\<lambda>m. m) (writer_new ()) (Restarted [log_object 1 ''a'', log_object 2 ''a'']) = Some w'"
    by (simp add: apply_watcher_event_def writer_new_def)
  have "store_get w' (kref_within (kref_new_with ''a'' ()) ''ns'') = Some (log_object 2 ''a'')"
    using apply_event_semantics [of "\<lambda>m. m" "writer_new ()" "Restarted []" "[log_object 1 ''a'', log_object 2 ''a'']"
        "kref_within (kref_new_with ''a'' ()) ''ns''"] w'
    by (simp add: kref_within_def kref_new_with_def log_object_def object_meta_default_def writer_new_def)
  with w' show ?thesis by blast
qed

text \<open>
  \<open>watch_object\<close> reports the object itself. When every object of an event has the watched
  reference, the item emitted for the event is what the store would hold for that reference
  afterwards, or the error that the server sent more than one such object.
\<close>

theorem watch_object_reports_store:
  assumes "\<forall>obj \<in> set (into_iter_touched ev). obj_key meta dt obj = Some k"
    and "apply_event_store meta dt ev m = Some m'"
  shows "watch_object_item (Inr ev) = Inr (m' k)
       \<or> (\<exists>objs. ev = Restarted objs \<and> length objs > 1 \<and> watch_object_item (Inr ev) = Inl TooManyObjects)"
proof (cases ev)
  case (Restarted objs)
  show ?thesis
  proof (cases objs)
    case Nil
    then show ?thesis using assms Restarted by auto
  next
    case (Cons o1 rest)
    then show ?thesis using assms Restarted by (cases rest) auto
  qed
qed (use assms in \<open>auto split: option.splits\<close>)

theorem watch_object_reports_store_witness:
  "watch_object_item (Inr (Restarted [log_object 1 ''a''])) = Inr (Some (log_object 1 ''a''))"
  using watch_object_reports_store [of "Restarted [log_object 1 ''a'']" "\<lambda>m. m" "()" "((), ''a'', None)" Map.empty
      "[((), ''a'', None) \<mapsto> log_object 1 ''a'']"]
  by simp

text \<open>
  object references. Equality of references ignores their extra part; a reference taken
  from a controller owner reference of an object points back to that object; erasing the type
  of a reference changes neither how it is displayed nor the object reference it denotes.
\<close>

theorem object_ref_identity:
  "kref_eq r (r\<lparr>kr_extra := x\<rparr>)
   \<and> (controller_owner_ref K dt meta = Some owner \<longrightarrow>
        (\<exists>back. from_owner_ref K (m_namespace meta) owner dt = Some back
           \<and> map_option (kref_eq back) (from_obj_with meta dt) = Some True
           \<and> ex_uid (kr_extra back) = m_uid meta))
   \<and> kref_display dynamic_class (kref_erase K r) = kref_display K r
   \<and> to_object_reference dynamic_class (kref_erase K r) = to_object_reference K r"
  by (auto simp: kref_eq_def key_of_def controller_owner_ref_def from_owner_ref_def from_obj_with_def
      name_unchecked_def kref_display_def kref_erase_def dynamic_class_def erase_def to_object_reference_def
      split: option.splits)

theorem object_ref_identity_witness:
  "\<exists>back. from_owner_ref dynamic_class None
      (the (controller_owner_ref dynamic_class pod_resource (object_meta_default\<lparr>m_name := Some ''p'', m_uid := Some ''u''\<rparr>)))
      pod_resource = Some back \<and> ex_uid (kr_extra back) = Some ''u''"
proof -
  let ?m = "object_meta_default\<lparr>m_name := Some ''p'', m_uid := Some ''u''\<rparr>"
  obtain owner where o1: "controller_owner_ref dynamic_class pod_resource ?m = Some owner"
    by (simp add: controller_owner_ref_def object_meta_default_def)
  have "m_namespace ?m = None" "m_uid ?m = Some ''u''" by (simp_all add: object_meta_default_def)
  with object_ref_identity [of "kref_new_with [] pod_resource" extra_default dynamic_class pod_resource ?m owner] o1
  show ?thesis by auto
qed

end
