(* ===== verification/Rt_Controller.thy ===== *)
theory Rt_Controller
  imports Rt_Runner Rt_Reflector
begin

text \<open>
  \<open>kube-runtime/src/controller/mod.rs\<close>: actions, triggers, reconcile requests and the
  applier that connects the request queue, the scheduler, the runner and the store. A stream
  is the list of its items; a panic (an object without a name, a future polled after it
  completed) is \<open>None\<close>. The reconciler and the error policy are parameters; what the runner
  runs for one request is the reconciler's result followed by the future that reschedules it.
\<close>

section \<open>Actions and requests\<close>


record action =
  requeue_after :: "duration option"

definition action_requeue :: "duration \<Rightarrow> action" where
  "action_requeue d = \<lparr>requeue_after = Some d\<rparr>"

definition await_change :: action where
  "await_change = \<lparr>requeue_after = None\<rparr>"

datatype reconcile_reason =
    Unknown
  | ObjectUpdated
  | RelatedObjectUpdated "api_resource kref"
  | ReconcilerRequestedRetry
  | ErrorPolicyRequestedRetry
  | BulkReconcile
  | Custom string

fun reason_display :: "reconcile_reason \<Rightarrow> string" where
  "reason_display Unknown = ''unknown''"
| "reason_display ObjectUpdated = ''object updated''"
| "reason_display (RelatedObjectUpdated r) = ''related object updated: '' @ kref_display dynamic_class r"
| "reason_display BulkReconcile = ''bulk reconcile requested''"
| "reason_display ReconcilerRequestedRetry = ''reconciler requested retry''"
| "reason_display ErrorPolicyRequestedRetry = ''error policy requested retry''"
| "reason_display (Custom reason) = reason"

record 'dt reconcile_request =
  rr_obj_ref :: "'dt kref"
  rr_reason :: reconcile_reason

definition request_eq :: "'dt reconcile_request \<Rightarrow> 'dt reconcile_request \<Rightarrow> bool" where
  "request_eq a b = kref_eq (rr_obj_ref a) (rr_obj_ref b)"

definition request_from_ref :: "'dt kref \<Rightarrow> 'dt reconcile_request" where
  "request_from_ref r = \<lparr>rr_obj_ref = r, rr_reason = Unknown\<rparr>"

datatype ('dt, 'e, 'q) controller_error =
    ObjectNotFound "api_resource kref"
  | ReconcilerFailed 'e "api_resource kref"
  | QueueError 'q
  | RunnerError "unit runner_error"

section \<open>Triggers\<close>

fun trigger_with :: "('t \<Rightarrow> 'r list option) \<Rightarrow> ('e + 't) list \<Rightarrow> ('e + 'r) list option" where
  "trigger_with mapper [] = Some []"
| "trigger_with mapper (Inl e # items) = map_option ((#) (Inl e)) (trigger_with mapper items)"
| "trigger_with mapper (Inr obj # items) =
     (case mapper obj of
        None \<Rightarrow> None
      | Some rs \<Rightarrow> map_option ((@) (map Inr rs)) (trigger_with mapper items))"

definition trigger_self :: "('k \<Rightarrow> object_meta) \<Rightarrow> 'dt \<Rightarrow> ('e + 'k) list \<Rightarrow> ('e + 'dt reconcile_request) list option" where
  "trigger_self meta dt =
     trigger_with (\<lambda>obj. map_option (\<lambda>r. [\<lparr>rr_obj_ref = r, rr_reason = ObjectUpdated\<rparr>]) (from_obj_with (meta obj) dt))"

definition others_mapper :: "'c resource_class \<Rightarrow> ('k \<Rightarrow> object_meta) \<Rightarrow> ('k \<Rightarrow> 'dt kref list) \<Rightarrow> 'c
     \<Rightarrow> 'k \<Rightarrow> 'dt reconcile_request list option" where
  "others_mapper C meta mapper dyntype obj =
     map_option (\<lambda>r. let watch_ref = kref_erase C r in
         map (\<lambda>mapped. \<lparr>rr_obj_ref = mapped, rr_reason = RelatedObjectUpdated watch_ref\<rparr>) (mapper obj))
       (from_obj_with (meta obj) dyntype)"

definition trigger_others :: "'c resource_class \<Rightarrow> ('k \<Rightarrow> object_meta) \<Rightarrow> ('k \<Rightarrow> 'dt kref list) \<Rightarrow> 'c
     \<Rightarrow> ('e + 'k) list \<Rightarrow> ('e + 'dt reconcile_request) list option" where
  "trigger_others C meta mapper dyntype = trigger_with (others_mapper C meta mapper dyntype)"

definition owners_mapper :: "'dt resource_class \<Rightarrow> ('k \<Rightarrow> object_meta) \<Rightarrow> 'dt \<Rightarrow> 'k \<Rightarrow> 'dt kref list" where
  "owners_mapper KOwner meta owner_type obj =
     List.map_filter (\<lambda>owner. from_owner_ref KOwner (m_namespace (meta obj)) owner owner_type)
       (unwrap_or (m_owner_references (meta obj)) [])"

definition trigger_owners :: "'dt resource_class \<Rightarrow> 'c resource_class \<Rightarrow> ('k \<Rightarrow> object_meta) \<Rightarrow> 'dt \<Rightarrow> 'c
     \<Rightarrow> ('e + 'k) list \<Rightarrow> ('e + 'dt reconcile_request) list option" where
  "trigger_owners KOwner C meta owner_type child_type =
     trigger_others C meta (owners_mapper KOwner meta owner_type) child_type"

section \<open>Rescheduling\<close>

text \<open>
  The bounded channel back to the scheduler: \<open>poll_ready\<close> answers ready, closed or pending;
  the requests sent so far are a list.
\<close>

record 'dt sender =
  tx_ready :: "(unit + unit) poll"
  tx_sent :: "'dt reconcile_request schedule_request list"

record ('dt, 'e) reschedule_reconciliation =
  reschedule_tx :: "'dt sender"
  reschedule_request :: "'dt reconcile_request schedule_request option"
  resched_result :: "('e + action) option"

definition reschedule_new :: "instant \<Rightarrow> 'e + action \<Rightarrow> ('e \<Rightarrow> action) \<Rightarrow> 'dt kref \<Rightarrow> 'dt sender
     \<Rightarrow> ('dt, 'e) reschedule_reconciliation" where
  "reschedule_new now result error_policy obj_ref tx =
     (let reconciler_finished_at = now;
          (action, reschedule_reason) =
            (case result of
               Inl err \<Rightarrow> (error_policy err, ErrorPolicyRequestedRetry)
             | Inr action \<Rightarrow> (action, ReconcilerRequestedRetry))
      in \<lparr>reschedule_tx = tx,
          reschedule_request = map_option (\<lambda>d.
            \<lparr>message = \<lparr>rr_obj_ref = obj_ref, rr_reason = reschedule_reason\<rparr>,
             req_run_at = reconciler_finished_at + d\<rparr>) (requeue_after action),
          resched_result = Some result\<rparr>)"

definition reschedule_poll :: "('dt, 'e) reschedule_reconciliation
     \<Rightarrow> (('e + action) poll \<times> ('dt, 'e) reschedule_reconciliation) option" where
  "reschedule_poll f =
     (let finish = (\<lambda>f. map_option (\<lambda>res. (Ready res, f\<lparr>resched_result := None\<rparr>)) (resched_result f)) in
      case reschedule_request f of
        None \<Rightarrow> finish f
      | Some request \<Rightarrow>
          (case tx_ready (reschedule_tx f) of
             Pending \<Rightarrow> Some (Pending, f)
           | Ready r \<Rightarrow>
               finish (f\<lparr>reschedule_request := None,
                         reschedule_tx := (case r of
                            Inr _ \<Rightarrow> (reschedule_tx f)\<lparr>tx_sent := tx_sent (reschedule_tx f) @ [request]\<rparr>
                          | Inl _ \<Rightarrow> reschedule_tx f)\<rparr>)))"

section \<open>Applier\<close>

definition APPLIER_REQUEUE_BUF_SIZE :: nat where
  "APPLIER_REQUEUE_BUF_SIZE = 100"

text \<open>Requests of the queue are scheduled one millisecond ahead; its errors are passed on.\<close>

definition applier_input :: "instant \<Rightarrow> 'q + 'dt reconcile_request
     \<Rightarrow> ('dt, 'e, 'q) controller_error + 'dt reconcile_request schedule_request" where
  "applier_input now item = (case item of
     Inl e \<Rightarrow> Inl (QueueError e)
   | Inr request \<Rightarrow> Inr \<lparr>message = request, req_run_at = now + 1\<rparr>)"

text \<open>
  What the runner runs for a request: the reconciler on the stored object and then the
  rescheduling future, or the error that the store has no such object.
\<close>

definition applier_run_msg :: "'dt resource_class \<Rightarrow> ('k \<Rightarrow> 'e + action) \<Rightarrow> ('k \<Rightarrow> 'e \<Rightarrow> action) \<Rightarrow> ('dt, 'k) store_writer
     \<Rightarrow> instant \<Rightarrow> 'dt sender \<Rightarrow> 'dt reconcile_request
     \<Rightarrow> ('dt, 'e, 'q) controller_error + 'dt kref \<times> ('dt, 'e) reschedule_reconciliation" where
  "applier_run_msg K reconciler error_policy st now tx request =
     (case store_get st (rr_obj_ref request) of
        Some obj \<Rightarrow>
          Inr (rr_obj_ref request, reschedule_new now (reconciler obj) (error_policy obj) (rr_obj_ref request) tx)
      | None \<Rightarrow> Inl (ObjectNotFound (kref_erase K (rr_obj_ref request))))"

definition applier_output :: "'dt resource_class \<Rightarrow> 'dt kref \<times> ('e + action)
     \<Rightarrow> ('dt, 'e, 'q) controller_error + 'dt kref \<times> action" where
  "applier_output K r = (case r of (obj_ref, result) \<Rightarrow>
     (case result of
        Inr action \<Rightarrow> Inr (obj_ref, action)
      | Inl err \<Rightarrow> Inl (ReconcilerFailed err (kref_erase K obj_ref))))"

section \<open>Properties\<close>

lemma trigger_with_Inr:
  "\<lbrakk>trigger_with mapper items = Some out; Inr obj \<in> set items\<rbrakk> \<Longrightarrow> \<exists>rs. mapper obj = Some rs \<and> (\<forall>r \<in> set rs. Inr r \<in> set out)"
proof (induction mapper items arbitrary: out rule: trigger_with.induct)
  case (3 mapper o2 items)
  then show ?case by (cases "mapper o2") fastforce+
qed auto

lemma trigger_with_sound:
  "\<lbrakk>trigger_with mapper items = Some out; Inr r \<in> set out\<rbrakk> \<Longrightarrow> \<exists>obj rs. Inr obj \<in> set items \<and> mapper obj = Some rs \<and> r \<in> set rs"
proof (induction mapper items arbitrary: out rule: trigger_with.induct)
  case (3 mapper o2 items)
  then show ?case by (cases "mapper o2") fastforce+
qed auto

lemma map_filter_mem: "y \<in> set (List.map_filter f xs) \<longleftrightarrow> (\<exists>x \<in> set xs. f x = Some y)"
  by (induction xs) (auto simp: List.map_filter_simps split: option.splits)

lemma from_owner_ref_key:
  assumes "from_owner_ref K ns owner dt = Some r"
  shows "or_api_version owner = api_version_of K dt \<and> or_kind owner = kind_of K dt \<and> key_of r = (dt, or_name owner, ns)"
  using assms by (auto simp: from_owner_ref_def key_of_def split: if_splits)

text \<open>
  a change of a child object reaches its owner. If a child carries the controller owner
  reference of an object of the owner type and both are in the same namespace, or the owner
  is cluster-scoped and the store holds no namesake in the child's namespace, then the
  triggered requests contain one whose lookup in the owner store finds that very object, with
  the child as the reason.
\<close>

theorem owner_is_triggered:
  assumes "trigger_owners K C meta odt cdt items = Some out" and "Inr child \<in> set items"
    and "controller_owner_ref K odt (ometa owner) = Some oref"
    and "oref \<in> set (owner_references (meta child))"
    and "w_store w (odt, the (m_name (ometa owner)), m_namespace (ometa owner)) = Some owner"
    and "m_namespace (ometa owner) = m_namespace (meta child)
         \<or> m_namespace (ometa owner) = None \<and> w_store w (odt, the (m_name (ometa owner)), m_namespace (meta child)) = None"
  shows "\<exists>request. Inr request \<in> set out \<and> store_get w (rr_obj_ref request) = Some owner
           \<and> (\<exists>cref. from_obj_with (meta child) cdt = Some cref
                \<and> rr_reason request = RelatedObjectUpdated (kref_erase C cref))"
proof -
  obtain rs where rs: "others_mapper C meta (owners_mapper K meta odt) cdt child = Some rs" "\<forall>r \<in> set rs. Inr r \<in> set out"
    using trigger_with_Inr [OF assms(1) [unfolded trigger_owners_def trigger_others_def] assms(2)] by blast
  then obtain cref where cref: "from_obj_with (meta child) cdt = Some cref"
    and rs_eq: "rs = map (\<lambda>mapped. \<lparr>rr_obj_ref = mapped, rr_reason = RelatedObjectUpdated (kref_erase C cref)\<rparr>)
        (owners_mapper K meta odt child)"
    by (auto simp: others_mapper_def Let_def)
  obtain n u where nu: "m_name (ometa owner) = Some n" "m_uid (ometa owner) = Some u"
    and oref: "or_api_version oref = api_version_of K odt" "or_kind oref = kind_of K odt" "or_name oref = n"
    using assms(3) by (auto simp: controller_owner_ref_def split: option.splits)
  define bref where "bref = \<lparr>kr_dyntype = odt, kr_name = n, kr_namespace = m_namespace (meta child),
      kr_extra = \<lparr>ex_resource_version = None, ex_uid = Some (or_uid oref)\<rparr>\<rparr>"
  have "from_owner_ref K (m_namespace (meta child)) oref odt = Some bref"
    using oref by (simp add: from_owner_ref_def bref_def)
  then have "bref \<in> set (owners_mapper K meta odt child)"
    using assms(4) by (auto simp: owners_mapper_def map_filter_mem owner_references_def)
  then have "\<lparr>rr_obj_ref = bref, rr_reason = RelatedObjectUpdated (kref_erase C cref)\<rparr> \<in> set rs"
    using rs_eq by auto
  moreover have "store_get w bref = Some owner"
    using assms(5,6) nu by (auto simp: store_get_def key_of_def bref_def)
  ultimately show ?thesis using rs(2) cref by (intro exI [of _ "\<lparr>rr_obj_ref = bref, rr_reason = RelatedObjectUpdated (kref_erase C cref)\<rparr>"]) auto
qed

definition witness_owner :: object_meta where
  "witness_owner = object_meta_default\<lparr>m_name := Some ''o'', m_uid := Some ''u''\<rparr>"

definition witness_child :: object_meta where
  "witness_child = object_meta_default\<lparr>m_name := Some ''c'', m_namespace := Some ''ns'',
     m_owner_references := Some [the (controller_owner_ref dynamic_class pod_resource witness_owner)]\<rparr>"

theorem owner_is_triggered_witness:
  "\<exists>out. trigger_owners dynamic_class dynamic_class (\<lambda>m. m) pod_resource pod_resource [Inr witness_child :: unit + object_meta] = Some out
     \<and> (\<exists>request. Inr request \<in> set out
          \<and> store_get ((writer_new pod_resource)\<lparr>w_store := [(pod_resource, ''o'', None) \<mapsto> witness_owner]\<rparr>) (rr_obj_ref request) = Some witness_owner)"
proof -
  obtain out where out: "trigger_owners dynamic_class dynamic_class (\<lambda>m. m) pod_resource pod_resource [Inr witness_child :: unit + object_meta] = Some out"
    by (simp add: trigger_owners_def trigger_others_def others_mapper_def from_obj_with_def name_unchecked_def
        witness_child_def object_meta_default_def)
  obtain oref where oref: "controller_owner_ref dynamic_class pod_resource witness_owner = Some oref"
    by (simp add: controller_owner_ref_def witness_owner_def object_meta_default_def)
  have "oref \<in> set (owner_references witness_child)"
    using oref by (simp add: witness_child_def owner_references_def)
  then show ?thesis
    using owner_is_triggered [OF out, of witness_child "\<lambda>m. m" witness_owner oref
        "(writer_new pod_resource)\<lparr>w_store := [(pod_resource, ''o'', None) \<mapsto> witness_owner]\<rparr>"] oref out
    by (auto simp: witness_owner_def witness_child_def object_meta_default_def)
qed

text \<open>
  triggering adds nothing. Every request triggered for owners comes from a child of the
  stream that has an owner reference with the owner type's \<open>apiVersion\<close> and kind and the
  requested name, and asks for it in the child's namespace.
\<close>

theorem triggered_has_owner_ref:
  assumes "trigger_owners K C meta odt cdt items = Some out" and "Inr request \<in> set out"
  shows "\<exists>child oref. Inr child \<in> set items \<and> oref \<in> set (owner_references (meta child))
           \<and> or_api_version oref = api_version_of K odt \<and> or_kind oref = kind_of K odt
           \<and> key_of (rr_obj_ref request) = (odt, or_name oref, m_namespace (meta child))"
proof -
  obtain child rs where c: "Inr child \<in> set items" "request \<in> set rs"
    "others_mapper C meta (owners_mapper K meta odt) cdt child = Some rs"
    using trigger_with_sound [OF assms(1) [unfolded trigger_owners_def trigger_others_def] assms(2)] by blast
  then have "rr_obj_ref request \<in> set (owners_mapper K meta odt child)"
    by (auto simp: others_mapper_def Let_def)
  then obtain oref where o1: "oref \<in> set (owner_references (meta child))"
    and o2: "from_owner_ref K (m_namespace (meta child)) oref odt = Some (rr_obj_ref request)"
    by (auto simp: owners_mapper_def map_filter_mem owner_references_def)
  from from_owner_ref_key [OF o2] c(1) o1 show ?thesis by blast
qed

theorem triggered_has_owner_ref_witness:
  "\<exists>out. trigger_owners dynamic_class dynamic_class (\<lambda>m. m) pod_resource pod_resource [Inr witness_child :: unit + object_meta] = Some out
     \<and> (\<forall>request. Inr request \<in> set out \<longrightarrow> kr_namespace (rr_obj_ref request) = Some ''ns'')"
proof -
  obtain out where out: "trigger_owners dynamic_class dynamic_class (\<lambda>m. m) pod_resource pod_resource [Inr witness_child :: unit + object_meta] = Some out"
    by (simp add: trigger_owners_def trigger_others_def others_mapper_def from_obj_with_def name_unchecked_def
        witness_child_def object_meta_default_def)
  have "kr_namespace (rr_obj_ref request) = Some ''ns''" if "Inr request \<in> set out" for request
    using triggered_has_owner_ref [OF out that] by (auto simp: key_of_def witness_child_def)
  with out show ?thesis by blast
qed

definition requeue_of :: "'e + action \<Rightarrow> ('e \<Rightarrow> action) \<Rightarrow> duration option" where
  "requeue_of result policy = requeue_after (case result of Inl e \<Rightarrow> policy e | Inr a \<Rightarrow> a)"

text \<open>
  rescheduling. For a request whose object is in the store, the future the runner runs
  gives back exactly the reconciler's result; a result that asks to be requeued (or an error
  whose policy asks for it) sends exactly one request for the same object, due that long
  after the reconciler finished and with the matching reason, unless the scheduler is shut
  down; while the channel is full nothing changes; and a request whose object is not in the
  store is an error that names it.
\<close>

theorem reschedule_semantics:
  "(store_get st (rr_obj_ref request) = None \<longrightarrow>
      applier_run_msg K reconciler policy st now tx request = Inl (ObjectNotFound (kref_erase K (rr_obj_ref request))))
   \<and> (store_get st (rr_obj_ref request) = Some obj \<longrightarrow>
      (\<exists>fut. applier_run_msg K reconciler policy st now tx request = Inr (rr_obj_ref request, fut)
         \<and> (case requeue_of (reconciler obj) (policy obj) of
              None \<Rightarrow> (\<exists>f'. reschedule_poll fut = Some (Ready (reconciler obj), f') \<and> tx_sent (reschedule_tx f') = tx_sent tx)
            | Some d \<Rightarrow>
                (case tx_ready tx of
                   Pending \<Rightarrow> reschedule_poll fut = Some (Pending, fut)
                 | Ready (Inl _) \<Rightarrow> (\<exists>f'. reschedule_poll fut = Some (Ready (reconciler obj), f') \<and> tx_sent (reschedule_tx f') = tx_sent tx)
                 | Ready (Inr _) \<Rightarrow> (\<exists>f' req. reschedule_poll fut = Some (Ready (reconciler obj), f')
                     \<and> tx_sent (reschedule_tx f') = tx_sent tx @ [req] \<and> req_run_at req = now + d
                     \<and> rr_obj_ref (message req) = rr_obj_ref request
                     \<and> rr_reason (message req) = (case reconciler obj of
                          Inl _ \<Rightarrow> ErrorPolicyRequestedRetry | Inr _ \<Rightarrow> ReconcilerRequestedRetry))))))"
  by (auto simp: applier_run_msg_def reschedule_new_def reschedule_poll_def requeue_of_def Let_def
      split: sum.splits option.splits poll.splits)

theorem reschedule_semantics_witness:
  "applier_run_msg dynamic_class (\<lambda>m. Inr await_change) (\<lambda>m (e::unit). await_change) (writer_new pod_resource :: (api_resource, object_meta) store_writer) 0
      \<lparr>tx_ready = Pending, tx_sent = []\<rparr> (request_from_ref (kref_new_with ''x'' pod_resource))
    = (Inl (ObjectNotFound (kref_erase dynamic_class (kref_new_with ''x'' pod_resource)))
        :: (api_resource, unit, unit) controller_error + api_resource kref \<times> (api_resource, unit) reschedule_reconciliation)"
  using reschedule_semantics [of "writer_new pod_resource :: (api_resource, object_meta) store_writer"
      "request_from_ref (kref_new_with ''x'' pod_resource)" dynamic_class "\<lambda>m. Inr await_change" "\<lambda>m (e::unit). await_change" 0
      "\<lparr>tx_ready = Pending, tx_sent = []\<rparr>"]
  by (simp add: store_get_def writer_new_def request_from_ref_def)

end
