(* ===== verification/Rt_Finalizer.thy ===== *)
theory Rt_Finalizer
  imports Rt_Controller
begin

text \<open>
  \<open>kube-runtime/src/finalizer.rs\<close>: the reconciler wrapper that keeps a finalizer on an object
  so that it cannot disappear before it is cleaned up. The API call and the wrapped reconciler
  act on a world of any type; the last sections give the world of a cluster, with stale views,
  failures, deletions and other controllers, and prove the guarantee the module documents.
\<close>

section \<open>The wrapper\<close>

datatype patch_op = OpTest string json | OpAdd string json | OpRemove string

datatype 'e finalizer_error =
    ApplyFailed 'e
  | CleanupFailed 'e
  | AddFinalizer client_error
  | RemoveFinalizer client_error
  | UnnamedObject

datatype 'k fevent = Apply 'k | Cleanup 'k

record finalizer_state =
  finalizer_index :: "nat option"
  is_deleting :: bool

fun position :: "string \<Rightarrow> string list \<Rightarrow> nat option" where
  "position x [] = None"
| "position x (y # ys) = (if y = x then Some 0 else map_option Suc (position x ys))"

definition for_object :: "object_meta \<Rightarrow> string \<Rightarrow> finalizer_state" where
  "for_object meta finalizer_name = \<lparr>finalizer_index = position finalizer_name (finalizers meta),
     is_deleting = (m_deletion_timestamp meta \<noteq> None)\<rparr>"

definition finalizers_path :: string where
  "finalizers_path = ''/metadata/finalizers''"

definition remove_ops :: "string \<Rightarrow> nat \<Rightarrow> patch_op list" where
  "remove_ops finalizer_name i =
     (let finalizer_path = finalizers_path @ ''/'' @ show_nat i in
      [OpTest finalizer_path (JStr finalizer_name), OpRemove finalizer_path])"

definition add_ops :: "string \<Rightarrow> object_meta \<Rightarrow> patch_op list" where
  "add_ops finalizer_name meta =
     (if finalizers meta = []
      then [OpTest finalizers_path JNull, OpAdd finalizers_path (JArr [JStr finalizer_name])]
      else [OpTest finalizers_path (JArr (map JStr (finalizers meta))),
            OpAdd (finalizers_path @ ''/-'') (JStr finalizer_name)])"

definition finalizer :: "(string \<Rightarrow> patch_op list \<Rightarrow> 'w \<Rightarrow> (client_error + unit) \<times> 'w) \<Rightarrow> string
    \<Rightarrow> ('k \<Rightarrow> object_meta) \<Rightarrow> 'k \<Rightarrow> ('k fevent \<Rightarrow> 'w \<Rightarrow> ('e + action) \<times> 'w) \<Rightarrow> 'w
    \<Rightarrow> ('e finalizer_error + action) \<times> 'w" where
  "finalizer api_patch finalizer_name meta obj reconcile w =
     (let st = for_object (meta obj) finalizer_name in
      case (finalizer_index st, is_deleting st) of
        (Some _, False) \<Rightarrow> (case reconcile (Apply obj) w of (res, w') \<Rightarrow> (map_err ApplyFailed res, w'))
      | (Some finalizer_i, True) \<Rightarrow>
          (case m_name (meta obj) of
             None \<Rightarrow> (Inl UnnamedObject, w)
           | Some name \<Rightarrow>
               (case reconcile (Cleanup obj) w of
                  (Inl e, w') \<Rightarrow> (Inl (CleanupFailed e), w')
                | (Inr action, w') \<Rightarrow>
                    (case api_patch name (remove_ops finalizer_name finalizer_i) w' of
                       (Inl e, w'') \<Rightarrow> (Inl (RemoveFinalizer e), w'')
                     | (Inr _, w'') \<Rightarrow> (Inr action, w''))))
      | (None, False) \<Rightarrow>
          (let patch = add_ops finalizer_name (meta obj) in
           case m_name (meta obj) of
             None \<Rightarrow> (Inl UnnamedObject, w)
           | Some name \<Rightarrow>
               (case api_patch name patch w of
                  (Inl e, w') \<Rightarrow> (Inl (AddFinalizer e), w')
                | (Inr _, w') \<Rightarrow> (Inr await_change, w')))
      | (None, True) \<Rightarrow> (Inr await_change, w))"

section \<open>The cluster around it\<close>

text \<open>
  One object: its current version at the server (\<open>None\<close> once it is gone), the versions that
  were ever served (a controller may act on any of them), and whether an \<open>Apply\<close> was ever
  started and a \<open>Cleanup\<close> ever succeeded.
\<close>

record fcluster =
  cur :: "object_meta option"
  past :: "object_meta set"
  apply_started :: bool
  cleaned :: bool

definition served :: "object_meta \<Rightarrow> fcluster \<Rightarrow> fcluster" where
  "served m c = c\<lparr>cur := Some m, past := insert m (past c)\<rparr>"

text \<open>A patch fails when the object is gone, when the network fails, or when a test fails.\<close>

definition cluster_patch :: "(patch_op list \<Rightarrow> string list \<Rightarrow> string list option) \<Rightarrow> bool
    \<Rightarrow> string \<Rightarrow> patch_op list \<Rightarrow> fcluster \<Rightarrow> (client_error + unit) \<times> fcluster" where
  "cluster_patch P net name ops c =
     (case cur c of
        None \<Rightarrow> (Inl (COther ''not found''), c)
      | Some m \<Rightarrow>
          if \<not> net then (Inl (COther ''network''), c)
          else (case P ops (finalizers m) of
                  None \<Rightarrow> (Inl (COther ''patch test failed''), c)
                | Some l \<Rightarrow> (Inr (), served (m\<lparr>m_finalizers := Some l\<rparr>) c)))"

fun cluster_reconcile :: "'e + action \<Rightarrow> object_meta fevent \<Rightarrow> fcluster \<Rightarrow> ('e + action) \<times> fcluster" where
  "cluster_reconcile res (Apply _) c = (res, c\<lparr>apply_started := True\<rparr>)"
| "cluster_reconcile (Inl e) (Cleanup _) c = (Inl e, c)"
| "cluster_reconcile (Inr a) (Cleanup _) c = (Inr a, c\<lparr>cleaned := True\<rparr>)"

definition run_finalizer :: "(patch_op list \<Rightarrow> string list \<Rightarrow> string list option) \<Rightarrow> string \<Rightarrow> bool \<Rightarrow> 'e + action
    \<Rightarrow> object_meta \<Rightarrow> fcluster \<Rightarrow> ('e finalizer_error + action) \<times> fcluster" where
  "run_finalizer P name net res v c =
     finalizer (cluster_patch P net) name (\<lambda>m. m) v (cluster_reconcile res) c"

inductive fstep :: "(patch_op list \<Rightarrow> string list \<Rightarrow> string list option) \<Rightarrow> string \<Rightarrow> fcluster \<Rightarrow> fcluster \<Rightarrow> bool"
  for P :: "patch_op list \<Rightarrow> string list \<Rightarrow> string list option" and name :: string where
  reconcile: "v \<in> past c \<Longrightarrow> fstep P name c (snd (run_finalizer P name net (res :: unit + action) v c))"
| delete: "cur c = Some m \<Longrightarrow> fstep P name c (served (m\<lparr>m_deletion_timestamp := Some t\<rparr>) c)"
| others: "\<lbrakk>cur c = Some m; filter ((=) name) l = filter ((=) name) (finalizers m)\<rbrakk>
             \<Longrightarrow> fstep P name c (served (m\<lparr>m_finalizers := Some l\<rparr>) c)"
| update: "\<lbrakk>cur c = Some m; finalizers m' = finalizers m\<rbrakk> \<Longrightarrow> fstep P name c (served m' c)"
| collect: "\<lbrakk>cur c = Some m; m_deletion_timestamp m \<noteq> None; finalizers m = []\<rbrakk> \<Longrightarrow> fstep P name c (c\<lparr>cur := None\<rparr>)"

definition created :: "object_meta \<Rightarrow> fcluster" where
  "created m = \<lparr>cur = Some m, past = {m}, apply_started = False, cleaned = False\<rparr>"

inductive freach :: "(patch_op list \<Rightarrow> string list \<Rightarrow> string list option) \<Rightarrow> string \<Rightarrow> fcluster \<Rightarrow> bool"
  for P :: "patch_op list \<Rightarrow> string list \<Rightarrow> string list option" and name :: string where
  start: "freach P name (created m)"
| step: "\<lbrakk>freach P name c; fstep P name c c'\<rbrakk> \<Longrightarrow> freach P name c'"

section \<open>Lemmas\<close>

lemma position_Some: "position x ys = Some i \<Longrightarrow> i < length ys \<and> ys ! i = x"
  by (induction ys arbitrary: i) (auto split: if_splits)

lemma position_None: "position x ys = None \<longleftrightarrow> x \<notin> set ys"
  by (induction ys) auto

lemma name_in_filter: "x \<in> set l \<longleftrightarrow> filter ((=) x) l \<noteq> []"
  by (induction l) auto

lemma served_simps [simp]:
  "cur (served m c) = Some m" "past (served m c) = insert m (past c)"
  "apply_started (served m c) = apply_started c" "cleaned (served m c) = cleaned c"
  by (simp_all add: served_def)

lemma finalizers_set [simp]:
  "finalizers (m\<lparr>m_finalizers := Some l\<rparr>) = l"
  "finalizers (m\<lparr>m_deletion_timestamp := t\<rparr>) = finalizers m"
  by (simp_all add: finalizers_def)

text \<open>
  The invariant: once the finalizer was seen on a served version, or an \<open>Apply\<close> was started,
  the object still carries it or has been cleaned up.
\<close>

definition finv :: "string \<Rightarrow> fcluster \<Rightarrow> bool" where
  "finv name c \<longleftrightarrow>
     ((\<exists>v \<in> past c. name \<in> set (finalizers v)) \<or> apply_started c \<longrightarrow>
        cleaned c \<or> (\<exists>m. cur c = Some m \<and> name \<in> set (finalizers m)))
     \<and> (\<forall>m. cur c = Some m \<longrightarrow> m \<in> past c)"

lemma finv_created [inv_intros]: "finv name (created m)"
  by (simp add: finv_def created_def)

lemma finv_served:
  assumes "finv name c" and "cur c = Some m"
    and "name \<in> set (finalizers m') \<longleftrightarrow> name \<in> set (finalizers m)"
  shows "finv name (served m' c)"
  using assms by (auto simp: finv_def)

text \<open>
  What the wrapper relies on: JSON patches are atomic, a failed test refuses the patch, and
  the patches it sends add the finalizer at the end or remove the one at the given index.
\<close>

locale json_patch_server =
  fixes P :: "patch_op list \<Rightarrow> string list \<Rightarrow> string list option"
  assumes patch_remove: "P (remove_ops n i) l = (if i < length l \<and> l ! i = n then Some (take i l @ drop (Suc i) l) else None)"
    and patch_add: "P (add_ops n meta) l = (if l = finalizers meta then Some (l @ [n]) else None)"
begin

text \<open>The possible effects of one call of the wrapper on the cluster.\<close>

lemma run_finalizer_effect:
  assumes "run_finalizer P name net res v c = (r, c')"
  shows "c' = c
       \<or> name \<in> set (finalizers v) \<and> m_deletion_timestamp v = None \<and> c' = c\<lparr>apply_started := True\<rparr>
       \<or> name \<in> set (finalizers v) \<and> m_deletion_timestamp v \<noteq> None \<and> c' = c\<lparr>cleaned := True\<rparr>
       \<or> (\<exists>m i. name \<in> set (finalizers v) \<and> m_deletion_timestamp v \<noteq> None \<and> cur c = Some m
            \<and> i < length (finalizers m) \<and> finalizers m ! i = name
            \<and> c' = served (m\<lparr>m_finalizers := Some (take i (finalizers m) @ drop (Suc i) (finalizers m))\<rparr>) (c\<lparr>cleaned := True\<rparr>))
       \<or> (\<exists>m. name \<notin> set (finalizers m) \<and> cur c = Some m
            \<and> c' = served (m\<lparr>m_finalizers := Some (finalizers m @ [name])\<rparr>) c)"
proof (cases "position name (finalizers v)")
  case None
  then have "name \<notin> set (finalizers v)" by (simp add: position_None)
  then show ?thesis
    using assms None
    by (auto simp: run_finalizer_def finalizer_def for_object_def cluster_patch_def patch_add
        split: option.splits bool.splits if_splits)
next
  case (Some i)
  have n: "name \<in> set (finalizers v)"
    using position_Some [OF Some] by auto
  show ?thesis
  proof (cases "m_deletion_timestamp v")
    case None
    with assms Some n show ?thesis
      by (auto simp: run_finalizer_def finalizer_def for_object_def)
  next
    case del: (Some t)
    show ?thesis
    proof (cases "c' = c \<or> c' = c\<lparr>cleaned := True\<rparr>")
      case True
      with n del show ?thesis by blast
    next
      case False
      then obtain m l where "cur c = Some m" "P (remove_ops name i) (finalizers m) = Some l"
        "c' = served (m\<lparr>m_finalizers := Some l\<rparr>) (c\<lparr>cleaned := True\<rparr>)"
        using assms Some del
        by (cases res) (auto simp: run_finalizer_def finalizer_def for_object_def cluster_patch_def split: option.splits if_splits)
      with n del show ?thesis by (auto simp: patch_remove split: if_splits)
    qed
  qed
qed

lemma finv_step [inv_intros]:
  assumes inv: "finv name c" and st: "fstep P name c c'"
  shows "finv name c'"
  using st
proof (cases rule: fstep.cases)
  case (reconcile v net res)
  obtain r where "run_finalizer P name net res v c = (r, c')"
    using reconcile(1) by (cases "run_finalizer P name net res v c") auto
  from run_finalizer_effect [OF this] inv reconcile(2) show ?thesis
    by (elim disjE exE conjE) (auto simp: finv_def)
next
  case (delete m t)
  show ?thesis unfolding delete(1) by (rule finv_served [OF inv delete(2)]) simp
next
  case (others m l)
  show ?thesis unfolding others(1)
    by (rule finv_served [OF inv others(2)]) (simp only: name_in_filter others(3) finalizers_set)
next
  case (update m m')
  show ?thesis unfolding update(1) by (rule finv_served [OF inv update(2)]) (simp add: update(3))
next
  case (collect m)
  then show ?thesis using inv by (auto simp: finv_def)
qed

lemma finv_reach: "freach P name c \<Longrightarrow> finv name c"
  by (induction rule: freach.induct) (auto intro: inv_intros)

lemma others_kept:
  assumes "run_finalizer P name net res v c = (r, c')" and "cur c = Some m"
  shows "\<exists>m'. cur c' = Some m' \<and> filter ((\<noteq>) name) (finalizers m') = filter ((\<noteq>) name) (finalizers m)"
proof -
  have "filter ((\<noteq>) name) (take i l @ drop (Suc i) l) = filter ((\<noteq>) name) l" if "i < length l" "l ! i = name" for i l
    using that id_take_nth_drop [of i l] by (metis (mono_tags, lifting) filter.simps(2) filter_append)
  with run_finalizer_effect [OF assms(1)] assms(2) show ?thesis by auto
qed

end

section \<open>A patch server that satisfies the contract\<close>

text \<open>
  The part of RFC 6902 that concerns the finalizer list of an object, an empty list being
  absent from the document: the whole list, its end, or one index.
\<close>

fun patch_one :: "patch_op \<Rightarrow> string list \<Rightarrow> string list option" where
  "patch_one (OpTest path v) l =
     (if path = finalizers_path then (if v = (if l = [] then JNull else JArr (map JStr l)) then Some l else None)
      else case Option.bind (strip_pre (finalizers_path @ ''/'') path) (parse_digits (length l)) of
        None \<Rightarrow> None
      | Some i \<Rightarrow> if JStr (l ! i) = v then Some l else None)"
| "patch_one (OpAdd path v) l =
     (if path = finalizers_path then (case v of JArr [JStr n] \<Rightarrow> Some [n] | _ \<Rightarrow> None)
      else if path = finalizers_path @ ''/-'' then (case v of JStr n \<Rightarrow> Some (l @ [n]) | _ \<Rightarrow> None)
      else None)"
| "patch_one (OpRemove path) l =
     (case Option.bind (strip_pre (finalizers_path @ ''/'') path) (parse_digits (length l)) of
        None \<Rightarrow> None
      | Some i \<Rightarrow> Some (take i l @ drop (Suc i) l))"

fun patch_all :: "patch_op list \<Rightarrow> string list \<Rightarrow> string list option" where
  "patch_all [] l = Some l"
| "patch_all (op # ops) l = (case patch_one op l of None \<Rightarrow> None | Some l' \<Rightarrow> patch_all ops l')"

lemma index_path: "Option.bind (strip_pre (finalizers_path @ ''/'') (finalizers_path @ ''/'' @ show_nat i)) (parse_digits n)
    = (if i < n then Some i else None)"
proof -
  have "strip_pre (finalizers_path @ ''/'') (finalizers_path @ ''/'' @ show_nat i) = Some (show_nat i)"
    using strip_pre_append [of "finalizers_path @ ''/''" "show_nat i"] by simp
  then show ?thesis by (simp add: parse_digits_show_nat)
qed

interpretation rfc6902: json_patch_server patch_all
proof (unfold_locales, goal_cases)
  case (1 n i l)
  have "finalizers_path @ ''/'' @ show_nat i \<noteq> finalizers_path" by (simp add: finalizers_path_def)
  then show ?case
    by (simp add: remove_ops_def Let_def index_path del: append.simps)
next
  case (2 n meta l)
  show ?case
    by (auto simp: add_ops_def finalizers_path_def inj_map_eq_map inj_def)
qed

section \<open>Properties\<close>

text \<open>
  C3: the documented guarantee. In every run of the cluster, with reconciliations on stale
  versions, network failures, failing reconcilers, deletions and other controllers that keep
  off this finalizer, if \<open>Apply\<close> was ever started then the object does not disappear before
  \<open>Cleanup\<close> has succeeded; and as long as it has not, the object carries the finalizer.
\<close>

theorem finalizer_guarantee:
  assumes "json_patch_server P" and "freach P name c" and "apply_started c" and "\<not> cleaned c"
  shows "\<exists>m. cur c = Some m \<and> name \<in> set (finalizers m)"
  using json_patch_server.finv_reach [OF assms(1,2)] assms(3,4) by (simp add: finv_def)

definition guarded_object :: object_meta where
  "guarded_object = object_meta_default\<lparr>m_name := Some ''o'', m_finalizers := Some [''f'']\<rparr>"

lemma guarded_run:
  "\<exists>c. freach patch_all ''f'' c \<and> apply_started c \<and> \<not> cleaned c"
proof -
  let ?c = "created guarded_object"
  have "fstep patch_all ''f'' ?c (snd (run_finalizer patch_all ''f'' True (Inr await_change :: unit + action) guarded_object ?c))"
    by (rule fstep.reconcile) (simp add: created_def)
  then have "freach patch_all ''f'' (snd (run_finalizer patch_all ''f'' True (Inr await_change :: unit + action) guarded_object ?c))"
    using freach.start freach.step by blast
  moreover have "snd (run_finalizer patch_all ''f'' True (Inr await_change :: unit + action) guarded_object ?c)
      = ?c\<lparr>apply_started := True\<rparr>"
    by (simp add: run_finalizer_def finalizer_def for_object_def guarded_object_def object_meta_default_def finalizers_def)
  ultimately show ?thesis by (auto simp: created_def)
qed

theorem finalizer_guarantee_witness:
  "\<exists>c m. freach patch_all ''f'' c \<and> apply_started c \<and> cur c = Some m \<and> ''f'' \<in> set (finalizers m)"
  using guarded_run finalizer_guarantee [OF rfc6902.json_patch_server_axioms] by blast



text \<open>
  what the wrapper does in each state of the object. Without the finalizer it never calls
  the reconciler; it calls \<open>Apply\<close> exactly when the finalizer is set and the object is not
  being deleted; it sends the removal only after a successful \<open>Cleanup\<close>, whose failure is
  passed on with the object untouched.
\<close>

theorem finalizer_branches:
  "(finalizer_name \<notin> set (finalizers (meta obj)) \<longrightarrow>
      finalizer api_patch finalizer_name meta obj reconcile w = finalizer api_patch finalizer_name meta obj reconcile' w)
   \<and> (finalizer_name \<in> set (finalizers (meta obj)) \<and> m_deletion_timestamp (meta obj) = None \<longrightarrow>
      finalizer api_patch finalizer_name meta obj reconcile w
        = (map_err ApplyFailed (fst (reconcile (Apply obj) w)), snd (reconcile (Apply obj) w)))
   \<and> (finalizer_name \<in> set (finalizers (meta obj)) \<and> m_deletion_timestamp (meta obj) \<noteq> None \<and> m_name (meta obj) \<noteq> None
        \<and> reconcile (Cleanup obj) w = (Inl e, w') \<longrightarrow>
      finalizer api_patch finalizer_name meta obj reconcile w = (Inl (CleanupFailed e), w'))
   \<and> (finalizer_name \<notin> set (finalizers (meta obj)) \<and> m_deletion_timestamp (meta obj) \<noteq> None \<longrightarrow>
      finalizer api_patch finalizer_name meta obj reconcile w = (Inr await_change, w))"
proof (cases "position finalizer_name (finalizers (meta obj))")
  case None
  then have "finalizer_name \<notin> set (finalizers (meta obj))" by (simp add: position_None)
  then show ?thesis using None by (auto simp: finalizer_def for_object_def Let_def)
next
  case (Some i)
  then have "finalizer_name \<in> set (finalizers (meta obj))" using position_Some [OF Some] by auto
  then show ?thesis using Some by (auto simp: finalizer_def for_object_def Let_def case_prod_beta)
qed

theorem finalizer_branches_witness:
  "finalizer (\<lambda>n ops w. (Inr (), w + 1)) ''f'' (\<lambda>m. m) guarded_object (\<lambda>e w. (Inl ''boom'', w)) (0::nat)
    = (Inl (ApplyFailed ''boom''), 0)"
  using finalizer_branches [of "''f''" "\<lambda>m. m" guarded_object "\<lambda>n ops w. (Inr (), w + 1)" "\<lambda>e w. (Inl ''boom'', w)" "0::nat"]
  by (simp add: guarded_object_def finalizers_def object_meta_default_def)

end
