(* ===== verification/Cl_Kubeconfig.thy ===== *)
theory Cl_Kubeconfig
  imports Prelude
begin

text \<open>
  \<open>kube-client/src/config/file_config.rs\<close> and \<open>file_loader.rs\<close>: kubeconfig files, their
  merge rules, the loading of certificates and keys, and the choice of context, cluster and
  user. The file system, the environment, the platform's path rules, the YAML and base64
  decoders and the URI and certificate parsers are the record \<open>kc_env\<close>.
\<close>

section \<open>Data\<close>

record named_extension =
  ne_name :: string
  ne_extension :: json

record preferences =
  pf_colors :: "bool option"
  pf_extensions :: "named_extension list option"

record cluster =
  cl_server :: "string option"
  cl_insecure_skip_tls_verify :: "bool option"
  cl_certificate_authority :: "string option"
  cl_certificate_authority_data :: "string option"
  cl_proxy_url :: "string option"
  cl_tls_server_name :: "string option"
  cl_extensions :: "named_extension list option"

record named_cluster =
  nc_name :: string
  nc_cluster :: "cluster option"

record auth_provider_config =
  ap_name :: string
  ap_config :: "string \<rightharpoonup> string"

datatype exec_interactive_mode = Never | IfAvailable | Always

record exec_config =
  xc_api_version :: "string option"
  xc_command :: "string option"
  xc_args :: "string list option"
  xc_env :: "(string \<rightharpoonup> string) list option"
  xc_drop_env :: "string list option"
  xc_interactive_mode :: "exec_interactive_mode option"

record auth_info =
  ai_username :: "string option"
  ai_password :: "string option"
  ai_token :: "string option"
  ai_token_file :: "string option"
  ai_client_certificate :: "string option"
  ai_client_certificate_data :: "string option"
  ai_client_key :: "string option"
  ai_client_key_data :: "string option"
  ai_impersonate :: "string option"
  ai_impersonate_groups :: "string list option"
  ai_auth_provider :: "auth_provider_config option"
  ai_exec :: "exec_config option"

record named_auth_info =
  na_name :: string
  na_auth_info :: "auth_info option"

record kcontext =
  cx_cluster :: string
  cx_user :: string
  cx_namespace :: "string option"
  cx_extensions :: "named_extension list option"

record named_context =
  nx_name :: string
  nx_context :: "kcontext option"

record kubeconfig =
  kc_preferences :: "preferences option"
  kc_clusters :: "named_cluster list"
  kc_auth_infos :: "named_auth_info list"
  kc_contexts :: "named_context list"
  kc_current_context :: "string option"
  kc_extensions :: "named_extension list option"
  kc_kind :: "string option"
  kc_api_version :: "string option"

definition kubeconfig_default :: kubeconfig where
  "kubeconfig_default = \<lparr>kc_preferences = None, kc_clusters = [], kc_auth_infos = [], kc_contexts = [],
     kc_current_context = None, kc_extensions = None, kc_kind = None, kc_api_version = None\<rparr>"

datatype load_data_error = DecodeBase64 string | ReadFile string string | NoBase64DataOrFile

datatype kubeconfig_error =
    CurrentContextNotSet
  | KindMismatch
  | ApiVersionMismatch
  | LoadContext string
  | LoadClusterOfContext string
  | FindUser string
  | FindPath
  | ReadConfig string string
  | ParseYaml string
  | InvalidStructure string
  | MissingClusterUrl
  | ParseClusterUrl string
  | ParseProxyUrl string
  | LoadCertificateAuthority load_data_error
  | LoadClientCertificate load_data_error
  | LoadClientKey load_data_error
  | ParseCertificates string

record ('doc, 'val, 'uri) kc_env =
  read_to_string :: "string \<Rightarrow> string + string"
  read_file :: "string \<Rightarrow> string + bytes"
  yaml_documents :: "string \<Rightarrow> 'doc list"
  yaml_value :: "'doc \<Rightarrow> string + 'val"
  yaml_from_value :: "'val \<Rightarrow> string + kubeconfig"
  base64_decode :: "string \<Rightarrow> string + bytes"
  path_parent :: "string \<Rightarrow> string option"
  path_is_relative :: "string \<Rightarrow> bool"
  path_join :: "string \<Rightarrow> string \<Rightarrow> string"
  path_to_str :: "string \<Rightarrow> string option"
  home_dir :: "string option"
  env_var_os :: "string \<Rightarrow> string option"
  env_var :: "string \<Rightarrow> string option"
  split_paths :: "string \<Rightarrow> string list"
  parse_certs :: "bytes \<Rightarrow> string + bytes list"
  parse_uri :: "string \<Rightarrow> string + 'uri"

section \<open>Merging\<close>

definition append_new_named :: "('t \<Rightarrow> string) \<Rightarrow> 't list \<Rightarrow> 't list \<Rightarrow> 't list" where
  "append_new_named f base nxt =
     (let existing = set (map f base) in base @ filter (\<lambda>x. f x \<notin> existing) nxt)"

definition kc_merge :: "kubeconfig \<Rightarrow> kubeconfig \<Rightarrow> kubeconfig_error + kubeconfig" where
  "kc_merge self nxt =
     (if kc_kind self \<noteq> None \<and> kc_kind nxt \<noteq> None \<and> kc_kind self \<noteq> kc_kind nxt then Inl KindMismatch
      else if kc_api_version self \<noteq> None \<and> kc_api_version nxt \<noteq> None \<and> kc_api_version self \<noteq> kc_api_version nxt
      then Inl ApiVersionMismatch
      else Inr (self\<lparr>kc_kind := opt_or (kc_kind self) (kc_kind nxt),
                    kc_api_version := opt_or (kc_api_version self) (kc_api_version nxt),
                    kc_preferences := opt_or (kc_preferences self) (kc_preferences nxt),
                    kc_clusters := append_new_named nc_name (kc_clusters self) (kc_clusters nxt),
                    kc_auth_infos := append_new_named na_name (kc_auth_infos self) (kc_auth_infos nxt),
                    kc_contexts := append_new_named nx_name (kc_contexts self) (kc_contexts nxt),
                    kc_current_context := opt_or (kc_current_context self) (kc_current_context nxt),
                    kc_extensions := opt_or (kc_extensions self) (kc_extensions nxt)\<rparr>))"

section \<open>Reading\<close>

fun documents_of :: "('doc, 'val, 'uri) kc_env \<Rightarrow> 'doc list \<Rightarrow> kubeconfig_error + kubeconfig list" where
  "documents_of E [] = Inr []"
| "documents_of E (doc # docs) =
     rbind (map_err ParseYaml (yaml_value E doc)) (\<lambda>value.
     rbind (map_err InvalidStructure (yaml_from_value E value)) (\<lambda>kubeconfig.
     rbind (documents_of E docs) (\<lambda>rest. Inr (kubeconfig # rest))))"

definition kubeconfig_from_yaml :: "('doc, 'val, 'uri) kc_env \<Rightarrow> string \<Rightarrow> kubeconfig_error + kubeconfig list" where
  "kubeconfig_from_yaml E text = documents_of E (yaml_documents E text)"

definition to_absolute :: "('doc, 'val, 'uri) kc_env \<Rightarrow> string \<Rightarrow> string \<Rightarrow> string option" where
  "to_absolute E dir file = (if path_is_relative E file then path_to_str E (path_join E dir file) else None)"

definition absolutize :: "('doc, 'val, 'uri) kc_env \<Rightarrow> string \<Rightarrow> string option \<Rightarrow> string option" where
  "absolutize E dir file =
     (case file of
        None \<Rightarrow> None
      | Some path \<Rightarrow> (case to_absolute E dir path of Some abs_path \<Rightarrow> Some abs_path | None \<Rightarrow> Some path))"

definition remap_paths :: "('doc, 'val, 'uri) kc_env \<Rightarrow> string \<Rightarrow> kubeconfig \<Rightarrow> kubeconfig" where
  "remap_paths E dir config =
     config\<lparr>kc_clusters := map (\<lambda>named. named\<lparr>nc_cluster := map_option (\<lambda>c.
              c\<lparr>cl_certificate_authority := absolutize E dir (cl_certificate_authority c)\<rparr>) (nc_cluster named)\<rparr>)
              (kc_clusters config),
            kc_auth_infos := map (\<lambda>named. named\<lparr>na_auth_info := map_option (\<lambda>a.
              a\<lparr>ai_client_certificate := absolutize E dir (ai_client_certificate a),
                ai_client_key := absolutize E dir (ai_client_key a),
                ai_token_file := absolutize E dir (ai_token_file a)\<rparr>) (na_auth_info named)\<rparr>)
              (kc_auth_infos config)\<rparr>"

fun merge_docs :: "('doc, 'val, 'uri) kc_env \<Rightarrow> string option \<Rightarrow> kubeconfig option \<Rightarrow> kubeconfig list
    \<Rightarrow> kubeconfig_error + kubeconfig option" where
  "merge_docs E dir merged [] = Inr merged"
| "merge_docs E dir merged (config # configs) =
     (let config = (case dir of Some d \<Rightarrow> remap_paths E d config | None \<Rightarrow> config) in
      case merged of
        Some c \<Rightarrow> rbind (kc_merge c config) (\<lambda>m. merge_docs E dir (Some m) configs)
      | None \<Rightarrow> merge_docs E dir (Some config) configs)"

definition read_from :: "('doc, 'val, 'uri) kc_env \<Rightarrow> string \<Rightarrow> kubeconfig_error + kubeconfig" where
  "read_from E path =
     rbind (map_err (\<lambda>source. ReadConfig source path) (read_to_string E path)) (\<lambda>data.
     rbind (kubeconfig_from_yaml E data) (\<lambda>docs.
     rbind (merge_docs E (path_parent E path) None docs) (\<lambda>merged.
       Inr (unwrap_or merged kubeconfig_default))))"

fun try_fold :: "('b \<Rightarrow> 'a \<Rightarrow> 'e + 'b) \<Rightarrow> 'b \<Rightarrow> 'a list \<Rightarrow> 'e + 'b" where
  "try_fold f b [] = Inr b"
| "try_fold f b (x # xs) = rbind (f b x) (\<lambda>b'. try_fold f b' xs)"

definition from_yaml :: "('doc, 'val, 'uri) kc_env \<Rightarrow> string \<Rightarrow> kubeconfig_error + kubeconfig" where
  "from_yaml E text = rbind (kubeconfig_from_yaml E text) (try_fold kc_merge kubeconfig_default)"

definition from_env :: "('doc, 'val, 'uri) kc_env \<Rightarrow> kubeconfig_error + kubeconfig option" where
  "from_env E =
     (case env_var_os E ''KUBECONFIG'' of
        Some value \<Rightarrow>
          let paths = filter (\<lambda>p. p \<noteq> []) (split_paths E value) in
          if paths = [] then Inr None
          else rbind (try_fold (\<lambda>m p. rbind (read_from E p) (kc_merge m)) kubeconfig_default paths) (\<lambda>merged.
            Inr (Some merged))
      | None \<Rightarrow> Inr None)"

definition default_kube_path :: "('doc, 'val, 'uri) kc_env \<Rightarrow> string option" where
  "default_kube_path E = map_option (\<lambda>h. path_join E (path_join E h ''.kube'') ''config'') (home_dir E)"

definition kc_read :: "('doc, 'val, 'uri) kc_env \<Rightarrow> kubeconfig_error + kubeconfig" where
  "kc_read E =
     rbind (from_env E) (\<lambda>r. case r of
       Some config \<Rightarrow> Inr config
     | None \<Rightarrow> rbind (ok_or (default_kube_path E) FindPath) (read_from E))"

section \<open>Certificates and keys\<close>

definition ensure_trailing_newline :: "bytes \<Rightarrow> bytes" where
  "ensure_trailing_newline data = (if data \<noteq> [] \<and> last data \<noteq> 10 then data @ [10] else data)"

definition load_from_base64 :: "('doc, 'val, 'uri) kc_env \<Rightarrow> string \<Rightarrow> load_data_error + bytes" where
  "load_from_base64 E value = map_err DecodeBase64 (base64_decode E value)"

definition load_from_file :: "('doc, 'val, 'uri) kc_env \<Rightarrow> string \<Rightarrow> load_data_error + bytes" where
  "load_from_file E file = map_err (\<lambda>source. ReadFile source file) (read_file E file)"

definition load_from_base64_or_file :: "('doc, 'val, 'uri) kc_env \<Rightarrow> string option \<Rightarrow> string option \<Rightarrow> load_data_error + bytes" where
  "load_from_base64_or_file E value file =
     rbind (unwrap_or (opt_or (map_option (load_from_base64 E) value) (map_option (load_from_file E) file))
              (Inl NoBase64DataOrFile))
       (\<lambda>data. Inr (ensure_trailing_newline data))"

definition load_certificate_authority :: "('doc, 'val, 'uri) kc_env \<Rightarrow> cluster \<Rightarrow> kubeconfig_error + bytes option" where
  "load_certificate_authority E c =
     (if cl_certificate_authority c = None \<and> cl_certificate_authority_data c = None then Inr None
      else rbind (map_err LoadCertificateAuthority
             (load_from_base64_or_file E (cl_certificate_authority_data c) (cl_certificate_authority c)))
             (\<lambda>ca. Inr (Some ca)))"

definition load_client_certificate :: "('doc, 'val, 'uri) kc_env \<Rightarrow> auth_info \<Rightarrow> kubeconfig_error + bytes" where
  "load_client_certificate E a = map_err LoadClientCertificate
     (load_from_base64_or_file E (ai_client_certificate_data a) (ai_client_certificate a))"

definition load_client_key :: "('doc, 'val, 'uri) kc_env \<Rightarrow> auth_info \<Rightarrow> kubeconfig_error + bytes" where
  "load_client_key E a = map_err LoadClientKey (load_from_base64_or_file E (ai_client_key_data a) (ai_client_key a))"

definition identity_pem :: "('doc, 'val, 'uri) kc_env \<Rightarrow> auth_info \<Rightarrow> kubeconfig_error + bytes" where
  "identity_pem E a =
     rbind (load_client_certificate E a) (\<lambda>client_cert.
     rbind (load_client_key E a) (\<lambda>client_key. Inr (client_key @ client_cert)))"

section \<open>The loader\<close>

record kubeconfig_options =
  ko_context :: "string option"
  ko_cluster :: "string option"
  ko_user :: "string option"

record config_loader =
  ld_current_context :: kcontext
  ld_cluster :: cluster
  ld_user :: auth_info

definition loader_load :: "kubeconfig \<Rightarrow> string option \<Rightarrow> string option \<Rightarrow> string option \<Rightarrow> kubeconfig_error + config_loader" where
  "loader_load config context cluster user =
     rbind (ok_or (opt_or context (kc_current_context config)) CurrentContextNotSet) (\<lambda>context_name.
     rbind (ok_or (Option.bind (List.find (\<lambda>n. nx_name n = context_name) (kc_contexts config)) nx_context)
              (LoadContext context_name)) (\<lambda>current_context.
     let cluster_name = unwrap_or cluster (cx_cluster current_context) in
     rbind (ok_or (Option.bind (List.find (\<lambda>n. nc_name n = cluster_name) (kc_clusters config)) nc_cluster)
              (LoadClusterOfContext cluster_name)) (\<lambda>cl.
     let user_name = unwrap_or user (cx_user current_context) in
     rbind (ok_or (Option.bind (List.find (\<lambda>n. na_name n = user_name) (kc_auth_infos config)) na_auth_info)
              (FindUser user_name)) (\<lambda>us.
     Inr \<lparr>ld_current_context = current_context, ld_cluster = cl, ld_user = us\<rparr>))))"

definition new_from_kubeconfig :: "kubeconfig \<Rightarrow> kubeconfig_options \<Rightarrow> kubeconfig_error + config_loader" where
  "new_from_kubeconfig config options =
     loader_load config (ko_context options) (ko_cluster options) (ko_user options)"

definition new_from_options :: "('doc, 'val, 'uri) kc_env \<Rightarrow> kubeconfig_options \<Rightarrow> kubeconfig_error + config_loader" where
  "new_from_options E options =
     rbind (kc_read E) (\<lambda>config. loader_load config (ko_context options) (ko_cluster options) (ko_user options))"

definition ca_bundle :: "('doc, 'val, 'uri) kc_env \<Rightarrow> config_loader \<Rightarrow> kubeconfig_error + bytes list option" where
  "ca_bundle E ld =
     rbind (load_certificate_authority E (ld_cluster ld)) (\<lambda>r. case r of
       Some bundle \<Rightarrow> rbind (map_err ParseCertificates (parse_certs E bundle)) (\<lambda>certs. Inr (Some certs))
     | None \<Rightarrow> Inr None)"

definition nonempty :: "string option \<Rightarrow> string option" where
  "nonempty s = (case s of Some [] \<Rightarrow> None | _ \<Rightarrow> s)"

definition loader_proxy_url :: "('doc, 'val, 'uri) kc_env \<Rightarrow> config_loader \<Rightarrow> kubeconfig_error + 'uri option" where
  "loader_proxy_url E ld =
     (case opt_or (nonempty (cl_proxy_url (ld_cluster ld)))
             (opt_or (nonempty (env_var E ''HTTP_PROXY''))
               (opt_or (nonempty (env_var E ''http_proxy''))
                 (opt_or (nonempty (env_var E ''HTTPS_PROXY'')) (nonempty (env_var E ''https_proxy''))))) of
        Some proxy \<Rightarrow> rbind (map_err ParseProxyUrl (parse_uri E proxy)) (\<lambda>u. Inr (Some u))
      | None \<Rightarrow> Inr None)"

section \<open>Lemmas\<close>

lemma find_append_new_named:
  "List.find (\<lambda>x. f x = n) (append_new_named f base nxt)
     = opt_or (List.find (\<lambda>x. f x = n) base) (List.find (\<lambda>x. f x = n) nxt)"
proof (cases "List.find (\<lambda>x. f x = n) base")
  case None
  then have "n \<notin> set (map f base)" by (auto simp: find_None_iff)
  then have "List.find (\<lambda>x. f x \<notin> set (map f base) \<and> f x = n) nxt = List.find (\<lambda>x. f x = n) nxt"
    by (intro find_cong) auto
  then show ?thesis using None by (simp add: append_new_named_def find_append find_filter)
next
  case (Some x)
  then show ?thesis by (simp add: append_new_named_def find_append)
qed

lemma append_new_named_assoc:
  "append_new_named f (append_new_named f a b) c = append_new_named f a (append_new_named f b c)"
proof -
  have "f x \<notin> set (map f (a @ filter (\<lambda>x. f x \<notin> set (map f a)) b)) \<longleftrightarrow> f x \<notin> set (map f a) \<and> f x \<notin> set (map f b)" for x
    by auto
  then show ?thesis
    unfolding append_new_named_def Let_def by (simp add: conj_commute)
qed

lemma append_new_named_unit [simp]: "append_new_named f [] b = b" "append_new_named f a [] = a"
  by (simp_all add: append_new_named_def)

lemma kc_merge_unit [simp]: "kc_merge kubeconfig_default c = Inr c" "kc_merge c kubeconfig_default = Inr c"
  by (simp_all add: kc_merge_def kubeconfig_default_def)

definition clash :: "'a option \<Rightarrow> 'a option \<Rightarrow> bool" where
  "clash x y \<longleftrightarrow> x \<noteq> None \<and> y \<noteq> None \<and> x \<noteq> y"

lemma clash_or: "\<not> clash a b \<Longrightarrow> clash (opt_or a b) c \<longleftrightarrow> clash a c \<or> clash b c"
  by (cases a; cases b; cases c) (auto simp: clash_def)

lemma clash_or_right: "\<not> clash b c \<Longrightarrow> clash a (opt_or b c) \<longleftrightarrow> clash a b \<or> clash a c"
  by (cases a; cases b; cases c) (auto simp: clash_def)

lemma kc_merge_Inr:
  "kc_merge a b = Inr c \<longleftrightarrow> \<not> clash (kc_kind a) (kc_kind b) \<and> \<not> clash (kc_api_version a) (kc_api_version b)
     \<and> c = \<lparr>kc_preferences = opt_or (kc_preferences a) (kc_preferences b),
            kc_clusters = append_new_named nc_name (kc_clusters a) (kc_clusters b),
            kc_auth_infos = append_new_named na_name (kc_auth_infos a) (kc_auth_infos b),
            kc_contexts = append_new_named nx_name (kc_contexts a) (kc_contexts b),
            kc_current_context = opt_or (kc_current_context a) (kc_current_context b),
            kc_extensions = opt_or (kc_extensions a) (kc_extensions b),
            kc_kind = opt_or (kc_kind a) (kc_kind b),
            kc_api_version = opt_or (kc_api_version a) (kc_api_version b)\<rparr>"
  by (cases a) (auto simp: kc_merge_def clash_def)

lemma kc_merge_assoc:
  "rbind (kc_merge a b) (\<lambda>x. kc_merge x c) = Inr m \<longleftrightarrow> rbind (kc_merge b c) (kc_merge a) = Inr m"
proof -
  have left: "rbind (kc_merge a b) (\<lambda>x. kc_merge x c) = Inr m \<longleftrightarrow> (\<exists>x. kc_merge a b = Inr x \<and> kc_merge x c = Inr m)"
    by (simp add: rbind_eq_Inr)
  have right: "rbind (kc_merge b c) (kc_merge a) = Inr m \<longleftrightarrow> (\<exists>x. kc_merge b c = Inr x \<and> kc_merge a x = Inr m)"
    by (simp add: rbind_eq_Inr)
  show ?thesis
    unfolding left right kc_merge_Inr
    by (auto simp: append_new_named_assoc opt_or_assoc clash_or clash_or_right)
qed

lemma merge_docs_try_fold:
  "merge_docs E None (Some c) docs = rbind (try_fold kc_merge c docs) (\<lambda>m. Inr (Some m))"
proof (induction docs arbitrary: c)
  case (Cons d docs)
  then show ?case by (cases "kc_merge c d") simp_all
qed simp

text \<open>Looking up the content of a named entry: the first entry of the name counts.\<close>

definition context_named :: "kubeconfig \<Rightarrow> string \<Rightarrow> kcontext option" where
  "context_named config n = Option.bind (List.find (\<lambda>x. nx_name x = n) (kc_contexts config)) nx_context"

definition cluster_named :: "kubeconfig \<Rightarrow> string \<Rightarrow> cluster option" where
  "cluster_named config n = Option.bind (List.find (\<lambda>x. nc_name x = n) (kc_clusters config)) nc_cluster"

definition user_named :: "kubeconfig \<Rightarrow> string \<Rightarrow> auth_info option" where
  "user_named config n = Option.bind (List.find (\<lambda>x. na_name x = n) (kc_auth_infos config)) na_auth_info"

lemmas named_defs = context_named_def cluster_named_def user_named_def

section \<open>Properties\<close>

text \<open>
  C33: merging follows the documented rules. A merge fails exactly when both files set a
  different kind or a different \<open>apiVersion\<close>; otherwise every single value is the first one
  set, and every named cluster, user and context is looked up in the first file and only if
  it is not there in the second, whole entries at a time.
\<close>

theorem kc_merge_first_wins:
  "((\<exists>e. kc_merge a b = Inl e) \<longleftrightarrow>
      (\<exists>x y. x \<noteq> y \<and> (kc_kind a = Some x \<and> kc_kind b = Some y \<or> kc_api_version a = Some x \<and> kc_api_version b = Some y)))
   \<and> (\<forall>c. kc_merge a b = Inr c \<longrightarrow>
        kc_current_context c = opt_or (kc_current_context a) (kc_current_context b)
        \<and> kc_preferences c = opt_or (kc_preferences a) (kc_preferences b)
        \<and> kc_extensions c = opt_or (kc_extensions a) (kc_extensions b)
        \<and> kc_kind c = opt_or (kc_kind a) (kc_kind b) \<and> kc_api_version c = opt_or (kc_api_version a) (kc_api_version b)
        \<and> (\<forall>n. List.find (\<lambda>x. nc_name x = n) (kc_clusters c)
              = opt_or (List.find (\<lambda>x. nc_name x = n) (kc_clusters a)) (List.find (\<lambda>x. nc_name x = n) (kc_clusters b))
            \<and> List.find (\<lambda>x. na_name x = n) (kc_auth_infos c)
              = opt_or (List.find (\<lambda>x. na_name x = n) (kc_auth_infos a)) (List.find (\<lambda>x. na_name x = n) (kc_auth_infos b))
            \<and> List.find (\<lambda>x. nx_name x = n) (kc_contexts c)
              = opt_or (List.find (\<lambda>x. nx_name x = n) (kc_contexts a)) (List.find (\<lambda>x. nx_name x = n) (kc_contexts b))))"
proof -
  have "(\<exists>e. kc_merge a b = Inl e) \<longleftrightarrow> clash (kc_kind a) (kc_kind b) \<or> clash (kc_api_version a) (kc_api_version b)"
    by (auto simp: kc_merge_def clash_def)
  moreover have "clash x y \<longleftrightarrow> (\<exists>u v. u \<noteq> v \<and> x = Some u \<and> y = Some v)" for x y :: "string option"
    by (auto simp: clash_def)
  ultimately show ?thesis by (auto simp: kc_merge_Inr find_append_new_named)
qed

theorem kc_merge_first_wins_witness:
  "kc_merge (kubeconfig_default\<lparr>kc_current_context := Some ''a''\<rparr>) (kubeconfig_default\<lparr>kc_current_context := Some ''b''\<rparr>)
     = Inr (kubeconfig_default\<lparr>kc_current_context := Some ''a''\<rparr>)
   \<and> kc_current_context (kubeconfig_default\<lparr>kc_current_context := Some ''a''\<rparr>) = Some ''a''"
proof -
  let ?a = "kubeconfig_default\<lparr>kc_current_context := Some ''a''\<rparr>" and ?b = "kubeconfig_default\<lparr>kc_current_context := Some ''b''\<rparr>"
  have m: "kc_merge ?a ?b = Inr ?a" by (simp add: kc_merge_def kubeconfig_default_def)
  with kc_merge_first_wins [of ?a ?b] show ?thesis by auto
qed

text \<open>
  the order of merging does not matter beyond the order of the files. Merging is
  associative (the same result, and an error in one grouping exactly when in the other) with
  the empty configuration as unit, so the documents of one text give the same configuration
  whether they are folded from the empty configuration (\<open>from_yaml\<close>) or from the first
  document (\<open>read_from\<close>, for a path without parent).
\<close>

theorem kc_merge_monoid:
  "(rbind (kc_merge a b) (\<lambda>x. kc_merge x c) = Inr m \<longleftrightarrow> rbind (kc_merge b c) (kc_merge a) = Inr m)
   \<and> kc_merge kubeconfig_default a = Inr a \<and> kc_merge a kubeconfig_default = Inr a
   \<and> rbind (merge_docs E None None docs) (\<lambda>r. Inr (unwrap_or r kubeconfig_default)) = try_fold kc_merge kubeconfig_default docs"
proof -
  have "rbind (merge_docs E None None docs) (\<lambda>r. Inr (unwrap_or r kubeconfig_default)) = try_fold kc_merge kubeconfig_default docs"
  proof (cases docs)
    case (Cons d ds)
    then show ?thesis by (cases "try_fold kc_merge d ds") (simp_all add: merge_docs_try_fold)
  qed simp
  then show ?thesis by (simp add: kc_merge_assoc)
qed

text \<open>
  the loader. Loading from a configuration succeeds exactly when a context name is given
  or set, that context exists with content, and the cluster and user it names (or the ones
  given instead) exist with content; then the result is exactly those three entries. Otherwise
  the error names the first of them that is missing, in this order.
\<close>

theorem loader_load_exact:
  "(loader_load config context cluster user = Inr ld \<longleftrightarrow>
     (\<exists>ctx. opt_or context (kc_current_context config) = Some ctx
        \<and> context_named config ctx = Some (ld_current_context ld)
        \<and> cluster_named config (unwrap_or cluster (cx_cluster (ld_current_context ld))) = Some (ld_cluster ld)
        \<and> user_named config (unwrap_or user (cx_user (ld_current_context ld))) = Some (ld_user ld)))
   \<and> (loader_load config context cluster user = Inl e \<longleftrightarrow>
     (case opt_or context (kc_current_context config) of
        None \<Rightarrow> e = CurrentContextNotSet
      | Some ctx \<Rightarrow> (case context_named config ctx of
          None \<Rightarrow> e = LoadContext ctx
        | Some cx \<Rightarrow>
            cluster_named config (unwrap_or cluster (cx_cluster cx)) = None \<and> e = LoadClusterOfContext (unwrap_or cluster (cx_cluster cx))
            \<or> cluster_named config (unwrap_or cluster (cx_cluster cx)) \<noteq> None
              \<and> user_named config (unwrap_or user (cx_user cx)) = None \<and> e = FindUser (unwrap_or user (cx_user cx)))))"
proof
  show "loader_load config context cluster user = Inr ld \<longleftrightarrow>
     (\<exists>ctx. opt_or context (kc_current_context config) = Some ctx
        \<and> context_named config ctx = Some (ld_current_context ld)
        \<and> cluster_named config (unwrap_or cluster (cx_cluster (ld_current_context ld))) = Some (ld_cluster ld)
        \<and> user_named config (unwrap_or user (cx_user (ld_current_context ld))) = Some (ld_user ld))"
    by (cases ld) (auto simp: loader_load_def rbind_eq_Inr Let_def named_defs)
qed (auto simp: loader_load_def rbind_eq_Inl ok_or_eq_Inl Let_def named_defs split: option.splits)

text \<open>
  certificate and key data. Inline data always wins over a file, with neither it is an
  error, and what is loaded is empty or ends in exactly the newline it had or was given; so
  the identity built from a key and a certificate never joins the last line of the key to the
  first line of the certificate.
\<close>

theorem loaded_data:
  "load_from_base64_or_file E (Some v) f = rbind (load_from_base64 E v) (\<lambda>d. Inr (ensure_trailing_newline d))
   \<and> load_from_base64_or_file E None (Some p) = rbind (load_from_file E p) (\<lambda>d. Inr (ensure_trailing_newline d))
   \<and> load_from_base64_or_file E None None = Inl NoBase64DataOrFile
   \<and> (load_from_base64_or_file E v' f' = Inr d \<longrightarrow> d = [] \<or> last d = 10)
   \<and> ensure_trailing_newline (ensure_trailing_newline d') = ensure_trailing_newline d'
   \<and> (identity_pem E a = Inr pem \<longrightarrow>
        (\<exists>key cert. load_client_key E a = Inr key \<and> load_client_certificate E a = Inr cert \<and> pem = key @ cert
           \<and> (key = [] \<or> last key = 10)))"
proof -
  have nl: "ensure_trailing_newline d = [] \<or> last (ensure_trailing_newline d) = 10" for d
    by (simp add: ensure_trailing_newline_def)
  have load: "d = [] \<or> last d = 10" if "load_from_base64_or_file E v f = Inr d" for v f d
    using that nl by (auto simp: load_from_base64_or_file_def rbind_eq_Inr)
  have "ensure_trailing_newline (ensure_trailing_newline d') = ensure_trailing_newline d'"
    by (simp add: ensure_trailing_newline_def)
  moreover have "\<exists>key cert. load_client_key E a = Inr key \<and> load_client_certificate E a = Inr cert \<and> pem = key @ cert
      \<and> (key = [] \<or> last key = 10)" if "identity_pem E a = Inr pem"
    using that load by (auto simp: identity_pem_def rbind_eq_Inr load_client_key_def)
  ultimately show ?thesis
    using load by (auto simp: load_from_base64_or_file_def)
qed

definition sample_env :: "(string, kubeconfig, string) kc_env" where
  "sample_env = \<lparr>read_to_string = (\<lambda>p. Inl ''missing''), read_file = (\<lambda>p. Inr [65]), yaml_documents = (\<lambda>t. [t]),
     yaml_value = (\<lambda>d. Inr kubeconfig_default), yaml_from_value = Inr, base64_decode = (\<lambda>s. Inr [66]),
     path_parent = (\<lambda>p. None), path_is_relative = (\<lambda>p. True), path_join = (\<lambda>a b. a @ ''/'' @ b),
     path_to_str = Some, home_dir = None, env_var_os = (\<lambda>v. None), env_var = (\<lambda>v. None), split_paths = (\<lambda>s. [s]), parse_certs = (\<lambda>b. Inr [b]), parse_uri = Inr\<rparr>"

theorem loaded_data_witness:
  "load_from_base64_or_file sample_env (Some ''x'') (Some ''file'') = Inr [66, 10]"
proof -
  have "ensure_trailing_newline [66] = [66, 10]" by (simp add: ensure_trailing_newline_def)
  then show ?thesis
    using loaded_data [of sample_env "''x''" "Some ''file''" "[]" "Some ''x''" "Some ''file''" "[66, 10]"]
    by (simp add: load_from_base64_def sample_env_def)
qed

end
