(* ===== verification/Cl_Discovery.thy ===== *)
theory Cl_Discovery
  imports Core_Version Core_Resource "HOL-Library.Multiset"
begin

text \<open>
  \<open>kube-client/src/discovery\<close>: from the resource lists of the API server to API groups with
  their resources and capabilities, the cached discovery client and the one-shot queries. The
  API calls are the record \<open>disc_client\<close>; \<open>api_resource_entry\<close>, \<open>api_resource_list\<close> and
  \<open>api_group_desc\<close> have the fields of k8s_openapi's \<open>APIResource\<close>, \<open>APIResourceList\<close> and
  \<open>APIGroup\<close> that the sources use.
\<close>

section \<open>Data\<close>

record api_resource_entry =
  re_name :: string
  re_namespaced :: bool
  re_kind :: string
  re_group :: "string option"
  re_version :: "string option"
  re_verbs :: "string list"

record api_resource_list =
  rl_group_version :: string
  rl_resources :: "api_resource_entry list"

record group_version_desc =
  gd_group_version :: string
  gd_version :: string

record api_group_desc =
  ag_name :: string
  ag_versions :: "group_version_desc list"
  ag_preferred_version :: "group_version_desc option"

datatype discovery_error =
    InvalidGroupVersion string
  | MissingKind group_version_kind
  | MissingApiGroup string
  | MissingResource string
  | EmptyApiGroup string
  | RequestFailed string

record disc_client =
  list_api_groups :: "discovery_error + api_group_desc list"
  list_api_group_resources :: "string \<Rightarrow> discovery_error + api_resource_list"
  list_core_api_versions :: "discovery_error + string list"
  list_core_api_resources :: "string \<Rightarrow> discovery_error + api_resource_list"

section \<open>Parsing resource lists\<close>

definition parse_apiresource :: "api_resource_entry \<Rightarrow> string \<Rightarrow> parse_group_version_error + api_resource" where
  "parse_apiresource ar group_version =
     rbind (gv_from_str group_version) (\<lambda>gv.
       Inr \<lparr>ar_group = unwrap_or (re_group ar) (gv_group gv), ar_version = unwrap_or (re_version ar) (gv_version gv),
            ar_api_version = gv_api_version gv, ar_kind = re_kind ar, ar_plural = re_name ar\<rparr>)"

fun invalid_group_version :: "parse_group_version_error \<Rightarrow> discovery_error" where
  "invalid_group_version (ParseGroupVersionError s) = InvalidGroupVersion s"

definition name_bound :: "api_resource_list \<Rightarrow> nat" where
  "name_bound lst = sum_list (map (length \<circ> re_name) (rl_resources lst))"

lemma length_le_bound: "i < length (rl_resources lst) \<Longrightarrow> length (re_name (rl_resources lst ! i)) \<le> name_bound lst"
  unfolding name_bound_def by (rule member_le_sum_list) (auto intro!: imageI nth_mem)

function (sequential) parse_apicapabilities :: "api_resource_list \<Rightarrow> string \<Rightarrow> discovery_error + api_capabilities"
  and parse_subresources :: "api_resource_list \<Rightarrow> string \<Rightarrow> nat \<Rightarrow> discovery_error + (api_resource \<times> api_capabilities) list" where
  "parse_apicapabilities lst name =
     (case List.find (\<lambda>r. re_name r = name) (rl_resources lst) of
        None \<Rightarrow> Inl (MissingResource name)
      | Some ar \<Rightarrow>
          rbind (parse_subresources lst name 0) (\<lambda>subresources.
            Inr (ApiCapabilities (if re_namespaced ar then Namespaced else Cluster) subresources (re_verbs ar))))"
| "parse_subresources lst name i =
     (if i < length (rl_resources lst) then
        (let res = rl_resources lst ! i in
         case strip_pre (name @ ''/'') (re_name res) of
           Some subresource_name \<Rightarrow>
             rbind (map_err invalid_group_version (parse_apiresource res (rl_group_version lst))) (\<lambda>api_resource.
             rbind (parse_apicapabilities lst (re_name res)) (\<lambda>caps.
             rbind (parse_subresources lst name (Suc i)) (\<lambda>rest.
               Inr ((api_resource\<lparr>ar_plural := subresource_name\<rparr>, caps) # rest))))
         | None \<Rightarrow> parse_subresources lst name (Suc i))
      else Inr [])"
  by pat_completeness auto

termination
  by (relation "inv_image (less_than <*lex*> less_than)
        (\<lambda>x. case x of Inl (lst, name) \<Rightarrow> (Suc (name_bound lst) - length name, Suc (length (rl_resources lst)))
              | Inr (lst, name, i) \<Rightarrow> (Suc (name_bound lst) - length name, length (rl_resources lst) - i))")
    (auto simp: strip_pre_eq_Some dest!: length_le_bound)

record group_version_data =
  gvd_version :: string
  gvd_resources :: "(api_resource \<times> api_capabilities) list"

fun parse_resources :: "api_resource_list \<Rightarrow> api_resource_entry list \<Rightarrow> discovery_error + (api_resource \<times> api_capabilities) list" where
  "parse_resources lst [] = Inr []"
| "parse_resources lst (res # rest) =
     (if CHR ''/'' \<in> set (re_name res) then parse_resources lst rest
      else rbind (map_err invalid_group_version (parse_apiresource res (rl_group_version lst))) (\<lambda>ar.
           rbind (parse_apicapabilities lst (re_name res)) (\<lambda>caps.
           rbind (parse_resources lst rest) (\<lambda>resources. Inr ((ar, caps) # resources)))))"

definition gvd_new :: "string \<Rightarrow> api_resource_list \<Rightarrow> discovery_error + group_version_data" where
  "gvd_new ver lst = rbind (parse_resources lst (rl_resources lst)) (\<lambda>resources.
     Inr \<lparr>gvd_version = ver, gvd_resources = resources\<rparr>)"

section \<open>API groups\<close>

record api_group =
  grp_name :: string
  grp_data :: "group_version_data list"
  grp_preferred :: "string option"

definition version_key :: "string \<Rightarrow> priority_key reverse" where
  "version_key ver = Reverse (priority (parse ver))"

definition sort_versions :: "api_group \<Rightarrow> api_group" where
  "sort_versions g = g\<lparr>grp_data := sort_key (\<lambda>gvd. version_key (gvd_version gvd)) (grp_data g)\<rparr>"

fun query_versions :: "('v \<Rightarrow> string) \<Rightarrow> ('v \<Rightarrow> discovery_error + api_resource_list) \<Rightarrow> 'v list \<Rightarrow> discovery_error + group_version_data list" where
  "query_versions ver lister [] = Inr []"
| "query_versions ver lister (v # vs) =
     rbind (lister v) (\<lambda>resources.
     rbind (gvd_new (ver v) resources) (\<lambda>d.
     rbind (query_versions ver lister vs) (\<lambda>ds. Inr (d # ds))))"

definition query_apis :: "disc_client \<Rightarrow> api_group_desc \<Rightarrow> discovery_error + api_group" where
  "query_apis client g =
     (let key = ag_name g in
      if ag_versions g = [] then Inl (EmptyApiGroup key)
      else rbind (query_versions gd_version (\<lambda>v. list_api_group_resources client (gd_group_version v)) (ag_versions g)) (\<lambda>data.
        Inr (sort_versions \<lparr>grp_name = key, grp_data = data,
               grp_preferred = map_option gd_version (ag_preferred_version g)\<rparr>)))"

definition query_core :: "disc_client \<Rightarrow> string list \<Rightarrow> discovery_error + api_group" where
  "query_core client versions =
     (if versions = [] then Inl (EmptyApiGroup [])
      else rbind (query_versions (\<lambda>v. v) (list_core_api_resources client) versions) (\<lambda>data.
        Inr (sort_versions \<lparr>grp_name = [], grp_data = data, grp_preferred = Some ''v1''\<rparr>)))"

definition list_gv :: "disc_client \<Rightarrow> string \<Rightarrow> string \<Rightarrow> discovery_error + api_resource_list" where
  "list_gv client grp apiver = (if grp = [] then list_core_api_resources client apiver else list_api_group_resources client apiver)"

definition query_gvk :: "disc_client \<Rightarrow> group_version_kind \<Rightarrow> discovery_error + api_resource \<times> api_capabilities" where
  "query_gvk client gvk =
     rbind (list_gv client (gvk_group gvk) (gvk_api_version gvk)) (\<lambda>lst.
       case List.find (\<lambda>res. re_kind res = gvk_kind gvk \<and> CHR ''/'' \<notin> set (re_name res)) (rl_resources lst) of
         Some res \<Rightarrow>
           rbind (map_err invalid_group_version (parse_apiresource res (rl_group_version lst))) (\<lambda>ar.
           rbind (parse_apicapabilities lst (re_name res)) (\<lambda>caps. Inr (ar, caps)))
       | None \<Rightarrow> Inl (MissingKind gvk))"

definition query_gv :: "disc_client \<Rightarrow> group_version \<Rightarrow> discovery_error + api_group" where
  "query_gv client gv =
     rbind (list_gv client (gv_group gv) (gv_api_version gv)) (\<lambda>lst.
     rbind (gvd_new (gv_version gv) lst) (\<lambda>data.
       Inr \<lparr>grp_name = gv_group gv, grp_data = [data], grp_preferred = Some (gv_version gv)\<rparr>))"

definition grp_versions :: "api_group \<Rightarrow> string list" where
  "grp_versions g = map gvd_version (grp_data g)"

text \<open>\<open>None\<close> is the panic of \<open>unwrap\<close> on a group without versions.\<close>

definition preferred_version_or_latest :: "api_group \<Rightarrow> string option" where
  "preferred_version_or_latest g =
     (case grp_preferred g of
        Some v \<Rightarrow> Some v
      | None \<Rightarrow> (case grp_versions g of [] \<Rightarrow> None | v # _ \<Rightarrow> Some v))"

definition versioned_resources :: "api_group \<Rightarrow> string \<Rightarrow> (api_resource \<times> api_capabilities) list" where
  "versioned_resources g ver =
     (case List.find (\<lambda>gvd. gvd_version gvd = ver) (grp_data g) of None \<Rightarrow> [] | Some gvd \<Rightarrow> gvd_resources gvd)"

definition recommended_resources :: "api_group \<Rightarrow> (api_resource \<times> api_capabilities) list option" where
  "recommended_resources g = map_option (versioned_resources g) (preferred_version_or_latest g)"

definition recommended_kind :: "api_group \<Rightarrow> string \<Rightarrow> (api_resource \<times> api_capabilities) option option" where
  "recommended_kind g kind =
     map_option (\<lambda>ver. List.find (\<lambda>(ar, caps). ar_kind ar = kind) (versioned_resources g ver)) (preferred_version_or_latest g)"

text \<open>
  \<open>resources_by_stability\<close> files every resource under its kind in a hash map, in the order of the
  versions, and takes the first entry of every value after sorting it. The iteration order of
  the map is the parameter \<open>iter\<close>; \<open>None\<close> is the panic of \<open>v[0]\<close> on an empty value.
\<close>

fun push_resource :: "(string \<rightharpoonup> (api_resource \<times> api_capabilities) list) \<Rightarrow> (api_resource \<times> api_capabilities) \<Rightarrow>
    string \<rightharpoonup> (api_resource \<times> api_capabilities) list" where
  "push_resource lookup (ar, caps) =
     lookup(ar_kind ar \<mapsto> unwrap_or (lookup (ar_kind ar)) [] @ [(ar, caps)])"

definition stability_lookup :: "api_group \<Rightarrow> string \<rightharpoonup> (api_resource \<times> api_capabilities) list" where
  "stability_lookup g = foldl (\<lambda>lookup gvd. foldl push_resource lookup (gvd_resources gvd)) Map.empty (grp_data g)"

definition most_stable :: "(api_resource \<times> api_capabilities) list \<Rightarrow> (api_resource \<times> api_capabilities) option" where
  "most_stable v = (case sort_key (\<lambda>(ar, _). version_key (ar_version ar)) v of [] \<Rightarrow> None | r # _ \<Rightarrow> Some r)"

definition resources_by_stability :: "(string set \<Rightarrow> string list) \<Rightarrow> api_group \<Rightarrow> (api_resource \<times> api_capabilities) list option" where
  "resources_by_stability iter g =
     those (map (\<lambda>kind. most_stable (the (stability_lookup g kind))) (iter (dom (stability_lookup g))))"

section \<open>The caching client\<close>

datatype discovery_mode = Allow "string list" | Block "string list"

fun is_queryable :: "discovery_mode \<Rightarrow> string \<Rightarrow> bool" where
  "is_queryable (Allow allowed) grp = (grp \<in> set allowed)"
| "is_queryable (Block blocked) grp = (grp \<notin> set blocked)"

record discovery =
  d_client :: disc_client
  d_groups :: "string \<rightharpoonup> api_group"
  d_mode :: discovery_mode

definition discovery_new :: "disc_client \<Rightarrow> discovery" where
  "discovery_new client = \<lparr>d_client = client, d_groups = Map.empty, d_mode = Block []\<rparr>"

definition discovery_filter :: "discovery \<Rightarrow> string list \<Rightarrow> discovery" where
  "discovery_filter d allow = d\<lparr>d_mode := Allow allow\<rparr>"

definition discovery_exclude :: "discovery \<Rightarrow> string list \<Rightarrow> discovery" where
  "discovery_exclude d deny = d\<lparr>d_mode := Block deny\<rparr>"

fun run_groups :: "discovery \<Rightarrow> api_group_desc list \<Rightarrow> discovery_error + discovery" where
  "run_groups d [] = Inr d"
| "run_groups d (g # gs) =
     (let key = ag_name g in
      if is_queryable (d_mode d) key
      then rbind (query_apis (d_client d) g) (\<lambda>apigroup. run_groups (d\<lparr>d_groups := (d_groups d)(key \<mapsto> apigroup)\<rparr>) gs)
      else run_groups d gs)"

definition discovery_run :: "discovery \<Rightarrow> discovery_error + discovery" where
  "discovery_run d0 =
     (let d = d0\<lparr>d_groups := Map.empty\<rparr> in
      rbind (list_api_groups (d_client d)) (\<lambda>api_groups.
      rbind (run_groups d api_groups) (\<lambda>d.
      if is_queryable (d_mode d) []
      then rbind (list_core_api_versions (d_client d)) (\<lambda>coreapis.
           rbind (query_core (d_client d) coreapis) (\<lambda>apigroup.
             Inr (d\<lparr>d_groups := (d_groups d)([] \<mapsto> apigroup)\<rparr>)))
      else Inr d)))"

definition groups_alphabetical :: "(string set \<Rightarrow> string list) \<Rightarrow> discovery \<Rightarrow> api_group list" where
  "groups_alphabetical iter d = sort_key grp_name (map (\<lambda>k. the (d_groups d k)) (iter (dom (d_groups d))))"

definition has_group :: "discovery \<Rightarrow> string \<Rightarrow> bool" where
  "has_group d grp = (d_groups d grp \<noteq> None)"

definition resolve_gvk :: "discovery \<Rightarrow> group_version_kind \<Rightarrow> (api_resource \<times> api_capabilities) option" where
  "resolve_gvk d gvk = Option.bind (d_groups d (gvk_group gvk)) (\<lambda>g.
     List.find (\<lambda>res. ar_kind (fst res) = gvk_kind gvk) (versioned_resources g (gvk_version gvk)))"

section \<open>One-shot queries\<close>

definition oneshot_group :: "disc_client \<Rightarrow> string \<Rightarrow> discovery_error + api_group" where
  "oneshot_group client apigroup =
     (if apigroup = [] then rbind (list_core_api_versions client) (query_core client)
      else rbind (list_api_groups client) (\<lambda>api_groups.
        case List.find (\<lambda>g. ag_name g = apigroup) api_groups of
          Some g \<Rightarrow> query_apis client g
        | None \<Rightarrow> Inl (MissingApiGroup apigroup)))"

definition pinned_group :: "disc_client \<Rightarrow> group_version \<Rightarrow> discovery_error + api_group" where
  "pinned_group client gv = query_gv client gv"

definition pinned_kind :: "disc_client \<Rightarrow> group_version_kind \<Rightarrow> discovery_error + api_resource \<times> api_capabilities" where
  "pinned_kind client gvk = query_gvk client gvk"

section \<open>Parsing never fails on listed names\<close>

lemmas [simp del] = parse_apicapabilities.simps parse_subresources.simps

lemma parse_apiresource_total:
  "\<exists>ar. parse_apiresource res gv = Inr ar \<and> ar_kind ar = re_kind res \<and> ar_plural ar = re_name res"
  using gv_from_str_total [of gv] by (auto simp: parse_apiresource_def)

lemma find_name_Some: "res \<in> set rs \<Longrightarrow> \<exists>r. List.find (\<lambda>r. re_name r = re_name res) rs = Some r"
  by (induction rs) auto

text \<open>The plurals a capability record lists, and the entries they come from.\<close>

definition sub_names :: "api_resource_list \<Rightarrow> string \<Rightarrow> string list" where
  "sub_names lst name = List.map_filter (\<lambda>res. strip_pre (name @ ''/'') (re_name res)) (rl_resources lst)"

lemma sub_names_set: "set (sub_names lst name) = {sub. name @ ''/'' @ sub \<in> re_name ` set (rl_resources lst)}"
proof -
  have "set (List.map_filter f xs) = {y. \<exists>x \<in> set xs. f x = Some y}" for f :: "api_resource_entry \<Rightarrow> string option" and xs
    by (induction xs) (auto simp: map_filter_simps split: option.splits)
  then show ?thesis by (auto simp: sub_names_def strip_pre_eq_Some image_iff) metis+
qed

lemma parse_subresources_total:
  "(List.find (\<lambda>r. re_name r = name) (rl_resources lst) \<noteq> None \<longrightarrow> (\<exists>caps. parse_apicapabilities lst name = Inr caps))"
  "\<exists>subs. parse_subresources lst name' i = Inr subs
     \<and> map (ar_plural \<circ> fst) subs = List.map_filter (\<lambda>res. strip_pre (name' @ ''/'') (re_name res)) (drop i (rl_resources lst))
     \<and> (\<forall>(ar, caps) \<in> set subs. parse_apicapabilities lst (name' @ ''/'' @ ar_plural ar) = Inr caps)"
proof (induction lst name and lst name' i rule: parse_apicapabilities_parse_subresources.induct)
  case (1 lst name)
  then show ?case by (auto simp: parse_apicapabilities.simps [of lst name] split: option.splits)
next
  case (2 lst name i)
  show ?case
  proof (cases "i < length (rl_resources lst)")
    case False
    then show ?thesis by (simp add: parse_subresources.simps [of lst name i] map_filter_simps)
  next
    case True
    let ?res = "rl_resources lst ! i"
    have d: "drop i (rl_resources lst) = ?res # drop (Suc i) (rl_resources lst)"
      using True by (simp add: Cons_nth_drop_Suc)
    obtain ar where ar: "parse_apiresource ?res (rl_group_version lst) = Inr ar" using parse_apiresource_total by blast
    then have e: "map_err invalid_group_version (parse_apiresource ?res (rl_group_version lst)) = Inr ar" by simp
    show ?thesis
    proof (cases "strip_pre (name @ ''/'') (re_name ?res)")
      case None
      then show ?thesis
        using 2(1) [OF True refl None] True by (simp add: parse_subresources.simps [of lst name i] d map_filter_simps)
    next
      case (Some sub)
      have "List.find (\<lambda>r. re_name r = re_name ?res) (rl_resources lst) \<noteq> None"
        using find_name_Some [of ?res] True by auto
      then obtain caps where caps: "parse_apicapabilities lst (re_name ?res) = Inr caps"
        using 2(2) [OF True refl Some e] by blast
      obtain rest where rest: "parse_subresources lst name (Suc i) = Inr rest"
        "map (ar_plural \<circ> fst) rest = List.map_filter (\<lambda>res. strip_pre (name @ ''/'') (re_name res)) (drop (Suc i) (rl_resources lst))"
        "\<forall>(ar, caps) \<in> set rest. parse_apicapabilities lst (name @ ''/'' @ ar_plural ar) = Inr caps"
        using 2(3) [OF True refl Some e caps] by blast
      from Some have "re_name ?res = name @ ''/'' @ sub" by (simp add: strip_pre_eq_Some)
      then show ?thesis
        using True Some ar caps rest
        by (simp add: parse_subresources.simps [of lst name i] d map_filter_simps comp_def)
    qed
  qed
qed


lemma parse_apicapabilities_cases:
  "parse_apicapabilities lst name =
     (case List.find (\<lambda>r. re_name r = name) (rl_resources lst) of
        None \<Rightarrow> Inl (MissingResource name)
      | Some ar \<Rightarrow> Inr (ApiCapabilities (if re_namespaced ar then Namespaced else Cluster)
                          (projr (parse_subresources lst name 0)) (re_verbs ar)))"
  using parse_subresources_total(2) [where lst = lst and name' = name and i = 0]
  by (auto simp: parse_apicapabilities.simps [of lst name] split: option.splits)

lemma parse_resources_find:
  "parse_resources lst rs = Inr out \<Longrightarrow>
   List.find (\<lambda>res. ar_kind (fst res) = kind) out =
     (case List.find (\<lambda>res. re_kind res = kind \<and> CHR ''/'' \<notin> set (re_name res)) rs of
        None \<Rightarrow> None
      | Some res \<Rightarrow> Some (projr (parse_apiresource res (rl_group_version lst)), projr (parse_apicapabilities lst (re_name res))))"
proof (induction rs arbitrary: out)
  case (Cons res rs)
  obtain ar where "parse_apiresource res (rl_group_version lst) = Inr ar" "ar_kind ar = re_kind res"
    using parse_apiresource_total by blast
  with Cons show ?case by (auto simp: rbind_eq_Inr split: if_splits)
qed simp

lemma parse_resources_total:
  "set rs \<subseteq> set (rl_resources lst) \<Longrightarrow> \<exists>out. parse_resources lst rs = Inr out"
proof (induction rs)
  case (Cons res rs)
  obtain ar where ar: "parse_apiresource res (rl_group_version lst) = Inr ar" using parse_apiresource_total by blast
  obtain r where "List.find (\<lambda>r. re_name r = re_name res) (rl_resources lst) = Some r"
    using find_name_Some [of res] Cons.prems by auto
  then have "\<exists>caps. parse_apicapabilities lst (re_name res) = Inr caps"
    by (simp add: parse_apicapabilities_cases)
  with Cons ar show ?case by auto
qed simp

lemma gvd_new_total: "\<exists>d. gvd_new ver lst = Inr d \<and> gvd_version d = ver"
  using parse_resources_total [of "rl_resources lst" lst] by (auto simp: gvd_new_def)

section \<open>Sorted groups\<close>

lemma version_key_le: "version_key a \<le> version_key b \<longleftrightarrow> priority (parse b) \<le> priority (parse a)"
  by (simp add: version_key_def less_eq_reverse_def)

lemma sort_versions_perm: "mset (grp_versions (sort_versions g)) = mset (grp_versions g)"
  by (simp add: grp_versions_def sort_versions_def)

lemma sort_versions_sorted:
  "sorted_wrt (\<lambda>a b. priority (parse b) \<le> priority (parse a)) (grp_versions (sort_versions g))"
  using sorted_sort_key [of "\<lambda>gvd. version_key (gvd_version gvd)" "grp_data g"]
  by (simp add: grp_versions_def sort_versions_def sorted_map sorted_wrt_map version_key_le)

lemma query_versions_names: "query_versions ver lister vs = Inr data \<Longrightarrow> map gvd_version data = map ver vs"
  by (induction vs arbitrary: data) (auto simp: rbind_eq_Inr gvd_new_def)

lemma query_versions_data:
  "query_versions ver lister vs = Inr data \<Longrightarrow> d \<in> set data \<Longrightarrow>
   \<exists>v \<in> set vs. \<exists>lst. lister v = Inr lst \<and> gvd_new (ver v) lst = Inr d"
  by (induction vs arbitrary: data) (auto simp: rbind_eq_Inr)

lemma sort_versions_fields [simp]:
  "grp_name (sort_versions g) = grp_name g" "grp_preferred (sort_versions g) = grp_preferred g"
  "set (grp_data (sort_versions g)) = set (grp_data g)"
  by (simp_all add: sort_versions_def)


section \<open>Resources by stability\<close>

lemma push_resources:
  "foldl push_resource lookup rs kind =
     (case filter (\<lambda>r. ar_kind (fst r) = kind) rs of
        [] \<Rightarrow> lookup kind
      | r # l \<Rightarrow> Some (unwrap_or (lookup kind) [] @ r # l))"
proof (induction rs arbitrary: lookup)
  case (Cons r rs)
  then show ?case by (cases r) (auto split: list.splits)
qed simp

lemma stability_lookup_concat:
  "foldl (\<lambda>lookup gvd. foldl push_resource lookup (gvd_resources gvd)) lookup ds =
   foldl push_resource lookup (concat (map gvd_resources ds))"
  by (induction ds arbitrary: lookup) simp_all

definition all_resources :: "api_group \<Rightarrow> (api_resource \<times> api_capabilities) list" where
  "all_resources g = concat (map gvd_resources (grp_data g))"

lemma stability_lookup_filter:
  "stability_lookup g kind =
     (case filter (\<lambda>r. ar_kind (fst r) = kind) (all_resources g) of [] \<Rightarrow> None | r # l \<Rightarrow> Some (r # l))"
  by (simp add: stability_lookup_def stability_lookup_concat push_resources all_resources_def split: list.split)

lemma dom_stability_lookup: "dom (stability_lookup g) = ar_kind ` fst ` set (all_resources g)"
  by (auto simp: dom_def stability_lookup_filter image_iff filter_empty_conv split: list.splits)

lemma most_stable_Some:
  assumes "v \<noteq> []"
  shows "\<exists>r \<in> set v. most_stable v = Some r
    \<and> (\<forall>r' \<in> set v. priority (parse (ar_version (fst r'))) \<le> priority (parse (ar_version (fst r))))"
proof -
  let ?k = "\<lambda>(ar, _). version_key (ar_version ar)"
  obtain r l where rl: "sort_key ?k v = r # l" using assms by (cases "sort_key ?k v") (auto dest: arg_cong [of _ _ length])
  have "set v = insert r (set l)" by (metis rl set_sort list.simps(15))
  moreover have "\<forall>r' \<in> set l. ?k r \<le> ?k r'" using sorted_sort_key [of ?k v] by (auto simp: rl)
  moreover have "most_stable v = Some r" by (simp add: most_stable_def rl)
  ultimately show ?thesis by (auto simp: version_key_le case_prod_unfold)
qed

lemma those_map_Some: "\<forall>x \<in> set xs. f x = Some (g x) \<Longrightarrow> those (map f xs) = Some (map g xs)"
  by (induction xs) auto


section \<open>The cache and the one-shot queries\<close>

text \<open>
  The conventions of the discovery endpoints the cache relies on: the groups under \<open>/apis\<close> have
  different non-empty names, and the \<open>groupVersion\<close> of a listed version is \<open>group/version\<close>.
\<close>

definition conventional :: "disc_client \<Rightarrow> bool" where
  "conventional client \<longleftrightarrow> (case list_api_groups client of
     Inl _ \<Rightarrow> True
   | Inr gs \<Rightarrow> distinct (map ag_name gs) \<and> (\<forall>g \<in> set gs. ag_name g \<noteq> []
       \<and> (\<forall>v \<in> set (ag_versions g). gd_group_version v = ag_name g @ ''/'' @ gd_version v)))"

lemma run_groups_effect:
  "run_groups d gs = Inr d' \<Longrightarrow> distinct (map ag_name gs) \<Longrightarrow>
     d_client d' = d_client d \<and> d_mode d' = d_mode d
     \<and> (d_groups d' grp = Some a \<longleftrightarrow>
         (case List.find (\<lambda>g. ag_name g = grp) gs of
            Some g \<Rightarrow> if is_queryable (d_mode d) grp then query_apis (d_client d) g = Inr a else d_groups d grp = Some a
          | None \<Rightarrow> d_groups d grp = Some a))"
proof (induction gs arbitrary: d)
  case (Cons g gs)
  have n: "ag_name g = grp \<Longrightarrow> List.find (\<lambda>g. ag_name g = grp) gs = None"
    using Cons.prems(2) by (auto simp: find_None_iff image_iff)
  show ?case
  proof (cases "is_queryable (d_mode d) (ag_name g)")
    case False
    with Cons.IH [of d] Cons.prems n show ?thesis by (auto split: option.splits)
  next
    case True
    then obtain b where b: "query_apis (d_client d) g = Inr b"
      "run_groups (d\<lparr>d_groups := (d_groups d)(ag_name g \<mapsto> b)\<rparr>) gs = Inr d'"
      using Cons.prems(1) by (auto simp: rbind_eq_Inr)
    with Cons.IH [OF b(2)] Cons.prems(2) n True show ?thesis by (auto split: option.splits)
  qed
qed simp

lemma discovery_run_oneshot:
  assumes run: "discovery_run d = Inr d'" and conv: "conventional (d_client d)"
  shows "d_groups d' grp = Some a \<longleftrightarrow> is_queryable (d_mode d) grp \<and> oneshot_group (d_client d) grp = Inr a"
proof -
  obtain gs e where gs: "list_api_groups (d_client d) = Inr gs" and e: "run_groups (d\<lparr>d_groups := Map.empty\<rparr>) gs = Inr e"
    and d': "(if is_queryable (d_mode e) [] then rbind (list_core_api_versions (d_client e)) (\<lambda>coreapis.
               rbind (query_core (d_client e) coreapis) (\<lambda>apigroup.
                 Inr (e\<lparr>d_groups := (d_groups e)([] \<mapsto> apigroup)\<rparr>))) else Inr e) = Inr d'"
    using run by (auto simp: discovery_run_def rbind_eq_Inr)
  have dist: "distinct (map ag_name gs)" and ne: "\<forall>g \<in> set gs. ag_name g \<noteq> []"
    using conv by (auto simp: conventional_def gs)
  have eff: "d_client e = d_client d \<and> d_mode e = d_mode d \<and> (d_groups e g = Some a \<longleftrightarrow>
      (case List.find (\<lambda>x. ag_name x = g) gs of
         Some x \<Rightarrow> is_queryable (d_mode d) g \<and> query_apis (d_client d) x = Inr a | None \<Rightarrow> False))" for g
    using run_groups_effect [OF e dist, of g a] by (auto split: option.splits)
  show ?thesis
  proof (cases "grp = []")
    case True
    have "List.find (\<lambda>x. ag_name x = []) gs = None" using ne by (auto simp: find_None_iff)
    with True eff [of "[]"] d' show ?thesis
      by (auto simp: oneshot_group_def rbind_eq_Inr split: if_splits)
  next
    case False
    then have "d_groups d' grp = d_groups e grp" using d' by (auto simp: rbind_eq_Inr split: if_splits)
    with False eff [of grp] gs show ?thesis by (auto simp: oneshot_group_def split: option.splits)
  qed
qed

lemma gvk_api_version_new: "gvk_api_version (gvk_new (gvk_group gvk) (gvk_version gvk) k) = gvk_api_version gvk"
  by (cases "gvk_group gvk = []") (simp_all add: gvk_api_version_def gvk_new_def)

lemma oneshot_group_data:
  assumes "oneshot_group client grp = Inr a" and conv: "conventional client" and "d \<in> set (grp_data a)"
  shows "\<exists>lst. list_gv client grp (gvk_api_version (gvk_new grp (gvd_version d) k)) = Inr lst \<and> gvd_new (gvd_version d) lst = Inr d"
proof (cases "grp = []")
  case True
  then show ?thesis using assms
    by (auto simp: oneshot_group_def query_core_def rbind_eq_Inr list_gv_def gvk_api_version_def gvk_new_def gvd_new_def
        split: if_splits dest!: query_versions_data)
next
  case False
  then obtain gs g where g: "list_api_groups client = Inr gs" "List.find (\<lambda>g. ag_name g = grp) gs = Some g" "query_apis client g = Inr a"
    using assms(1) by (auto simp: oneshot_group_def rbind_eq_Inr split: option.splits)
  then have "g \<in> set gs" "ag_name g = grp" by (auto dest: find_Some_D)
  moreover obtain v lst where "v \<in> set (ag_versions g)" "list_api_group_resources client (gd_group_version v) = Inr lst"
    "gvd_new (gd_version v) lst = Inr d"
    using g(3) assms(3) by (auto simp: query_apis_def rbind_eq_Inr Let_def split: if_splits dest!: query_versions_data)
  ultimately show ?thesis using conv False g(1)
    by (auto simp: conventional_def list_gv_def gvk_api_version_def gvk_new_def gvd_new_def rbind_eq_Inr)
qed


lemma resolve_in_group:
  assumes a: "oneshot_group client (gvk_group gvk) = Inr a" "conventional client" and v: "gvk_version gvk \<in> set (grp_versions a)"
  shows "List.find (\<lambda>res. ar_kind (fst res) = gvk_kind gvk) (versioned_resources a (gvk_version gvk)) = Some r
     \<longleftrightarrow> pinned_kind client gvk = Inr r"
proof -
  obtain d where d: "List.find (\<lambda>gvd. gvd_version gvd = gvk_version gvk) (grp_data a) = Some d"
    using v by (cases "List.find (\<lambda>gvd. gvd_version gvd = gvk_version gvk) (grp_data a)") (auto simp: grp_versions_def find_None_iff)
  then have dv: "d \<in> set (grp_data a)" "gvd_version d = gvk_version gvk" by (auto dest: find_Some_D)
  obtain lst where lst: "list_gv client (gvk_group gvk) (gvk_api_version gvk) = Inr lst" and nd: "gvd_new (gvk_version gvk) lst = Inr d"
    using oneshot_group_data [OF a dv(1)] dv(2) by (auto simp: gvk_api_version_new)
  have pr: "parse_resources lst (rl_resources lst) = Inr (gvd_resources d)"
    using nd by (auto simp: gvd_new_def rbind_eq_Inr)
  show ?thesis
  proof (cases "List.find (\<lambda>res. re_kind res = gvk_kind gvk \<and> CHR ''/'' \<notin> set (re_name res)) (rl_resources lst)")
    case None
    then show ?thesis
      using parse_resources_find [OF pr, of "gvk_kind gvk"] by (simp add: versioned_resources_def d pinned_kind_def query_gvk_def lst)
  next
    case (Some res)
    then have "res \<in> set (rl_resources lst)" by (auto dest: find_Some_D)
    then obtain ar caps where "parse_apiresource res (rl_group_version lst) = Inr ar" "parse_apicapabilities lst (re_name res) = Inr caps"
      using find_name_Some [of res "rl_resources lst"] parse_apiresource_total [of res "rl_group_version lst"]
      by (auto simp: parse_apicapabilities_cases)
    then show ?thesis
      using parse_resources_find [OF pr, of "gvk_kind gvk"] Some
      by (simp add: versioned_resources_def d pinned_kind_def query_gvk_def lst)
  qed
qed

section \<open>Properties\<close>

text \<open>A small API server: the core group with pods, and a group served at two versions.\<close>

definition entry :: "string \<Rightarrow> string \<Rightarrow> api_resource_entry" where
  "entry name kind = \<lparr>re_name = name, re_namespaced = True, re_kind = kind, re_group = None, re_version = None, re_verbs = [''list'']\<rparr>"

definition sample_group :: api_group_desc where
  "sample_group = \<lparr>ag_name = ''kube.rs'', ag_versions =
     [\<lparr>gd_group_version = ''kube.rs/v2alpha1'', gd_version = ''v2alpha1''\<rparr>, \<lparr>gd_group_version = ''kube.rs/v1'', gd_version = ''v1''\<rparr>],
     ag_preferred_version = None\<rparr>"

definition sample_client :: disc_client where
  "sample_client = \<lparr>
     list_api_groups = Inr [sample_group],
     list_api_group_resources = (\<lambda>gv. Inr \<lparr>rl_group_version = gv, rl_resources = [entry ''crs'' ''Cr'', entry ''crs/status'' ''Cr'']\<rparr>),
     list_core_api_versions = Inr [''v1''],
     list_core_api_resources = (\<lambda>v. Inr \<lparr>rl_group_version = v, rl_resources = [entry ''pods'' ''Pod'', entry ''pods/log'' ''Pod'']\<rparr>)\<rparr>"

lemma v1_over_v2alpha1: "\<not> priority (parse ''v1'') \<le> priority (parse ''v2alpha1'')"
proof -
  have "render (Stable 1) = ''v1''" "render (Alpha 2 (Some 1)) = ''v2alpha1''"
    by (simp_all add: show_u32_def digit_char_def char_of_def bit_numeral_rec bit_0 show_nat.simps [of "Suc 0"] show_nat.simps [of 2])
  moreover have "parse (render (Stable 1)) = Stable 1" "parse (render (Alpha 2 (Some 1))) = Alpha 2 (Some 1)"
    by (simp_all only: parse_def try_parse_render conformant.simps option.case)
  ultimately have "parse ''v1'' = Stable 1" "parse ''v2alpha1'' = Alpha 2 (Some 1)" by metis+
  then show ?thesis using priority_release_class [of "Alpha 2 (Some 1)" "Stable 1"]
    by (simp only: not_le) (simp add: less_stability_def)
qed

lemma sample_conventional: "conventional sample_client"
  by (simp add: conventional_def sample_client_def sample_group_def)

lemma query_versions_total: "\<forall>v \<in> set vs. \<exists>lst. lister v = Inr lst \<Longrightarrow> \<exists>data. query_versions ver lister vs = Inr data"
proof (induction vs)
  case (Cons v vs)
  then obtain lst data where "lister v = Inr lst" "query_versions ver lister vs = Inr data" by auto
  then show ?case using gvd_new_total [of "ver v" lst] by auto
qed simp

lemma sample_query: "\<exists>a. query_apis sample_client sample_group = Inr a"
proof -
  obtain data where "query_versions gd_version (\<lambda>v. list_api_group_resources sample_client (gd_group_version v)) (ag_versions sample_group) = Inr data"
    using query_versions_total [of "ag_versions sample_group" "\<lambda>v. list_api_group_resources sample_client (gd_group_version v)" gd_version]
    by (auto simp: sample_client_def)
  then show ?thesis by (simp add: query_apis_def Let_def) (simp add: sample_group_def)
qed

lemma sample_core: "\<exists>a. query_core sample_client [''v1''] = Inr a"
  using query_versions_total [of "[''v1'']" "list_core_api_resources sample_client" "\<lambda>v. v"]
  by (auto simp: query_core_def) (auto simp: sample_client_def)

lemma sample_run: "\<exists>d. discovery_run (discovery_new sample_client) = Inr d"
proof -
  have "list_api_groups sample_client = Inr [sample_group]" "list_core_api_versions sample_client = Inr [''v1'']"
    by (simp_all add: sample_client_def)
  then show ?thesis using sample_query sample_core by (auto simp: discovery_run_def discovery_new_def)
qed

text \<open>
  capabilities are found exactly for listed names. \<open>parse_apicapabilities\<close>, whose
  recursion through subresource names terminates for every list, fails exactly when no entry has
  the name, with \<open>MissingResource\<close>; otherwise scope and verbs are those of the first entry with
  the name, the subresources are the entries \<open>name/sub\<close> in list order under their names \<open>sub\<close>,
  and each carries the capabilities parsed for its own full name.
\<close>

theorem capabilities_exact:
  "(case List.find (\<lambda>r. re_name r = name) (rl_resources lst) of
      None \<Rightarrow> parse_apicapabilities lst name = Inl (MissingResource name)
    | Some ar \<Rightarrow> (\<exists>subs. parse_apicapabilities lst name =
          Inr (ApiCapabilities (if re_namespaced ar then Namespaced else Cluster) subs (re_verbs ar))
        \<and> map (ar_plural \<circ> fst) subs = sub_names lst name
        \<and> list_all (\<lambda>(sub, caps). parse_apicapabilities lst (name @ ''/'' @ ar_plural sub) = Inr caps) subs))
   \<and> set (sub_names lst name) = {sub. name @ ''/'' @ sub \<in> re_name ` set (rl_resources lst)}"
  using parse_subresources_total(2) [where lst = lst and name' = name and i = 0]
  by (auto simp: parse_apicapabilities_cases [of lst name] sub_names_set list_all_iff sub_names_def [symmetric] split: option.splits)

text \<open>
  a queried group is never empty and lists its versions from the most to the least stable.
  The versions are those the server announced, in descending order of \<open>Version::priority\<close>;
  \<open>preferred_version_or_latest\<close> does not panic, and without an announced preference it is a
  version no other version of the group has priority over.
\<close>

theorem queried_versions:
  assumes "query_apis client g = Inr grp"
  shows "grp_name grp = ag_name g
    \<and> mset (grp_versions grp) = mset (map gd_version (ag_versions g))
    \<and> sorted_wrt (\<lambda>a b. priority (parse b) \<le> priority (parse a)) (grp_versions grp)
    \<and> grp_versions grp \<noteq> []
    \<and> (\<exists>v. preferred_version_or_latest grp = Some v
      \<and> (case ag_preferred_version g of
           Some p \<Rightarrow> v = gd_version p
         | None \<Rightarrow> v \<in> set (grp_versions grp) \<and> (\<forall>w \<in> set (grp_versions grp). priority (parse w) \<le> priority (parse v))))"
proof -
  obtain data where q: "ag_versions g \<noteq> []" "query_versions gd_version (\<lambda>v. list_api_group_resources client (gd_group_version v)) (ag_versions g) = Inr data"
    and grp: "grp = sort_versions \<lparr>grp_name = ag_name g, grp_data = data, grp_preferred = map_option gd_version (ag_preferred_version g)\<rparr>"
    using assms by (auto simp: query_apis_def rbind_eq_Inr Let_def split: if_splits)
  have m: "mset (grp_versions grp) = mset (map gd_version (ag_versions g))"
    using query_versions_names [OF q(2)] by (simp add: grp sort_versions_perm) (simp add: grp_versions_def)
  have s: "sorted_wrt (\<lambda>a b. priority (parse b) \<le> priority (parse a)) (grp_versions grp)"
    unfolding grp by (rule sort_versions_sorted)
  have ne: "grp_versions grp \<noteq> []" using m q(1) by auto
  have p: "grp_preferred grp = map_option gd_version (ag_preferred_version g)" "grp_name grp = ag_name g" by (simp_all add: grp)
  with s ne have "\<exists>v. preferred_version_or_latest grp = Some v
      \<and> (case ag_preferred_version g of
           Some p \<Rightarrow> v = gd_version p
         | None \<Rightarrow> v \<in> set (grp_versions grp) \<and> (\<forall>w \<in> set (grp_versions grp). priority (parse w) \<le> priority (parse v)))"
    by (cases "grp_versions grp") (auto simp: preferred_version_or_latest_def split: option.splits)
  with m s ne p show ?thesis by simp
qed

theorem queried_versions_witness:
  "\<exists>grp v. query_apis sample_client sample_group = Inr grp
     \<and> mset (grp_versions grp) = {#''v1'', ''v2alpha1''#} \<and> preferred_version_or_latest grp = Some v \<and> v = ''v1''"
proof -
  obtain grp where grp: "query_apis sample_client sample_group = Inr grp" using sample_query by blast
  have m: "mset (grp_versions grp) = {#''v1'', ''v2alpha1''#}"
    using queried_versions [OF grp] by (simp add: sample_group_def)
  then have s: "set (grp_versions grp) = {''v1'', ''v2alpha1''}" by (metis set_mset_mset set_mset_add_mset_insert set_mset_empty)
  have "\<not> priority (parse ''v1'') \<le> priority (parse ''v2alpha1'')" by (rule v1_over_v2alpha1)
  moreover have "\<exists>v. preferred_version_or_latest grp = Some v \<and> v \<in> {''v1'', ''v2alpha1''}
      \<and> (\<forall>w \<in> {''v1'', ''v2alpha1''}. priority (parse w) \<le> priority (parse v))"
    using queried_versions [OF grp] unfolding s by (simp only: sample_group_def api_group_desc.select_convs option.case)
  ultimately have "preferred_version_or_latest grp = Some ''v1''" by blast
  with grp m show ?thesis by blast
qed

text \<open>
  \<open>resources_by_stability\<close> does not panic, returns one entry for every kind of the group,
  taken from the group's data, and no resource of the same kind at another version has priority
  over it, whatever the iteration order of the map.
\<close>

theorem stability_selects:
  assumes ord: "hash_order iter"
  shows "\<exists>rs. resources_by_stability iter g = Some rs
    \<and> distinct (map (ar_kind \<circ> fst) rs) \<and> set rs \<subseteq> set (all_resources g)
    \<and> (\<forall>r \<in> set (all_resources g). \<exists>r' \<in> set rs. ar_kind (fst r') = ar_kind (fst r)
         \<and> priority (parse (ar_version (fst r))) \<le> priority (parse (ar_version (fst r'))))"
proof -
  let ?L = "stability_lookup g" and ?D = "dom (stability_lookup g)"
  let ?v = "\<lambda>k. filter (\<lambda>r. ar_kind (fst r) = k) (all_resources g)"
  have fin: "finite ?D" by (simp add: dom_stability_lookup)
  have L: "the (?L k) = ?v k \<and> ?v k \<noteq> []" if "k \<in> ?D" for k
    using that by (auto simp: stability_lookup_filter split: list.splits)
  have "\<forall>k \<in> ?D. \<exists>r. r \<in> set (?v k) \<and> most_stable (the (?L k)) = Some r
      \<and> (\<forall>r' \<in> set (?v k). priority (parse (ar_version (fst r'))) \<le> priority (parse (ar_version (fst r))))"
  proof
    fix k assume "k \<in> ?D"
    with L [of k] most_stable_Some [of "?v k"] show "\<exists>r. r \<in> set (?v k) \<and> most_stable (the (?L k)) = Some r
        \<and> (\<forall>r' \<in> set (?v k). priority (parse (ar_version (fst r'))) \<le> priority (parse (ar_version (fst r))))" by auto
  qed
  from bchoice [OF this] obtain f where f: "\<forall>k \<in> ?D. f k \<in> set (?v k) \<and> most_stable (the (?L k)) = Some (f k)
      \<and> (\<forall>r' \<in> set (?v k). priority (parse (ar_version (fst r'))) \<le> priority (parse (ar_version (fst (f k)))))"
    by blast
  have it: "set (iter ?D) = ?D" "distinct (iter ?D)"
    using hash_order.iter_keys [OF ord fin] hash_order.iter_distinct [OF ord fin] by auto
  have k: "\<forall>k \<in> ?D. ar_kind (fst (f k)) = k" using f by simp
  have "resources_by_stability iter g = Some (map f (iter ?D))"
    using f it(1) by (auto simp: resources_by_stability_def intro!: those_map_Some)
  moreover have "map (ar_kind \<circ> fst) (map f (iter ?D)) = iter ?D" using k it(1) by (auto intro: map_idI)
  moreover have "set (map f (iter ?D)) \<subseteq> set (all_resources g)" using f it(1) by auto
  moreover have "\<exists>r' \<in> set (map f (iter ?D)). ar_kind (fst r') = ar_kind (fst r)
      \<and> priority (parse (ar_version (fst r))) \<le> priority (parse (ar_version (fst r')))" if r: "r \<in> set (all_resources g)" for r
  proof -
    have d: "ar_kind (fst r) \<in> ?D" using r by (auto simp: dom_stability_lookup)
    moreover have "r \<in> set (?v (ar_kind (fst r)))" using r by simp
    ultimately have "priority (parse (ar_version (fst r))) \<le> priority (parse (ar_version (fst (f (ar_kind (fst r))))))"
      using f by blast
    with d k it(1) show ?thesis by (intro bexI [of _ "f (ar_kind (fst r))"]) auto
  qed
  ultimately show ?thesis using it(2) by (intro exI [of _ "map f (iter ?D)"]) simp
qed

text \<open>The group of the unit test of \<open>resources_by_stability\<close>.\<close>

definition cr_resource :: "string \<Rightarrow> string \<Rightarrow> api_resource \<times> api_capabilities" where
  "cr_resource kind ver = (\<lparr>ar_group = ''kube.rs'', ar_version = ver, ar_api_version = ''kube.rs/'' @ ver,
     ar_kind = kind, ar_plural = ''testcrs''\<rparr>, ApiCapabilities Namespaced [] [])"

definition cr_group :: api_group where
  "cr_group = \<lparr>grp_name = ''kube.rs'', grp_data =
     [\<lparr>gvd_version = ''v1alpha1'', gvd_resources = [cr_resource ''TestLowVersionCr'' ''v1alpha1'']\<rparr>,
      \<lparr>gvd_version = ''v1'', gvd_resources = [cr_resource ''TestCr'' ''v1'']\<rparr>,
      \<lparr>gvd_version = ''v2alpha1'', gvd_resources = [cr_resource ''TestCr'' ''v2alpha1'']\<rparr>],
     grp_preferred = Some ''v1''\<rparr>"

theorem stability_selects_witness:
  "\<exists>rs. resources_by_stability sorted_list_of_set cr_group = Some rs
     \<and> cr_resource ''TestLowVersionCr'' ''v1alpha1'' \<in> set rs \<and> cr_resource ''TestCr'' ''v1'' \<in> set rs"
proof -
  obtain rs where rs: "resources_by_stability sorted_list_of_set cr_group = Some rs" "set rs \<subseteq> set (all_resources cr_group)"
    "\<forall>r \<in> set (all_resources cr_group). \<exists>r' \<in> set rs. ar_kind (fst r') = ar_kind (fst r)
         \<and> priority (parse (ar_version (fst r))) \<le> priority (parse (ar_version (fst r')))"
    using stability_selects [OF sorted_order.hash_order_axioms, of cr_group] by blast
  have a: "set (all_resources cr_group) =
      {cr_resource ''TestLowVersionCr'' ''v1alpha1'', cr_resource ''TestCr'' ''v1'', cr_resource ''TestCr'' ''v2alpha1''}"
    by (simp add: all_resources_def cr_group_def)
  have cr: "ar_kind (fst (cr_resource k v)) = k" "ar_version (fst (cr_resource k v)) = v" for k v
    by (simp_all add: cr_resource_def)
  obtain low where "low \<in> set rs" "ar_kind (fst low) = ''TestLowVersionCr''"
    using bspec [OF rs(3), of "cr_resource ''TestLowVersionCr'' ''v1alpha1''"] unfolding a cr by blast
  moreover from this(1) rs(2) a have "low \<in> {cr_resource ''TestLowVersionCr'' ''v1alpha1'', cr_resource ''TestCr'' ''v1'', cr_resource ''TestCr'' ''v2alpha1''}"
    by blast
  ultimately have "cr_resource ''TestLowVersionCr'' ''v1alpha1'' \<in> set rs" by (auto simp: cr_resource_def)
  moreover obtain top where "top \<in> set rs" and k: "ar_kind (fst top) = ''TestCr''"
    and v: "priority (parse ''v1'') \<le> priority (parse (ar_version (fst top)))"
    using bspec [OF rs(3), of "cr_resource ''TestCr'' ''v1''"] unfolding a cr by blast
  moreover from this(1) rs(2) a have t: "top \<in> {cr_resource ''TestLowVersionCr'' ''v1alpha1'', cr_resource ''TestCr'' ''v1'', cr_resource ''TestCr'' ''v2alpha1''}"
    by blast
  moreover have "top \<noteq> cr_resource ''TestCr'' ''v2alpha1''" using v v1_over_v2alpha1 cr(2) by metis
  moreover have "top \<noteq> cr_resource ''TestLowVersionCr'' ''v1alpha1''" using k by (auto simp: cr_resource_def)
  ultimately have "cr_resource ''TestLowVersionCr'' ''v1alpha1'' \<in> set rs" "cr_resource ''TestCr'' ''v1'' \<in> set rs" by blast+
  with rs(1) show ?thesis by blast
qed

text \<open>
  C32: the cache holds what one-shot discovery would find. After a successful run, a group is in
  the cache exactly when the mode lets it be queried and \<open>discovery::group\<close> finds it, with the
  same data; earlier contents are gone.
\<close>

theorem discovery_run_exact:
  assumes "discovery_run d = Inr d'" and "conventional (d_client d)"
  shows "d_groups d' grp = Some a \<longleftrightarrow> is_queryable (d_mode d) grp \<and> oneshot_group (d_client d) grp = Inr a"
  by (rule discovery_run_oneshot [OF assms])

theorem discovery_run_exact_witness:
  "\<exists>d a. discovery_run (discovery_new sample_client) = Inr d \<and> oneshot_group sample_client ''kube.rs'' = Inr a
     \<and> d_groups d ''kube.rs'' = Some a \<and> d_groups d ''apps'' = None"
proof -
  obtain d a where d: "discovery_run (discovery_new sample_client) = Inr d" and a: "query_apis sample_client sample_group = Inr a"
    using sample_run sample_query by blast
  have o: "oneshot_group sample_client ''kube.rs'' = Inr a" "\<forall>b. oneshot_group sample_client ''apps'' \<noteq> Inr b"
    using a by (auto simp: oneshot_group_def sample_client_def sample_group_def)
  have c: "conventional (d_client (discovery_new sample_client))" using sample_conventional by (simp add: discovery_new_def)
  show ?thesis
    using discovery_run_exact [OF d c, of "''kube.rs''" a] discovery_run_exact [OF d c, of "''apps''"] d o
    by (auto simp: discovery_new_def)
qed

text \<open>
  resolving a kind in the cache and asking for it directly agree. For a group in the cache
  and a version the group lists, \<open>Discovery::resolve_gvk\<close> finds a resource exactly when
  \<open>pinned_kind\<close>, which skips the group listing, returns the same resource and capabilities; for
  other groups and versions it finds nothing.
\<close>

theorem resolve_agrees_with_pinned:
  assumes run: "discovery_run d = Inr d'" and conv: "conventional (d_client d)"
  shows "resolve_gvk d' gvk = Some r \<longleftrightarrow>
    (\<exists>a. d_groups d' (gvk_group gvk) = Some a \<and> gvk_version gvk \<in> set (grp_versions a) \<and> pinned_kind (d_client d) gvk = Inr r)"
proof (cases "d_groups d' (gvk_group gvk)")
  case (Some a)
  then have a: "oneshot_group (d_client d) (gvk_group gvk) = Inr a" using discovery_run_oneshot [OF run conv] by blast
  show ?thesis
  proof (cases "gvk_version gvk \<in> set (grp_versions a)")
    case True
    then show ?thesis using resolve_in_group [OF a conv True, of r] Some by (simp add: resolve_gvk_def)
  next
    case False
    then have "List.find (\<lambda>gvd. gvd_version gvd = gvk_version gvk) (grp_data a) = None"
      by (auto simp: grp_versions_def find_None_iff image_iff)
    then show ?thesis using Some False by (simp add: resolve_gvk_def versioned_resources_def)
  qed
qed (simp add: resolve_gvk_def)

theorem resolve_agrees_with_pinned_witness:
  "\<exists>d r. discovery_run (discovery_new sample_client) = Inr d \<and> resolve_gvk d (gvk_new [] ''v1'' ''Pod'') = Some r
     \<and> pinned_kind sample_client (gvk_new [] ''v1'' ''Pod'') = Inr r"
proof -
  let ?g = "gvk_new [] ''v1'' ''Pod''"
  obtain d a where d: "discovery_run (discovery_new sample_client) = Inr d" and a: "query_core sample_client [''v1''] = Inr a"
    using sample_run sample_core by blast
  have c: "conventional (d_client (discovery_new sample_client))" using sample_conventional by (simp add: discovery_new_def)
  have "oneshot_group sample_client [] = Inr a" using a by (simp add: oneshot_group_def sample_client_def)
  then have g: "d_groups d (gvk_group ?g) = Some a"
    using discovery_run_oneshot [OF d c, of "[]" a] by (simp add: gvk_new_def discovery_new_def)
  obtain data where "query_versions (\<lambda>v. v) (list_core_api_resources sample_client) [''v1''] = Inr data"
    "a = sort_versions \<lparr>grp_name = [], grp_data = data, grp_preferred = Some ''v1''\<rparr>"
    using a by (auto simp: query_core_def rbind_eq_Inr)
  then have v: "gvk_version ?g \<in> set (grp_versions a)"
    using query_versions_names by (fastforce simp: grp_versions_def gvk_new_def)
  have "\<not> isl (pinned_kind sample_client ?g)" by code_simp
  then obtain r where r: "pinned_kind sample_client ?g = Inr r" by (cases "pinned_kind sample_client ?g") auto
  then show ?thesis
    using resolve_agrees_with_pinned [OF d c, of ?g r] g v d by (auto simp: discovery_new_def)
qed

end
