(* ===== verification/Rt_Streams.thy ===== *)
theory Rt_Streams
  imports Rt_Reflector
begin

text \<open>
  \<open>kube-runtime/src/utils\<close>: the stream adaptors \<open>EventFlatten\<close>, \<open>EventModify\<close>,
  \<open>PredicateFilter\<close>, \<open>StreamSubscribe\<close>, \<open>OnComplete\<close>, \<open>CancelableJoinHandle\<close> and \<open>SplitCase\<close>. An adaptor is a state
  with a poll function; a panic of a poll is \<open>None\<close>. The locale \<open>stream_adaptor\<close> is the
  contract the adaptors share: a poll takes the next item of an abstract content, in order
  and without loss.
\<close>

section \<open>EventFlatten\<close>

record 'k event_flatten =
  ef_stream :: "(watcher_error + 'k event) stream_script"
  ef_emit_deleted :: bool
  ef_queue :: "'k list"

definition event_flatten_new :: "(watcher_error + 'k event) stream_script \<Rightarrow> bool \<Rightarrow> 'k event_flatten" where
  "event_flatten_new stream emit_deleted = \<lparr>ef_stream = stream, ef_emit_deleted = emit_deleted, ef_queue = []\<rparr>"

text \<open>
  The loop of \<open>poll_next\<close>: queued objects first, then the stream. Every \<open>continue\<close> has used an
  answer of the stream.
\<close>

function event_flatten_poll :: "'k event_flatten \<Rightarrow> (watcher_error + 'k) option poll \<times> 'k event_flatten" where
  "event_flatten_poll me =
     (case ef_queue me of
        item # rest \<Rightarrow> (Ready (Some (Inr item)), me\<lparr>ef_queue := rest\<rparr>)
      | [] \<Rightarrow>
          (case ef_stream me of
             [] \<Rightarrow> (Pending, me)
           | Pending # st \<Rightarrow> (Pending, me\<lparr>ef_stream := st\<rparr>)
           | Ready None # st \<Rightarrow> (Ready None, me\<lparr>ef_stream := st\<rparr>)
           | Ready (Some (Inl err)) # st \<Rightarrow> (Ready (Some (Inl err)), me\<lparr>ef_stream := st\<rparr>)
           | Ready (Some (Inr (Applied obj))) # st \<Rightarrow> (Ready (Some (Inr obj)), me\<lparr>ef_stream := st\<rparr>)
           | Ready (Some (Inr (Deleted obj))) # st \<Rightarrow>
               if ef_emit_deleted me then (Ready (Some (Inr obj)), me\<lparr>ef_stream := st\<rparr>)
               else event_flatten_poll (me\<lparr>ef_stream := st\<rparr>)
           | Ready (Some (Inr (Restarted objs))) # st \<Rightarrow>
               event_flatten_poll (me\<lparr>ef_stream := st, ef_queue := objs\<rparr>)))"
  by pat_completeness auto
termination
  by (relation "measure (\<lambda>me. length (ef_stream me))") auto

declare event_flatten_poll.simps [simp del]

definition applied_objects :: "(watcher_error + 'k event) stream_script \<Rightarrow> 'k event_flatten" where
  "applied_objects stream = event_flatten_new stream False"

definition touched_objects :: "(watcher_error + 'k event) stream_script \<Rightarrow> 'k event_flatten" where
  "touched_objects stream = event_flatten_new stream True"

section \<open>EventModify\<close>

record 'k event_modifier =
  em_stream :: "(watcher_error + 'k event) stream_script"
  em_f :: "'k \<Rightarrow> 'k"

definition event_modify_new :: "(watcher_error + 'k event) stream_script \<Rightarrow> ('k \<Rightarrow> 'k) \<Rightarrow> 'k event_modifier" where
  "event_modify_new stream f = \<lparr>em_stream = stream, em_f = f\<rparr>"

fun modify_item :: "('k \<Rightarrow> 'k) \<Rightarrow> watcher_error + 'k event \<Rightarrow> watcher_error + 'k event" where
  "modify_item f (Inl e) = Inl e"
| "modify_item f (Inr ev) = Inr (event_modify f ev)"

definition event_modify_poll :: "'k event_modifier \<Rightarrow> (watcher_error + 'k event) option poll \<times> 'k event_modifier" where
  "event_modify_poll me =
     (case poll_stream (em_stream me) of (r, st) \<Rightarrow>
        ((case r of Ready (Some item) \<Rightarrow> Ready (Some (modify_item (em_f me) item)) | other \<Rightarrow> other),
         me\<lparr>em_stream := st\<rparr>))"

section \<open>Predicates\<close>

text \<open>
  \<open>predicate.rs\<close>. A predicate hashes a property of an object, if it has it. The hasher of the
  standard library (\<open>DefaultHasher\<close>) is a record of its instances used here.
\<close>

type_synonym 'k predicate = "'k \<Rightarrow> u64 option"

record hasher =
  hash_i64 :: "int \<Rightarrow> u64"
  hash_string :: "string \<Rightarrow> u64"
  hash_map :: "str_map \<Rightarrow> u64"
  hash_pair :: "u64 option \<times> u64 option \<Rightarrow> u64"

definition fallback :: "'k predicate \<Rightarrow> 'k predicate \<Rightarrow> 'k predicate" where
  "fallback a b obj = opt_or (a obj) (b obj)"

definition combine :: "hasher \<Rightarrow> 'k predicate \<Rightarrow> 'k predicate \<Rightarrow> 'k predicate" where
  "combine H a b obj = (case (a obj, b obj) of (None, None) \<Rightarrow> None | (x, y) \<Rightarrow> Some (hash_pair H (x, y)))"

definition pred_generation :: "hasher \<Rightarrow> ('k \<Rightarrow> object_meta) \<Rightarrow> 'k predicate" where
  "pred_generation H meta obj = map_option (hash_i64 H) (m_generation (meta obj))"

definition pred_resource_version :: "hasher \<Rightarrow> ('k \<Rightarrow> object_meta) \<Rightarrow> 'k predicate" where
  "pred_resource_version H meta obj = map_option (hash_string H) (m_resource_version (meta obj))"

definition pred_labels :: "hasher \<Rightarrow> ('k \<Rightarrow> object_meta) \<Rightarrow> 'k predicate" where
  "pred_labels H meta obj = Some (hash_map H (labels (meta obj)))"

definition pred_annotations :: "hasher \<Rightarrow> ('k \<Rightarrow> object_meta) \<Rightarrow> 'k predicate" where
  "pred_annotations H meta obj = Some (hash_map H (annotations (meta obj)))"

record 'k predicate_filter =
  pf_stream :: "(watcher_error + 'k) stream_script"
  pf_predicate :: "'k predicate"
  pf_cache :: "unit ref_key \<rightharpoonup> u64"

definition predicate_filter_new :: "(watcher_error + 'k) stream_script \<Rightarrow> 'k predicate \<Rightarrow> 'k predicate_filter" where
  "predicate_filter_new stream predicate = \<lparr>pf_stream = stream, pf_predicate = predicate, pf_cache = Map.empty\<rparr>"

text \<open>The loop of \<open>poll_next\<close>; an object without a name panics when its reference is built.\<close>

function predicate_filter_poll :: "('k \<Rightarrow> object_meta) \<Rightarrow> 'k predicate_filter
     \<Rightarrow> ((watcher_error + 'k) option poll \<times> 'k predicate_filter) option" where
  "predicate_filter_poll meta me =
     (case pf_stream me of
        [] \<Rightarrow> Some (Pending, me)
      | Pending # st \<Rightarrow> Some (Pending, me\<lparr>pf_stream := st\<rparr>)
      | Ready None # st \<Rightarrow> Some (Ready None, me\<lparr>pf_stream := st\<rparr>)
      | Ready (Some (Inl err)) # st \<Rightarrow> Some (Ready (Some (Inl err)), me\<lparr>pf_stream := st\<rparr>)
      | Ready (Some (Inr obj)) # st \<Rightarrow>
          (case pf_predicate me obj of
             None \<Rightarrow> Some (Ready (Some (Inr obj)), me\<lparr>pf_stream := st\<rparr>)
           | Some val \<Rightarrow>
               (case obj_key meta () obj of
                  None \<Rightarrow> None
                | Some key \<Rightarrow>
                    let changed = (case pf_cache me key of Some old \<Rightarrow> old \<noteq> val | None \<Rightarrow> True);
                        me' = me\<lparr>pf_stream := st, pf_cache := (pf_cache me)(key \<mapsto> val)\<rparr>
                    in if changed then Some (Ready (Some (Inr obj)), me') else predicate_filter_poll meta me')))"
  by pat_completeness auto
termination
  by (relation "measure (\<lambda>(meta, me). length (pf_stream me))") auto

declare predicate_filter_poll.simps [simp del]

section \<open>OnComplete\<close>

text \<open>
  \<open>Fuse\<close> remembers the end of its stream. The completion future is the sequence of its poll
  answers; an \<open>async\<close> block that is polled after it has completed panics (\<open>None\<close>).
\<close>

record 'a on_complete =
  oc_stream :: "'a stream_script"
  oc_done :: bool
  oc_future :: "unit poll list"
  oc_future_done :: bool

definition on_complete_new :: "'a stream_script \<Rightarrow> unit poll list \<Rightarrow> 'a on_complete" where
  "on_complete_new stream fut = \<lparr>oc_stream = stream, oc_done = False, oc_future = fut, oc_future_done = False\<rparr>"

definition poll_fused :: "'a on_complete \<Rightarrow> 'a option poll \<times> 'a on_complete" where
  "poll_fused me =
     (if oc_done me then (Ready None, me)
      else case poll_stream (oc_stream me) of (r, st) \<Rightarrow>
        (r, me\<lparr>oc_stream := st, oc_done := (r = Ready None)\<rparr>))"

definition on_complete_poll :: "'a on_complete \<Rightarrow> ('a option poll \<times> 'a on_complete) option" where
  "on_complete_poll me0 =
     (case poll_fused me0 of
        (Ready None, me) \<Rightarrow>
          if oc_future_done me then None
          else (case oc_future me of
                  [] \<Rightarrow> Some (Pending, me)
                | Pending # ps \<Rightarrow> Some (Pending, me\<lparr>oc_future := ps\<rparr>)
                | Ready () # ps \<Rightarrow> Some (Ready None, me\<lparr>oc_future := ps, oc_future_done := True\<rparr>))
      | (x, me) \<Rightarrow> Some (x, me))"

section \<open>CancelableJoinHandle\<close>

text \<open>
  A task is what its join handle will answer: its result, or an error when it panicked or was
  aborted. Starting it is a parameter. Polling a handle whose task failed panics (\<open>None\<close>), and
  dropping the handle aborts the task.
\<close>

record ('e, 't) cancelable_join_handle =
  cj_inner :: "('e + 't) poll list"
  cj_aborted :: bool

definition cancelable_spawn :: "('f \<Rightarrow> ('e + 't) poll list) \<Rightarrow> 'f \<Rightarrow> ('e, 't) cancelable_join_handle" where
  "cancelable_spawn spawn fut = \<lparr>cj_inner = spawn fut, cj_aborted = False\<rparr>"

definition cancelable_drop :: "('e, 't) cancelable_join_handle \<Rightarrow> ('e, 't) cancelable_join_handle" where
  "cancelable_drop h = h\<lparr>cj_aborted := True\<rparr>"

definition cancelable_poll :: "('e, 't) cancelable_join_handle \<Rightarrow> ('t poll \<times> ('e, 't) cancelable_join_handle) option" where
  "cancelable_poll h =
     (case cj_inner h of
        [] \<Rightarrow> Some (Pending, h)
      | Pending # ps \<Rightarrow> Some (Pending, h\<lparr>cj_inner := ps\<rparr>)
      | Ready res # ps \<Rightarrow> (case res of Inr x \<Rightarrow> Some (Ready x, h\<lparr>cj_inner := ps\<rparr>) | Inl e \<Rightarrow> None))"

fun cancelable_await :: "nat \<Rightarrow> ('e, 't) cancelable_join_handle \<Rightarrow> 't option option" where
  "cancelable_await 0 h = Some None"
| "cancelable_await (Suc n) h =
     (case cancelable_poll h of
        None \<Rightarrow> None
      | Some (Ready x, h') \<Rightarrow> Some (Some x)
      | Some (Pending, h') \<Rightarrow> cancelable_await n h')"

lemma cancelable_await_result:
  "cj_inner h = replicate k Pending @ Ready res # ps \<Longrightarrow> k < n \<Longrightarrow> cancelable_await n h = (case res of Inr x \<Rightarrow> Some (Some x) | Inl e \<Rightarrow> None)"
proof (induction n arbitrary: k h)
  case (Suc n)
  show ?case
  proof (cases k)
    case (Suc j)
    then have "cancelable_poll h = Some (Pending, h\<lparr>cj_inner := replicate j Pending @ Ready res # ps\<rparr>)" using Suc.prems by (simp add: cancelable_poll_def)
    then show ?thesis using Suc.IH [of "h\<lparr>cj_inner := replicate j Pending @ Ready res # ps\<rparr>" j] Suc.prems(2) Suc by simp
  qed (use Suc.prems in \<open>simp add: cancelable_poll_def split: sum.splits\<close>)
qed simp

section \<open>SplitCase\<close>

text \<open>
  The two cases of \<open>trystream_split_result\<close> share a peekable stream: the item peeked at, if
  any (\<open>Some None\<close> is the end), and the stream below, which is polled by the function \<open>poll\<close>.
\<close>

record ('s, 'a) peekable =
  pk_peeked :: "'a option option"
  pk_stream :: 's

definition pk_new :: "'s \<Rightarrow> ('s, 'a) peekable" where
  "pk_new stream = \<lparr>pk_peeked = None, pk_stream = stream\<rparr>"

definition pk_peek :: "('s \<Rightarrow> 'a option poll \<times> 's) \<Rightarrow> ('s, 'a) peekable \<Rightarrow> 'a option poll \<times> ('s, 'a) peekable" where
  "pk_peek poll inner =
     (case pk_peeked inner of
        Some x \<Rightarrow> (Ready x, inner)
      | None \<Rightarrow> (case poll (pk_stream inner) of
          (Ready x, st) \<Rightarrow> (Ready x, \<lparr>pk_peeked = Some x, pk_stream = st\<rparr>)
        | (Pending, st) \<Rightarrow> (Pending, inner\<lparr>pk_stream := st\<rparr>)))"

definition pk_poll_next :: "('s \<Rightarrow> 'a option poll \<times> 's) \<Rightarrow> ('s, 'a) peekable \<Rightarrow> 'a option poll \<times> ('s, 'a) peekable" where
  "pk_poll_next poll inner =
     (case pk_peeked inner of
        Some x \<Rightarrow> (Ready x, inner\<lparr>pk_peeked := None\<rparr>)
      | None \<Rightarrow> (case poll (pk_stream inner) of (r, st) \<Rightarrow> (r, inner\<lparr>pk_stream := st\<rparr>)))"

definition split_case_poll :: "('s \<Rightarrow> 'a option poll \<times> 's) \<Rightarrow> ('a \<Rightarrow> bool) \<Rightarrow> ('a \<Rightarrow> 'c option) \<Rightarrow> ('s, 'a) peekable
     \<Rightarrow> ('c option poll \<times> ('s, 'a) peekable) option" where
  "split_case_poll poll should_consume_item try_extract_item_case inner0 =
     (case pk_peek poll inner0 of
        (Ready (Some x_ref), inner) \<Rightarrow>
          if should_consume_item x_ref
          then (case pk_poll_next poll inner of
                  (Ready (Some x), inner') \<Rightarrow> map_option (\<lambda>c. (Ready (Some c), inner')) (try_extract_item_case x)
                | _ \<Rightarrow> None)
          else Some (Pending, inner)
      | (Ready None, inner) \<Rightarrow> Some (Ready None, inner)
      | (Pending, inner) \<Rightarrow> Some (Pending, inner))"

fun result_ok :: "'e + 'a \<Rightarrow> 'a option" where
  "result_ok (Inr a) = Some a" | "result_ok (Inl _) = None"

fun result_err :: "'e + 'a \<Rightarrow> 'e option" where
  "result_err (Inl e) = Some e" | "result_err (Inr _) = None"

definition split_oks_poll :: "('s \<Rightarrow> ('e + 'a) option poll \<times> 's) \<Rightarrow> ('s, 'e + 'a) peekable \<Rightarrow> ('a option poll \<times> ('s, 'e + 'a) peekable) option" where
  "split_oks_poll poll = split_case_poll poll (\<lambda>r. \<not> isl r) result_ok"

definition split_errs_poll :: "('s \<Rightarrow> ('e + 'a) option poll \<times> 's) \<Rightarrow> ('s, 'e + 'a) peekable \<Rightarrow> ('e option poll \<times> ('s, 'e + 'a) peekable) option" where
  "split_errs_poll poll = split_case_poll poll isl result_err"

section \<open>StreamSubscribe\<close>

text \<open>
  \<open>stream_subscribe.rs\<close>. The broadcast channel of tokio is a record of its operations on a
  channel state; \<open>send\<close> ignores the error of a channel without receivers.
\<close>

definition CHANNEL_CAPACITY :: nat where
  "CHANNEL_CAPACITY = 128"

datatype 'a recv_result = Received "'a option" | RecvLagged nat | RecvClosed

datatype subscribe_error = Lagged nat

record ('ch, 'a) stream_subscriber =
  ss_stream :: "'a stream_script"
  ss_sender :: 'ch

definition stream_subscribe_new :: "(nat \<Rightarrow> 'ch) \<Rightarrow> 'a stream_script \<Rightarrow> ('ch, 'a) stream_subscriber" where
  "stream_subscribe_new channel stream = \<lparr>ss_stream = stream, ss_sender = channel CHANNEL_CAPACITY\<rparr>"

definition stream_subscribe_poll :: "('ch \<Rightarrow> 'a option \<Rightarrow> 'ch) \<Rightarrow> ('ch, 'a) stream_subscriber
     \<Rightarrow> 'a option poll \<times> ('ch, 'a) stream_subscriber" where
  "stream_subscribe_poll send this =
     (case poll_stream (ss_stream this) of
        (Ready (Some item), st) \<Rightarrow> (Ready (Some item), this\<lparr>ss_stream := st, ss_sender := send (ss_sender this) (Some item)\<rparr>)
      | (Ready None, st) \<Rightarrow> (Ready None, this\<lparr>ss_stream := st, ss_sender := send (ss_sender this) None\<rparr>)
      | (Pending, st) \<Rightarrow> (Pending, this\<lparr>ss_stream := st\<rparr>))"

text \<open>The methods of \<open>WatchStreamExt\<close> that wrap a stream in the remaining adaptors.\<close>

definition watch_modify :: "(watcher_error + 'k event) stream_script \<Rightarrow> ('k \<Rightarrow> 'k) \<Rightarrow> 'k event_modifier" where
  "watch_modify stream f = event_modify_new stream f"

definition watch_predicate_filter :: "(watcher_error + 'k) stream_script \<Rightarrow> 'k predicate \<Rightarrow> 'k predicate_filter" where
  "watch_predicate_filter stream predicate = predicate_filter_new stream predicate"

definition watch_stream_subscribe :: "(nat \<Rightarrow> 'ch) \<Rightarrow> 'a stream_script \<Rightarrow> ('ch, 'a) stream_subscriber" where
  "watch_stream_subscribe channel stream = stream_subscribe_new channel stream"

text \<open>The subscriber stream: what its unfold step makes of a receive, \<open>None\<close> at the end.\<close>

fun subscribe_item :: "'a recv_result \<Rightarrow> (subscribe_error + 'a) option" where
  "subscribe_item (Received (Some obj)) = Some (Inr obj)"
| "subscribe_item (RecvLagged amt) = Some (Inl (Lagged amt))"
| "subscribe_item (Received None) = None"
| "subscribe_item RecvClosed = None"

section \<open>The contract of an adaptor\<close>

fun script_items :: "'a stream_script \<Rightarrow> 'a list" where
  "script_items [] = []"
| "script_items (Ready (Some x) # st) = x # script_items st"
| "script_items (_ # st) = script_items st"

text \<open>A stream that answers every poll at once and then ends.\<close>

fun prompt :: "'a stream_script \<Rightarrow> bool" where
  "prompt [Ready None] = True"
| "prompt (Ready (Some x) # st) = prompt st"
| "prompt _ = False"

lemma prompt_end [simp]: "prompt (Ready None # st) \<longleftrightarrow> st = []"
  by (cases st) simp_all

text \<open>The items of the first \<open>n\<close> polls and the state they leave.\<close>

primrec poll_n :: "('st \<Rightarrow> ('b option poll \<times> 'st) option) \<Rightarrow> nat \<Rightarrow> 'st \<Rightarrow> ('b list \<times> 'st) option" where
  "poll_n p 0 st = Some ([], st)"
| "poll_n p (Suc n) st =
     (case p st of
        None \<Rightarrow> None
      | Some (Ready (Some x), st') \<Rightarrow> map_option (map_prod ((#) x) id) (poll_n p n st')
      | Some (_, st') \<Rightarrow> poll_n p n st')"

locale stream_adaptor =
  fixes poll_next :: "'st \<Rightarrow> ('b option poll \<times> 'st) option"
    and content :: "'st \<Rightarrow> 'b list"
    and sane :: "'st \<Rightarrow> bool"
  assumes total: "sane st \<Longrightarrow> \<exists>r st'. poll_next st = Some (r, st') \<and> sane st'"
    and item: "\<lbrakk>sane st; poll_next st = Some (Ready (Some x), st')\<rbrakk> \<Longrightarrow> content st = x # content st'"
    and no_item: "\<lbrakk>sane st; poll_next st = Some (r, st'); \<forall>x. r \<noteq> Ready (Some x)\<rbrakk> \<Longrightarrow> content st' = content st"
begin

lemma sane_next: "\<lbrakk>sane st; poll_next st = Some (r, st')\<rbrakk> \<Longrightarrow> sane st'"
  using total by fastforce

lemma lossless: "sane st \<Longrightarrow> \<exists>out st'. poll_n poll_next n st = Some (out, st') \<and> out @ content st' = content st \<and> sane st'"
proof (induction n arbitrary: st)
  case (Suc n)
  obtain r st1 where p: "poll_next st = Some (r, st1)" "sane st1" using total [OF Suc.prems] by blast
  obtain out st' where o: "poll_n poll_next n st1 = Some (out, st')" "out @ content st' = content st1" "sane st'"
    using Suc.IH [OF p(2)] by blast
  show ?case
  proof (cases "\<exists>x. r = Ready (Some x)")
    case True
    then show ?thesis using p o item [OF Suc.prems] by auto
  next
    case False
    then have "poll_n poll_next (Suc n) st = poll_n poll_next n st1"
      using p by (auto split: poll.splits option.splits)
    then show ?thesis using o no_item [OF Suc.prems p(1)] False by auto
  qed
qed simp

end

locale prompt_adaptor = stream_adaptor +
  fixes answering :: "'st \<Rightarrow> bool"
  assumes answers: "\<lbrakk>sane st; answering st; poll_next st = Some (r, st')\<rbrakk>
      \<Longrightarrow> r = Ready None \<and> content st = [] \<or> (\<exists>x. r = Ready (Some x)) \<and> answering st'"
begin

lemma delivers:
  "\<lbrakk>sane st; answering st\<rbrakk> \<Longrightarrow>
   \<exists>st' st''. poll_n poll_next (length (content st)) st = Some (content st, st') \<and> poll_next st' = Some (Ready None, st'')"
proof (induction "length (content st)" arbitrary: st)
  case 0
  then show ?case using total [of st] item [of st] answers [of st] by force
next
  case (Suc n)
  obtain r st1 where p: "poll_next st = Some (r, st1)" "sane st1" using total [OF Suc.prems(1)] by blast
  from answers [OF Suc.prems p(1)] Suc.hyps(2) obtain x where x: "r = Ready (Some x)" "answering st1" by auto
  have c: "content st = x # content st1" using item [OF Suc.prems(1)] p(1) x(1) by blast
  with Suc.hyps(2) have "n = length (content st1)" by simp
  from Suc.hyps(1) [OF this p(2) x(2)] show ?case using p(1) x(1) c by auto
qed

end

section \<open>EventFlatten meets the contract\<close>

fun flat_item :: "bool \<Rightarrow> watcher_error + 'k event \<Rightarrow> (watcher_error + 'k) list" where
  "flat_item emit (Inl e) = [Inl e]"
| "flat_item emit (Inr ev) = map Inr (if emit then into_iter_touched ev else into_iter_applied ev)"

definition flatten_content :: "'k event_flatten \<Rightarrow> (watcher_error + 'k) list" where
  "flatten_content me = map Inr (ef_queue me) @ concat (map (flat_item (ef_emit_deleted me)) (script_items (ef_stream me)))"

lemma flatten_poll_content:
  "event_flatten_poll me = (r, me') \<Longrightarrow>
     (case r of Ready (Some x) \<Rightarrow> flatten_content me = x # flatten_content me' | _ \<Rightarrow> flatten_content me' = flatten_content me)"
proof (induction me rule: event_flatten_poll.induct)
  case (1 me)
  show ?case
    using 1(3) 1(1,2)
    by (subst (asm) event_flatten_poll.simps [of me])
      (auto simp: flatten_content_def split: list.splits poll.splits option.splits sum.splits event.splits if_splits)
qed

lemma flatten_poll_prompt:
  "event_flatten_poll me = (r, me') \<Longrightarrow> prompt (ef_stream me) \<Longrightarrow>
     r = Ready None \<and> flatten_content me = [] \<or> (\<exists>x. r = Ready (Some x)) \<and> prompt (ef_stream me')"
proof (induction me rule: event_flatten_poll.induct)
  case (1 me)
  show ?case
    using 1(3,4) 1(1,2)
    by (subst (asm) event_flatten_poll.simps [of me])
      (auto simp: flatten_content_def elim: prompt.elims split: list.splits poll.splits option.splits sum.splits event.splits if_splits)
qed


interpretation flatten: prompt_adaptor "\<lambda>me. Some (event_flatten_poll me)" flatten_content "\<lambda>_. True" "\<lambda>me. prompt (ef_stream me)"
proof unfold_locales
  fix me :: "'a event_flatten" and r me'
  assume "Some (event_flatten_poll me) = Some (r, me')"
  then have p: "event_flatten_poll me = (r, me')" by simp
  show "flatten_content me' = flatten_content me" if "\<forall>x. r \<noteq> Ready (Some x)"
    using flatten_poll_content [OF p] that by (auto split: poll.splits option.splits)
  show "r = Ready None \<and> flatten_content me = [] \<or> (\<exists>x. r = Ready (Some x)) \<and> prompt (ef_stream me')" if "prompt (ef_stream me)"
    using flatten_poll_prompt [OF p that] .
qed (auto dest: flatten_poll_content)

section \<open>The other adaptors\<close>

definition modify_content :: "'k event_modifier \<Rightarrow> (watcher_error + 'k event) list" where
  "modify_content me = map (modify_item (em_f me)) (script_items (em_stream me))"

interpretation modify: prompt_adaptor "\<lambda>me. Some (event_modify_poll me)" modify_content "\<lambda>_. True" "\<lambda>me. prompt (em_stream me)"
proof unfold_locales
  fix me :: "'a event_modifier" and r me' x
  assume "Some (event_modify_poll me) = Some (r, me')"
  then have p: "event_modify_poll me = (r, me')" by simp
  show "modify_content me' = modify_content me" if "\<forall>x. r \<noteq> Ready (Some x)"
    using p that by (cases "em_stream me" rule: script_items.cases) (auto simp: event_modify_poll_def modify_content_def)
  show "r = Ready None \<and> modify_content me = [] \<or> (\<exists>x. r = Ready (Some x)) \<and> prompt (em_stream me')" if "prompt (em_stream me)"
    using p that by (cases "em_stream me" rule: prompt.cases) (auto simp: event_modify_poll_def modify_content_def)
next
  fix me :: "'a event_modifier" and x me'
  assume "Some (event_modify_poll me) = Some (Ready (Some x), me')"
  then show "modify_content me = x # modify_content me'"
    by (cases "em_stream me" rule: script_items.cases) (auto simp: event_modify_poll_def modify_content_def)
qed auto

text \<open>
  What a predicate filter lets through, as a function of the objects alone: the state of the
  filter is a table of the last value seen per object.
\<close>

fun emits :: "('k \<Rightarrow> object_meta) \<Rightarrow> 'k predicate \<Rightarrow> (unit ref_key \<rightharpoonup> u64) \<Rightarrow> (watcher_error + 'k) list \<Rightarrow> (watcher_error + 'k) list" where
  "emits meta P cache [] = []"
| "emits meta P cache (Inl e # items) = Inl e # emits meta P cache items"
| "emits meta P cache (Inr obj # items) =
     (case P obj of
        None \<Rightarrow> Inr obj # emits meta P cache items
      | Some val \<Rightarrow>
          (let key = the (obj_key meta () obj) in
           (if cache key = Some val then [] else [Inr obj]) @ emits meta P (cache(key \<mapsto> val)) items))"

definition filter_content :: "('k \<Rightarrow> object_meta) \<Rightarrow> 'k predicate_filter \<Rightarrow> (watcher_error + 'k) list" where
  "filter_content meta me = emits meta (pf_predicate me) (pf_cache me) (script_items (pf_stream me))"

definition all_named :: "('k \<Rightarrow> object_meta) \<Rightarrow> 'k predicate_filter \<Rightarrow> bool" where
  "all_named meta me \<longleftrightarrow> (\<forall>obj. Inr obj \<in> set (script_items (pf_stream me)) \<longrightarrow> m_name (meta obj) \<noteq> None)"

text \<open>A poll either stops at the first answer of the stream or skips an unchanged object.\<close>

lemma filter_poll_cases [consumes 1, case_names stop skip]:
  assumes "all_named meta me"
  obtains r me' where "predicate_filter_poll meta me = Some (r, me')" "all_named meta me'"
      "case r of Ready (Some x) \<Rightarrow> filter_content meta me = x # filter_content meta me' | _ \<Rightarrow> filter_content meta me' = filter_content meta me"
      "prompt (pf_stream me) \<Longrightarrow> r = Ready None \<and> filter_content meta me = [] \<or> (\<exists>x. r = Ready (Some x)) \<and> prompt (pf_stream me')"
    | me1 where "predicate_filter_poll meta me = predicate_filter_poll meta me1" "length (pf_stream me1) < length (pf_stream me)"
      "all_named meta me1" "filter_content meta me1 = filter_content meta me" "prompt (pf_stream me) \<Longrightarrow> prompt (pf_stream me1)"
proof (cases "pf_stream me" rule: script_items.cases)
  case (2 x st)
  show ?thesis
  proof (cases x)
    case (Inl e)
    with 2 assms show ?thesis
      by (intro that(1)) (auto simp: predicate_filter_poll.simps [of meta me] filter_content_def all_named_def)
  next
    case (Inr obj)
    with 2 assms obtain key where key: "obj_key meta () obj = Some key"
      by (cases "obj_key meta () obj") (auto simp: all_named_def obj_key_None)
    show ?thesis
    proof (cases "\<exists>val. pf_predicate me obj = Some val \<and> pf_cache me key = Some val")
      case True
      with 2 Inr key assms show ?thesis
        by (intro that(2) [of "me\<lparr>pf_stream := st, pf_cache := (pf_cache me)(key \<mapsto> the (pf_predicate me obj))\<rparr>"])
          (auto simp: predicate_filter_poll.simps [of meta me] filter_content_def all_named_def)
    next
      case False
      show ?thesis
      proof (cases "pf_predicate me obj")
        case None
        with 2 Inr key assms show ?thesis
          by (intro that(1)) (auto simp: predicate_filter_poll.simps [of meta me] filter_content_def all_named_def)
      next
        case (Some val)
        with False 2 Inr key assms show ?thesis
          by (intro that(1) [of "Ready (Some (Inr obj))" "me\<lparr>pf_stream := st, pf_cache := (pf_cache me)(key \<mapsto> val)\<rparr>"])
            (auto simp: predicate_filter_poll.simps [of meta me] filter_content_def all_named_def split: option.splits)
      qed
    qed
  qed
next
  case 1
  with assms show ?thesis by (intro that(1)) (auto simp: predicate_filter_poll.simps [of meta me])
next
  case "3_1"
  with assms show ?thesis
    by (intro that(1)) (auto simp: predicate_filter_poll.simps [of meta me] filter_content_def all_named_def)
next
  case "3_2"
  with assms show ?thesis
    by (intro that(1)) (auto simp: predicate_filter_poll.simps [of meta me] filter_content_def all_named_def)
qed

lemma filter_poll_spec:
  "all_named meta me \<Longrightarrow> \<exists>r me'. predicate_filter_poll meta me = Some (r, me') \<and> all_named meta me'
     \<and> (case r of Ready (Some x) \<Rightarrow> filter_content meta me = x # filter_content meta me' | _ \<Rightarrow> filter_content meta me' = filter_content meta me)
     \<and> (prompt (pf_stream me) \<longrightarrow> r = Ready None \<and> filter_content meta me = [] \<or> (\<exists>x. r = Ready (Some x)) \<and> prompt (pf_stream me'))"
proof (induction me rule: measure_induct_rule [of "\<lambda>me. length (pf_stream me)"])
  case (less me)
  from less.prems show ?case
  proof (cases rule: filter_poll_cases)
    case (stop r me')
    then show ?thesis by blast
  next
    case (skip me1)
    from less.IH [OF skip(2,3)] skip(5) show ?thesis unfolding skip(1) skip(4) by blast
  qed
qed


interpretation pf: prompt_adaptor "predicate_filter_poll meta" "filter_content meta" "all_named meta" "\<lambda>me. prompt (pf_stream me)"
  for meta :: "'k \<Rightarrow> object_meta"
proof unfold_locales
  fix me r me' x assume n: "all_named meta me"
  from filter_poll_spec [OF n] show "\<exists>r me'. predicate_filter_poll meta me = Some (r, me') \<and> all_named meta me'" by blast
  show "filter_content meta me = x # filter_content meta me'" if "predicate_filter_poll meta me = Some (Ready (Some x), me')"
    using filter_poll_spec [OF n] that by auto
  assume p: "predicate_filter_poll meta me = Some (r, me')"
  show "filter_content meta me' = filter_content meta me" if "\<forall>x. r \<noteq> Ready (Some x)"
    using filter_poll_spec [OF n] p that by (auto split: poll.splits option.splits)
  show "r = Ready None \<and> filter_content meta me = [] \<or> (\<exists>x. r = Ready (Some x)) \<and> prompt (pf_stream me')" if "prompt (pf_stream me)"
    using filter_poll_spec [OF n] p that by auto
qed

interpretation subscribed: prompt_adaptor "\<lambda>me. Some (stream_subscribe_poll send me)" "\<lambda>me. script_items (ss_stream me)"
    "\<lambda>_. True" "\<lambda>me. prompt (ss_stream me)"
  for send :: "'ch \<Rightarrow> 'a option \<Rightarrow> 'ch"
proof unfold_locales
  fix me :: "('ch, 'a) stream_subscriber" and r me'
  assume p: "Some (stream_subscribe_poll send me) = Some (r, me')"
  show "script_items (ss_stream me') = script_items (ss_stream me)" if "\<forall>x. r \<noteq> Ready (Some x)"
    using p that by (cases "ss_stream me" rule: script_items.cases) (auto simp: stream_subscribe_poll_def)
  show "r = Ready None \<and> script_items (ss_stream me) = [] \<or> (\<exists>x. r = Ready (Some x)) \<and> prompt (ss_stream me')" if "prompt (ss_stream me)"
    using p that by (cases "ss_stream me" rule: script_items.cases) (auto simp: stream_subscribe_poll_def)
next
  fix me :: "('ch, 'a) stream_subscriber" and x me'
  assume "Some (stream_subscribe_poll send me) = Some (Ready (Some x), me')"
  then show "script_items (ss_stream me) = x # script_items (ss_stream me')"
    by (cases "ss_stream me" rule: script_items.cases) (auto simp: stream_subscribe_poll_def)
qed auto


text \<open>
  The two cases of a split stream, polled in any order and reunited: the state carries the
  choices to come, \<open>True\<close> for the case of the \<open>Ok\<close> items.
\<close>

type_synonym 'a peekable_script = "('a stream_script, 'a) peekable"

fun reunited_poll :: "('e + 'a) peekable_script \<times> bool list \<Rightarrow> (('e + 'a) option poll \<times> ('e + 'a) peekable_script \<times> bool list) option" where
  "reunited_poll (inner, []) = Some (Pending, inner, [])"
| "reunited_poll (inner, True # bs) =
     map_option (\<lambda>(r, inner'). (case r of Ready x \<Rightarrow> Ready (map_option Inr x) | Pending \<Rightarrow> Pending, inner', bs)) (split_oks_poll poll_stream inner)"
| "reunited_poll (inner, False # bs) =
     map_option (\<lambda>(r, inner'). (case r of Ready x \<Rightarrow> Ready (map_option Inl x) | Pending \<Rightarrow> Pending, inner', bs)) (split_errs_poll poll_stream inner)"

definition peekable_content :: "'a peekable_script \<Rightarrow> 'a list" where
  "peekable_content inner = (case pk_peeked inner of Some (Some x) \<Rightarrow> [x] | _ \<Rightarrow> []) @ script_items (pk_stream inner)"

lemma pk_peek_cases:
  obtains x inner' where "pk_peek poll_stream inner = (Ready (Some x), inner')" "pk_peeked inner' = Some (Some x)"
      "peekable_content inner' = peekable_content inner"
    | r inner' where "pk_peek poll_stream inner = (r, inner')" "r = Ready None \<or> r = Pending" "peekable_content inner' = peekable_content inner"
proof (cases "pk_peeked inner")
  case None
  then show ?thesis
    by (cases "pk_stream inner" rule: script_items.cases) (auto simp: pk_peek_def peekable_content_def intro: that)
next
  case (Some y)
  then show ?thesis by (cases y) (auto simp: pk_peek_def intro: that)
qed

text \<open>A poll of either case: the item at the front, if it is of that case.\<close>

lemma split_case_poll_spec:
  assumes "\<And>x. consume x \<Longrightarrow> \<exists>c. extract x = Some c"
  shows "\<exists>r inner'. split_case_poll poll_stream consume extract inner = Some (r, inner')
    \<and> (case r of Ready (Some c) \<Rightarrow> (\<exists>x. consume x \<and> extract x = Some c \<and> peekable_content inner = x # peekable_content inner')
       | _ \<Rightarrow> peekable_content inner' = peekable_content inner)"
proof (cases inner rule: pk_peek_cases)
  case (1 x inner1)
  show ?thesis
  proof (cases "consume x")
    case True
    then obtain c where "extract x = Some c" using assms by blast
    with 1 True show ?thesis by (auto simp: split_case_poll_def pk_poll_next_def peekable_content_def)
  next
    case False
    with 1 show ?thesis by (simp add: split_case_poll_def)
  qed
next
  case (2 r inner')
  then show ?thesis by (auto simp: split_case_poll_def)
qed

lemma result_cases [simp]: "result_ok x = Some a \<longleftrightarrow> x = Inr a" "result_err x = Some e \<longleftrightarrow> x = Inl e"
  by (cases x; simp)+

lemma reunited_poll_spec:
  "\<exists>r st'. reunited_poll st = Some (r, st')
    \<and> (case r of Ready (Some x) \<Rightarrow> peekable_content (fst st) = x # peekable_content (fst st')
       | _ \<Rightarrow> peekable_content (fst st') = peekable_content (fst st))"
proof (cases st rule: reunited_poll.cases)
  case (2 inner bs)
  have "\<exists>c. result_ok x = Some c" if "\<not> isl x" for x :: "'a + 'b" using that by (cases x) auto
  from split_case_poll_spec [of "\<lambda>x. \<not> isl x" result_ok inner, OF this] obtain r inner' where
    p: "split_oks_poll poll_stream inner = Some (r, inner')"
    and c: "case r of Ready (Some c) \<Rightarrow> (\<exists>x. \<not> isl x \<and> result_ok x = Some c \<and> peekable_content inner = x # peekable_content inner')
       | _ \<Rightarrow> peekable_content inner' = peekable_content inner" unfolding split_oks_poll_def by blast
  then show ?thesis using 2 by (cases r) (auto split: option.splits)
next
  case (3 inner bs)
  have "\<exists>c. result_err x = Some c" if "isl x" for x :: "'a + 'b" using that by (cases x) auto
  from split_case_poll_spec [of isl result_err inner, OF this] obtain r inner' where
    p: "split_errs_poll poll_stream inner = Some (r, inner')"
    and c: "case r of Ready (Some c) \<Rightarrow> (\<exists>x. isl x \<and> result_err x = Some c \<and> peekable_content inner = x # peekable_content inner')
       | _ \<Rightarrow> peekable_content inner' = peekable_content inner" unfolding split_errs_poll_def by blast
  then show ?thesis using 3 by (cases r) (auto split: option.splits)
qed auto

interpretation reunited: stream_adaptor reunited_poll "\<lambda>st. peekable_content (fst st)" "\<lambda>_. True"
proof unfold_locales
  fix st :: "('a + 'b) peekable_script \<times> bool list" and r x st'
  note sp = reunited_poll_spec [of st]
  show "\<exists>r st'. reunited_poll st = Some (r, st') \<and> True" using sp by blast
  show "peekable_content (fst st) = x # peekable_content (fst st')" if "reunited_poll st = Some (Ready (Some x), st')"
    using sp that by auto
  show "peekable_content (fst st') = peekable_content (fst st)" if "reunited_poll st = Some (r, st')" "\<forall>x. r \<noteq> Ready (Some x)"
    using sp that by (auto split: poll.splits option.splits)
qed

section \<open>A reference definition of the predicate filter\<close>

definition last_seen :: "('k \<Rightarrow> object_meta) \<Rightarrow> 'k predicate \<Rightarrow> 'k list \<Rightarrow> unit ref_key \<Rightarrow> u64 option" where
  "last_seen meta P hist key =
     (let objs = filter (\<lambda>obj. obj_key meta () obj = Some key \<and> P obj \<noteq> None) hist in
      if objs = [] then None else P (last objs))"

text \<open>
  The filter without a cache: an item passes unless it is an object whose property has the
  value it had at the last object with the same reference that had the property.
\<close>

fun passes :: "('k \<Rightarrow> object_meta) \<Rightarrow> 'k predicate \<Rightarrow> 'k list \<Rightarrow> watcher_error + 'k \<Rightarrow> bool" where
  "passes meta P hist (Inl e) = True"
| "passes meta P hist (Inr obj) = (P obj = None \<or> last_seen meta P hist (the (obj_key meta () obj)) \<noteq> P obj)"

fun emits_ref :: "('k \<Rightarrow> object_meta) \<Rightarrow> 'k predicate \<Rightarrow> 'k list \<Rightarrow> (watcher_error + 'k) list \<Rightarrow> (watcher_error + 'k) list" where
  "emits_ref meta P hist [] = []"
| "emits_ref meta P hist (it # items) =
     (if passes meta P hist it then [it] else []) @ emits_ref meta P (hist @ (case it of Inl _ \<Rightarrow> [] | Inr obj \<Rightarrow> [obj])) items"

lemma last_seen_snoc:
  assumes "obj_key meta () obj = Some key"
  shows "last_seen meta P (hist @ [obj]) = (if P obj = None then last_seen meta P hist else (last_seen meta P hist)(key := P obj))"
  using assms by (auto simp: last_seen_def Let_def fun_eq_iff)

lemma emits_reference:
  "\<forall>obj. Inr obj \<in> set items \<longrightarrow> m_name (meta obj) \<noteq> None \<Longrightarrow> cache = last_seen meta P hist \<Longrightarrow>
   emits meta P cache items = emits_ref meta P hist items"
proof (induction items arbitrary: cache hist)
  case (Cons it items)
  show ?case
  proof (cases it)
    case (Inr obj)
    with Cons.prems(1) obtain key where key: "obj_key meta () obj = Some key"
      by (cases "obj_key meta () obj") (auto simp: obj_key_None)
    have "emits meta P c items = emits_ref meta P h items" if "c = last_seen meta P h" for c h
      using Cons.IH Cons.prems(1) that by simp
    from this [OF last_seen_snoc [OF key, symmetric]] this [OF refl, of hist] show ?thesis
      using Inr key Cons.prems(2) by (cases "P obj") (auto simp: Let_def fun_upd_def)
  qed (use Cons in simp)
qed simp


section \<open>Broadcasting and completion\<close>

lemma subscribe_run:
  "\<exists>st'. poll_n (\<lambda>me. Some (stream_subscribe_poll send me)) (length items) \<lparr>ss_stream = map (Ready \<circ> Some) items @ rest, ss_sender = ch\<rparr>
     = Some (items, st') \<and> st' = \<lparr>ss_stream = rest, ss_sender = foldl send ch (map Some items)\<rparr>"
proof (induction items arbitrary: ch)
  case (Cons x items)
  from Cons.IH [of "send ch (Some x)"] show ?case by (simp add: stream_subscribe_poll_def)
qed simp

text \<open>
  Subscribing does not disturb the main stream, and what is broadcast is exactly its items in
  order, followed by one end marker when it ends.
\<close>

lemma subscribe_broadcasts:
  "\<exists>st'. poll_n (\<lambda>me. Some (stream_subscribe_poll send me)) (length items)
      (stream_subscribe_new channel (map (Ready \<circ> Some) items @ [Ready None])) = Some (items, st')
    \<and> stream_subscribe_poll send st' =
        (Ready None, \<lparr>ss_stream = [], ss_sender = foldl send (channel 128) (map Some items @ [None])\<rparr>)"
  using subscribe_run [of send items "[Ready None]" "channel 128"]
  by (auto simp: stream_subscribe_new_def CHANNEL_CAPACITY_def stream_subscribe_poll_def)

text \<open>
  The completion future runs only once the stream has ended, and the end is passed on only
  once the future has completed.
\<close>

lemma on_complete_order:
  assumes "on_complete_poll me = Some (r, me')"
  shows "(oc_future me' \<noteq> oc_future me \<longrightarrow> oc_done me')
    \<and> (r = Ready None \<longrightarrow> oc_future_done me' \<and> oc_done me')
    \<and> (\<not> oc_done me' \<longrightarrow> oc_future_done me' = oc_future_done me \<and> (r, oc_stream me') = poll_stream (oc_stream me))"
proof -
  obtain f me1 where f: "poll_fused me = (f, me1)" by (cases "poll_fused me") auto
  then have e: "oc_future me1 = oc_future me" "oc_future_done me1 = oc_future_done me" "oc_done me1 \<longleftrightarrow> f = Ready None"
    "\<not> oc_done me1 \<longrightarrow> (f, oc_stream me1) = poll_stream (oc_stream me)"
    by (auto simp: poll_fused_def split: if_splits prod.splits)
  show ?thesis
  proof (cases "f = Ready None")
    case True
    then have d: "oc_done me1" using e by simp
    show ?thesis using assms f d
      by (cases "oc_future me1"; cases "hd (oc_future me1)")
        (auto simp: on_complete_poll_def True split: if_splits poll.splits unit.splits list.splits)
  next
    case False
    then have "r = f" "me' = me1" using assms f by (auto simp: on_complete_poll_def split: poll.splits option.splits)
    then show ?thesis using e False by auto
  qed
qed

section \<open>Properties\<close>

text \<open>
  C28: flattening a watch stream. Whatever the answers of the inner stream, the objects and
  errors of the first polls together with what is still to come are the flattened events in
  order: nothing is lost, repeated or reordered, and deleted objects appear exactly when asked
  for. If the inner stream answers at once until it ends, the polls deliver all of them and then
  report the end.
\<close>

theorem event_flatten_delivers:
  "(\<exists>out st'. poll_n (\<lambda>me. Some (event_flatten_poll me)) n (event_flatten_new stream emit) = Some (out, st')
      \<and> out @ flatten_content st' = concat (map (flat_item emit) (script_items stream)))
   \<and> (prompt stream \<longrightarrow> (\<exists>st' st''.
        poll_n (\<lambda>me. Some (event_flatten_poll me)) (length (concat (map (flat_item emit) (script_items stream)))) (event_flatten_new stream emit)
          = Some (concat (map (flat_item emit) (script_items stream)), st')
        \<and> event_flatten_poll st' = (Ready None, st'')))"
proof -
  have c: "flatten_content (event_flatten_new stream emit) = concat (map (flat_item emit) (script_items stream))"
    by (simp add: flatten_content_def event_flatten_new_def)
  then show ?thesis
    using flatten.lossless [where n = n and st = "event_flatten_new stream emit"] flatten.delivers [where st = "event_flatten_new stream emit"]
    by (auto simp: event_flatten_new_def)
qed

text \<open>The stream of the unit test of \<open>EventFlatten\<close>.\<close>

definition flatten_sample :: "(watcher_error + nat event) stream_script" where
  "flatten_sample = map (Ready \<circ> Some) [Inr (Applied 0), Inr (Applied 1), Inr (Deleted 0), Inr (Applied 2),
     Inr (Restarted [1, 2]), Inl TooManyObjects, Inr (Applied 2)] @ [Ready None]"

theorem event_flatten_delivers_witness:
  "\<exists>st' st''. poll_n (\<lambda>me. Some (event_flatten_poll me)) 7 (event_flatten_new flatten_sample False)
      = Some ([Inr 0, Inr 1, Inr 2, Inr 1, Inr 2, Inl TooManyObjects, Inr 2], st')
    \<and> event_flatten_poll st' = (Ready None, st'')"
  using event_flatten_delivers [of 0 flatten_sample False] by (simp add: flatten_sample_def numeral_eq_Suc)

text \<open>
  filtering on a predicate. For named objects no poll panics, and the polls deliver exactly
  what the filter without a cache lets through: every error, every object without the property,
  and every object whose property differs from the one last seen for the same reference.
\<close>

theorem predicate_filter_delivers:
  assumes named: "\<forall>obj. Inr obj \<in> set (script_items stream) \<longrightarrow> m_name (meta obj) \<noteq> None" and "prompt stream"
  shows "\<exists>st' st''. poll_n (predicate_filter_poll meta) (length (emits_ref meta P [] (script_items stream))) (predicate_filter_new stream P)
      = Some (emits_ref meta P [] (script_items stream), st')
    \<and> predicate_filter_poll meta st' = Some (Ready None, st'')"
proof -
  have "last_seen meta P [] = Map.empty" by (simp add: last_seen_def fun_eq_iff)
  then have "filter_content meta (predicate_filter_new stream P) = emits_ref meta P [] (script_items stream)"
    using emits_reference [OF named, of Map.empty P "[]"] by (simp add: filter_content_def predicate_filter_new_def)
  moreover have "all_named meta (predicate_filter_new stream P)" "prompt (pf_stream (predicate_filter_new stream P))"
    using named assms(2) by (auto simp: all_named_def predicate_filter_new_def)
  ultimately show ?thesis using pf.delivers [where st = "predicate_filter_new stream P" and meta = meta] by simp
qed

definition plain_hasher :: hasher where
  "plain_hasher = \<lparr>hash_i64 = word_of_int, hash_string = (\<lambda>s. of_nat (length s)), hash_map = (\<lambda>m. 0), hash_pair = (\<lambda>p. 0)\<rparr>"

definition generation_object :: "int \<Rightarrow> object_meta" where
  "generation_object g = object_meta_default\<lparr>m_name := Some ''blog'', m_generation := Some g\<rparr>"

theorem predicate_filter_delivers_witness:
  "\<exists>st' st''. poll_n (predicate_filter_poll (\<lambda>m. m)) 3
      (predicate_filter_new (map (Ready \<circ> Some) [Inr (generation_object 1), Inl TooManyObjects, Inr (generation_object 1), Inr (generation_object 2)] @ [Ready None])
        (pred_generation plain_hasher (\<lambda>m. m)))
      = Some ([Inr (generation_object 1), Inl TooManyObjects, Inr (generation_object 2)], st')
    \<and> predicate_filter_poll (\<lambda>m. m) st' = Some (Ready None, st'')"
proof -
  let ?st = "map (Ready \<circ> Some) [Inr (generation_object 1), Inl TooManyObjects, Inr (generation_object 1), Inr (generation_object 2)] @ [Ready None]"
  have "emits_ref (\<lambda>m. m) (pred_generation plain_hasher (\<lambda>m. m)) [] (script_items ?st)
      = [Inr (generation_object 1), Inl TooManyObjects, Inr (generation_object 2)]"
    by (simp add: last_seen_def pred_generation_def plain_hasher_def generation_object_def obj_key_cases)
  moreover have "\<forall>obj. Inr obj \<in> set (script_items ?st) \<longrightarrow> m_name obj \<noteq> None" "prompt ?st"
    by (auto simp: generation_object_def)
  ultimately show ?thesis
    using predicate_filter_delivers [of ?st "\<lambda>m. m" "pred_generation plain_hasher (\<lambda>m. m)"] by (simp add: numeral_eq_Suc)
qed

text \<open>
  splitting a stream of results loses nothing. However the two cases of a split stream are
  polled, neither panics, and the items they hand out, in the order they were handed out and
  followed by what is still to come, are the items of the stream.
\<close>

theorem split_result_lossless:
  "\<exists>out st'. poll_n reunited_poll n (pk_new stream, choices) = Some (out, st')
     \<and> out @ peekable_content (fst st') = script_items stream"
  using reunited.lossless [where n = n and st = "(pk_new stream, choices)"] by (simp add: peekable_content_def pk_new_def)

end
