(* ===== verification/Rt_Backoff.thy ===== *)
theory Rt_Backoff
  imports Rt_Streams Rt_Scheduler
begin

text \<open>
  \<open>kube-runtime/src/utils/stream_backoff.rs\<close>, \<open>backoff_reset_timer.rs\<close>, \<open>delayed_init.rs\<close> and
  the default policy of \<open>watcher.rs\<close>. The \<open>Backoff\<close> trait of the backoff crate is a record of
  its two methods on a policy state, with the reading of the clock as an argument. The timer of
  tokio is a parameter: whether a sleep with a deadline has completed at an instant.
\<close>

section \<open>The Backoff trait\<close>

record 'b backoff =
  next_backoff :: "instant \<Rightarrow> 'b \<Rightarrow> duration option \<times> 'b"
  reset :: "'b \<Rightarrow> 'b"

section \<open>StreamBackoff\<close>

datatype backoff_state = BackingOff instant | GivenUp | Awake

record ('a, 'b) stream_backoff =
  sb_stream :: "'a stream_script"
  sb_backoff :: 'b
  sb_state :: backoff_state

definition stream_backoff_new :: "'a stream_script \<Rightarrow> 'b \<Rightarrow> ('a, 'b) stream_backoff" where
  "stream_backoff_new stream policy = \<lparr>sb_stream = stream, sb_backoff = policy, sb_state = Awake\<rparr>"

text \<open>The part of \<open>poll_next\<close> behind the match on the state: the inner stream is polled.\<close>

definition backoff_poll_inner ::
  "'b backoff \<Rightarrow> instant \<Rightarrow> ('e + 'a, 'b) stream_backoff \<Rightarrow> ('e + 'a) option poll \<times> ('e + 'a, 'b) stream_backoff" where
  "backoff_poll_inner B now this0 =
     (case poll_stream (sb_stream this0) of (next_item, st) \<Rightarrow>
        let this = this0\<lparr>sb_stream := st\<rparr> in
        (next_item,
         case next_item of
           Ready (Some (Inl _)) \<Rightarrow>
             (case next_backoff B now (sb_backoff this) of
                (Some backoff_duration, b) \<Rightarrow> this\<lparr>sb_backoff := b, sb_state := BackingOff (now + backoff_duration)\<rparr>
              | (None, b) \<Rightarrow> this\<lparr>sb_backoff := b, sb_state := GivenUp\<rparr>)
         | Ready _ \<Rightarrow> this\<lparr>sb_backoff := reset B (sb_backoff this)\<rparr>
         | Pending \<Rightarrow> this))"

definition stream_backoff_poll ::
  "(instant \<Rightarrow> instant \<Rightarrow> bool) \<Rightarrow> 'b backoff \<Rightarrow> instant \<Rightarrow> ('e + 'a, 'b) stream_backoff
     \<Rightarrow> ('e + 'a) option poll \<times> ('e + 'a, 'b) stream_backoff" where
  "stream_backoff_poll slept B now this =
     (case sb_state this of
        BackingOff deadline \<Rightarrow>
          if slept deadline now then backoff_poll_inner B now (this\<lparr>sb_state := Awake\<rparr>) else (Pending, this)
      | GivenUp \<Rightarrow> (Ready None, this)
      | Awake \<Rightarrow> backoff_poll_inner B now this)"

section \<open>ResetTimerBackoff\<close>

record 'b reset_timer_backoff =
  rt_backoff :: 'b
  rt_last_backoff :: "instant option"
  rt_reset_duration :: duration

definition reset_timer_new :: "'b \<Rightarrow> duration \<Rightarrow> 'b reset_timer_backoff" where
  "reset_timer_new policy reset_duration = \<lparr>rt_backoff = policy, rt_last_backoff = None, rt_reset_duration = reset_duration\<rparr>"

definition reset_timer_next :: "'b backoff \<Rightarrow> instant \<Rightarrow> 'b reset_timer_backoff \<Rightarrow> duration option \<times> 'b reset_timer_backoff" where
  "reset_timer_next B now self =
     (let b = (case rt_last_backoff self of
                 Some last_backoff \<Rightarrow>
                   if now > last_backoff + rt_reset_duration self then reset B (rt_backoff self) else rt_backoff self
               | None \<Rightarrow> rt_backoff self)
      in case next_backoff B now b of (d, b') \<Rightarrow> (d, self\<lparr>rt_last_backoff := Some now, rt_backoff := b'\<rparr>))"

definition reset_timer_reset :: "'b reset_timer_backoff \<Rightarrow> 'b reset_timer_backoff" where
  "reset_timer_reset self = self"

definition reset_timer :: "'b backoff \<Rightarrow> 'b reset_timer_backoff backoff" where
  "reset_timer B = \<lparr>next_backoff = reset_timer_next B, reset = reset_timer_reset\<rparr>"

text \<open>
  \<open>DefaultBackoff\<close>: an exponential policy of the backoff crate behind a reset timer. The
  constructor of the exponential policy is a parameter that takes the initial interval, the
  maximal interval (milliseconds), the randomization factor, the multiplier and the limit on
  the elapsed time.
\<close>

definition default_backoff :: "(duration \<Rightarrow> duration \<Rightarrow> nat \<Rightarrow> nat \<Rightarrow> duration option \<Rightarrow> 'b) \<Rightarrow> 'b reset_timer_backoff" where
  "default_backoff exponential = reset_timer_new (exponential 800 30000 1 2 None) 120000"

definition with_default_backoff :: "(duration \<Rightarrow> duration \<Rightarrow> nat \<Rightarrow> nat \<Rightarrow> duration option \<Rightarrow> 'b) \<Rightarrow> 'a stream_script
     \<Rightarrow> ('a, 'b reset_timer_backoff) stream_backoff" where
  "with_default_backoff exponential stream = stream_backoff_new stream (default_backoff exponential)"

definition with_backoff :: "'a stream_script \<Rightarrow> 'b \<Rightarrow> ('a, 'b) stream_backoff" where
  "with_backoff stream b = stream_backoff_new stream b"

text \<open>The linear policy with which the repository's tests drive both wrappers.\<close>

record linear_backoff =
  lin_interval :: duration
  lin_current_duration :: duration

definition linear_backoff_new :: "duration \<Rightarrow> linear_backoff" where
  "linear_backoff_new i = \<lparr>lin_interval = i, lin_current_duration = 0\<rparr>"

definition linear_next :: "linear_backoff \<Rightarrow> duration option \<times> linear_backoff" where
  "linear_next self =
     (let current = lin_current_duration self + lin_interval self
      in (Some current, self\<lparr>lin_current_duration := current\<rparr>))"

definition linear_reset :: "linear_backoff \<Rightarrow> linear_backoff" where
  "linear_reset self = self\<lparr>lin_current_duration := 0\<rparr>"

definition linear :: "linear_backoff backoff" where
  "linear = \<lparr>next_backoff = (\<lambda>_. linear_next), reset = linear_reset\<rparr>"

section \<open>DelayedInit\<close>

text \<open>
  The one-shot channel of the futures crate: still open, a value sent, or the sender dropped.
  The state of a \<open>DelayedInit\<close> is behind a lock, so polls of its \<open>get\<close> futures happen one
  after the other; the channel is shared with the \<open>Initializer\<close>, which can be used once.
\<close>

datatype 'v oneshot = Open | Sent 'v | SenderDropped

datatype init_dropped = InitDropped

datatype 'v receiver_state = Waiting | ReadyState "init_dropped + 'v"

record 'v delayed_init =
  di_channel :: "'v oneshot"
  di_state :: "'v receiver_state"

definition delayed_init_new :: "'v delayed_init" where
  "delayed_init_new = \<lparr>di_channel = Open, di_state = Waiting\<rparr>"

definition initializer_init :: "'v \<Rightarrow> 'v delayed_init \<Rightarrow> 'v delayed_init" where
  "initializer_init v di = di\<lparr>di_channel := Sent v\<rparr>"

definition initializer_drop :: "'v delayed_init \<Rightarrow> 'v delayed_init" where
  "initializer_drop di = di\<lparr>di_channel := SenderDropped\<rparr>"

fun oneshot_poll :: "'v oneshot \<Rightarrow> (init_dropped + 'v) poll" where
  "oneshot_poll Open = Pending"
| "oneshot_poll (Sent v) = Ready (Inr v)"
| "oneshot_poll SenderDropped = Ready (Inl InitDropped)"

definition delayed_get_poll :: "'v delayed_init \<Rightarrow> (init_dropped + 'v) poll \<times> 'v delayed_init" where
  "delayed_get_poll di =
     (case di_state di of
        Waiting \<Rightarrow>
          (case oneshot_poll (di_channel di) of
             Ready v \<Rightarrow> (Ready v, di\<lparr>di_state := ReadyState v\<rparr>)
           | Pending \<Rightarrow> (Pending, di))
      | ReadyState v \<Rightarrow> (Ready v, di))"

text \<open>
  What can happen to a \<open>DelayedInit\<close>: readers poll, and the initializer is used or dropped
  while it still exists.
\<close>

datatype 'v init_op = OpInit 'v | OpDropInit | OpGet

fun init_step :: "'v init_op \<Rightarrow> 'v delayed_init \<Rightarrow> (init_dropped + 'v) poll list \<times> 'v delayed_init" where
  "init_step (OpInit v) di = ([], if di_channel di = Open then initializer_init v di else di)"
| "init_step OpDropInit di = ([], if di_channel di = Open then initializer_drop di else di)"
| "init_step OpGet di = (case delayed_get_poll di of (r, di') \<Rightarrow> ([r], di'))"

fun init_run :: "'v init_op list \<Rightarrow> 'v delayed_init \<Rightarrow> (init_dropped + 'v) poll list \<times> 'v delayed_init" where
  "init_run [] di = ([], di)"
| "init_run (op # ops) di =
     (case init_step op di of (out, di1) \<Rightarrow> case init_run ops di1 of (outs, di2) \<Rightarrow> (out @ outs, di2))"

section \<open>Policies that never give up\<close>

text \<open>
  A policy that goes on for ever from some states: asked for a delay it has one, and neither a
  question nor a reset leaves those states. A reset timer around such a policy is one again.
\<close>

locale lasting_policy =
  fixes B :: "'b backoff" and alive :: "'b \<Rightarrow> bool"
  assumes next_alive: "alive b \<Longrightarrow> \<exists>d b'. next_backoff B now b = (Some d, b') \<and> alive b'"
    and reset_alive: "alive b \<Longrightarrow> alive (reset B b)"

context lasting_policy
begin

lemma reset_timer_lasting: "lasting_policy (reset_timer B) (\<lambda>rt. alive (rt_backoff rt))"
proof
  fix rt :: "'b reset_timer_backoff" and now
  assume a: "alive (rt_backoff rt)"
  then show "\<exists>d rt'. next_backoff (reset_timer B) now rt = (Some d, rt') \<and> alive (rt_backoff rt')"
    using next_alive [of "rt_backoff rt" now] next_alive [OF reset_alive [OF a], of now]
    by (auto simp: reset_timer_def reset_timer_next_def Let_def split: option.splits)
  show "alive (rt_backoff (reset (reset_timer B) rt))" using a by (simp add: reset_timer_def reset_timer_reset_def)
qed

end

interpretation lin: lasting_policy linear "\<lambda>_. True"
  by unfold_locales (auto simp: linear_def linear_next_def Let_def)

interpretation timed_lin: lasting_policy "reset_timer linear" "\<lambda>_. True"
  by (rule lin.reset_timer_lasting)

section \<open>StreamBackoff\<close>

text \<open>Polls at given instants.\<close>

fun backoff_polls :: "(instant \<Rightarrow> instant \<Rightarrow> bool) \<Rightarrow> 'b backoff \<Rightarrow> instant list \<Rightarrow> ('e + 'a, 'b) stream_backoff
     \<Rightarrow> ('e + 'a) option poll list \<times> ('e + 'a, 'b) stream_backoff" where
  "backoff_polls slept B [] sb = ([], sb)"
| "backoff_polls slept B (t # ts) sb =
     (case stream_backoff_poll slept B t sb of (r, sb1) \<Rightarrow>
        case backoff_polls slept B ts sb1 of (rs, sb2) \<Rightarrow> (r # rs, sb2))"

lemma given_up_stays:
  "sb_state sb = GivenUp \<Longrightarrow> backoff_polls slept B ts sb = (replicate (length ts) (Ready None), sb)"
  by (induction ts) (auto simp: stream_backoff_poll_def)

lemma backing_off_stays:
  "\<lbrakk>sb_state sb = BackingOff d; \<forall>t\<in>set ts. \<not> slept d t\<rbrakk>
   \<Longrightarrow> backoff_polls slept B ts sb = (replicate (length ts) Pending, sb)"
  by (induction ts) (auto simp: stream_backoff_poll_def)

lemma poll_inner_cases:
  assumes "backoff_poll_inner B now sb = (r, sb')"
  shows "(r, sb_stream sb') = poll_stream (sb_stream sb)
    \<and> (case r of
         Ready (Some (Inl _)) \<Rightarrow> (case next_backoff B now (sb_backoff sb) of (d, b) \<Rightarrow> sb_backoff sb' = b \<and>
            sb_state sb' = (case d of Some d \<Rightarrow> BackingOff (now + d) | None \<Rightarrow> GivenUp))
       | Ready _ \<Rightarrow> sb_backoff sb' = reset B (sb_backoff sb) \<and> sb_state sb' = sb_state sb
       | Pending \<Rightarrow> sb_backoff sb' = sb_backoff sb \<and> sb_state sb' = sb_state sb)"
  using assms by (auto simp: backoff_poll_inner_def Let_def split: prod.splits poll.splits option.splits sum.splits)

text \<open>
  With instants still to come as part of the state, a stream behind a lasting policy is a stream
  adaptor: it neither loses nor reorders what the inner stream gives.
\<close>

fun timed_poll :: "(instant \<Rightarrow> instant \<Rightarrow> bool) \<Rightarrow> 'b backoff \<Rightarrow> ('e + 'a, 'b) stream_backoff \<times> instant list
     \<Rightarrow> (('e + 'a) option poll \<times> (('e + 'a, 'b) stream_backoff \<times> instant list)) option" where
  "timed_poll slept B (sb, []) = Some (Pending, (sb, []))"
| "timed_poll slept B (sb, t # ts) = (case stream_backoff_poll slept B t sb of (r, sb') \<Rightarrow> Some (r, (sb', ts)))"

definition going_on :: "('b \<Rightarrow> bool) \<Rightarrow> ('a, 'b) stream_backoff \<Rightarrow> bool" where
  "going_on alive sb \<longleftrightarrow> alive (sb_backoff sb) \<and> sb_state sb \<noteq> GivenUp"

context lasting_policy
begin

lemma poll_inner_goes_on:
  assumes "backoff_poll_inner B now sb = (r, sb')" and "going_on alive sb"
  shows "going_on alive sb' \<and> (r, sb_stream sb') = poll_stream (sb_stream sb)"
  using poll_inner_cases [OF assms(1)] assms(2) next_alive [of "sb_backoff sb" now] reset_alive [of "sb_backoff sb"]
  by (auto simp: going_on_def split: poll.splits option.splits sum.splits)

lemma poll_goes_on:
  assumes "stream_backoff_poll slept B now sb = (r, sb')" and "going_on alive sb"
  shows "going_on alive sb' \<and> ((r, sb_stream sb') = poll_stream (sb_stream sb) \<or> r = Pending \<and> sb_stream sb' = sb_stream sb)"
proof (cases "sb_state sb")
  case (BackingOff d)
  then show ?thesis using assms poll_inner_goes_on [of now "sb\<lparr>sb_state := Awake\<rparr>" r sb']
    by (auto simp: stream_backoff_poll_def going_on_def split: if_splits)
next
  case Awake
  then show ?thesis using assms poll_inner_goes_on [of now sb r sb'] by (auto simp: stream_backoff_poll_def)
qed (use assms(2) in \<open>simp add: going_on_def\<close>)

end

sublocale lasting_policy \<subseteq> backed: stream_adaptor "timed_poll slept B"
    "\<lambda>st. script_items (sb_stream (fst st))" "\<lambda>st. going_on alive (fst st)"
  for slept :: "instant \<Rightarrow> instant \<Rightarrow> bool"
proof
  fix st :: "('x + 'y, 'b) stream_backoff \<times> instant list" and r x st'
  assume g: "going_on alive (fst st)"
  have sp: "\<exists>r st'. timed_poll slept B st = Some (r, st') \<and> going_on alive (fst st') \<and>
    ((r, sb_stream (fst st')) = poll_stream (sb_stream (fst st)) \<or> r = Pending \<and> sb_stream (fst st') = sb_stream (fst st))"
    using g poll_goes_on [of slept _ "fst st"] by (cases st; cases "snd st") (auto split: prod.splits)
  show "\<exists>r st'. timed_poll slept B st = Some (r, st') \<and> going_on alive (fst st')" using sp by blast
  show "script_items (sb_stream (fst st)) = x # script_items (sb_stream (fst st'))"
    if "timed_poll slept B st = Some (Ready (Some x), st')"
    using sp that by (cases "sb_stream (fst st)" rule: script_items.cases) auto
  show "script_items (sb_stream (fst st')) = script_items (sb_stream (fst st))"
    if "timed_poll slept B st = Some (r, st')" "\<forall>x. r \<noteq> Ready (Some x)"
    using sp that by (cases "sb_stream (fst st)" rule: script_items.cases) auto
qed

lemma timed_poll_n:
  "poll_n (timed_poll slept B) (length ts) (sb, ts) =
     (case backoff_polls slept B ts sb of (rs, sb') \<Rightarrow> Some (script_items rs, (sb', [])))"
  by (induction ts arbitrary: sb) (auto split: prod.splits poll.splits option.splits)

context lasting_policy
begin

lemma polls_lossless:
  "\<lbrakk>going_on alive sb; backoff_polls slept B ts sb = (rs, sb')\<rbrakk>
   \<Longrightarrow> script_items rs @ script_items (sb_stream sb') = script_items (sb_stream sb) \<and> going_on alive sb'"
  using backed.lossless [of "(sb, ts)" slept "length ts"] by (auto simp: timed_poll_n)

end

section \<open>ResetTimerBackoff\<close>

text \<open>
  The delays a policy gives when it is asked at some instants, and the instants grouped into
  episodes: a new episode starts where the gap is longer than the reset duration.
\<close>

fun policy_delays :: "'b backoff \<Rightarrow> instant list \<Rightarrow> 'b \<Rightarrow> duration option list" where
  "policy_delays B [] b = []"
| "policy_delays B (t # ts) b = (case next_backoff B t b of (d, b') \<Rightarrow> d # policy_delays B ts b')"

fun episodes :: "duration \<Rightarrow> instant list \<Rightarrow> instant list list" where
  "episodes gap [] = []"
| "episodes gap [t] = [[t]]"
| "episodes gap (t # u # ts) =
     (if u > t + gap then [t] # episodes gap (u # ts)
      else case episodes gap (u # ts) of [] \<Rightarrow> [[t]] | ep # eps \<Rightarrow> (t # ep) # eps)"

lemma episodes_Cons: "\<exists>ep eps. episodes gap (t # ts) = (t # ep) # eps"
  by (cases ts) (auto split: list.splits)

lemma reset_timer_delays_from:
  assumes P: "\<And>now b. P b \<Longrightarrow> P (snd (next_backoff B now b)) \<and> reset B b = b0" "P b0"
  shows "\<lbrakk>P b; episodes gap (t # ts) = (t # ep) # eps\<rbrakk> \<Longrightarrow>
    policy_delays (reset_timer B) ts \<lparr>rt_backoff = b, rt_last_backoff = Some t, rt_reset_duration = gap\<rparr>
      = policy_delays B ep b @ concat (map (\<lambda>ep. policy_delays B ep b0) eps)"
proof (induction ts arbitrary: t b ep eps)
  case (Cons u ts)
  obtain ep1 eps1 where e: "episodes gap (u # ts) = (u # ep1) # eps1" using episodes_Cons by blast
  show ?case
  proof (cases "u > t + gap")
    case True
    then have "ep = []" "eps = (u # ep1) # eps1" using Cons.prems e by auto
    then show ?thesis using True Cons.IH [OF _ e] P(1) [OF P(2), of u] P(1) [OF Cons.prems(1)]
      by (auto simp: reset_timer_def reset_timer_next_def Let_def split: prod.splits)
  next
    case False
    then have "ep = u # ep1" "eps = eps1" using Cons.prems e by auto
    then show ?thesis using False Cons.IH [OF _ e] P(1) [OF Cons.prems(1), of u]
      by (auto simp: reset_timer_def reset_timer_next_def Let_def split: prod.splits)
  qed
qed simp

section \<open>DelayedInit\<close>

text \<open>What the initializer decides: the first use or drop.\<close>

fun resolution :: "'v init_op list \<Rightarrow> (init_dropped + 'v) option" where
  "resolution [] = None"
| "resolution (OpInit v # ops) = Some (Inr v)"
| "resolution (OpDropInit # ops) = Some (Inl InitDropped)"
| "resolution (OpGet # ops) = resolution ops"

fun answers_of :: "(init_dropped + 'v) option \<Rightarrow> 'v init_op list \<Rightarrow> (init_dropped + 'v) poll list" where
  "answers_of res [] = []"
| "answers_of res (OpGet # ops) = (case res of Some v \<Rightarrow> Ready v | None \<Rightarrow> Pending) # answers_of res ops"
| "answers_of res (op # ops) = answers_of (opt_or res (resolution [op])) ops"

definition di_decided :: "'v delayed_init \<Rightarrow> (init_dropped + 'v) option" where
  "di_decided di = (case oneshot_poll (di_channel di) of Ready v \<Rightarrow> Some v | Pending \<Rightarrow> None)"

definition di_inv :: "'v delayed_init \<Rightarrow> bool" where
  "di_inv di \<longleftrightarrow> (\<forall>v. di_state di = ReadyState v \<longrightarrow> di_decided di = Some v)"

lemma init_step_inv: "di_inv di \<Longrightarrow> di_inv (snd (init_step op di))"
  by (cases op; cases "di_channel di"; cases "di_state di")
    (auto simp: di_inv_def di_decided_def delayed_get_poll_def initializer_init_def initializer_drop_def)

lemma init_run_answers:
  "di_inv di \<Longrightarrow> fst (init_run ops di) = answers_of (di_decided di) ops \<and> di_inv (snd (init_run ops di))"
proof (induction ops arbitrary: di)
  case (Cons op ops)
  have i: "di_inv (snd (init_step op di))" using Cons.prems by (rule init_step_inv)
  show ?case using Cons.IH [OF i] Cons.prems i
    by (cases op; cases "di_channel di"; cases "di_state di")
      (auto simp: di_inv_def di_decided_def delayed_get_poll_def initializer_init_def initializer_drop_def opt_or_def split: prod.splits)
qed simp

section \<open>Properties\<close>

text \<open>
  C27: backing off. When a poll returns an error, the policy decides: if it gives a delay, every
  poll before the instant of the error plus the delay is pending and leaves the stream alone, and
  the first poll after the sleep has completed answers what the inner stream answers next; if it
  gives none, the stream is closed for good. (A sleep of the timer completes no earlier than its
  deadline.)
\<close>

theorem backoff_respects_policy:
  assumes timer: "\<And>d t. slept d t \<Longrightarrow> d \<le> t"
    and error: "stream_backoff_poll slept B t sb = (Ready (Some (Inl e)), sb')"
  shows "case fst (next_backoff B t (sb_backoff sb)) of
      None \<Rightarrow> \<forall>ts. backoff_polls slept B ts sb' = (replicate (length ts) (Ready None), sb')
    | Some d \<Rightarrow> (\<forall>ts. (\<forall>u\<in>set ts. u < t + d) \<longrightarrow> backoff_polls slept B ts sb' = (replicate (length ts) Pending, sb'))
        \<and> (\<forall>u. slept (t + d) u \<longrightarrow> fst (stream_backoff_poll slept B u sb') = fst (poll_stream (sb_stream sb')))"
proof -
  have st: "sb_state sb' = (case fst (next_backoff B t (sb_backoff sb)) of Some d \<Rightarrow> BackingOff (t + d) | None \<Rightarrow> GivenUp)"
    using error by (auto simp: stream_backoff_poll_def split: backoff_state.splits if_splits prod.splits dest!: poll_inner_cases)
  show ?thesis
  proof (cases "fst (next_backoff B t (sb_backoff sb))")
    case None
    then show ?thesis using st given_up_stays by auto
  next
    case (Some d)
    then have "backoff_polls slept B ts sb' = (replicate (length ts) Pending, sb')" if "\<forall>u\<in>set ts. u < t + d" for ts
      using st that timer by (intro backing_off_stays) fastforce+
    moreover have "fst (stream_backoff_poll slept B u sb') = fst (poll_stream (sb_stream sb'))" if "slept (t + d) u" for u
      using st Some that by (auto simp: stream_backoff_poll_def backoff_poll_inner_def Let_def split: prod.splits)
    ultimately show ?thesis using Some by simp
  qed
qed

theorem backoff_respects_policy_witness:
  "case fst (next_backoff linear 7 (linear_backoff_new 2)) of
      None \<Rightarrow> False
    | Some d \<Rightarrow> d = 2 \<and> backoff_polls (\<le>) linear [7, 8]
        (snd (stream_backoff_poll (\<le>) linear 7 (stream_backoff_new [Ready (Some (Inl ''e'')), Ready (Some (Inr True))] (linear_backoff_new 2))))
        = ([Pending, Pending], snd (stream_backoff_poll (\<le>) linear 7 (stream_backoff_new [Ready (Some (Inl ''e'')), Ready (Some (Inr True))] (linear_backoff_new 2))))"
  using backoff_respects_policy [of "(\<le>)" linear 7
      "stream_backoff_new [Ready (Some (Inl ''e'')), Ready (Some (Inr True))] (linear_backoff_new 2)" "''e''", OF _ surjective_pairing [THEN trans]]
  by (simp add: linear_def linear_next_def linear_backoff_new_def stream_backoff_new_def stream_backoff_poll_def backoff_poll_inner_def)

text \<open>
  a watch stream behind the default policy loses nothing. If the exponential policy of the
  backoff crate never gives up (it is built without a limit on the elapsed time), then whenever
  the stream is polled, the items it has returned followed by those still to come are the items
  of the inner stream, in order, and no error closes it.
\<close>

theorem default_backoff_lossless:
  assumes "lasting_policy B alive" and "alive (exponential 800 30000 1 2 None)"
    and polls: "backoff_polls slept (reset_timer B) ts (with_default_backoff exponential stream) = (rs, sb')"
  shows "script_items rs @ script_items (sb_stream sb') = script_items stream \<and> sb_state sb' \<noteq> GivenUp"
proof -
  have L: "lasting_policy (reset_timer B) (\<lambda>rt. alive (rt_backoff rt))"
    using assms(1) by (rule lasting_policy.reset_timer_lasting)
  have "going_on (\<lambda>rt. alive (rt_backoff rt)) (with_default_backoff exponential stream)"
    using assms(2) by (simp add: going_on_def with_default_backoff_def stream_backoff_new_def default_backoff_def reset_timer_new_def)
  then show ?thesis
    using lasting_policy.polls_lossless [OF L _ polls] by (simp add: going_on_def with_default_backoff_def stream_backoff_new_def)
qed

theorem default_backoff_lossless_witness:
  "script_items (fst (backoff_polls (\<le>) (reset_timer linear) [0, 1, 801] (with_default_backoff (\<lambda>i _ _ _ _. linear_backoff_new i)
       [Ready (Some (Inl ''e'')), Ready (Some (Inr True))]))) = [Inl ''e'', Inr True]"
proof -
  let ?sb = "with_default_backoff (\<lambda>i _ _ _ _. linear_backoff_new i) [Ready (Some (Inl ''e'')), Ready (Some (Inr True))]"
  obtain rs sb' where r: "backoff_polls (\<le>) (reset_timer linear) [0, 1, 801] ?sb = (rs, sb')" by fastforce
  have "sb_stream sb' = []" using r
    by (auto simp: with_default_backoff_def default_backoff_def stream_backoff_new_def stream_backoff_poll_def backoff_poll_inner_def
        reset_timer_def reset_timer_new_def reset_timer_next_def reset_timer_reset_def linear_def linear_next_def linear_backoff_new_def)
  then show ?thesis using default_backoff_lossless [OF lin.lasting_policy_axioms _ r] r by simp
qed

text \<open>
  the reset timer. For a policy whose reset goes back to one initial state, the delays
  given at any instants are those of the policy started anew in every episode, where an episode
  ends when the policy was not asked for longer than the reset duration.
\<close>

theorem reset_timer_episodes:
  assumes "\<And>now b. P b \<Longrightarrow> P (snd (next_backoff B now b)) \<and> reset B b = b0" and "P b0"
  shows "policy_delays (reset_timer B) ts (reset_timer_new b0 gap) = concat (map (\<lambda>ep. policy_delays B ep b0) (episodes gap ts))"
proof (cases ts)
  case (Cons t us)
  obtain ep eps where e: "episodes gap ts = (t # ep) # eps" using episodes_Cons Cons by blast
  have p: "P (snd (next_backoff B t b0))" using assms by blast
  show ?thesis
    using reset_timer_delays_from [OF assms p e [unfolded Cons]] e Cons
    by (auto simp: reset_timer_def reset_timer_next_def reset_timer_new_def split: prod.splits)
qed simp

theorem reset_timer_episodes_witness:
  "policy_delays (reset_timer linear) [0, 40, 80, 160, 240] (reset_timer_new (linear_backoff_new 2) 60)
     = [Some 2, Some 4, Some 6, Some 2, Some 2]"
  by (subst reset_timer_episodes [of "\<lambda>b. lin_interval b = 2"])
    (auto simp: linear_def linear_next_def linear_reset_def linear_backoff_new_def Let_def)

text \<open>
  delayed initialization. In every interleaving of polling readers with the initializer,
  every poll before the initializer is used or dropped is pending, and every poll afterwards
  answers the value it was first given, or that it was dropped: all readers agree for ever.
\<close>

theorem delayed_init_agreement: "fst (init_run ops delayed_init_new) = answers_of None ops"
  using init_run_answers [of delayed_init_new ops] by (simp add: di_inv_def delayed_init_new_def di_decided_def)

end
