(* ===== verification/Core_Serde.thy ===== *)
theory Core_Serde
  imports Prelude
begin

text \<open>
  The code that \<open>derive(Serialize, Deserialize)\<close> stands for, on JSON values. A struct is
  written as an object whose fields are left out when their \<open>skip_serializing_if\<close> test holds.
  It is read from an object, where unknown members are ignored, a repeated member is an error
  and a missing one takes its default if it has one; or from an array that lists the fields in
  their order. A decoder returns \<open>None\<close> for an error.
\<close>

section \<open>Writing fields\<close>

definition put :: "string \<Rightarrow> json \<Rightarrow> (string \<times> json) list" where
  "put k v = [(k, v)]"

definition put_unless :: "bool \<Rightarrow> string \<Rightarrow> json \<Rightarrow> (string \<times> json) list" where
  "put_unless skip k v = (if skip then [] else [(k, v)])"

lemma fst_put [simp]: "fst ` set (put k v) = {k}"
  by (simp add: put_def)

lemma fst_put_unless: "fst ` set (put_unless b k v) = (if b then {} else {k})"
  by (simp add: put_unless_def)

section \<open>Reading fields\<close>

text \<open>
  A field with its name, its default when it is missing from an object, and its default when
  the array that holds the struct ends before it.
\<close>

type_synonym field = "string \<times> json option \<times> json option"

definition required :: "string \<Rightarrow> field" where
  "required k = (k, None, None)"

definition defaulted :: "string \<Rightarrow> json \<Rightarrow> field" where
  "defaulted k d = (k, Some d, Some d)"

text \<open>An \<open>Option\<close> without the \<open>default\<close> attribute may be missing from an object only.\<close>

definition optional :: "string \<Rightarrow> field" where
  "optional k = (k, Some JNull, None)"

fun from_members :: "field list \<Rightarrow> (string \<times> json) list \<Rightarrow> json list option" where
  "from_members [] ms = Some []"
| "from_members ((k, d, _) # fs) ms =
     (case filter (\<lambda>m. fst m = k) ms of
        [] \<Rightarrow> (case d of None \<Rightarrow> None | Some v \<Rightarrow> map_option ((#) v) (from_members fs ms))
      | [m] \<Rightarrow> map_option ((#) (snd m)) (from_members fs ms)
      | _ \<Rightarrow> None)"

fun from_elements :: "field list \<Rightarrow> json list \<Rightarrow> json list option" where
  "from_elements [] vs = (if vs = [] then Some [] else None)"
| "from_elements ((_, _, d) # fs) [] = (case d of None \<Rightarrow> None | Some v \<Rightarrow> map_option ((#) v) (from_elements fs []))"
| "from_elements (_ # fs) (v # vs) = map_option ((#) v) (from_elements fs vs)"

fun read_struct :: "field list \<Rightarrow> json \<Rightarrow> json list option" where
  "read_struct fs (JObj ms) = from_members fs ms"
| "read_struct fs (JArr vs) = from_elements fs vs"
| "read_struct fs _ = None"

section \<open>Scalars\<close>

fun read_string :: "json \<Rightarrow> string option" where
  "read_string (JStr s) = Some s" | "read_string _ = None"

fun read_bool :: "json \<Rightarrow> bool option" where
  "read_bool (JBool b) = Some b" | "read_bool _ = None"

fun read_u16 :: "json \<Rightarrow> u16 option" where
  "read_u16 (JNum n) = (if 0 \<le> n \<and> n < 2 ^ 16 then Some (word_of_int n) else None)"
| "read_u16 _ = None"

fun read_u32 :: "json \<Rightarrow> u32 option" where
  "read_u32 (JNum n) = (if 0 \<le> n \<and> n < 2 ^ 32 then Some (word_of_int n) else None)"
| "read_u32 _ = None"

fun read_option :: "(json \<Rightarrow> 'a option) \<Rightarrow> json \<Rightarrow> 'a option option" where
  "read_option r JNull = Some None"
| "read_option r v = map_option Some (r v)"

fun read_all :: "(json \<Rightarrow> 'a option) \<Rightarrow> json list \<Rightarrow> 'a list option" where
  "read_all r [] = Some []"
| "read_all r (v # vs) = (case r v of None \<Rightarrow> None | Some a \<Rightarrow> map_option ((#) a) (read_all r vs))"

fun read_vec :: "(json \<Rightarrow> 'a option) \<Rightarrow> json \<Rightarrow> 'a list option" where
  "read_vec r (JArr vs) = read_all r vs" | "read_vec r _ = None"

section \<open>Round trips\<close>

named_theorems serde_simps \<open>reading back what was written\<close>

lemma read_u16_uint [simp]: "read_u16 (JNum (uint (c :: u16))) = Some c"
  using unsigned_less [of c, where 'a = int] by simp

lemma read_u32_uint [simp]: "read_u32 (JNum (uint (c :: u32))) = Some c"
  using unsigned_less [of c, where 'a = int] by simp

lemma read_zero [simp]: "read_u16 (JNum 0) = Some 0" "read_u32 (JNum 0) = Some 0"
  by simp_all

declare read_u16.simps(1) [simp del] read_u32.simps(1) [simp del]

lemma read_all_map: "(\<And>x. x \<in> set xs \<Longrightarrow> r (w x) = Some x) \<Longrightarrow> read_all r (map w xs) = Some xs"
  by (induction xs) auto

lemma read_option_not_null [simp]: "v \<noteq> JNull \<Longrightarrow> read_option r v = map_option Some (r v)"
  by (cases v) auto

lemma filter_put [simp, serde_simps]: "filter (\<lambda>m. fst m = k) (put k' v) = (if k = k' then [(k, v)] else [])"
  by (simp add: put_def)

lemma filter_put_unless [simp, serde_simps]:
  "filter (\<lambda>m. fst m = k) (put_unless b k' v) = (if k = k' \<and> \<not> b then [(k, v)] else [])"
  by (simp add: put_unless_def)

text \<open>A member that is missing is read as its default.\<close>

lemma from_members_missing:
  "\<lbrakk>from_members fs ms = Some vs; i < length fs; fst (fs ! i) \<notin> fst ` set ms\<rbrakk> \<Longrightarrow> fst (snd (fs ! i)) = Some (vs ! i)"
proof (induction fs ms arbitrary: vs i rule: from_members.induct)
  case (2 k d e fs ms)
  then obtain v vs' where v: "vs = v # vs'" "from_members fs ms = Some vs'"
    by (auto split: list.splits option.splits)
  show ?case
  proof (cases i)
    case 0
    then have "filter (\<lambda>m. fst m = k) ms = []" using "2.prems"(3) by (force simp: filter_empty_conv)
    then show ?thesis using "2.prems"(1) 0 by (auto split: option.splits)
  next
    case (Suc j)
    then show ?thesis using "2.IH" v "2.prems" by (cases "filter (\<lambda>m. fst m = k) ms") (auto split: option.splits list.splits)
  qed
qed simp

end
