(* ===== verification/Core_Response.thy ===== *)
theory Core_Response
  imports Core_Serde Core_Resource
begin

text \<open>
  \<open>kube-core/src/response.rs\<close>, \<open>error.rs\<close>, \<open>admission.rs\<close> and \<open>conversion/types.rs\<close>: status
  values and their JSON form, and the reviews that admission and conversion webhooks answer.
  Objects, user information and raw extensions, whose types other crates define, are type
  parameters. A \<open>HashMap\<close> that is only written is the list of its entries in iteration order.
\<close>

section \<open>Status\<close>

datatype status_summary = Success | Failure

record status_cause =
  sc_reason :: string
  sc_message :: string
  sc_field :: string

record status_details =
  sd_name :: string
  sd_group :: string
  sd_kind :: string
  sd_uid :: string
  sd_causes :: "status_cause list"
  sd_retry_after_seconds :: u32

record status =
  st_status :: "status_summary option"
  st_code :: u16
  st_message :: string
  st_reason :: string
  st_details :: "status_details option"

definition status_default :: status where
  "status_default = \<lparr>st_status = None, st_code = 0, st_message = '''', st_reason = '''', st_details = None\<rparr>"

definition status_success :: status where
  "status_success = \<lparr>st_status = Some Success, st_code = 0, st_message = '''', st_reason = '''', st_details = None\<rparr>"

definition status_failure :: "string \<Rightarrow> string \<Rightarrow> status" where
  "status_failure message reason =
     \<lparr>st_status = Some Failure, st_code = 0, st_message = message, st_reason = reason, st_details = None\<rparr>"

definition with_code :: "status \<Rightarrow> u16 \<Rightarrow> status" where
  "with_code s code = s\<lparr>st_code := code\<rparr>"

definition with_details :: "status \<Rightarrow> status_details \<Rightarrow> status" where
  "with_details s details = s\<lparr>st_details := Some details\<rparr>"

definition is_success :: "status \<Rightarrow> bool" where
  "is_success s \<longleftrightarrow> st_status s = Some Success"

definition is_failure :: "status \<Rightarrow> bool" where
  "is_failure s \<longleftrightarrow> st_status s = Some Failure"

subsection \<open>JSON\<close>

fun summary_json :: "status_summary \<Rightarrow> json" where
  "summary_json Success = JStr ''Success''"
| "summary_json Failure = JStr ''Failure''"

definition cause_json :: "status_cause \<Rightarrow> json" where
  "cause_json c = JObj
     (put_unless (sc_reason c = '''') ''reason'' (JStr (sc_reason c))
      @ put_unless (sc_message c = '''') ''message'' (JStr (sc_message c))
      @ put_unless (sc_field c = '''') ''field'' (JStr (sc_field c)))"

definition details_json :: "status_details \<Rightarrow> json" where
  "details_json d = JObj
     (put_unless (sd_name d = '''') ''name'' (JStr (sd_name d))
      @ put_unless (sd_group d = '''') ''group'' (JStr (sd_group d))
      @ put_unless (sd_kind d = '''') ''kind'' (JStr (sd_kind d))
      @ put_unless (sd_uid d = '''') ''uid'' (JStr (sd_uid d))
      @ put_unless (sd_causes d = []) ''causes'' (JArr (map cause_json (sd_causes d)))
      @ put_unless (sd_retry_after_seconds d = 0) ''retryAfterSeconds'' (JNum (uint (sd_retry_after_seconds d))))"

definition status_json :: "status \<Rightarrow> json" where
  "status_json s = JObj
     ((case st_status s of None \<Rightarrow> [] | Some x \<Rightarrow> put ''status'' (summary_json x))
      @ put_unless (st_code s = 0) ''code'' (JNum (uint (st_code s)))
      @ put_unless (st_message s = '''') ''message'' (JStr (st_message s))
      @ put_unless (st_reason s = '''') ''reason'' (JStr (st_reason s))
      @ (case st_details s of None \<Rightarrow> [] | Some d \<Rightarrow> put ''details'' (details_json d)))"

text \<open>An enum of unit variants is read from its name, or from an object that maps its name to null.\<close>

fun read_summary :: "json \<Rightarrow> status_summary option" where
  "read_summary (JStr s) = (if s = ''Success'' then Some Success else if s = ''Failure'' then Some Failure else None)"
| "read_summary (JObj [(s, JNull)]) = (if s = ''Success'' then Some Success else if s = ''Failure'' then Some Failure else None)"
| "read_summary _ = None"

definition read_cause :: "json \<Rightarrow> status_cause option" where
  "read_cause v =
     (case read_struct [defaulted ''reason'' (JStr ''''), defaulted ''message'' (JStr ''''), defaulted ''field'' (JStr '''')] v of
        Some [r, m, f] \<Rightarrow>
          (case (read_string r, read_string m, read_string f) of
             (Some r, Some m, Some f) \<Rightarrow> Some \<lparr>sc_reason = r, sc_message = m, sc_field = f\<rparr>
           | _ \<Rightarrow> None)
      | _ \<Rightarrow> None)"

definition read_details :: "json \<Rightarrow> status_details option" where
  "read_details v =
     (case read_struct [defaulted ''name'' (JStr ''''), defaulted ''group'' (JStr ''''), defaulted ''kind'' (JStr ''''),
         defaulted ''uid'' (JStr ''''), defaulted ''causes'' (JArr []), defaulted ''retryAfterSeconds'' (JNum 0)] v of
        Some [n, g, k, u, c, r] \<Rightarrow>
          (case (read_string n, read_string g, read_string k, read_string u, read_vec read_cause c, read_u32 r) of
             (Some n, Some g, Some k, Some u, Some c, Some r) \<Rightarrow>
               Some \<lparr>sd_name = n, sd_group = g, sd_kind = k, sd_uid = u, sd_causes = c, sd_retry_after_seconds = r\<rparr>
           | _ \<Rightarrow> None)
      | _ \<Rightarrow> None)"

definition read_status :: "json \<Rightarrow> status option" where
  "read_status v =
     (case read_struct [defaulted ''status'' JNull, defaulted ''code'' (JNum 0), defaulted ''message'' (JStr ''''),
         defaulted ''reason'' (JStr ''''), defaulted ''details'' JNull] v of
        Some [s, c, m, r, d] \<Rightarrow>
          (case (read_option read_summary s, read_u16 c, read_string m, read_string r, read_option read_details d) of
             (Some s, Some c, Some m, Some r, Some d) \<Rightarrow>
               Some \<lparr>st_status = s, st_code = c, st_message = m, st_reason = r, st_details = d\<rparr>
           | _ \<Rightarrow> None)
      | _ \<Rightarrow> None)"

section \<open>ErrorResponse\<close>

definition error_response_json :: "error_response \<Rightarrow> json" where
  "error_response_json e = JObj
     (put ''status'' (JStr (er_status e)) @ put ''message'' (JStr (er_message e))
      @ put ''reason'' (JStr (er_reason e)) @ put ''code'' (JNum (uint (er_code e))))"

definition read_error_response :: "json \<Rightarrow> error_response option" where
  "read_error_response v =
     (case read_struct [required ''status'', defaulted ''message'' (JStr ''''), defaulted ''reason'' (JStr ''''), required ''code''] v of
        Some [s, m, r, c] \<Rightarrow>
          (case (read_string s, read_string m, read_string r, read_u16 c) of
             (Some s, Some m, Some r, Some c) \<Rightarrow> Some \<lparr>er_status = s, er_message = m, er_reason = r, er_code = c\<rparr>
           | _ \<Rightarrow> None)
      | _ \<Rightarrow> None)"

section \<open>Admission reviews\<close>

datatype operation = Create | Update | Delete | Connect

record ('k, 'u, 'x) admission_request =
  aq_types :: type_meta
  aq_uid :: string
  aq_kind :: group_version_kind
  aq_resource :: group_version_resource
  aq_sub_resource :: "string option"
  aq_request_kind :: "group_version_kind option"
  aq_request_resource :: "group_version_resource option"
  aq_request_sub_resource :: "string option"
  aq_name :: string
  aq_namespace :: "string option"
  aq_operation :: operation
  aq_user_info :: 'u
  aq_object :: "'k option"
  aq_old_object :: "'k option"
  aq_dry_run :: bool
  aq_options :: "'x option"

datatype patch_type = JsonPatch

record admission_response =
  as_types :: type_meta
  as_uid :: string
  as_allowed :: bool
  as_result :: status
  as_patch :: "bytes option"
  as_patch_type :: "patch_type option"
  as_audit_annotations :: "(string \<times> string) list"
  as_warnings :: "string list option"

record ('k, 'u, 'x) admission_review =
  av_types :: type_meta
  av_request :: "('k, 'u, 'x) admission_request option"
  av_response :: "admission_response option"

datatype convert_admission_review_error = ConvertAdmissionReviewError

definition admission_try_into :: "('k, 'u, 'x) admission_review \<Rightarrow> convert_admission_review_error + ('k, 'u, 'x) admission_request" where
  "admission_try_into self =
     (case av_request self of
        Some req \<Rightarrow> Inr (req\<lparr>aq_types := av_types self\<rparr>)
      | None \<Rightarrow> Inl ConvertAdmissionReviewError)"

definition admission_response_from :: "('k, 'u, 'x) admission_request \<Rightarrow> admission_response" where
  "admission_response_from req =
     \<lparr>as_types = aq_types req, as_uid = aq_uid req, as_allowed = True, as_result = status_default, as_patch = None,
      as_patch_type = None, as_audit_annotations = [], as_warnings = None\<rparr>"

definition ADMISSION_META_KIND :: string where
  "ADMISSION_META_KIND = ''AdmissionReview''"

definition META_API_VERSION_V1BETA1 :: string where
  "META_API_VERSION_V1BETA1 = ''admission.k8s.io/v1beta1''"

definition admission_invalid :: "string \<Rightarrow> admission_response" where
  "admission_invalid reason =
     \<lparr>as_types = \<lparr>tm_api_version = META_API_VERSION_V1BETA1, tm_kind = ADMISSION_META_KIND\<rparr>, as_uid = '''', as_allowed = False,
      as_result = status_failure reason ''InvalidRequest'', as_patch = None,
      as_patch_type = None, as_audit_annotations = [], as_warnings = None\<rparr>"

definition admission_deny :: "string \<Rightarrow> admission_response \<Rightarrow> admission_response" where
  "admission_deny reason self =
     self\<lparr>as_allowed := False, as_result := (as_result self)\<lparr>st_message := reason\<rparr>\<rparr>"

definition admission_with_patch :: "('p \<Rightarrow> 'se + bytes) \<Rightarrow> 'p \<Rightarrow> admission_response \<Rightarrow> 'se + admission_response" where
  "admission_with_patch to_vec patch self =
     rbind (to_vec patch) (\<lambda>b. Inr (self\<lparr>as_patch := Some b, as_patch_type := Some JsonPatch\<rparr>))"

definition admission_into_review :: "admission_response \<Rightarrow> (dynamic_object, 'u, 'x) admission_review" where
  "admission_into_review self = \<lparr>av_types = as_types self, av_request = None, av_response = Some self\<rparr>"

definition admission_response_json :: "admission_response \<Rightarrow> json" where
  "admission_response_json r = JObj
     (put ''uid'' (JStr (as_uid r))
      @ put ''allowed'' (JBool (as_allowed r))
      @ put ''status'' (status_json (as_result r))
      @ (case as_patch r of None \<Rightarrow> [] | Some b \<Rightarrow> put ''patch'' (JArr (map (\<lambda>x. JNum (uint x)) b)))
      @ (case as_patch_type r of None \<Rightarrow> [] | Some JsonPatch \<Rightarrow> put ''patchType'' (JStr ''JSONPatch''))
      @ put_unless (as_audit_annotations r = []) ''auditAnnotations''
          (JObj (map (\<lambda>(k, v). (k, JStr v)) (as_audit_annotations r)))
      @ (case as_warnings r of None \<Rightarrow> [] | Some ws \<Rightarrow> put ''warnings'' (JArr (map JStr ws))))"

section \<open>Conversion reviews\<close>

record conversion_request =
  cq_types :: "type_meta option"
  cq_uid :: string
  cq_desired_api_version :: string
  cq_objects :: "json list"

record conversion_response =
  cr_types :: "type_meta option"
  cr_uid :: string
  cr_result :: status
  cr_converted_objects :: "json list"

record conversion_review =
  cv_types :: type_meta
  cv_request :: "conversion_request option"
  cv_response :: "conversion_response option"

datatype convert_conversion_review_error = ConvertConversionReviewError

definition conversion_from_review :: "conversion_review \<Rightarrow> convert_conversion_review_error + conversion_request" where
  "conversion_from_review review =
     (case cv_request review of
        Some req \<Rightarrow> Inr (req\<lparr>cq_types := Some (cv_types review)\<rparr>)
      | None \<Rightarrow> Inl ConvertConversionReviewError)"

definition conversion_for_request :: "conversion_request \<Rightarrow> conversion_response" where
  "conversion_for_request request =
     \<lparr>cr_types = cq_types request, cr_uid = cq_uid request, cr_result = status_default, cr_converted_objects = []\<rparr>"

definition conversion_success :: "json list \<Rightarrow> conversion_response \<Rightarrow> conversion_response" where
  "conversion_success converted_objects self =
     self\<lparr>cr_result := status_success, cr_converted_objects := converted_objects\<rparr>"

definition conversion_failure :: "status \<Rightarrow> conversion_response \<Rightarrow> conversion_response" where
  "conversion_failure s self = self\<lparr>cr_result := s\<rparr>"

definition conversion_invalid :: "status \<Rightarrow> conversion_response" where
  "conversion_invalid s = \<lparr>cr_types = None, cr_uid = '''', cr_result = s, cr_converted_objects = []\<rparr>"

definition CONVERSION_META_KIND :: string where
  "CONVERSION_META_KIND = ''ConversionReview''"

definition CONVERSION_META_API_VERSION_V1 :: string where
  "CONVERSION_META_API_VERSION_V1 = ''apiextensions.k8s.io/v1''"

definition conversion_into_review :: "conversion_response \<Rightarrow> conversion_review" where
  "conversion_into_review response =
     \<lparr>cv_types = unwrap_or (cr_types response)
        \<lparr>tm_api_version = CONVERSION_META_API_VERSION_V1, tm_kind = CONVERSION_META_KIND\<rparr>,
      cv_request = None, cv_response = Some (response\<lparr>cr_types := None\<rparr>)\<rparr>"

subsection \<open>JSON\<close>

definition conversion_request_json :: "conversion_request \<Rightarrow> json" where
  "conversion_request_json q = JObj
     (put ''uid'' (JStr (cq_uid q)) @ put ''desiredAPIVersion'' (JStr (cq_desired_api_version q))
      @ put ''objects'' (JArr (cq_objects q)))"

definition conversion_response_json :: "conversion_response \<Rightarrow> json" where
  "conversion_response_json r = JObj
     (put ''uid'' (JStr (cr_uid r)) @ put ''result'' (status_json (cr_result r))
      @ put ''convertedObjects'' (JArr (cr_converted_objects r)))"

definition conversion_review_json :: "conversion_review \<Rightarrow> json" where
  "conversion_review_json v = JObj
     (put ''apiVersion'' (JStr (tm_api_version (cv_types v))) @ put ''kind'' (JStr (tm_kind (cv_types v)))
      @ (case cv_request v of None \<Rightarrow> [] | Some q \<Rightarrow> put ''request'' (conversion_request_json q))
      @ (case cv_response v of None \<Rightarrow> [] | Some r \<Rightarrow> put ''response'' (conversion_response_json r)))"

fun parse_converted_objects :: "json \<Rightarrow> json list option" where
  "parse_converted_objects (JArr l) = Some l"
| "parse_converted_objects JNull = Some []"
| "parse_converted_objects _ = None"

definition read_conversion_request :: "json \<Rightarrow> conversion_request option" where
  "read_conversion_request v =
     (case read_struct [required ''uid'', required ''desiredAPIVersion'', required ''objects''] v of
        Some [u, d, os] \<Rightarrow>
          (case (read_string u, read_string d, read_vec Some os) of
             (Some u, Some d, Some os) \<Rightarrow>
               Some \<lparr>cq_types = None, cq_uid = u, cq_desired_api_version = d, cq_objects = os\<rparr>
           | _ \<Rightarrow> None)
      | _ \<Rightarrow> None)"

definition read_conversion_response :: "json \<Rightarrow> conversion_response option" where
  "read_conversion_response v =
     (case read_struct [required ''uid'', required ''result'', required ''convertedObjects''] v of
        Some [u, r, os] \<Rightarrow>
          (case (read_string u, read_status r, parse_converted_objects os) of
             (Some u, Some r, Some os) \<Rightarrow>
               Some \<lparr>cr_types = None, cr_uid = u, cr_result = r, cr_converted_objects = os\<rparr>
           | _ \<Rightarrow> None)
      | _ \<Rightarrow> None)"

text \<open>A struct with a flattened field is read from objects only.\<close>

fun read_conversion_review :: "json \<Rightarrow> conversion_review option" where
  "read_conversion_review (JObj ms) =
     (case from_members [required ''apiVersion'', required ''kind'', optional ''request'', defaulted ''response'' JNull] ms of
        Some [a, k, q, r] \<Rightarrow>
          (case (read_string a, read_string k, read_option read_conversion_request q, read_option read_conversion_response r) of
             (Some a, Some k, Some q, Some r) \<Rightarrow>
               Some \<lparr>cv_types = \<lparr>tm_api_version = a, tm_kind = k\<rparr>, cv_request = q, cv_response = r\<rparr>
           | _ \<Rightarrow> None)
      | _ \<Rightarrow> None)"
| "read_conversion_review _ = None"

section \<open>Reading back\<close>

lemmas field_defs = required_def defaulted_def optional_def

lemma read_summary_json [simp, serde_simps]: "read_summary (summary_json x) = Some x" "summary_json x \<noteq> JNull"
  by (cases x; simp)+

lemma read_cause_json [simp, serde_simps]: "read_cause (cause_json c) = Some c"
  by (simp add: read_cause_def cause_json_def field_defs)

lemma read_details_json [simp, serde_simps]: "read_details (details_json d) = Some d" "details_json d \<noteq> JNull"
  by (simp_all add: read_details_def details_json_def field_defs read_all_map)

lemma read_status_json [simp, serde_simps]: "read_status (status_json s) = Some s" "status_json s \<noteq> JNull"
proof -
  show "read_status (status_json s) = Some s"
  proof (cases "st_status s")
    case None
    then show ?thesis by (cases "st_details s") (simp_all add: read_status_def status_json_def field_defs)
  next
    case (Some x)
    then show ?thesis by (cases "st_details s") (simp_all add: read_status_def status_json_def field_defs)
  qed
qed (simp add: status_json_def)

lemma read_details_no_uid:
  assumes "read_details (JObj ms) = Some d" and "''uid'' \<notin> fst ` set ms"
  shows "sd_uid d = ''''"
proof -
  let ?fs = "[defaulted ''name'' (JStr ''''), defaulted ''group'' (JStr ''''), defaulted ''kind'' (JStr ''''),
         defaulted ''uid'' (JStr ''''), defaulted ''causes'' (JArr []), defaulted ''retryAfterSeconds'' (JNum 0)]"
  obtain n g k u c r where f: "from_members ?fs ms = Some [n, g, k, u, c, r]" "read_string u = Some (sd_uid d)"
    using assms(1) by (auto simp: read_details_def split: option.splits list.splits)
  have "Some u = Some (JStr '''')" using from_members_missing [OF f(1), of 3] assms(2) by (simp add: field_defs)
  then show ?thesis using f(2) by simp
qed

lemma read_error_response_json [simp, serde_simps]: "read_error_response (error_response_json e) = Some e"
  by (simp add: read_error_response_def error_response_json_def field_defs)

lemma read_conversion_request_json [simp, serde_simps]:
  "read_conversion_request (conversion_request_json q) = Some (q\<lparr>cq_types := None\<rparr>)" "conversion_request_json q \<noteq> JNull"
  by (simp_all add: read_conversion_request_def conversion_request_json_def field_defs read_all_map [where w = id, simplified])

lemma read_conversion_response_json [simp, serde_simps]:
  "read_conversion_response (conversion_response_json r) = Some (r\<lparr>cr_types := None\<rparr>)" "conversion_response_json r \<noteq> JNull"
  by (simp_all add: read_conversion_response_def conversion_response_json_def field_defs)

lemma read_conversion_review_json [serde_simps]:
  "read_conversion_review (conversion_review_json v) =
     Some (v\<lparr>cv_request := map_option (\<lambda>q. q\<lparr>cq_types := None\<rparr>) (cv_request v),
            cv_response := map_option (\<lambda>r. r\<lparr>cr_types := None\<rparr>) (cv_response v)\<rparr>)"
  by (cases "cv_request v"; cases "cv_response v") (simp_all add: conversion_review_json_def field_defs)

section \<open>Properties\<close>

text \<open>
  the JSON form of a status is faithful: every status value, with its details and causes, is
  recovered from what is written, although empty fields are left out, and so is every error
  response. A status value is also an error response exactly when it says success or failure and
  has a code other than zero (the code zero is left out), and then the two agree.
\<close>

theorem status_roundtrip:
  "read_status (status_json s) = Some s
   \<and> read_error_response (error_response_json e) = Some e
   \<and> (case read_error_response (status_json s) of
        None \<Rightarrow> st_status s = None \<or> st_code s = 0
      | Some e \<Rightarrow> (is_success s \<or> is_failure s) \<and> st_code s \<noteq> 0
          \<and> er_code e = st_code s \<and> er_reason e = st_reason s \<and> er_message e = st_message s)"
proof -
  have "case read_error_response (status_json s) of
        None \<Rightarrow> st_status s = None \<or> st_code s = 0
      | Some e \<Rightarrow> (is_success s \<or> is_failure s) \<and> st_code s \<noteq> 0
          \<and> er_code e = st_code s \<and> er_reason e = st_reason s \<and> er_message e = st_message s"
  proof (cases "st_status s")
    case None
    then show ?thesis
      by (cases "st_details s") (simp_all add: read_error_response_def status_json_def field_defs)
  next
    case (Some x)
    then show ?thesis
      by (cases x; cases "st_details s") (simp_all add: read_error_response_def status_json_def field_defs is_success_def is_failure_def)
  qed
  then show ?thesis by simp
qed

text \<open>
  An admission answer carries the types and the uid of its request into the review; it allows
  the request until it is denied, and a denial keeps everything but the verdict and the message.
\<close>

lemma admission_answer:
  "case av_request review of
     None \<Rightarrow> admission_try_into review = Inl ConvertAdmissionReviewError
   | Some q \<Rightarrow> \<exists>req. admission_try_into review = Inr req \<and>
       admission_into_review (admission_deny reason (admission_response_from req)) =
         \<lparr>av_types = av_types review, av_request = None,
          av_response = Some ((admission_response_from q)\<lparr>as_types := av_types review, as_allowed := False,
            as_result := status_default\<lparr>st_message := reason\<rparr>\<rparr>)\<rparr>"
  by (auto simp: admission_try_into_def admission_response_from_def admission_into_review_def admission_deny_def split: option.splits)

text \<open>
  webhook answers match their requests. A conversion review without a request is refused.
  Otherwise, whether the handler succeeds or fails, the review the API server reads back from
  the JSON answer has the types of the review it sent and the uid of the request, carries no
  request, and has exactly the handler's status and, on success, its objects in their order.
\<close>

theorem conversion_answer_matches:
  "case cv_request review of
     None \<Rightarrow> conversion_from_review review = Inl ConvertConversionReviewError
   | Some q \<Rightarrow> \<exists>req. conversion_from_review review = Inr req \<and>
       read_conversion_review (conversion_review_json (conversion_into_review (conversion_success objs (conversion_for_request req))))
         = Some \<lparr>cv_types = cv_types review, cv_request = None,
             cv_response = Some \<lparr>cr_types = None, cr_uid = cq_uid q, cr_result = status_success, cr_converted_objects = objs\<rparr>\<rparr> \<and>
       read_conversion_review (conversion_review_json (conversion_into_review (conversion_failure st (conversion_for_request req))))
         = Some \<lparr>cv_types = cv_types review, cv_request = None,
             cv_response = Some \<lparr>cr_types = None, cr_uid = cq_uid q, cr_result = st, cr_converted_objects = []\<rparr>\<rparr>"
  by (auto simp: conversion_from_review_def conversion_into_review_def conversion_for_request_def conversion_success_def
      conversion_failure_def read_conversion_review_json split: option.splits)

end
