(* ===== verification/Cl_Client.thy ===== *)
theory Cl_Client
  imports Core_Response Core_Request
begin

text \<open>
  \<open>kube-client/src/client/mod.rs\<close>, \<open>upgrade.rs\<close>, \<open>middleware/base_uri.rs\<close>,
  \<open>middleware/extra_headers.rs\<close> and \<open>error.rs\<close>: how a request is sent, how its response
  becomes a value or an error, how a watch response becomes a stream of events, and how a
  connection is upgraded to a WebSocket.

  The service below the client (tower, hyper, TLS) is a record of its two operations on its own
  state. A response body is the sequence of chunks it delivers, each of which may be an error.
  The remaining third-party code is the record \<open>cl_env\<close>; a type that is read from JSON text is
  given by its parser.
\<close>

section \<open>Errors\<close>

record hyper_error =
  he_is_timeout :: bool
  he_display :: string

datatype io_error_kind = TimedOut | UnexpectedEof | OtherKind

record io_error =
  io_kind :: io_error_kind
  io_source :: hyper_error

datatype lines_codec_error = MaxLineLengthExceeded | LinesIo io_error

record serde_error =
  se_is_eof :: bool
  se_display :: string

datatype upgrade_connection_error =
    ProtocolSwitch u16
  | MissingUpgradeWebSocketHeader
  | MissingConnectionUpgradeHeader
  | SecWebSocketAcceptKeyMismatch
  | SecWebSocketProtocolMismatch
  | GetPendingUpgrade hyper_error

text \<open>
  The error type of the client and the boxed errors of services, which may hold one. Errors of
  TLS libraries, the configuration and authentication are kept as their texts.
\<close>

datatype kube_error =
    KApi error_response
  | KHyper hyper_error
  | KService box_error
  | KFromUtf8 bytes
  | KMaxLineLength
  | KReadEvents io_error
  | KHttp string
  | KSerde serde_error
  | KBuildRequest request_error
  | KInferConfig string
  | KDiscovery string
  | KTls string
  | KUpgrade upgrade_connection_error
  | KAuth string
and box_error = BoxKube kube_error | BoxHyper hyper_error | BoxOther string

section \<open>Requests and responses\<close>

text \<open>A request with the name that the API methods leave in its extensions for tracing.\<close>

record client_request =
  cq_op :: "string option"
  cq_http :: http_request

record http_response =
  rs_status :: u16
  rs_headers :: "(string \<times> string) list"
  rs_body :: "(hyper_error + bytes) list"

record 's service =
  svc_ready :: "'s \<Rightarrow> (box_error + unit) \<times> 's"
  svc_call :: "client_request \<Rightarrow> 's \<Rightarrow> (box_error + http_response) \<times> 's"

record cl_env =
  parse_value :: "string \<Rightarrow> serde_error + json"
  parse_error_response :: "string \<Rightarrow> serde_error + error_response"
  parse_status :: "string \<Rightarrow> serde_error + status"
  debug_str :: "string \<Rightarrow> string"
  status_display :: "u16 \<Rightarrow> string"
  frame_lines :: "(io_error + bytes) list \<Rightarrow> (lines_codec_error + string) list"
  derive_accept_key :: "string \<Rightarrow> string"

record 's client =
  cl_inner :: "'s service"
  cl_default_ns :: string

definition client_new :: "'s service \<Rightarrow> string \<Rightarrow> 's client" where
  "client_new service default_namespace = \<lparr>cl_inner = service, cl_default_ns = default_namespace\<rparr>"

definition default_namespace :: "'s client \<Rightarrow> string" where
  "default_namespace c = cl_default_ns c"

section \<open>Fallible steps on the state of the service\<close>

type_synonym ('s, 'a) io = "'s \<Rightarrow> (kube_error + 'a) \<times> 's"

definition io_bind :: "('s, 'a) io \<Rightarrow> ('a \<Rightarrow> ('s, 'b) io) \<Rightarrow> ('s, 'b) io" where
  "io_bind m f s = (case m s of (Inl e, s') \<Rightarrow> (Inl e, s') | (Inr a, s') \<Rightarrow> f a s')"

definition io_of :: "kube_error + 'a \<Rightarrow> ('s, 'a) io" where
  "io_of r s = (r, s)"

section \<open>Sending\<close>

text \<open>\<open>downcast\<close> of a boxed error: to the client's own error, to a hyper error, or neither.\<close>

fun unbox_error :: "box_error \<Rightarrow> kube_error" where
  "unbox_error (BoxKube e) = e"
| "unbox_error (BoxHyper e) = KHyper e"
| "unbox_error (BoxOther e) = KService (BoxOther e)"

definition send :: "'s client \<Rightarrow> client_request \<Rightarrow> ('s, http_response) io" where
  "send c request s =
     (case svc_ready (cl_inner c) s of
        (Inl e, s1) \<Rightarrow> (Inl (KService e), s1)
      | (Inr _, s1) \<Rightarrow>
          (case svc_call (cl_inner c) request s1 of
             (Inl err, s2) \<Rightarrow> (Inl (unbox_error err), s2)
           | (Inr res, s2) \<Rightarrow> (Inr res, s2)))"

fun body_to_bytes :: "(hyper_error + bytes) list \<Rightarrow> hyper_error + bytes" where
  "body_to_bytes [] = Inr []"
| "body_to_bytes (Inl e # _) = Inl e"
| "body_to_bytes (Inr b # rest) = rbind (body_to_bytes rest) (\<lambda>bs. Inr (b @ bs))"

text \<open>\<open>String::from_utf8\<close>: well-formed UTF-8 (no overlong forms, no surrogates, at most U+10FFFF).\<close>

fun utf8_cont :: "u8 \<Rightarrow> bool" where
  "utf8_cont b \<longleftrightarrow> 0x80 \<le> b \<and> b \<le> 0xBF"

fun valid_utf8 :: "bytes \<Rightarrow> bool" where
  "valid_utf8 [] = True"
| "valid_utf8 (a # bs) =
     (if a \<le> 0x7F then valid_utf8 bs
      else case bs of
        [] \<Rightarrow> False
      | b # cs \<Rightarrow>
          if 0xC2 \<le> a \<and> a \<le> 0xDF then utf8_cont b \<and> valid_utf8 cs
          else case cs of
            [] \<Rightarrow> False
          | c # ds \<Rightarrow>
              if 0xE0 \<le> a \<and> a \<le> 0xEF
              then utf8_cont b \<and> utf8_cont c \<and> (a = 0xE0 \<longrightarrow> 0xA0 \<le> b) \<and> (a = 0xED \<longrightarrow> b \<le> 0x9F) \<and> valid_utf8 ds
              else case ds of
                [] \<Rightarrow> False
              | d # es \<Rightarrow>
                  0xF0 \<le> a \<and> a \<le> 0xF4 \<and> utf8_cont b \<and> utf8_cont c \<and> utf8_cont d
                  \<and> (a = 0xF0 \<longrightarrow> 0x90 \<le> b) \<and> (a = 0xF4 \<longrightarrow> b \<le> 0x8F) \<and> valid_utf8 es)"

definition string_of_bytes :: "bytes \<Rightarrow> string" where
  "string_of_bytes bs = map (\<lambda>b. char_of (unat b)) bs"

definition from_utf8 :: "bytes \<Rightarrow> kube_error + string" where
  "from_utf8 bs = (if valid_utf8 bs then Inr (string_of_bytes bs) else Inl (KFromUtf8 bs))"

definition is_client_error :: "u16 \<Rightarrow> bool" where
  "is_client_error s \<longleftrightarrow> 400 \<le> s \<and> s < 500"

definition is_server_error :: "u16 \<Rightarrow> bool" where
  "is_server_error s \<longleftrightarrow> 500 \<le> s \<and> s < 600"

definition handle_api_errors :: "cl_env \<Rightarrow> string \<Rightarrow> u16 \<Rightarrow> kube_error + unit" where
  "handle_api_errors C txt s =
     (if is_client_error s \<or> is_server_error s then
        (case parse_error_response C txt of
           Inr errdata \<Rightarrow> Inl (KApi errdata)
         | Inl _ \<Rightarrow> Inl (KApi \<lparr>er_status = status_display C s, er_message = debug_str C txt,
                            er_reason = ''Failed to parse error data'', er_code = s\<rparr>))
      else Inr ())"

definition request_text :: "cl_env \<Rightarrow> 's client \<Rightarrow> client_request \<Rightarrow> ('s, string) io" where
  "request_text C c request =
     io_bind (send c request) (\<lambda>res.
       let status = rs_status res in
       io_of (rbind (map_err KHyper (body_to_bytes (rs_body res))) (\<lambda>body_bytes.
         rbind (from_utf8 body_bytes) (\<lambda>txt.
         rbind (handle_api_errors C txt status) (\<lambda>_. Inr txt)))))"

definition client_request_typed :: "cl_env \<Rightarrow> (string \<Rightarrow> serde_error + 'a) \<Rightarrow> 's client \<Rightarrow> client_request \<Rightarrow> ('s, 'a) io" where
  "client_request_typed C parse c request =
     io_bind (request_text C c request) (\<lambda>txt. io_of (map_err KSerde (parse txt)))"

definition request_stream :: "'s client \<Rightarrow> client_request \<Rightarrow> ('s, (hyper_error + bytes) list) io" where
  "request_stream c request = io_bind (send c request) (\<lambda>res. io_of (Inr (rs_body res)))"

text \<open>\<open>Either\<close> is a sum as well: \<open>Left\<close> the object, \<open>Right\<close> the status.\<close>

definition request_status :: "cl_env \<Rightarrow> (string \<Rightarrow> serde_error + 'a) \<Rightarrow> 's client \<Rightarrow> client_request \<Rightarrow> ('s, 'a + status) io" where
  "request_status C parse c request =
     io_bind (request_text C c request) (\<lambda>txt.
       io_of (rbind (map_err KSerde (parse_value C txt)) (\<lambda>v.
         if jget ''kind'' v = JStr ''Status''
         then rbind (map_err KSerde (parse_status C txt)) (\<lambda>st. Inr (Inr st))
         else rbind (map_err KSerde (parse txt)) (\<lambda>obj. Inr (Inl obj)))))"

section \<open>Watch responses\<close>

definition body_io_error :: "hyper_error \<Rightarrow> io_error" where
  "body_io_error e =
     (if he_is_timeout e then \<lparr>io_kind = TimedOut, io_source = e\<rparr>
      else if sublist ''unexpected EOF during chunk'' (he_display e) then \<lparr>io_kind = UnexpectedEof, io_source = e\<rparr>
      else \<lparr>io_kind = OtherKind, io_source = e\<rparr>)"

text \<open>The closure that turns a frame into an item of the stream, or drops it.\<close>

fun frame_item :: "cl_env \<Rightarrow> (string \<Rightarrow> serde_error + 'k watch_event) \<Rightarrow> lines_codec_error + string
     \<Rightarrow> (kube_error + 'k watch_event) option" where
  "frame_item C parse (Inr line) =
     (case parse line of
        Inr event \<Rightarrow> Some (Inr event)
      | Inl e \<Rightarrow>
          if se_is_eof e then None
          else (case parse_error_response C line of
                  Inr e_resp \<Rightarrow> Some (Inl (KApi e_resp))
                | Inl _ \<Rightarrow> Some (Inl (KSerde e))))"
| "frame_item C parse (Inl (LinesIo e)) =
     (case io_kind e of TimedOut \<Rightarrow> None | UnexpectedEof \<Rightarrow> None | OtherKind \<Rightarrow> Some (Inl (KReadEvents e)))"
| "frame_item C parse (Inl MaxLineLengthExceeded) = Some (Inl KMaxLineLength)"

definition request_events :: "cl_env \<Rightarrow> (string \<Rightarrow> serde_error + 'k watch_event) \<Rightarrow> 's client \<Rightarrow> client_request
     \<Rightarrow> ('s, (kube_error + 'k watch_event) list) io" where
  "request_events C parse c request =
     io_bind (send c request) (\<lambda>res.
       io_of (Inr (List.map_filter (frame_item C parse) (frame_lines C (map (map_err body_io_error) (rs_body res))))))"

section \<open>Discovery requests\<close>

text \<open>\<open>Request::builder().uri(..).body(vec![])\<close> with the check of the http crate.\<close>

definition plain_get :: "'qp req_env \<Rightarrow> string \<Rightarrow> kube_error + client_request" where
  "plain_get E url =
     (let req = \<lparr>req_method = GET, uri = url, headers = [], body = []\<rparr> in
      case http_check E req of None \<Rightarrow> Inr \<lparr>cq_op = None, cq_http = req\<rparr> | Some e \<Rightarrow> Inl (KHttp e))"

definition get_typed :: "'qp req_env \<Rightarrow> cl_env \<Rightarrow> (string \<Rightarrow> serde_error + 'a) \<Rightarrow> 's client \<Rightarrow> string \<Rightarrow> ('s, 'a) io" where
  "get_typed E C parse c url = io_bind (io_of (plain_get E url)) (client_request_typed C parse c)"

definition apiserver_version :: "'qp req_env \<Rightarrow> cl_env \<Rightarrow> (string \<Rightarrow> serde_error + 'a) \<Rightarrow> 's client \<Rightarrow> ('s, 'a) io" where
  "apiserver_version E C parse c = get_typed E C parse c ''/version''"

definition client_list_api_groups :: "'qp req_env \<Rightarrow> cl_env \<Rightarrow> (string \<Rightarrow> serde_error + 'a) \<Rightarrow> 's client \<Rightarrow> ('s, 'a) io" where
  "client_list_api_groups E C parse c = get_typed E C parse c ''/apis''"

definition client_list_api_group_resources :: "'qp req_env \<Rightarrow> cl_env \<Rightarrow> (string \<Rightarrow> serde_error + 'a) \<Rightarrow> 's client \<Rightarrow> string \<Rightarrow> ('s, 'a) io" where
  "client_list_api_group_resources E C parse c apiversion = get_typed E C parse c (''/apis/'' @ apiversion)"

definition client_list_core_api_versions :: "'qp req_env \<Rightarrow> cl_env \<Rightarrow> (string \<Rightarrow> serde_error + 'a) \<Rightarrow> 's client \<Rightarrow> ('s, 'a) io" where
  "client_list_core_api_versions E C parse c = get_typed E C parse c ''/api''"

definition client_list_core_api_resources :: "'qp req_env \<Rightarrow> cl_env \<Rightarrow> (string \<Rightarrow> serde_error + 'a) \<Rightarrow> 's client \<Rightarrow> string \<Rightarrow> ('s, 'a) io" where
  "client_list_core_api_resources E C parse c version = get_typed E C parse c (''/api/'' @ version)"

section \<open>WebSocket upgrades\<close>

text \<open>Header names are lower case; \<open>insert\<close> replaces every earlier value, \<open>get\<close> is the first one.\<close>

definition header_get :: "(string \<times> string) list \<Rightarrow> string \<Rightarrow> string option" where
  "header_get hs k = map_of hs k"

definition header_insert :: "string \<Rightarrow> string \<Rightarrow> (string \<times> string) list \<Rightarrow> (string \<times> string) list" where
  "header_insert k v hs = (k, v) # filter (\<lambda>h. fst h \<noteq> k) hs"

definition WS_PROTOCOL :: string where
  "WS_PROTOCOL = ''v4.channel.k8s.io''"

text \<open>\<open>HeaderValue::to_str\<close>: visible ASCII and tabs only.\<close>

definition header_to_str :: "string \<Rightarrow> string option" where
  "header_to_str v = (if list_all (\<lambda>c. let n = of_char c :: nat in 32 \<le> n \<and> n < 127 \<or> n = 9) v then Some v else None)"

definition header_is :: "(string \<times> string) list \<Rightarrow> string \<Rightarrow> string \<Rightarrow> bool" where
  "header_is hs k expected =
     (case Option.bind (header_get hs k) header_to_str of
        None \<Rightarrow> False | Some h \<Rightarrow> to_ascii_lowercase h = to_ascii_lowercase expected)"

definition verify_response :: "cl_env \<Rightarrow> http_response \<Rightarrow> string \<Rightarrow> upgrade_connection_error + unit" where
  "verify_response C res key =
     (if rs_status res \<noteq> 101 then Inl (ProtocolSwitch (rs_status res))
      else if \<not> header_is (rs_headers res) ''upgrade'' ''websocket'' then Inl MissingUpgradeWebSocketHeader
      else if \<not> header_is (rs_headers res) ''connection'' ''Upgrade'' then Inl MissingConnectionUpgradeHeader
      else if header_get (rs_headers res) ''sec-websocket-accept'' \<noteq> Some (derive_accept_key C key)
        then Inl SecWebSocketAcceptKeyMismatch
      else if header_get (rs_headers res) ''sec-websocket-protocol'' \<noteq> Some WS_PROTOCOL
        then Inl SecWebSocketProtocolMismatch
      else Inr ())"

definition upgrade_headers :: "string \<Rightarrow> (string \<times> string) list \<Rightarrow> (string \<times> string) list" where
  "upgrade_headers key hs =
     header_insert ''sec-websocket-protocol'' WS_PROTOCOL
      (header_insert ''sec-websocket-key'' key
      (header_insert ''sec-websocket-version'' ''13''
      (header_insert ''upgrade'' ''websocket''
      (header_insert ''connection'' ''Upgrade'' hs))))"

text \<open>The key is random and \<open>hyper::upgrade::on\<close> is the parameter \<open>upgrade_on\<close>.\<close>

definition connect :: "cl_env \<Rightarrow> (http_response \<Rightarrow> hyper_error + 'ws) \<Rightarrow> string \<Rightarrow> 's client \<Rightarrow> client_request \<Rightarrow> ('s, 'ws) io" where
  "connect C upgrade_on key c request =
     (let parts = cq_http request;
          request = request\<lparr>cq_http := parts\<lparr>headers := upgrade_headers key (headers parts)\<rparr>\<rparr>
      in io_bind (send c request) (\<lambda>res.
           io_bind (io_of (map_err KUpgrade (verify_response C res key))) (\<lambda>_.
             io_of (case upgrade_on res of
                      Inr upgraded \<Rightarrow> Inr upgraded
                    | Inl e \<Rightarrow> Inl (KUpgrade (GetPendingUpgrade e))))))"

section \<open>Middleware\<close>

text \<open>
  \<open>base_uri.rs\<close>. A URI is its scheme, authority and path with query; the builder of the http
  crate is the parameter \<open>build\<close>, and a failed \<open>expect\<close> is \<open>None\<close>.
\<close>

record uri_parts =
  up_scheme :: "string option"
  up_authority :: "string option"
  up_path_and_query :: "string option"

definition trim_end_matches :: "char \<Rightarrow> string \<Rightarrow> string" where
  "trim_end_matches c s = rev (dropWhile (\<lambda>x. x = c) (rev s))"

definition pandq_path :: "string \<Rightarrow> string" where
  "pandq_path s = takeWhile (\<lambda>c. c \<noteq> CHR ''?'') s"

definition set_base_uri :: "(uri_parts \<Rightarrow> uri_parts option) \<Rightarrow> uri_parts \<Rightarrow> string option \<Rightarrow> uri_parts option" where
  "set_base_uri build base_uri req_pandq =
     (let builder = \<lparr>up_scheme = up_scheme base_uri, up_authority = up_authority base_uri, up_path_and_query = None\<rparr>;
          builder = (case up_path_and_query base_uri of
              Some pandq \<Rightarrow>
                (case req_pandq of
                   Some rp \<Rightarrow> builder\<lparr>up_path_and_query := Some (trim_end_matches CHR ''/'' (pandq_path pandq) @ rp)\<rparr>
                 | None \<Rightarrow> builder\<lparr>up_path_and_query := Some pandq\<rparr>)
            | None \<Rightarrow>
                (case req_pandq of
                   Some rp \<Rightarrow> builder\<lparr>up_path_and_query := Some rp\<rparr>
                 | None \<Rightarrow> builder))
      in build builder)"

text \<open>\<open>extra_headers.rs\<close>: the headers are appended to those of the request.\<close>

definition extra_headers_call :: "(string \<times> string) list \<Rightarrow> http_request \<Rightarrow> http_request" where
  "extra_headers_call extra req = req\<lparr>headers := headers req @ extra\<rparr>"

section \<open>Lines of a byte stream\<close>

text \<open>
  What the line codec of tokio-util promises: the text before each newline is a line, without a
  carriage return at its end; at the end of the stream a line that was not ended counts as well,
  and an error of the stream ends it with the error, without the line that was not ended.
\<close>

fun split_nl :: "bytes \<Rightarrow> bytes list \<times> bytes" where
  "split_nl [] = ([], [])"
| "split_nl (b # bs) =
     (case split_nl bs of (ls, rest) \<Rightarrow>
        if b = 10 then ([] # ls, rest)
        else case ls of [] \<Rightarrow> ([], b # rest) | l # ls' \<Rightarrow> ((b # l) # ls', rest))"

definition decode_line :: "bytes \<Rightarrow> string" where
  "decode_line l = string_of_bytes (if l \<noteq> [] \<and> last l = 13 then butlast l else l)"

definition all_text :: "bytes \<Rightarrow> bool" where
  "all_text bs \<longleftrightarrow> list_all valid_utf8 (fst (split_nl bs)) \<and> valid_utf8 (snd (split_nl bs))"

locale line_codec =
  fixes frame :: "(io_error + bytes) list \<Rightarrow> (lines_codec_error + string) list"
  assumes clean_end: "all_text (concat cs) \<Longrightarrow> frame (map Inr cs) =
      map (Inr \<circ> decode_line) (fst (split_nl (concat cs)))
      @ (if snd (split_nl (concat cs)) \<in> {[], [13]} then [] else [Inr (decode_line (snd (split_nl (concat cs))))])"
    and broken: "all_text (concat cs) \<Longrightarrow> frame (map Inr cs @ Inl e # later) =
      map (Inr \<circ> decode_line) (fst (split_nl (concat cs))) @ [Inl (LinesIo e)]"

text \<open>A codec that works on the chunks as they arrive and keeps the unfinished line in a buffer.\<close>

definition emit_line :: "bytes \<Rightarrow> lines_codec_error + string" where
  "emit_line l =
     (if valid_utf8 l then Inr (decode_line l)
      else Inl (LinesIo \<lparr>io_kind = OtherKind, io_source = \<lparr>he_is_timeout = False, he_display = ''stream did not contain valid UTF-8''\<rparr>\<rparr>))"

fun buffered_lines :: "bytes \<Rightarrow> (io_error + bytes) list \<Rightarrow> (lines_codec_error + string) list" where
  "buffered_lines buf [] = (if buf \<in> {[], [13]} then [] else [emit_line buf])"
| "buffered_lines buf (Inl e # _) = [Inl (LinesIo e)]"
| "buffered_lines buf (Inr c # cs) = (case split_nl (buf @ c) of (ls, rest) \<Rightarrow> map emit_line ls @ buffered_lines rest cs)"

lemma split_nl_append:
  "split_nl (a @ b) = (fst (split_nl a) @ fst (split_nl (snd (split_nl a) @ b)), snd (split_nl (snd (split_nl a) @ b)))"
proof (induction a)
  case (Cons x a)
  then show ?case by (auto simp: split_beta split: list.splits)
qed simp

lemma split_nl_rest: "split_nl bs = (ls, rest) \<Longrightarrow> split_nl rest = ([], rest)"
  by (induction bs arbitrary: ls rest) (auto split: prod.splits if_splits list.splits)

lemma buffered_lines_clean:
  "\<lbrakk>split_nl buf = ([], buf); all_text (buf @ concat cs)\<rbrakk> \<Longrightarrow> buffered_lines buf (map Inr cs) =
     map (Inr \<circ> decode_line) (fst (split_nl (buf @ concat cs)))
     @ (if snd (split_nl (buf @ concat cs)) \<in> {[], [13]} then [] else [Inr (decode_line (snd (split_nl (buf @ concat cs))))])"
proof (induction cs arbitrary: buf)
  case Nil
  then show ?case by (auto simp: emit_line_def all_text_def)
next
  case (Cons c cs)
  obtain ls rest where s: "split_nl (buf @ c) = (ls, rest)" by fastforce
  have e: "split_nl (buf @ c @ concat cs) = (ls @ fst (split_nl (rest @ concat cs)), snd (split_nl (rest @ concat cs)))"
    using split_nl_append [of "buf @ c" "concat cs"] s by simp
  have "all_text (rest @ concat cs)" "list_all valid_utf8 ls" using Cons.prems e by (auto simp: all_text_def)
  then show ?case using Cons.IH [OF split_nl_rest [OF s]] s e
    by (auto simp: emit_line_def list_all_iff)
qed

lemma buffered_lines_broken:
  "\<lbrakk>split_nl buf = ([], buf); all_text (buf @ concat cs)\<rbrakk> \<Longrightarrow> buffered_lines buf (map Inr cs @ Inl e # later) =
     map (Inr \<circ> decode_line) (fst (split_nl (buf @ concat cs))) @ [Inl (LinesIo e)]"
proof (induction cs arbitrary: buf)
  case (Cons c cs)
  obtain ls rest where s: "split_nl (buf @ c) = (ls, rest)" by fastforce
  have e: "split_nl (buf @ c @ concat cs) = (ls @ fst (split_nl (rest @ concat cs)), snd (split_nl (rest @ concat cs)))"
    using split_nl_append [of "buf @ c" "concat cs"] s by simp
  have "all_text (rest @ concat cs)" "list_all valid_utf8 ls" using Cons.prems e by (auto simp: all_text_def)
  then show ?case using Cons.IH [OF split_nl_rest [OF s]] s e
    by (auto simp: emit_line_def list_all_iff)
qed simp

interpretation buffered: line_codec "buffered_lines []"
  by unfold_locales (use buffered_lines_clean [of "[]"] buffered_lines_broken [of "[]"] in simp_all)

context line_codec
begin

text \<open>The chunk boundaries do not matter, and neither does what a silent cut leaves unfinished.\<close>

lemma chunking_irrelevant:
  "\<lbrakk>all_text (concat cs); concat cs = concat cs'\<rbrakk> \<Longrightarrow> frame (map Inr cs) = frame (map Inr cs')"
  using clean_end by metis

end

section \<open>Helper lemmas\<close>

lemma io_bind_simps [simp]:
  "m s = (Inl e, s') \<Longrightarrow> io_bind m f s = (Inl e, s')" "m s = (Inr a, s') \<Longrightarrow> io_bind m f s = f a s'"
  by (simp_all add: io_bind_def)

lemma io_of_apply [simp]: "io_of r s = (r, s)"
  by (simp add: io_of_def)

lemma io_bind_eq:
  "io_bind m f s = (r, s') \<longleftrightarrow> (\<exists>e. m s = (Inl e, s') \<and> r = Inl e) \<or> (\<exists>a s1. m s = (Inr a, s1) \<and> f a s1 = (r, s'))"
  by (auto simp: io_bind_def split: prod.splits sum.splits)

lemma map_of_filter_neq: "map_of (filter (\<lambda>h. fst h \<noteq> k) hs) = (map_of hs)(k := None)"
  by (induction hs) auto

lemma map_of_header_insert [simp]: "map_of (header_insert k v hs) = (map_of hs)(k \<mapsto> v)"
  by (simp add: header_insert_def map_of_filter_neq)

lemma trim_end_no_slash: "trim_end_matches c s = [] \<or> last (trim_end_matches c s) \<noteq> c"
proof (cases "dropWhile (\<lambda>x. x = c) (rev s)")
  case (Cons x xs)
  then have "x \<noteq> c" by (metis (mono_tags) dropWhile_eq_Cons_conv)
  then show ?thesis using Cons by (simp add: trim_end_matches_def)
qed (simp add: trim_end_matches_def)

lemma map_err_comp_Inr [simp]: "map_err f \<circ> Inr = Inr"
  by (simp add: fun_eq_iff)

lemma map_filter_map: "List.map_filter f (map g xs) = List.map_filter (f \<circ> g) xs"
  by (induction xs) (auto simp: List.map_filter_simps split: option.splits)

text \<open>The items of complete lines, in order.\<close>

definition line_items :: "cl_env \<Rightarrow> (string \<Rightarrow> serde_error + 'k watch_event) \<Rightarrow> bytes \<Rightarrow> (kube_error + 'k watch_event) list" where
  "line_items C parse bs = List.map_filter (\<lambda>l. frame_item C parse (Inr (decode_line l))) (fst (split_nl bs))"

lemma request_text_response:
  assumes "send c request s = (Inr res, s')" and "body_to_bytes (rs_body res) = Inr bs"
  shows "request_text C c request s =
    (if \<not> valid_utf8 bs then Inl (KFromUtf8 bs)
     else if 400 \<le> unat (rs_status res) \<and> unat (rs_status res) < 600
     then Inl (KApi (case parse_error_response C (string_of_bytes bs) of
            Inr e \<Rightarrow> e
          | Inl _ \<Rightarrow> \<lparr>er_status = status_display C (rs_status res), er_message = debug_str C (string_of_bytes bs),
                     er_reason = ''Failed to parse error data'', er_code = rs_status res\<rparr>))
     else Inr (string_of_bytes bs), s')"
proof -
  have "(is_client_error (rs_status res) \<or> is_server_error (rs_status res)) \<longleftrightarrow> 400 \<le> unat (rs_status res) \<and> unat (rs_status res) < 600"
    by (auto simp: is_client_error_def is_server_error_def word_le_nat_alt word_less_nat_alt)
  then show ?thesis using assms
    by (auto simp: request_text_def from_utf8_def handle_api_errors_def Let_def split: sum.splits)
qed

lemma request_events_clean:
  assumes codec: "line_codec (frame_lines C)" and utf: "all_text (concat cs)"
    and res: "send c request s = (Inr res, s')" "rs_body res = map Inr cs" and ended: "snd (split_nl (concat cs)) = []"
  shows "request_events C parse c request s = (Inr (line_items C parse (concat cs)), s')"
  using line_codec.clean_end [OF codec utf] res ended
  by (simp add: request_events_def map_filter_map comp_def line_items_def)

section \<open>Properties\<close>


definition echo_env :: cl_env where
  "echo_env = \<lparr>parse_value = (\<lambda>_. Inr JNull), parse_error_response = (\<lambda>_. Inl \<lparr>se_is_eof = False, se_display = ''''\<rparr>),
     parse_status = (\<lambda>_. Inr status_success), debug_str = id, status_display = (\<lambda>_. ''404 Not Found''),
     frame_lines = buffered_lines [], derive_accept_key = id\<rparr>"

definition fixed_client :: "http_response \<Rightarrow> nat client" where
  "fixed_client res = client_new \<lparr>svc_ready = (\<lambda>s. (Inr (), s)), svc_call = (\<lambda>r s. (Inr res, Suc s))\<rparr> ''default''"

definition root_request :: client_request where
  "root_request = \<lparr>cq_op = None, cq_http = \<lparr>req_method = GET, uri = ''/'', headers = [], body = []\<rparr>\<rparr>"

lemma fixed_client_send [simp]: "send (fixed_client res) rq s = (Inr res, Suc s)"
  by (simp add: send_def fixed_client_def client_new_def)


text \<open>
  C18: a watch response is read line by line, whatever its chunks. If the body is cut off, by a
  timeout of the client or by an end in the middle of a chunk, the stream has exactly the items
  of the complete lines, in order, and then ends without an error; after another error of the
  body it has the same items and then the error. (The codec cuts texts at newlines.)
\<close>

theorem watch_stream_cut:
  assumes codec: "line_codec (frame_lines C)" and utf: "all_text (concat cs)"
    and res: "send c request s = (Inr res, s')" "rs_body res = map Inr cs @ Inl e # later"
  shows "request_events C parse c request s =
    (Inr (line_items C parse (concat cs)
       @ (if he_is_timeout e \<or> sublist ''unexpected EOF during chunk'' (he_display e) then []
          else [Inl (KReadEvents \<lparr>io_kind = OtherKind, io_source = e\<rparr>)])), s')"
proof -
  have f: "frame_lines C (map (map_err body_io_error) (rs_body res)) =
      map (Inr \<circ> decode_line) (fst (split_nl (concat cs))) @ [Inl (LinesIo (body_io_error e))]"
    using line_codec.broken [OF codec utf] res(2) by simp
  then show ?thesis
    using res(1) by (auto simp: request_events_def f body_io_error_def map_filter_append map_filter_map comp_def line_items_def List.map_filter_simps)
qed

theorem watch_stream_cut_witness:
  "request_events echo_env (\<lambda>l. Inr (WAdded l)) (fixed_client \<lparr>rs_status = 200, rs_headers = [],
       rs_body = map Inr [[97], [10, 98, 10, 99]] @ Inl \<lparr>he_is_timeout = True, he_display = ''''\<rparr> # []\<rparr>) root_request 0
     = (Inr [Inr (WAdded ''a''), Inr (WAdded ''b'')], 1)"
  by (subst watch_stream_cut [OF _ _ fixed_client_send, where e = "\<lparr>he_is_timeout = True, he_display = ''''\<rparr>" and later = "[]"
        and cs = "[[97], [10, 98, 10, 99]]"])
    (simp_all add: echo_env_def line_items_def all_text_def decode_line_def string_of_bytes_def char_of_def
       bit_Suc_0_iff List.map_filter_simps buffered.line_codec_axioms)

text \<open>
  the WebSocket handshake. The request that is sent carries the five upgrade headers, each
  exactly with its value whatever the request had, and all its other headers; and a connection
  is returned only if the server switched protocols, proved knowledge of the key and chose the
  Kubernetes subprotocol.
\<close>

theorem connect_handshake:
  assumes "connect C upgrade_on key c request s = (Inr conn, s')"
  shows "\<exists>hs res. send c (request\<lparr>cq_http := (cq_http request)\<lparr>headers := hs\<rparr>\<rparr>) s = (Inr res, s')
    \<and> map_of hs = (map_of (headers (cq_http request)))(''connection'' \<mapsto> ''Upgrade'', ''upgrade'' \<mapsto> ''websocket'',
        ''sec-websocket-version'' \<mapsto> ''13'', ''sec-websocket-key'' \<mapsto> key, ''sec-websocket-protocol'' \<mapsto> ''v4.channel.k8s.io'')
    \<and> rs_status res = 101 \<and> header_get (rs_headers res) ''sec-websocket-accept'' = Some (derive_accept_key C key)
    \<and> header_get (rs_headers res) ''sec-websocket-protocol'' = Some ''v4.channel.k8s.io''
    \<and> upgrade_on res = Inr conn"
  using assms
  by (intro exI [of _ "upgrade_headers key (headers (cq_http request))"])
    (auto simp: connect_def io_bind_eq Let_def verify_response_def upgrade_headers_def WS_PROTOCOL_def map_err_eq_Inl
      split: if_splits sum.splits)

theorem connect_handshake_witness:
  "\<exists>hs. map_of hs ''sec-websocket-key'' = Some ''k'' \<and> send (fixed_client \<lparr>rs_status = 101,
       rs_headers = [(''upgrade'', ''WebSocket''), (''connection'', ''upgrade''), (''sec-websocket-accept'', ''k''),
          (''sec-websocket-protocol'', ''v4.channel.k8s.io'')], rs_body = []\<rparr>)
       (root_request\<lparr>cq_http := (cq_http root_request)\<lparr>headers := hs\<rparr>\<rparr>) 0 =
     (Inr \<lparr>rs_status = 101,
       rs_headers = [(''upgrade'', ''WebSocket''), (''connection'', ''upgrade''), (''sec-websocket-accept'', ''k''),
          (''sec-websocket-protocol'', ''v4.channel.k8s.io'')], rs_body = []\<rparr>, 1)"
proof -
  let ?res = "\<lparr>rs_status = 101, rs_headers = [(''upgrade'', ''WebSocket''), (''connection'', ''upgrade''), (''sec-websocket-accept'', ''k''),
          (''sec-websocket-protocol'', ''v4.channel.k8s.io'')], rs_body = []\<rparr>"
  have l: "header_is (rs_headers ?res) ''upgrade'' ''websocket''" "header_is (rs_headers ?res) ''connection'' ''Upgrade''"
    by code_simp+
  have "connect echo_env (\<lambda>_. Inr ()) ''k'' (fixed_client ?res) root_request 0 = (Inr (), 1)"
    using l by (simp add: connect_def Let_def verify_response_def echo_env_def header_get_def WS_PROTOCOL_def)
  from connect_handshake [OF this] obtain hs m where
    "map_of hs = m(''sec-websocket-key'' \<mapsto> ''k'', ''sec-websocket-protocol'' \<mapsto> ''v4.channel.k8s.io'')" by blast
  then show ?thesis by (intro exI [of _ hs]) simp
qed

text \<open>
  What the builder of the http crate asks of the parts: a scheme needs an authority and a path,
  and an authority with a path needs a scheme.
\<close>

definition parts_complete :: "uri_parts \<Rightarrow> bool" where
  "parts_complete p \<longleftrightarrow>
     (if up_scheme p = None then up_authority p = None \<or> up_path_and_query p = None
      else up_authority p \<noteq> None \<and> up_path_and_query p \<noteq> None)"

text \<open>
  joining the base URI. For a base with a scheme and an authority the request goes to that
  authority, below the path of the base and without a doubled slash where the two paths meet. A
  base with an authority and no scheme, such as the cluster URL \<open>localhost:8080\<close>, panics.
\<close>

theorem base_uri_join:
  assumes build: "\<And>p. build p = (if parts_complete p then Some p else None)"
    and path: "req_pandq = CHR ''/'' # rest"
  shows "(case up_authority base of
      None \<Rightarrow> set_base_uri build base (Some req_pandq) \<noteq> None \<longleftrightarrow> up_scheme base = None
    | Some host \<Rightarrow>
        if up_scheme base = None then set_base_uri build base (Some req_pandq) = None
        else \<exists>prefix. set_base_uri build base (Some req_pandq) =
              Some \<lparr>up_scheme = up_scheme base, up_authority = Some host, up_path_and_query = Some (prefix @ req_pandq)\<rparr>
            \<and> (prefix = [] \<or> last prefix \<noteq> CHR ''/'')
            \<and> (\<exists>n. prefix @ replicate n CHR ''/'' = (case up_path_and_query base of None \<Rightarrow> [] | Some p \<Rightarrow> takeWhile (\<lambda>c. c \<noteq> CHR ''?'') p)))"
proof -
  have t: "\<exists>n. trim_end_matches c s @ replicate n c = s" for c and s :: string
  proof -
    have "rev s = takeWhile (\<lambda>x. x = c) (rev s) @ dropWhile (\<lambda>x. x = c) (rev s)" by simp
    then have "s = rev (dropWhile (\<lambda>x. x = c) (rev s)) @ rev (takeWhile (\<lambda>x. x = c) (rev s))"
      by (metis rev_append rev_rev_ident)
    moreover have "rev (takeWhile (\<lambda>x. x = c) (rev s)) = replicate (length (takeWhile (\<lambda>x. x = c) (rev s))) c"
      by (metis (mono_tags, lifting) replicate_eqI rev_replicate set_takeWhileD)
    ultimately show ?thesis unfolding trim_end_matches_def by metis
  qed
  show ?thesis using trim_end_no_slash t
    by (cases "up_path_and_query base") (auto simp: set_base_uri_def build parts_complete_def Let_def pandq_path_def split: option.splits)
qed

theorem base_uri_join_witness:
  "set_base_uri (\<lambda>p. if parts_complete p then Some p else None)
     \<lparr>up_scheme = None, up_authority = Some ''localhost:8080'', up_path_and_query = None\<rparr> (Some ''/api'') = None"
  using base_uri_join [of "\<lambda>p. if parts_complete p then Some p else None" "''/api''" "''api''"
      "\<lparr>up_scheme = None, up_authority = Some ''localhost:8080'', up_path_and_query = None\<rparr>"] by simp

end
