(* ===== verification/Cl_Api.thy ===== *)
theory Cl_Api
  imports Cl_Client Rt_Watcher
begin

text \<open>
  \<open>kube-client/src/api\<close> (\<open>mod.rs\<close>, \<open>core_methods.rs\<close>, \<open>subresource.rs\<close>, \<open>util\<close>): handles for
  the objects of one kind in one scope, and the calls on them. Every call builds its request
  with the builders of \<open>Core_Request\<close>, leaves a name for tracing in it and hands it to the
  client. The serialization of the kind is the record \<open>kind_env\<close>; the types of other kinds a
  call may return are given by their parsers.
\<close>

section \<open>Handles\<close>

record 's api_handle =
  ah_request :: request
  ah_client :: "'s client"
  ah_namespace :: "string option"

definition all_with :: "'dt resource_class \<Rightarrow> 's client \<Rightarrow> 'dt \<Rightarrow> 's api_handle" where
  "all_with R client dyntype =
     \<lparr>ah_request = request_new (resource_url_path R dyntype None), ah_client = client, ah_namespace = None\<rparr>"

definition namespaced_with :: "'dt resource_class \<Rightarrow> 's client \<Rightarrow> string \<Rightarrow> 'dt \<Rightarrow> 's api_handle" where
  "namespaced_with R client ns dyntype =
     \<lparr>ah_request = request_new (resource_url_path R dyntype (Some ns)), ah_client = client, ah_namespace = Some ns\<rparr>"

definition default_namespaced_with :: "'dt resource_class \<Rightarrow> 's client \<Rightarrow> 'dt \<Rightarrow> 's api_handle" where
  "default_namespaced_with R client dyntype = namespaced_with R client (default_namespace client) dyntype"

text \<open>The variants without \<open>_with\<close> are for kinds whose dynamic type has a default \<open>dt0\<close>.\<close>

definition api_all :: "'dt resource_class \<Rightarrow> 'dt \<Rightarrow> 's client \<Rightarrow> 's api_handle" where
  "api_all R dt0 client = all_with R client dt0"

definition api_namespaced :: "'dt resource_class \<Rightarrow> 'dt \<Rightarrow> 's client \<Rightarrow> string \<Rightarrow> 's api_handle" where
  "api_namespaced R dt0 client ns =
     \<lparr>ah_request = request_new (resource_url_path R dt0 (Some ns)), ah_client = client, ah_namespace = Some ns\<rparr>"

definition default_namespaced :: "'dt resource_class \<Rightarrow> 'dt \<Rightarrow> 's client \<Rightarrow> 's api_handle" where
  "default_namespaced R dt0 client = api_namespaced R dt0 client (default_namespace client)"

definition into_client :: "'s api_handle \<Rightarrow> 's client" where
  "into_client h = ah_client h"

definition resource_url :: "'s api_handle \<Rightarrow> string" where
  "resource_url h = url_path (ah_request h)"

section \<open>Calls\<close>

record 'k kind_env =
  ke_parse :: "string \<Rightarrow> serde_error + 'k"
  ke_parse_list :: "string \<Rightarrow> serde_error + 'k object_list"
  ke_parse_event :: "string \<Rightarrow> serde_error + 'k watch_event"
  ke_parse_meta :: "string \<Rightarrow> serde_error + partial_object_meta"
  ke_parse_meta_list :: "string \<Rightarrow> serde_error + partial_object_meta object_list"
  ke_parse_meta_event :: "string \<Rightarrow> serde_error + partial_object_meta watch_event"
  ke_to_vec :: "'k \<Rightarrow> serde_error + bytes"

record ('qp, 'k) api_env =
  ae_req :: "'qp req_env"
  ae_cl :: cl_env
  ae_kind :: "'k kind_env"

text \<open>What all calls have in common: build, tag for tracing, send.\<close>

definition api_call :: "string \<Rightarrow> request_error + http_request \<Rightarrow> (client_request \<Rightarrow> ('s, 'a) io) \<Rightarrow> ('s, 'a) io" where
  "api_call tag build send_request =
     io_bind (io_of (map_err KBuildRequest build)) (\<lambda>req. send_request \<lparr>cq_op = Some tag, cq_http = req\<rparr>)"

abbreviation typed :: "('qp, 'k) api_env \<Rightarrow> (string \<Rightarrow> serde_error + 'a) \<Rightarrow> 's api_handle \<Rightarrow> client_request \<Rightarrow> ('s, 'a) io" where
  "typed A parse h \<equiv> client_request_typed (ae_cl A) parse (ah_client h)"

subsection \<open>core\_methods.rs\<close>

definition kapi_get_with :: "('qp, 'k) api_env \<Rightarrow> 's api_handle \<Rightarrow> string \<Rightarrow> get_params \<Rightarrow> ('s, 'k) io" where
  "kapi_get_with A h name gp = api_call ''get'' (req_get (ae_req A) (ah_request h) name gp) (typed A (ke_parse (ae_kind A)) h)"

definition kapi_get :: "('qp, 'k) api_env \<Rightarrow> 's api_handle \<Rightarrow> string \<Rightarrow> ('s, 'k) io" where
  "kapi_get A h name = kapi_get_with A h name get_params_default"

definition kapi_get_metadata_with :: "('qp, 'k) api_env \<Rightarrow> 's api_handle \<Rightarrow> string \<Rightarrow> get_params \<Rightarrow> ('s, partial_object_meta) io" where
  "kapi_get_metadata_with A h name gp =
     api_call ''get_metadata'' (req_get_metadata (ae_req A) (ah_request h) name gp) (typed A (ke_parse_meta (ae_kind A)) h)"

definition kapi_get_metadata :: "('qp, 'k) api_env \<Rightarrow> 's api_handle \<Rightarrow> string \<Rightarrow> ('s, partial_object_meta) io" where
  "kapi_get_metadata A h name = kapi_get_metadata_with A h name get_params_default"

fun found_opt :: "(kube_error + 'a) \<times> 's \<Rightarrow> (kube_error + 'a option) \<times> 's" where
  "found_opt (Inr obj, s) = (Inr (Some obj), s)"
| "found_opt (Inl (KApi e), s) = (if er_reason e = ''NotFound'' then (Inr None, s) else (Inl (KApi e), s))"
| "found_opt (Inl e, s) = (Inl e, s)"

definition kapi_get_opt :: "('qp, 'k) api_env \<Rightarrow> 's api_handle \<Rightarrow> string \<Rightarrow> ('s, 'k option) io" where
  "kapi_get_opt A h name s = found_opt (kapi_get A h name s)"

definition kapi_get_metadata_opt :: "('qp, 'k) api_env \<Rightarrow> 's api_handle \<Rightarrow> string \<Rightarrow> ('s, partial_object_meta option) io" where
  "kapi_get_metadata_opt A h name s = found_opt (kapi_get_metadata A h name s)"

definition kapi_list :: "('qp, 'k) api_env \<Rightarrow> 's api_handle \<Rightarrow> list_params \<Rightarrow> ('s, 'k object_list) io" where
  "kapi_list A h lp = api_call ''list'' (req_list (ae_req A) (ah_request h) lp) (typed A (ke_parse_list (ae_kind A)) h)"

definition kapi_list_metadata :: "('qp, 'k) api_env \<Rightarrow> 's api_handle \<Rightarrow> list_params \<Rightarrow> ('s, partial_object_meta object_list) io" where
  "kapi_list_metadata A h lp =
     api_call ''list_metadata'' (req_list_metadata (ae_req A) (ah_request h) lp) (typed A (ke_parse_meta_list (ae_kind A)) h)"

definition kapi_create :: "('qp, 'k) api_env \<Rightarrow> 's api_handle \<Rightarrow> post_params \<Rightarrow> 'k \<Rightarrow> ('s, 'k) io" where
  "kapi_create A h pp data =
     io_bind (io_of (map_err KSerde (ke_to_vec (ae_kind A) data))) (\<lambda>bs.
       api_call ''create'' (req_create (ae_req A) (ah_request h) pp bs) (typed A (ke_parse (ae_kind A)) h))"

definition kapi_delete :: "('qp, 'k) api_env \<Rightarrow> 's api_handle \<Rightarrow> string \<Rightarrow> delete_params \<Rightarrow> ('s, 'k + status) io" where
  "kapi_delete A h name dp =
     api_call ''delete'' (req_delete (ae_req A) (ah_request h) name dp) (request_status (ae_cl A) (ke_parse (ae_kind A)) (ah_client h))"

definition kapi_delete_collection :: "('qp, 'k) api_env \<Rightarrow> 's api_handle \<Rightarrow> delete_params \<Rightarrow> list_params \<Rightarrow> ('s, 'k object_list + status) io" where
  "kapi_delete_collection A h dp lp =
     api_call ''delete_collection'' (req_delete_collection (ae_req A) (ah_request h) dp lp)
       (request_status (ae_cl A) (ke_parse_list (ae_kind A)) (ah_client h))"

definition kapi_patch :: "('qp, 'k) api_env \<Rightarrow> 's api_handle \<Rightarrow> string \<Rightarrow> patch_params \<Rightarrow> patch \<Rightarrow> ('s, 'k) io" where
  "kapi_patch A h name pp patch =
     api_call ''patch'' (req_patch (ae_req A) (ah_request h) name pp patch) (typed A (ke_parse (ae_kind A)) h)"

definition kapi_patch_metadata :: "('qp, 'k) api_env \<Rightarrow> 's api_handle \<Rightarrow> string \<Rightarrow> patch_params \<Rightarrow> patch \<Rightarrow> ('s, partial_object_meta) io" where
  "kapi_patch_metadata A h name pp patch =
     api_call ''patch_metadata'' (req_patch_metadata (ae_req A) (ah_request h) name pp patch) (typed A (ke_parse_meta (ae_kind A)) h)"

definition kapi_replace :: "('qp, 'k) api_env \<Rightarrow> 's api_handle \<Rightarrow> string \<Rightarrow> post_params \<Rightarrow> 'k \<Rightarrow> ('s, 'k) io" where
  "kapi_replace A h name pp data =
     io_bind (io_of (map_err KSerde (ke_to_vec (ae_kind A) data))) (\<lambda>bs.
       api_call ''replace'' (req_replace (ae_req A) (ah_request h) name pp bs) (typed A (ke_parse (ae_kind A)) h))"

definition kapi_watch :: "('qp, 'k) api_env \<Rightarrow> 's api_handle \<Rightarrow> watch_params \<Rightarrow> string \<Rightarrow> ('s, (kube_error + 'k watch_event) list) io" where
  "kapi_watch A h wp version =
     api_call ''watch'' (req_watch (ae_req A) (ah_request h) wp version) (request_events (ae_cl A) (ke_parse_event (ae_kind A)) (ah_client h))"

definition kapi_watch_metadata :: "('qp, 'k) api_env \<Rightarrow> 's api_handle \<Rightarrow> watch_params \<Rightarrow> string
     \<Rightarrow> ('s, (kube_error + partial_object_meta watch_event) list) io" where
  "kapi_watch_metadata A h wp version =
     api_call ''watch_metadata'' (req_watch_metadata (ae_req A) (ah_request h) wp version)
       (request_events (ae_cl A) (ke_parse_meta_event (ae_kind A)) (ah_client h))"

subsection \<open>subresource.rs\<close>

definition kapi_get_scale :: "('qp, 'k) api_env \<Rightarrow> (string \<Rightarrow> serde_error + 'a) \<Rightarrow> 's api_handle \<Rightarrow> string \<Rightarrow> ('s, 'a) io" where
  "kapi_get_scale A parse_scale h name =
     api_call ''get_scale'' (req_get_subresource (ae_req A) (ah_request h) ''scale'' name) (typed A parse_scale h)"

definition kapi_patch_scale :: "('qp, 'k) api_env \<Rightarrow> (string \<Rightarrow> serde_error + 'a) \<Rightarrow> 's api_handle \<Rightarrow> string \<Rightarrow> patch_params \<Rightarrow> patch \<Rightarrow> ('s, 'a) io" where
  "kapi_patch_scale A parse_scale h name pp patch =
     api_call ''patch_scale'' (req_patch_subresource (ae_req A) (ah_request h) ''scale'' name pp patch) (typed A parse_scale h)"

definition kapi_replace_scale :: "('qp, 'k) api_env \<Rightarrow> (string \<Rightarrow> serde_error + 'a) \<Rightarrow> 's api_handle \<Rightarrow> string \<Rightarrow> post_params \<Rightarrow> bytes \<Rightarrow> ('s, 'a) io" where
  "kapi_replace_scale A parse_scale h name pp data =
     api_call ''replace_scale'' (req_replace_subresource (ae_req A) (ah_request h) ''scale'' name pp data) (typed A parse_scale h)"

definition kapi_get_subresource :: "('qp, 'k) api_env \<Rightarrow> 's api_handle \<Rightarrow> string \<Rightarrow> string \<Rightarrow> ('s, 'k) io" where
  "kapi_get_subresource A h subresource_name name =
     api_call ''get_subresource'' (req_get_subresource (ae_req A) (ah_request h) subresource_name name) (typed A (ke_parse (ae_kind A)) h)"

definition kapi_create_subresource :: "('qp, 'k) api_env \<Rightarrow> (string \<Rightarrow> serde_error + 'a) \<Rightarrow> 's api_handle \<Rightarrow> string \<Rightarrow> string \<Rightarrow> post_params \<Rightarrow> bytes \<Rightarrow> ('s, 'a) io" where
  "kapi_create_subresource A parse_t h subresource_name name pp data =
     api_call ''create_subresource'' (req_create_subresource (ae_req A) (ah_request h) subresource_name name pp data) (typed A parse_t h)"

definition kapi_patch_subresource :: "('qp, 'k) api_env \<Rightarrow> 's api_handle \<Rightarrow> string \<Rightarrow> string \<Rightarrow> patch_params \<Rightarrow> patch \<Rightarrow> ('s, 'k) io" where
  "kapi_patch_subresource A h subresource_name name pp patch =
     api_call ''patch_subresource'' (req_patch_subresource (ae_req A) (ah_request h) subresource_name name pp patch) (typed A (ke_parse (ae_kind A)) h)"

definition kapi_replace_subresource :: "('qp, 'k) api_env \<Rightarrow> 's api_handle \<Rightarrow> string \<Rightarrow> string \<Rightarrow> post_params \<Rightarrow> bytes \<Rightarrow> ('s, 'k) io" where
  "kapi_replace_subresource A h subresource_name name pp data =
     api_call ''replace_subresource'' (req_replace_subresource (ae_req A) (ah_request h) subresource_name name pp data) (typed A (ke_parse (ae_kind A)) h)"

definition kapi_get_status :: "('qp, 'k) api_env \<Rightarrow> 's api_handle \<Rightarrow> string \<Rightarrow> ('s, 'k) io" where
  "kapi_get_status A h name =
     api_call ''get_status'' (req_get_subresource (ae_req A) (ah_request h) ''status'' name) (typed A (ke_parse (ae_kind A)) h)"

definition kapi_patch_status :: "('qp, 'k) api_env \<Rightarrow> 's api_handle \<Rightarrow> string \<Rightarrow> patch_params \<Rightarrow> patch \<Rightarrow> ('s, 'k) io" where
  "kapi_patch_status A h name pp patch =
     api_call ''patch_status'' (req_patch_subresource (ae_req A) (ah_request h) ''status'' name pp patch) (typed A (ke_parse (ae_kind A)) h)"

definition kapi_replace_status :: "('qp, 'k) api_env \<Rightarrow> 's api_handle \<Rightarrow> string \<Rightarrow> post_params \<Rightarrow> bytes \<Rightarrow> ('s, 'k) io" where
  "kapi_replace_status A h name pp data =
     api_call ''replace_status'' (req_replace_subresource (ae_req A) (ah_request h) ''status'' name pp data) (typed A (ke_parse (ae_kind A)) h)"

definition kapi_logs :: "('qp, 'k) api_env \<Rightarrow> 's api_handle \<Rightarrow> string \<Rightarrow> log_params \<Rightarrow> ('s, string) io" where
  "kapi_logs A h name lp = api_call ''logs'' (req_logs (ae_req A) (ah_request h) name lp) (request_text (ae_cl A) (ah_client h))"

definition kapi_log_stream :: "('qp, 'k) api_env \<Rightarrow> 's api_handle \<Rightarrow> string \<Rightarrow> log_params \<Rightarrow> ('s, (hyper_error + bytes) list) io" where
  "kapi_log_stream A h name lp = api_call ''log_stream'' (req_logs (ae_req A) (ah_request h) name lp) (request_stream (ah_client h))"

definition kapi_evict :: "('qp, 'k) api_env \<Rightarrow> 's api_handle \<Rightarrow> string \<Rightarrow> evict_params \<Rightarrow> ('s, status) io" where
  "kapi_evict A h name ep = api_call ''evict'' (req_evict (ae_req A) (ah_request h) name ep) (typed A (parse_status (ae_cl A)) h)"

text \<open>
  The calls over WebSockets. The upgrade, the random key and the constructors \<open>AttachedProcess::new\<close>
  and \<open>Portforwarder::new\<close>, which start tasks on the connection, are parameters; they are modelled in \<open>Cl_Remote\<close> and \<open>Cl_Portforward\<close>.
\<close>

definition kapi_attach :: "('qp, 'k) api_env \<Rightarrow> (http_response \<Rightarrow> hyper_error + 'ws) \<Rightarrow> string \<Rightarrow> ('ws \<Rightarrow> attach_params \<Rightarrow> 'p)
     \<Rightarrow> 's api_handle \<Rightarrow> string \<Rightarrow> attach_params \<Rightarrow> ('s, 'p) io" where
  "kapi_attach A up key new_process h name ap =
     io_bind (api_call ''attach'' (req_attach (ae_req A) (ah_request h) name ap) (connect (ae_cl A) up key (ah_client h)))
       (\<lambda>stream. io_of (Inr (new_process stream ap)))"

definition kapi_exec :: "('qp, 'k) api_env \<Rightarrow> (http_response \<Rightarrow> hyper_error + 'ws) \<Rightarrow> string \<Rightarrow> ('ws \<Rightarrow> attach_params \<Rightarrow> 'p)
     \<Rightarrow> 's api_handle \<Rightarrow> string \<Rightarrow> string list \<Rightarrow> attach_params \<Rightarrow> ('s, 'p) io" where
  "kapi_exec A up key new_process h name command ap =
     io_bind (api_call ''exec'' (req_exec (ae_req A) (ah_request h) name command ap) (connect (ae_cl A) up key (ah_client h)))
       (\<lambda>stream. io_of (Inr (new_process stream ap)))"

definition kapi_portforward :: "('qp, 'k) api_env \<Rightarrow> (http_response \<Rightarrow> hyper_error + 'ws) \<Rightarrow> string \<Rightarrow> ('ws \<Rightarrow> u16 list \<Rightarrow> 'p)
     \<Rightarrow> 's api_handle \<Rightarrow> string \<Rightarrow> u16 list \<Rightarrow> ('s, 'p) io" where
  "kapi_portforward A up key new_forwarder h name ports =
     io_bind (io_of (map_err KBuildRequest (req_portforward (ae_req A) (ah_request h) name ports))) (\<lambda>req.
       io_bind (connect (ae_cl A) up key (ah_client h) \<lparr>cq_op = None, cq_http = req\<rparr>)
         (\<lambda>stream. io_of (Inr (new_forwarder stream ports))))"

subsection \<open>util\<close>

definition kapi_restart :: "('qp, 'k) api_env \<Rightarrow> string \<Rightarrow> 's api_handle \<Rightarrow> string \<Rightarrow> ('s, 'k) io" where
  "kapi_restart A now h name = api_call ''restart'' (req_restart (ae_req A) now (ah_request h) name) (typed A (ke_parse (ae_kind A)) h)"

definition kapi_cordon :: "('qp, 'k) api_env \<Rightarrow> 's api_handle \<Rightarrow> string \<Rightarrow> ('s, 'k) io" where
  "kapi_cordon A h name = api_call ''cordon'' (req_cordon (ae_req A) (ah_request h) name) (typed A (ke_parse (ae_kind A)) h)"

definition kapi_uncordon :: "('qp, 'k) api_env \<Rightarrow> 's api_handle \<Rightarrow> string \<Rightarrow> ('s, 'k) io" where
  "kapi_uncordon A h name = api_call ''cordon'' (req_uncordon (ae_req A) (ah_request h) name) (typed A (ke_parse (ae_kind A)) h)"

definition kapi_create_token_request :: "('qp, 'k) api_env \<Rightarrow> ('t \<Rightarrow> serde_error + bytes) \<Rightarrow> (string \<Rightarrow> serde_error + 't) \<Rightarrow> 's api_handle
     \<Rightarrow> string \<Rightarrow> post_params \<Rightarrow> 't \<Rightarrow> ('s, 't) io" where
  "kapi_create_token_request A to_vec_t parse_t h name pp token_request =
     io_bind (io_of (map_err KSerde (to_vec_t token_request))) (\<lambda>bs.
       api_call ''create_token_request'' (req_create_subresource (ae_req A) (ah_request h) ''token'' name pp bs) (typed A parse_t h))"

definition kapi_patch_approval :: "('qp, 'k) api_env \<Rightarrow> 's api_handle \<Rightarrow> string \<Rightarrow> patch_params \<Rightarrow> patch \<Rightarrow> ('s, 'k) io" where
  "kapi_patch_approval A h name pp patch =
     api_call ''approval'' (req_patch_subresource (ae_req A) (ah_request h) ''approval'' name pp patch) (typed A (ke_parse (ae_kind A)) h)"

definition kapi_get_approval :: "('qp, 'k) api_env \<Rightarrow> 's api_handle \<Rightarrow> string \<Rightarrow> ('s, 'k) io" where
  "kapi_get_approval A h name = kapi_get_subresource A h ''approval'' name"

section \<open>The calls of the watcher\<close>

text \<open>
  The watcher works on a handle through the following calls. It tells apart API errors, whose
  code it looks at, and other errors, of which it only keeps a text.
\<close>

definition forget_error :: "(kube_error \<Rightarrow> string) \<Rightarrow> kube_error \<Rightarrow> client_error" where
  "forget_error display e = (case e of KApi er \<Rightarrow> CApi er | _ \<Rightarrow> COther (display e))"

definition api_of_handle :: "('qp, 'k) api_env \<Rightarrow> (kube_error \<Rightarrow> string) \<Rightarrow> 's api_handle \<Rightarrow> ('s, 'k) api" where
  "api_of_handle A display h =
     \<lparr>api_list = (\<lambda>s lp. map_prod (map_err (forget_error display)) id (kapi_list A h lp s)),
      api_watch = (\<lambda>s wp rv. map_prod (map_err (forget_error display) \<circ> map_sum id (map (map_err (forget_error display)))) id (kapi_watch A h wp rv s)),
      api_list_metadata = (\<lambda>s lp. map_prod (map_err (forget_error display)) id (kapi_list_metadata A h lp s)),
      api_watch_metadata = (\<lambda>s wp rv. map_prod (map_err (forget_error display) \<circ> map_sum id (map (map_err (forget_error display)))) id (kapi_watch_metadata A h wp rv s))\<rparr>"

section \<open>What is sent\<close>

text \<open>
  A service that keeps the requests it was called with, in order, in the first part of its
  state. The contract \<open>single_send\<close> of a way to send a request: it is handed over at most once,
  and exactly once when there is a result.
\<close>

definition logging :: "(client_request list \<times> 'w) client \<Rightarrow> bool" where
  "logging c \<longleftrightarrow>
     (\<forall>log w. fst (snd (svc_ready (cl_inner c) (log, w))) = log)
     \<and> (\<forall>q log w. fst (snd (svc_call (cl_inner c) q (log, w))) = log @ [q])"

locale single_send =
  fixes handle :: "(client_request list \<times> 'w) client \<Rightarrow> client_request \<Rightarrow> (client_request list \<times> 'w, 'a) io"
  assumes at_most_once: "\<lbrakk>logging c; handle c q (log, w) = (r, (log', w'))\<rbrakk> \<Longrightarrow> log' = log \<and> isl r \<or> log' = log @ [q]"
begin

lemma call_sends:
  assumes "logging c" and "api_call tag build (handle c) (log, w) = (r, (log', w'))"
  shows "case build of
      Inl e \<Rightarrow> r = Inl (KBuildRequest e) \<and> log' = log \<and> w' = w
    | Inr req \<Rightarrow> log' = log \<and> isl r \<or> log' = log @ [\<lparr>cq_op = Some tag, cq_http = req\<rparr>]"
  using assms by (auto simp: api_call_def io_bind_eq split: sum.splits dest: at_most_once)

end

lemma send_logs:
  "\<lbrakk>logging c; send c q (log, w) = (r, (log', w'))\<rbrakk> \<Longrightarrow> log' = log \<and> isl r \<or> log' = log @ [q]"
  unfolding logging_def send_def
  by (auto split: prod.splits sum.splits) (metis fst_conv snd_conv)+

lemma bind_pure_logs:
  assumes "\<And>c log w r log' w'. \<lbrakk>logging c; m c (log, w) = (r, (log', w'))\<rbrakk> \<Longrightarrow> log' = log \<and> isl r \<or> log' = log @ [q]"
    and "logging c" "io_bind (m c) (\<lambda>a. io_of (f a)) (log, w) = (r, (log', w'))"
  shows "log' = log \<and> isl r \<or> log' = log @ [q]"
  using assms(3) assms(1) [OF assms(2)] by (fastforce simp: io_bind_eq)

interpretation raw: single_send send
  by unfold_locales (rule send_logs)

lemma request_text_logs:
  "\<lbrakk>logging c; request_text C c q (log, w) = (r, (log', w'))\<rbrakk> \<Longrightarrow> log' = log \<and> isl r \<or> log' = log @ [q]"
  unfolding request_text_def Let_def by (rule bind_pure_logs [of "\<lambda>c. send c q"]) (auto dest: send_logs)

interpretation texts: single_send "request_text C" for C
  by unfold_locales (rule request_text_logs)

interpretation typed_calls: single_send "client_request_typed C parse" for C parse
  by unfold_locales (rule bind_pure_logs [of "\<lambda>c. request_text C c q" for q], auto simp: client_request_typed_def dest: request_text_logs)

interpretation status_calls: single_send "request_status C parse" for C parse
  by unfold_locales (rule bind_pure_logs [of "\<lambda>c. request_text C c q" for q], auto simp: request_status_def dest: request_text_logs)

interpretation watch_calls: single_send "request_events C parse" for C parse
  by unfold_locales (rule bind_pure_logs [of "\<lambda>c. send c q" for q], auto simp: request_events_def dest: send_logs)

text \<open>
  A call with the request it prepares, or the error that prevents it: the error is returned and
  nothing is sent, or the request is sent at most once, and exactly once if there is a result.
\<close>

definition prepared :: "string \<Rightarrow> request_error + http_request \<Rightarrow> kube_error + client_request" where
  "prepared tag build = rbind (map_err KBuildRequest build) (\<lambda>req. Inr \<lparr>cq_op = Some tag, cq_http = req\<rparr>)"

definition sends_once :: "(client_request list \<times> 'w, 'a) io \<Rightarrow> kube_error + client_request \<Rightarrow> bool" where
  "sends_once m q \<longleftrightarrow> (\<forall>log w r log' w'. m (log, w) = (r, (log', w')) \<longrightarrow>
     (case q of
        Inl e \<Rightarrow> r = Inl e \<and> log' = log \<and> w' = w
      | Inr q \<Rightarrow> log' = log \<and> isl r \<or> log' = log @ [q]))"

context single_send
begin

lemma call_sends_once: "logging c \<Longrightarrow> sends_once (api_call tag build (handle c)) (prepared tag build)"
  unfolding sends_once_def prepared_def using call_sends by (fastforce split: sum.splits)

end

lemma sends_once_bind: "(\<And>bs. x = Inr bs \<Longrightarrow> sends_once (f bs) (g bs)) \<Longrightarrow> sends_once (io_bind (io_of x) f) (rbind x g)"
  by (cases x) (auto simp: sends_once_def io_bind_def)

section \<open>Properties\<close>


definition log_client :: "http_response \<Rightarrow> (client_request list \<times> unit) client" where
  "log_client res = client_new \<lparr>svc_ready = (\<lambda>s. (Inr (), s)), svc_call = (\<lambda>q (log, w). (Inr res, (log @ [q], w)))\<rparr> ''default''"

lemma log_client_logging: "logging (log_client res)"
  by (auto simp: logging_def log_client_def client_new_def)

lemma log_client_send [simp]: "send (log_client res) q (log, w) = (Inr res, (log @ [q], w))"
  by (simp add: send_def log_client_def client_new_def)

definition text_req_env :: "string req_env" where
  "text_req_env = \<lparr>ser_new = id, append_pair = (\<lambda>q k v. q @ ''&'' @ k @ ''='' @ v), ser_finish = id, to_vec = (\<lambda>_. Inr []), http_check = (\<lambda>_. None)\<rparr>"

definition text_env :: "(string, string) api_env" where
  "text_env = \<lparr>ae_req = text_req_env, ae_cl = echo_env,
     ae_kind = \<lparr>ke_parse = Inr, ke_parse_list = (\<lambda>_. Inr \<lparr>ol_metadata = \<lparr>lm_continue = None, lm_remaining_item_count = None, lm_resource_version = Some ''1''\<rparr>, ol_items = []\<rparr>),
       ke_parse_event = (\<lambda>_. Inl \<lparr>se_is_eof = False, se_display = ''''\<rparr>), ke_parse_meta = (\<lambda>_. Inl \<lparr>se_is_eof = False, se_display = ''''\<rparr>),
       ke_parse_meta_list = (\<lambda>_. Inl \<lparr>se_is_eof = False, se_display = ''''\<rparr>), ke_parse_meta_event = (\<lambda>_. Inl \<lparr>se_is_eof = False, se_display = ''''\<rparr>),
       ke_to_vec = (\<lambda>s. Inr (map (\<lambda>c. of_nat (of_char c)) s))\<rparr>\<rparr>"


text \<open>
  \<open>get_opt\<close> separates a missing object from failures. When the server has answered a get,
  the result is the parsed object for a status that is no error, \<open>None\<close> exactly for an error
  response whose reason is \<open>NotFound\<close>, and an error for everything else, a 404 without such a
  body included.
\<close>

theorem get_opt_exact:
  assumes "req_get (ae_req A) (ah_request h) name get_params_default = Inr req"
    and "send (ah_client h) \<lparr>cq_op = Some ''get'', cq_http = req\<rparr> s = (Inr res, s')"
    and "body_to_bytes (rs_body res) = Inr bs" and "valid_utf8 bs"
  shows "kapi_get_opt A h name s =
    (if 400 \<le> unat (rs_status res) \<and> unat (rs_status res) < 600 then
       (case parse_error_response (ae_cl A) (string_of_bytes bs) of
          Inr e \<Rightarrow> if er_reason e = ''NotFound'' then Inr None else Inl (KApi e)
        | Inl _ \<Rightarrow> Inl (KApi \<lparr>er_status = status_display (ae_cl A) (rs_status res), er_message = debug_str (ae_cl A) (string_of_bytes bs),
                         er_reason = ''Failed to parse error data'', er_code = rs_status res\<rparr>))
     else (case ke_parse (ae_kind A) (string_of_bytes bs) of Inr obj \<Rightarrow> Inr (Some obj) | Inl e \<Rightarrow> Inl (KSerde e)), s')"
  using assms(1,4)
  by (auto simp: kapi_get_opt_def kapi_get_def kapi_get_with_def api_call_def io_bind_def client_request_typed_def
      request_text_response [OF assms(2,3)] split: sum.splits)

theorem get_opt_exact_witness:
  "let h = \<lparr>ah_request = request_new ''/api/v1/pods'', ah_client = log_client \<lparr>rs_status = 404, rs_headers = [], rs_body = [Inr [97]]\<rparr>, ah_namespace = None\<rparr>
   in fst (kapi_get_opt text_env h ''x'' ([], ())) =
        Inl (KApi \<lparr>er_status = ''404 Not Found'', er_message = ''a'', er_reason = ''Failed to parse error data'', er_code = 404\<rparr>)"
  by (simp only: Let_def, subst get_opt_exact [where res = "\<lparr>rs_status = 404, rs_headers = [], rs_body = [Inr [97]]\<rparr>" and bs = "[97]" and
        req = "\<lparr>req_method = GET, uri = ''/api/v1/pods/x'', headers = [], body = []\<rparr>"])
    (simp_all add: text_env_def text_req_env_def echo_env_def req_get_def get_url_def get_params_default_def build_body_def request_new_def
      string_of_bytes_def char_of_def bit_Suc_0_iff log_client_def send_def client_new_def)

section \<open>A watch that is refused with an HTTP status\<close>

lemma watcher_step_closed: "watcher_step M meta wc (Watching rv []) s = watcher_step M meta wc (InitListed rv) s"
  by (subst watcher_step.simps) (simp add: step_trampolined_def)

lemma refused_watch_step:
  assumes "line_codec (frame_lines (ae_cl A))"
    and "req_watch (ae_req A) (ah_request h) (to_watch_params wc) rv = Inr req"
    and "send (ah_client h) \<lparr>cq_op = Some ''watch'', cq_http = req\<rparr> s = (Inr res, s')"
    and "rs_body res = map Inr cs" "split_nl (concat cs) = ([line], [])" "valid_utf8 line"
    and "ke_parse_event (ae_kind A) (decode_line line) = Inl pe" "\<not> se_is_eof pe"
    and "parse_error_response (ae_cl A) (decode_line line) = Inr e"
  shows "watcher_step (full_object (api_of_handle A display h)) meta wc (InitListed rv) s
    = Some (Inr (Inl (WatchFailed (CApi e)), Watching rv [], s'))"
proof -
  have t: "all_text (concat cs)" using assms(5,6) by (simp add: all_text_def)
  have "line_items (ae_cl A) (ke_parse_event (ae_kind A)) (concat cs) = [Inl (KApi e)]"
    using assms(5,7-9) by (simp add: line_items_def List.map_filter_simps)
  then have "kapi_watch A h (to_watch_params wc) rv s = (Inr [Inl (KApi e)], s')"
    using request_events_clean [OF assms(1) t assms(3,4), of "ke_parse_event (ae_kind A)"] assms(2,5)
    by (simp add: kapi_watch_def api_call_def io_bind_def)
  then have w: "am_watch (full_object (api_of_handle A display h)) s (to_watch_params wc) rv = (Inr [Inl (CApi e)], s')"
    by (simp add: full_object_def api_of_handle_def forget_error_def)
  have "watcher_step (full_object (api_of_handle A display h)) meta wc (InitListed rv) s
      = watcher_step (full_object (api_of_handle A display h)) meta wc (Watching rv [Inl (CApi e)]) s'"
    by (subst watcher_step.simps) (simp add: step_trampolined_def w)
  also have "\<dots> = Some (Inr (Inl (WatchFailed (CApi e)), Watching rv [], s'))"
    by (subst watcher_step.simps) (simp add: step_trampolined_def)
  finally show ?thesis .
qed


definition gone :: error_response where
  "gone = \<lparr>er_status = ''Failure'', er_message = ''too old resource version'', er_reason = ''Expired'', er_code = 410\<rparr>"

definition gone_env :: "(string, string) api_env" where
  "gone_env = text_env\<lparr>ae_cl := echo_env\<lparr>parse_error_response := (\<lambda>_. Inr gone)\<rparr>\<rparr>"

definition gone_handle :: "nat api_handle" where
  "gone_handle = \<lparr>ah_request = request_new ''/api/v1/pods'', ah_client = fixed_client \<lparr>rs_status = 410, rs_headers = [], rs_body = map Inr [[101, 10]]\<rparr>, ah_namespace = None\<rparr>"


end
