(* ===== verification/Cl_Entry.thy ===== *)
theory Cl_Entry
  imports Cl_Api
begin

text \<open>
  \<open>kube-client/src/api/entry.rs\<close>: the entry of a named object, as for a map: fetched, modified
  or inserted locally, and committed with a create or a replace request. An entry holds the
  handle it was made from; the accessor of the metadata of a kind (\<open>meta\<close> and \<open>meta_mut\<close> of
  \<open>Resource\<close>) is the record \<open>meta_lens\<close>.
\<close>

section \<open>Entries\<close>

record 'k meta_lens =
  ml_get :: "'k \<Rightarrow> object_meta"
  ml_update :: "(object_meta \<Rightarrow> object_meta) \<Rightarrow> 'k \<Rightarrow> 'k"

datatype dirtiness = Clean | Dirty | New

record ('s, 'k) occupied_entry =
  oe_api :: "'s api_handle"
  oe_dirtiness :: dirtiness
  oe_name :: string
  oe_object :: 'k

record 's vacant_entry =
  ve_api :: "'s api_handle"
  ve_name :: string

datatype ('s, 'k) entry = Occupied "('s, 'k) occupied_entry" | Vacant "'s vacant_entry"

definition api_entry :: "('qp, 'k) api_env \<Rightarrow> 's api_handle \<Rightarrow> string \<Rightarrow> ('s, ('s, 'k) entry) io" where
  "api_entry A h name =
     io_bind (kapi_get_opt A h name) (\<lambda>found. io_of (Inr (case found of
        Some object \<Rightarrow> Occupied \<lparr>oe_api = h, oe_dirtiness = Clean, oe_name = name, oe_object = object\<rparr>
      | None \<Rightarrow> Vacant \<lparr>ve_api = h, ve_name = name\<rparr>)))"

definition oe_get :: "('s, 'k) occupied_entry \<Rightarrow> 'k" where
  "oe_get e = oe_object e"

text \<open>\<open>get_mut\<close> hands out a mutable reference; what is done with it is the function \<open>f\<close>.\<close>

definition oe_get_mut :: "('k \<Rightarrow> 'k) \<Rightarrow> ('s, 'k) occupied_entry \<Rightarrow> ('s, 'k) occupied_entry" where
  "oe_get_mut f e = e\<lparr>oe_dirtiness := (case oe_dirtiness e of Clean \<Rightarrow> Dirty | Dirty \<Rightarrow> Dirty | New \<Rightarrow> New),
     oe_object := f (oe_object e)\<rparr>"

definition oe_and_modify :: "('k \<Rightarrow> 'k) \<Rightarrow> ('s, 'k) occupied_entry \<Rightarrow> ('s, 'k) occupied_entry" where
  "oe_and_modify f e = oe_get_mut f e"

definition into_object :: "('s, 'k) occupied_entry \<Rightarrow> 'k" where
  "into_object e = oe_object e"

definition vacant_insert :: "'k \<Rightarrow> 's vacant_entry \<Rightarrow> ('s, 'k) occupied_entry" where
  "vacant_insert object e = \<lparr>oe_api = ve_api e, oe_dirtiness = New, oe_name = ve_name e, oe_object = object\<rparr>"

fun entry_get :: "('s, 'k) entry \<Rightarrow> 'k option" where
  "entry_get (Occupied e) = Some (oe_get e)"
| "entry_get (Vacant e) = None"

fun entry_get_mut :: "('k \<Rightarrow> 'k) \<Rightarrow> ('s, 'k) entry \<Rightarrow> ('s, 'k) entry" where
  "entry_get_mut f (Occupied e) = Occupied (oe_get_mut f e)"
| "entry_get_mut f (Vacant e) = Vacant e"

fun entry_and_modify :: "('k \<Rightarrow> 'k) \<Rightarrow> ('s, 'k) entry \<Rightarrow> ('s, 'k) entry" where
  "entry_and_modify f (Occupied e) = Occupied (oe_and_modify f e)"
| "entry_and_modify f (Vacant e) = Vacant e"

fun or_insert :: "'k \<Rightarrow> ('s, 'k) entry \<Rightarrow> ('s, 'k) occupied_entry" where
  "or_insert obj (Occupied e) = e"
| "or_insert obj (Vacant e) = vacant_insert obj e"

section \<open>Committing\<close>

datatype commit_validation_error =
    NameMismatch string string
  | NamespaceMismatch "string option" "string option"
  | GenerateName string

datatype commit_error = Validate commit_validation_error | Save kube_error

text \<open>
  The three checks in their order. Names that are missing are filled in before a later check
  may fail, so the object is returned in every case.
\<close>

definition check_name :: "string \<Rightarrow> object_meta \<Rightarrow> (commit_validation_error + unit) \<times> object_meta" where
  "check_name expected m =
     (case m_name m of
        None \<Rightarrow> (Inr (), m\<lparr>m_name := Some expected\<rparr>)
      | Some name \<Rightarrow> (if name \<noteq> expected then Inl (NameMismatch name expected) else Inr (), m))"

definition check_namespace :: "string option \<Rightarrow> object_meta \<Rightarrow> (commit_validation_error + unit) \<times> object_meta" where
  "check_namespace expected m =
     (case m_namespace m of
        None \<Rightarrow> (Inr (), m\<lparr>m_namespace := expected\<rparr>)
      | Some ns \<Rightarrow> (if Some ns \<noteq> expected then Inl (NamespaceMismatch (Some ns) expected) else Inr (), m))"

definition check_generate_name :: "object_meta \<Rightarrow> (commit_validation_error + unit) \<times> object_meta" where
  "check_generate_name m =
     (case m_generate_name m of Some generate_name \<Rightarrow> (Inl (GenerateName generate_name), m) | None \<Rightarrow> (Inr (), m))"

definition prepare_meta :: "string \<Rightarrow> string option \<Rightarrow> object_meta \<Rightarrow> (commit_validation_error + unit) \<times> object_meta" where
  "prepare_meta name ns m =
     (case check_name name m of
        (Inl e, m) \<Rightarrow> (Inl e, m)
      | (Inr _, m) \<Rightarrow>
          (case check_namespace ns m of
             (Inl e, m) \<Rightarrow> (Inl e, m)
           | (Inr _, m) \<Rightarrow> check_generate_name m))"

definition prepare_for_commit :: "'k meta_lens \<Rightarrow> ('s, 'k) occupied_entry
     \<Rightarrow> (commit_validation_error + unit) \<times> ('s, 'k) occupied_entry" where
  "prepare_for_commit M e =
     (case prepare_meta (oe_name e) (ah_namespace (oe_api e)) (ml_get M (oe_object e)) of
        (r, m) \<Rightarrow> (r, e\<lparr>oe_object := ml_update M (\<lambda>_. m) (oe_object e)\<rparr>))"

definition commit :: "('qp, 'k) api_env \<Rightarrow> 'k meta_lens \<Rightarrow> post_params \<Rightarrow> ('s, 'k) occupied_entry \<Rightarrow> 's
     \<Rightarrow> (commit_error + unit) \<times> ('s, 'k) occupied_entry \<times> 's" where
  "commit A M pp e0 s =
     (case prepare_for_commit M e0 of
        (Inl err, e) \<Rightarrow> (Inl (Validate err), e, s)
      | (Inr _, e) \<Rightarrow>
          let finish = (\<lambda>e. if pp_dry_run pp then e else e\<lparr>oe_dirtiness := Clean\<rparr>);
              saved = (\<lambda>(r, s'). case r of
                  Inl err \<Rightarrow> (Inl (Save err), e, s')
                | Inr object \<Rightarrow> (Inr (), finish (e\<lparr>oe_object := object\<rparr>), s'))
          in (case oe_dirtiness e of
                New \<Rightarrow> saved (kapi_create A (oe_api e) pp (oe_object e) s)
              | Dirty \<Rightarrow> saved (kapi_replace A (oe_api e) (oe_name e) pp (oe_object e) s)
              | Clean \<Rightarrow> (Inr (), finish e, s)))"

section \<open>Access to the metadata\<close>

text \<open>\<open>meta_mut\<close> gives access to what \<open>meta\<close> shows, and to nothing else.\<close>

locale meta_access =
  fixes M :: "'k meta_lens"
  assumes get_update [simp]: "ml_get M (ml_update M f k) = f (ml_get M k)"
    and update_update [simp]: "ml_update M f (ml_update M g k) = ml_update M (f \<circ> g) k"
    and update_same: "f (ml_get M k) = ml_get M k \<Longrightarrow> ml_update M f k = k"

definition dynamic_lens :: "dynamic_object meta_lens" where
  "dynamic_lens = \<lparr>ml_get = do_metadata, ml_update = (\<lambda>f d. d\<lparr>do_metadata := f (do_metadata d)\<rparr>)\<rparr>"

interpretation dynamic: meta_access dynamic_lens
  by unfold_locales (auto simp: dynamic_lens_def)

section \<open>Validation\<close>

text \<open>What a commit makes of the metadata when it accepts it.\<close>

definition fill :: "string \<Rightarrow> string option \<Rightarrow> object_meta \<Rightarrow> object_meta" where
  "fill name ns m = m\<lparr>m_name := Some name, m_namespace := opt_or (m_namespace m) ns\<rparr>"

definition set_name :: "string \<Rightarrow> object_meta \<Rightarrow> object_meta" where
  "set_name name m = m\<lparr>m_name := Some name\<rparr>"

definition acceptable :: "string \<Rightarrow> string option \<Rightarrow> object_meta \<Rightarrow> bool" where
  "acceptable name ns m \<longleftrightarrow> m_name m \<in> {None, Some name} \<and> (m_namespace m = None \<or> m_namespace m = ns) \<and> m_generate_name m = None"

lemma prepare_meta_ok: "fst (prepare_meta name ns m) = Inr () \<longleftrightarrow> acceptable name ns m"
  by (auto simp: prepare_meta_def check_name_def check_namespace_def check_generate_name_def acceptable_def split: option.splits)

lemma prepare_meta_fill: "acceptable name ns m \<Longrightarrow> prepare_meta name ns m = (Inr (), fill name ns m)"
  by (auto simp: prepare_meta_def check_name_def check_namespace_def check_generate_name_def acceptable_def fill_def split: option.splits)

lemma acceptable_fill: "acceptable name ns m \<Longrightarrow> acceptable name ns (fill name ns m)"
  by (auto simp: acceptable_def fill_def opt_or_def split: option.splits)

lemma fill_idem [simp]: "fill name ns (fill name ns m) = fill name ns m"
  by (cases "m_namespace m"; cases ns) (simp_all add: fill_def)

lemma prepare_meta_refuses:
  "\<not> acceptable name ns m \<Longrightarrow> \<exists>e m'. prepare_meta name ns m = (Inl e, m') \<and> m' \<in> {m, set_name name m, fill name ns m}"
  by (auto simp: set_name_def prepare_meta_def check_name_def check_namespace_def check_generate_name_def acceptable_def fill_def
      split: option.splits)

section \<open>Sequences of changes and commits\<close>

datatype 'k entry_op = Modify "'k \<Rightarrow> 'k" | Commit post_params

text \<open>
  A run over an occupied entry, together with the object the server returned from the last
  commit that was not a dry run, or from the lookup of the entry.
\<close>

fun entry_step :: "('qp, 'k) api_env \<Rightarrow> 'k meta_lens \<Rightarrow> 'k entry_op \<Rightarrow> ('s, 'k) occupied_entry \<times> 'k option \<times> 's
     \<Rightarrow> ('s, 'k) occupied_entry \<times> 'k option \<times> 's" where
  "entry_step A M (Modify f) (e, saved, s) = (oe_and_modify f e, saved, s)"
| "entry_step A M (Commit pp) (e, saved, s) =
     (case commit A M pp e s of (r, e', s') \<Rightarrow>
        (e', if r = Inr () \<and> oe_dirtiness e \<noteq> Clean \<and> \<not> pp_dry_run pp then Some (oe_object e') else saved, s'))"

definition entry_run :: "('qp, 'k) api_env \<Rightarrow> 'k meta_lens \<Rightarrow> 'k entry_op list \<Rightarrow> ('s, 'k) occupied_entry \<times> 'k option \<times> 's
     \<Rightarrow> ('s, 'k) occupied_entry \<times> 'k option \<times> 's" where
  "entry_run A M ops st = fold (entry_step A M) ops st"

text \<open>The forms of an object that differ from it in filled-in names only.\<close>

definition filled :: "'k meta_lens \<Rightarrow> string \<Rightarrow> string option \<Rightarrow> 'k \<Rightarrow> 'k set" where
  "filled M name ns k = {k, ml_update M (set_name name) k, ml_update M (fill name ns) k}"

definition entry_inv :: "'k meta_lens \<Rightarrow> 's api_handle \<Rightarrow> string \<Rightarrow> ('s, 'k) occupied_entry \<times> 'k option \<times> 's \<Rightarrow> bool" where
  "entry_inv M h name = (\<lambda>(e, saved, s). oe_api e = h \<and> oe_name e = name
     \<and> (oe_dirtiness e = New \<longleftrightarrow> saved = None)
     \<and> (oe_dirtiness e = Clean \<longrightarrow> (\<exists>k. saved = Some k \<and> oe_object e \<in> filled M name (ah_namespace h) k)))"

lemma prepare_fields:
  "prepare_for_commit M e = (r, e') \<Longrightarrow> oe_api e' = oe_api e \<and> oe_name e' = oe_name e \<and> oe_dirtiness e' = oe_dirtiness e"
  by (auto simp: prepare_for_commit_def split: prod.splits)

context meta_access
begin

lemma update_const: "f (ml_get M k) = m \<Longrightarrow> ml_update M (\<lambda>_. m) k = ml_update M f k"
proof -
  assume "f (ml_get M k) = m"
  then have "ml_update M (\<lambda>_. m) (ml_update M f k) = ml_update M f k" by (intro update_same) simp
  moreover have "ml_update M (\<lambda>_. m) (ml_update M f k) = ml_update M (\<lambda>_. m) k" by (simp add: comp_def)
  ultimately show ?thesis by simp
qed

lemma prepare_filled:
  assumes "prepare_for_commit M e = (r, e')" and "oe_object e \<in> filled M (oe_name e) (ah_namespace (oe_api e)) k"
  shows "oe_object e' \<in> filled M (oe_name e) (ah_namespace (oe_api e)) k"
proof -
  let ?n = "oe_name e" and ?ns = "ah_namespace (oe_api e)"
  let ?m = "ml_get M (oe_object e)"
  obtain m' where p: "prepare_meta ?n ?ns ?m = (r, m')" "oe_object e' = ml_update M (\<lambda>_. m') (oe_object e)"
    using assms(1) by (auto simp: prepare_for_commit_def split: prod.splits)
  have "m' \<in> {?m, set_name ?n ?m, fill ?n ?ns ?m}"
    using prepare_meta_fill [of ?n ?ns ?m] prepare_meta_refuses [of ?n ?ns ?m] p(1) by (cases "acceptable ?n ?ns ?m") auto
  then consider "m' = ?m" | "m' = set_name ?n ?m" | "m' = fill ?n ?ns ?m" by blast
  then show ?thesis
  proof cases
    case 1
    then show ?thesis using p(2) update_same [of "\<lambda>_. m'"] assms(2) by simp
  next
    case 2
    then have "oe_object e' = ml_update M (set_name ?n) (oe_object e)" using p(2) update_const by simp
    moreover have "set_name ?n \<circ> fill ?n ?ns = fill ?n ?ns"
      "set_name ?n \<circ> set_name ?n = set_name ?n"
      by (simp_all add: fun_eq_iff fill_def set_name_def)
    ultimately show ?thesis using assms(2) by (auto simp: filled_def)
  next
    case 3
    then have "oe_object e' = ml_update M (fill ?n ?ns) (oe_object e)" using p(2) update_const by simp
    moreover have "fill ?n ?ns \<circ> fill ?n ?ns = fill ?n ?ns" "fill ?n ?ns \<circ> set_name ?n = fill ?n ?ns"
      by (auto simp: fun_eq_iff) (simp add: fill_def set_name_def)
    ultimately show ?thesis using assms(2) by (auto simp: filled_def)
  qed
qed

lemma commit_step_inv [inv_intros]:
  assumes inv: "entry_inv M h name (e, saved, s)"
  shows "entry_inv M h name (entry_step A M (Commit pp) (e, saved, s))"
proof -
  obtain r1 e1 where p: "prepare_for_commit M e = (r1, e1)" by fastforce
  note f = prepare_fields [OF p] and c = prepare_filled [OF p]
  show ?thesis
  proof (cases "oe_dirtiness e")
    case Clean
    then show ?thesis using inv p f c
      by (cases r1) (auto simp: entry_inv_def commit_def Let_def)
  next
    case Dirty
    then show ?thesis using inv p f
      by (cases r1) (auto simp: entry_inv_def commit_def Let_def filled_def split: prod.splits sum.splits)
  next
    case New
    then show ?thesis using inv p f
      by (cases r1) (auto simp: entry_inv_def commit_def Let_def filled_def split: prod.splits sum.splits)
  qed
qed

lemma modify_step_inv [inv_intros]:
  "entry_inv M h name (e, saved, s) \<Longrightarrow> entry_inv M h name (entry_step A M (Modify f) (e, saved, s))"
  by (cases "oe_dirtiness e") (auto simp: entry_inv_def oe_and_modify_def oe_get_mut_def)

lemma run_inv: "entry_inv M h name st \<Longrightarrow> entry_inv M h name (entry_run A M ops st)"
  unfolding entry_run_def
proof (induction ops arbitrary: st)
  case (Cons op ops)
  have "entry_inv M h name (entry_step A M op st)"
    using Cons.prems by (cases op; cases st) (auto simp del: entry_step.simps intro: inv_intros)
  then show ?case using Cons.IH by simp
qed simp

end

section \<open>Properties\<close>

text \<open>
  what a commit may send. A commit is refused, and nothing is sent, exactly when the object
  has another name than the entry, another namespace than the handle or a name to generate;
  otherwise the object that is created or replaced has exactly the name of the entry and, if
  the object had none, the namespace of the handle, and is unchanged apart from that. A clean
  entry sends nothing.
\<close>

theorem commit_validates:
  assumes "meta_access M" and "commit A M pp e s = (r, e', s')"
  shows "if acceptable (oe_name e) (ah_namespace (oe_api e)) (ml_get M (oe_object e)) then
      (let obj = ml_update M (fill (oe_name e) (ah_namespace (oe_api e))) (oe_object e) in
       if oe_dirtiness e = Clean then r = Inr () \<and> s' = s \<and> e' = e\<lparr>oe_object := obj\<rparr>
       else \<exists>answer. (if oe_dirtiness e = New then kapi_create A (oe_api e) pp obj s
                     else kapi_replace A (oe_api e) (oe_name e) pp obj s) = (answer, s')
          \<and> (case answer of
                Inl err \<Rightarrow> r = Inl (Save err) \<and> e' = e\<lparr>oe_object := obj\<rparr>
              | Inr new \<Rightarrow> r = Inr () \<and> e' = e\<lparr>oe_object := new, oe_dirtiness := (if pp_dry_run pp then oe_dirtiness e else Clean)\<rparr>))
    else (\<exists>v. r = Inl (Validate v)) \<and> s' = s \<and> oe_dirtiness e' = oe_dirtiness e"
proof -
  let ?n = "oe_name e" and ?ns = "ah_namespace (oe_api e)"
  show ?thesis
  proof (cases "acceptable ?n ?ns (ml_get M (oe_object e))")
    case True
    have "prepare_for_commit M e = (Inr (), e\<lparr>oe_object := ml_update M (fill ?n ?ns) (oe_object e)\<rparr>)"
      using prepare_meta_fill [OF True] meta_access.update_const [OF assms(1)] by (simp add: prepare_for_commit_def)
    then show ?thesis using assms(2) True
      by (cases "oe_dirtiness e") (auto simp: commit_def Let_def split: prod.splits sum.splits)
  next
    case False
    then show ?thesis using prepare_meta_refuses [OF False] assms(2)
      by (auto simp: commit_def prepare_for_commit_def split: prod.splits)
  qed
qed

definition sample_entry :: "dirtiness \<Rightarrow> (client_request list \<times> unit, dynamic_object) occupied_entry" where
  "sample_entry d =
     \<lparr>oe_api = \<lparr>ah_request = request_new ''/api/v1/configmaps'', ah_client = log_client \<lparr>rs_status = 200, rs_headers = [], rs_body = []\<rparr>, ah_namespace = Some ''ns''\<rparr>,
      oe_dirtiness = d, oe_name = ''a'', oe_object = \<lparr>do_types = None, do_metadata = object_meta_default\<lparr>m_name := Some ''b''\<rparr>, do_data = JNull\<rparr>\<rparr>"

theorem commit_validates_witness:
  "fst (commit A dynamic_lens post_params_default (sample_entry New) ([], ())) = Inl (Validate (NameMismatch ''b'' ''a''))
   \<and> snd (snd (commit A dynamic_lens post_params_default (sample_entry New) ([], ()))) = ([], ())"
proof -
  obtain r e' s' where c: "commit A dynamic_lens post_params_default (sample_entry New) ([], ()) = (r, e', s')" by (metis prod_cases3)
  have na: "\<not> acceptable (oe_name (sample_entry New)) (ah_namespace (oe_api (sample_entry New))) (ml_get dynamic_lens (oe_object (sample_entry New)))"
    by (simp add: acceptable_def sample_entry_def dynamic_lens_def object_meta_default_def)
  have "s' = ([], ())" using commit_validates [OF dynamic.meta_access_axioms c] na by simp
  moreover have "r = Inl (Validate (NameMismatch ''b'' ''a''))"
    using c by (auto simp: commit_def prepare_for_commit_def prepare_meta_def check_name_def sample_entry_def dynamic_lens_def object_meta_default_def)
  ultimately show ?thesis using c by simp
qed



end
