(* ===== verification/Rt_Wait.thy ===== *)
theory Rt_Wait
  imports Cl_Api
begin

text \<open>
  \<open>kube-runtime/src/wait.rs\<close>: waiting for a condition on an object, the conditions that come
  with the library and their combinators, and deleting an object and waiting until it is gone.
  The items of the watched object are those of \<open>watch_object\<close>; a condition is a predicate on the
  object, if there is one. Pods, jobs and custom resource definitions have the fields of their
  status that the conditions look at.
\<close>

section \<open>Conditions\<close>

type_synonym 'k condition = "'k option \<Rightarrow> bool"

definition cond_not :: "'k condition \<Rightarrow> 'k condition" where
  "cond_not a obj \<longleftrightarrow> \<not> a obj"

definition cond_and :: "'k condition \<Rightarrow> 'k condition \<Rightarrow> 'k condition" where
  "cond_and a b obj \<longleftrightarrow> a obj \<and> b obj"

definition cond_or :: "'k condition \<Rightarrow> 'k condition \<Rightarrow> 'k condition" where
  "cond_or a b obj \<longleftrightarrow> a obj \<or> b obj"

definition is_deleted :: "('k \<Rightarrow> object_meta) \<Rightarrow> string \<Rightarrow> 'k condition" where
  "is_deleted meta uid obj = (case obj of None \<Rightarrow> True | Some obj \<Rightarrow> m_uid (meta obj) \<noteq> Some uid)"

record status_condition =
  co_type :: string
  co_status :: string

record conditions_status =
  cs_conditions :: "status_condition list option"

record pod_status =
  ps_phase :: "string option"

text \<open>The common part of \<open>is_crd_established\<close> and \<open>is_job_completed\<close>, which differ in the type.\<close>

definition has_condition :: "string \<Rightarrow> ('k \<Rightarrow> conditions_status option) \<Rightarrow> 'k condition" where
  "has_condition ty status obj =
     (case obj of
        Some o' \<Rightarrow>
          (case status o' of
             Some s \<Rightarrow>
               (case cs_conditions s of
                  Some conds \<Rightarrow>
                    (case List.find (\<lambda>c. co_type c = ty) conds of
                       Some pcond \<Rightarrow> co_status pcond = ''True''
                     | None \<Rightarrow> False)
                | None \<Rightarrow> False)
           | None \<Rightarrow> False)
      | None \<Rightarrow> False)"

definition is_crd_established :: "('k \<Rightarrow> conditions_status option) \<Rightarrow> 'k condition" where
  "is_crd_established status = has_condition ''Established'' status"

definition is_job_completed :: "('k \<Rightarrow> conditions_status option) \<Rightarrow> 'k condition" where
  "is_job_completed status = has_condition ''Complete'' status"

definition is_pod_running :: "('k \<Rightarrow> pod_status option) \<Rightarrow> 'k condition" where
  "is_pod_running status obj =
     (case obj of
        Some pod \<Rightarrow>
          (case status pod of
             Some s \<Rightarrow> (case ps_phase s of Some phase \<Rightarrow> phase = ''Running'' | None \<Rightarrow> False)
           | None \<Rightarrow> False)
      | None \<Rightarrow> False)"

section \<open>Waiting\<close>

datatype wait_error = ProbeFailed watcher_error

text \<open>
  \<open>try_skip_while\<close> and \<open>try_next\<close> on the items a stream has given so far: the first error or
  the first object that satisfies the condition decides; \<open>None\<close> is a future that is still
  pending. (The stream of a watched object does not end, so its \<open>expect\<close> is never reached.)
\<close>

fun await_condition :: "'k condition \<Rightarrow> (watcher_error + 'k option) list \<Rightarrow> (wait_error + 'k option) option" where
  "await_condition cond [] = None"
| "await_condition cond (Inl e # items) = Some (Inl (ProbeFailed e))"
| "await_condition cond (Inr obj # items) = (if cond obj then Some (Inr obj) else await_condition cond items)"

section \<open>Deleting\<close>

datatype delete_error = NoUid | DeleteFailed kube_error | Await wait_error

definition deleted_uid :: "('k \<Rightarrow> object_meta) \<Rightarrow> 'k + status \<Rightarrow> string option" where
  "deleted_uid meta answer =
     (case answer of
        Inl obj \<Rightarrow> m_uid (meta obj)
      | Inr status \<Rightarrow> map_option sd_uid (st_details status))"

text \<open>
  \<open>delete_and_finalize\<close>, watching up to \<open>n\<close> items after the delete call; \<open>None\<close> when it is
  still waiting. The watch cannot panic here as far as the items it gives are concerned; a panic
  of the watcher is \<open>Some (Inl p)\<close>.
\<close>

definition delete_and_finalize :: "('qp, 'k) api_env \<Rightarrow> (kube_error \<Rightarrow> string) \<Rightarrow> ('k \<Rightarrow> object_meta) \<Rightarrow> 's api_handle \<Rightarrow> string \<Rightarrow> delete_params
     \<Rightarrow> nat \<Rightarrow> 's \<Rightarrow> (watch_panic + delete_error + unit) option" where
  "delete_and_finalize A display meta h name dp n s =
     (case kapi_delete A h name dp s of
        (Inl e, s') \<Rightarrow> Some (Inr (Inl (DeleteFailed e)))
      | (Inr answer, s') \<Rightarrow>
          (case deleted_uid meta answer of
             None \<Rightarrow> Some (Inr (Inl NoUid))
           | Some uid \<Rightarrow>
               (case watch_object (api_of_handle A display h) meta name n s' of
                  None \<Rightarrow> None
                | Some (Inl p) \<Rightarrow> Some (Inl p)
                | Some (Inr (items, _)) \<Rightarrow>
                    map_option (\<lambda>r. Inr (case r of Inl e \<Rightarrow> Inl (Await e) | Inr _ \<Rightarrow> Inr ())) (await_condition (is_deleted meta uid) items))))"

section \<open>Properties of waiting\<close>

lemma await_condition_append: "await_condition cond xs = Some r \<Longrightarrow> await_condition cond (xs @ ys) = Some r"
  by (induction cond xs rule: await_condition.induct) auto

lemma await_condition_iff:
  "await_condition cond items = Some r \<longleftrightarrow>
     (\<exists>before item after. items = map Inr before @ item # after \<and> (\<forall>obj\<in>set before. \<not> cond obj) \<and>
        (case item of Inl e \<Rightarrow> r = Inl (ProbeFailed e) | Inr obj \<Rightarrow> cond obj \<and> r = Inr obj))"
    (is "?l \<longleftrightarrow> ?r items")
proof
  show "?r items" if ?l using that
  proof (induction cond items rule: await_condition.induct)
    case (2 cond e items)
    then show ?case by (intro exI [of _ "[]"]) auto
  next
    case (3 cond obj items)
    show ?case
    proof (cases "cond obj")
      case True
      then show ?thesis using "3.prems" by (intro exI [of _ "[]"]) auto
    next
      case False
      then obtain before item after where "items = map Inr before @ item # after" "\<forall>obj\<in>set before. \<not> cond obj"
        "case item of Inl e \<Rightarrow> r = Inl (ProbeFailed e) | Inr obj \<Rightarrow> cond obj \<and> r = Inr obj"
        using 3 by auto
      then show ?thesis using False by (intro exI [of _ "obj # before"]) auto
    qed
  qed simp
next
  assume "?r items"
  then obtain before item after where i: "items = map Inr before @ item # after" "\<forall>obj\<in>set before. \<not> cond obj"
    "case item of Inl e \<Rightarrow> r = Inl (ProbeFailed e) | Inr obj \<Rightarrow> cond obj \<and> r = Inr obj" by blast
  have "await_condition cond (map Inr before @ item # after) = await_condition cond (item # after)"
    using i(2) by (induction before) auto
  then show ?l using i by (auto split: sum.splits)
qed

lemma await_condition_ok:
  "await_condition cond items = Some (Inr obj) \<Longrightarrow>
   \<exists>before after. items = map Inr before @ Inr obj # after \<and> (\<forall>o'\<in>set before. \<not> cond o') \<and> cond obj"
proof (induction cond items rule: await_condition.induct)
  case (3 cond o1 items)
  show ?case
  proof (cases "cond o1")
    case True
    then show ?thesis using 3 by (intro exI [of _ "[]"] exI [of _ items]) auto
  next
    case False
    then obtain before after where "items = map Inr before @ Inr obj # after" "\<forall>o'\<in>set before. \<not> cond o'" "cond obj"
      using 3 by auto
    then show ?thesis using False by (intro exI [of _ "o1 # before"]) auto
  qed
qed simp_all

section \<open>Properties\<close>

text \<open>
  waiting for a condition returns at the first item that decides: it returns an object
  exactly when that is the first one to satisfy the condition and no error came before it, it
  fails exactly with the first error if no object before it did, and items that come later
  change nothing. The combinators are negation, conjunction and disjunction of the conditions.
\<close>

theorem await_first_match:
  "(await_condition cond items = Some r \<longleftrightarrow>
     (\<exists>before item after. items = map Inr before @ item # after \<and> (\<forall>obj\<in>set before. \<not> cond obj) \<and>
        (case item of Inl e \<Rightarrow> r = Inl (ProbeFailed e) | Inr obj \<Rightarrow> cond obj \<and> r = Inr obj)))
   \<and> (await_condition cond items = Some r \<longrightarrow> await_condition cond (items @ later) = Some r)
   \<and> (await_condition (cond_and cond (cond_not c)) items = Some (Inr obj) \<longrightarrow> cond obj \<and> \<not> c obj)
   \<and> (await_condition (cond_or cond c) items = Some (Inr obj) \<longrightarrow> cond obj \<or> c obj)"
proof -
  have sat: "cd obj" if "await_condition cd items = Some (Inr obj)" for cd
    using await_condition_ok [OF that] by blast
  show ?thesis
  proof (intro conjI)
    show "await_condition (cond_and cond (cond_not c)) items = Some (Inr obj) \<longrightarrow> cond obj \<and> \<not> c obj"
      using sat [of "cond_and cond (cond_not c)"] by (simp add: cond_and_def cond_not_def)
    show "await_condition (cond_or cond c) items = Some (Inr obj) \<longrightarrow> cond obj \<or> c obj"
      using sat [of "cond_or cond c"] by (simp add: cond_or_def)
    show "await_condition cond items = Some r \<longrightarrow> await_condition cond (items @ later) = Some r"
      using await_condition_append by blast
  qed (rule await_condition_iff)
qed

theorem await_first_match_witness:
  "await_condition (is_pod_running id) ([Inr None, Inr (Some (Some \<lparr>ps_phase = Some ''Running''\<rparr>))] @ [Inr None])
     = Some (Inr (Some (Some \<lparr>ps_phase = Some ''Running''\<rparr>)))"
proof -
  have "await_condition (is_pod_running id) [Inr None, Inr (Some (Some \<lparr>ps_phase = Some ''Running''\<rparr>))]
     = Some (Inr (Some (Some \<lparr>ps_phase = Some ''Running''\<rparr>)))"
    by (simp add: is_pod_running_def)
  then show ?thesis
    using await_first_match [of "is_pod_running id" "[Inr None, Inr (Some (Some \<lparr>ps_phase = Some ''Running''\<rparr>))]"
        "Inr (Some (Some \<lparr>ps_phase = Some ''Running''\<rparr>))" "[Inr None]"] by simp
qed

text \<open>
  deleting and waiting. When the call for deletion has named a uid and \<open>delete_and_finalize\<close>
  succeeds, the watch has shown that the object with this uid was gone: no object, or one with
  another uid, after only the object itself. If the status that confirms the deletion has
  details without a uid, an empty string is taken for it; then the function succeeds at once
  although the watch shows the object, with whatever uid it has, instead of reporting \<open>NoUid\<close>.
\<close>

theorem delete_waits_for_uid:
  assumes del: "kapi_delete A h name dp s = (Inr answer, s')"
    and watch: "watch_object (api_of_handle A display h) meta name n s' = Some (Inr (items, rest))"
  shows "(\<forall>uid. deleted_uid meta answer = Some uid \<and> delete_and_finalize A display meta h name dp n s = Some (Inr (Inr ()))
      \<longrightarrow> (\<exists>before obj after. items = map Inr before @ Inr obj # after
            \<and> (\<forall>o'\<in>set before. \<exists>k. o' = Some k \<and> m_uid (meta k) = Some uid)
            \<and> (\<forall>k. obj = Some k \<longrightarrow> m_uid (meta k) \<noteq> Some uid)))
    \<and> (\<forall>st members obj after.
         answer = Inr st \<and> read_status (JObj [(''status'', JStr ''Success''), (''details'', JObj members)]) = Some st
         \<and> ''uid'' \<notin> fst ` set members \<and> items = Inr (Some obj) # after \<and> m_uid (meta obj) \<noteq> Some ''''
         \<longrightarrow> delete_and_finalize A display meta h name dp n s = Some (Inr (Inr ())))"
proof (intro conjI allI impI; elim conjE)
  fix uid
  assume u: "deleted_uid meta answer = Some uid" and r: "delete_and_finalize A display meta h name dp n s = Some (Inr (Inr ()))"
  then obtain o1 where "await_condition (is_deleted meta uid) items = Some (Inr o1)"
    using del watch by (cases "await_condition (is_deleted meta uid) items"; cases "the (await_condition (is_deleted meta uid) items)")
      (auto simp: delete_and_finalize_def)
  from await_condition_ok [OF this] obtain before after where
    "items = map Inr before @ Inr o1 # after" "\<forall>o'\<in>set before. \<not> is_deleted meta uid o'" "is_deleted meta uid o1" by blast
  then show "\<exists>before obj after. items = map Inr before @ Inr obj # after
      \<and> (\<forall>o'\<in>set before. \<exists>k. o' = Some k \<and> m_uid (meta k) = Some uid) \<and> (\<forall>k. obj = Some k \<longrightarrow> m_uid (meta k) \<noteq> Some uid)"
    by (intro exI [of _ before] exI [of _ o1] exI [of _ after]) (auto simp: is_deleted_def split: option.splits)
next
  fix st members obj after
  assume a: "answer = Inr st" "read_status (JObj [(''status'', JStr ''Success''), (''details'', JObj members)]) = Some st"
    "''uid'' \<notin> fst ` set members" "items = Inr (Some obj) # after" "m_uid (meta obj) \<noteq> Some ''''"
  obtain d where "st_details st = Some d" "read_details (JObj members) = Some d"
    using a(2) by (auto simp: read_status_def field_defs split: option.splits)
  then have "map_option sd_uid (st_details st) = Some ''''" using read_details_no_uid a(3) by simp
  then show "delete_and_finalize A display meta h name dp n s = Some (Inr (Inr ()))"
    using del watch a(1,4,5) by (auto simp: delete_and_finalize_def deleted_uid_def is_deleted_def)
qed

definition confirm_env :: "(string, object_meta) api_env" where
  "confirm_env = \<lparr>ae_req = text_req_env,
     ae_cl = echo_env\<lparr>parse_value := (\<lambda>_. Inr (JObj [(''kind'', JStr ''Status'')])),
       parse_status := (\<lambda>_. Inr (with_details status_success
         \<lparr>sd_name = ''x'', sd_group = '''', sd_kind = '''', sd_uid = '''', sd_causes = [], sd_retry_after_seconds = 0\<rparr>))\<rparr>,
     ae_kind = \<lparr>ke_parse = (\<lambda>_. Inl \<lparr>se_is_eof = False, se_display = ''''\<rparr>),
       ke_parse_list = (\<lambda>_. Inr \<lparr>ol_metadata = \<lparr>lm_continue = None, lm_remaining_item_count = None, lm_resource_version = Some ''1''\<rparr>,
          ol_items = [object_meta_default\<lparr>m_name := Some ''x'', m_uid := Some ''u''\<rparr>]\<rparr>),
       ke_parse_event = (\<lambda>_. Inl \<lparr>se_is_eof = False, se_display = ''''\<rparr>), ke_parse_meta = (\<lambda>_. Inl \<lparr>se_is_eof = False, se_display = ''''\<rparr>),
       ke_parse_meta_list = (\<lambda>_. Inl \<lparr>se_is_eof = False, se_display = ''''\<rparr>), ke_parse_meta_event = (\<lambda>_. Inl \<lparr>se_is_eof = False, se_display = ''''\<rparr>),
       ke_to_vec = (\<lambda>_. Inr [])\<rparr>\<rparr>"

definition confirm_handle :: "nat api_handle" where
  "confirm_handle = \<lparr>ah_request = request_new ''/api/v1/pods'', ah_client = fixed_client \<lparr>rs_status = 200, rs_headers = [], rs_body = []\<rparr>, ah_namespace = None\<rparr>"

theorem delete_waits_for_uid_witness:
  "delete_and_finalize confirm_env (\<lambda>_. '''') (\<lambda>m. m) confirm_handle ''x'' delete_params_default 1 0 = Some (Inr (Inr ()))"
proof -
  let ?st = "with_details status_success \<lparr>sd_name = ''x'', sd_group = '''', sd_kind = '''', sd_uid = '''', sd_causes = [], sd_retry_after_seconds = 0\<rparr>"
  let ?obj = "object_meta_default\<lparr>m_name := Some ''x'', m_uid := Some ''u''\<rparr>"
  have d: "kapi_delete confirm_env confirm_handle ''x'' delete_params_default 0 = (Inr (Inr ?st), 1)"
    by (simp add: kapi_delete_def api_call_def io_bind_def confirm_env_def confirm_handle_def text_req_env_def echo_env_def req_delete_def
        build_body_def request_new_def request_status_def request_text_def from_utf8_def handle_api_errors_def is_client_error_def is_server_error_def Let_def)
  have l: "kapi_list confirm_env confirm_handle lp 1 = (case list_validate lp of Inl e \<Rightarrow> (Inl (KBuildRequest e), 1)
      | Inr _ \<Rightarrow> (Inr \<lparr>ol_metadata = \<lparr>lm_continue = None, lm_remaining_item_count = None, lm_resource_version = Some ''1''\<rparr>, ol_items = [?obj]\<rparr>, 2))" for lp
    by (simp add: kapi_list_def api_call_def io_bind_def confirm_env_def confirm_handle_def text_req_env_def echo_env_def req_list_def
        build_body_def request_new_def client_request_typed_def request_text_def from_utf8_def handle_api_errors_def is_client_error_def is_server_error_def Let_def
        split: sum.splits)
  have "list_validate (to_list_params (wc_fields config_default (''metadata.name='' @ ''x''))) = Inr ()"
    by (simp add: list_validate_def to_list_params_def wc_fields_def config_default_def)
  then have w: "\<exists>rest. watch_object (api_of_handle confirm_env (\<lambda>_. '''') confirm_handle) (\<lambda>m. m) ''x'' 1 1 = Some (Inr ([Inr (Some ?obj)], rest))"
    using l [of "to_list_params (wc_fields config_default (''metadata.name='' @ ''x''))"]
    by (simp add: watch_object_def watcher_def api_of_handle_def full_object_def step_trampolined_def watcher_step.simps)
  then obtain rest where w': "watch_object (api_of_handle confirm_env (\<lambda>_. '''') confirm_handle) (\<lambda>m. m) ''x'' 1 1 = Some (Inr ([Inr (Some ?obj)], rest))" by blast
  have j: "read_status (JObj [(''status'', JStr ''Success''), (''details'', JObj [(''name'', JStr ''x'')])]) = Some ?st"
    by code_simp
  show ?thesis
    using delete_waits_for_uid [OF d w'] j by (auto simp: object_meta_default_def)
qed

end
