(* ===== verification/Core_Duration.thy ===== *)
theory Core_Duration
  imports Prelude
begin

text \<open>
  \<open>kube-core/src/duration.rs\<close>: Go durations, their parser and their orders. A duration of the
  standard library is its number of nanoseconds. Texts are lists of Unicode code points here,
  because the parser cuts them where \<open>char::is_alphabetic\<close> changes; that table, the parser of
  floating point numbers and \<open>Duration::mul_f64\<close> are the record \<open>num_env\<close>. A panic is
  \<open>Inl Panic\<close>, an error \<open>Inl (Fail e)\<close>.
\<close>

section \<open>Durations\<close>

type_synonym ustring = "nat list"

definition utf :: "string \<Rightarrow> ustring" where
  "utf s = map of_char s"

definition DURATION_MAX :: nat where
  "DURATION_MAX = (2 ^ 64 - 1) * 10 ^ 9 + 999999999"

record kduration =
  kd_duration :: nat
  kd_is_negative :: bool

datatype parse_error = InvalidUnit | NoUnit | NotANumber

datatype parse_stop = Panic | Fail parse_error

definition kd_from_std :: "nat \<Rightarrow> kduration" where
  "kd_from_std d = \<lparr>kd_duration = d, kd_is_negative = False\<rparr>"

definition kd_into_std :: "kduration \<Rightarrow> nat" where
  "kd_into_std d = kd_duration d"

text \<open>\<open>Display\<close> and \<open>Debug\<close> write the sign and the \<open>Debug\<close> form of the standard library.\<close>

definition kd_display :: "(nat \<Rightarrow> ustring) \<Rightarrow> kduration \<Rightarrow> ustring" where
  "kd_display debug d = (if kd_is_negative d then utf ''-'' @ debug (kd_duration d) else debug (kd_duration d))"

section \<open>Parsing\<close>

record 'f num_env =
  is_alphabetic :: "nat \<Rightarrow> bool"
  parse_f64 :: "ustring \<Rightarrow> 'f option"
  mul_f64 :: "nat \<Rightarrow> 'f \<Rightarrow> nat option"

definition unit_base :: "ustring \<Rightarrow> nat option" where
  "unit_base unit =
     (if unit = utf ''ns'' then Some 1
      else if unit = utf ''us'' \<or> unit = [0xB5, 115] \<or> unit = [0x3BC, 115] then Some 1000
      else if unit = utf ''ms'' then Some 1000000
      else if unit = utf ''s'' then Some 1000000000
      else if unit = utf ''m'' then Some 60000000000
      else if unit = utf ''h'' then Some 3600000000000
      else None)"

definition find_from :: "(nat \<Rightarrow> bool) \<Rightarrow> ustring \<Rightarrow> nat option" where
  "find_from P s = (if \<exists>c\<in>set s. P c then Some (length (takeWhile (\<lambda>c. \<not> P c) s)) else None)"

text \<open>The unit at the front of a text that starts with a letter, and what is left.\<close>

definition next_unit :: "'f num_env \<Rightarrow> ustring \<Rightarrow> ustring \<times> ustring" where
  "next_unit F rest =
     (case find_from (\<lambda>c. \<not> is_alphabetic F c) rest of
        Some next_numeric_start \<Rightarrow> (take next_numeric_start rest, drop next_numeric_start rest)
      | None \<Rightarrow> (rest, []))"

text \<open>One round of the loop: the value and unit at the front of the text and what is left.\<close>

definition parse_round :: "'f num_env \<Rightarrow> nat \<Rightarrow> ustring \<Rightarrow> parse_stop + nat \<times> ustring" where
  "parse_round F acc s =
     rbind (ok_or (find_from (is_alphabetic F) s) (Fail NoUnit)) (\<lambda>unit_start.
       let val_str = take unit_start s; rest = drop unit_start s in
       rbind (ok_or (parse_f64 F val_str) (Fail NotANumber)) (\<lambda>val.
         let (unit, s') = next_unit F rest
         in rbind (ok_or (unit_base unit) (Fail InvalidUnit)) (\<lambda>base.
           rbind (ok_or (mul_f64 F base val) Panic) (\<lambda>d.
             if acc + d > DURATION_MAX then Inl Panic else Inr (acc + d, s')))))"

text \<open>The loop; \<open>None\<close> would be a loop that never ends.\<close>

partial_function (option) parse_loop :: "'f num_env \<Rightarrow> nat \<Rightarrow> ustring \<Rightarrow> (parse_stop + nat) option" where
  "parse_loop F acc s =
     (if s = [] \<or> s = [48] then Some (Inr acc)
      else case parse_round F acc s of
        Inl e \<Rightarrow> Some (Inl e)
      | Inr (acc', s') \<Rightarrow> parse_loop F acc' s')"

definition duration_from_str :: "'f num_env \<Rightarrow> ustring \<Rightarrow> (parse_stop + kduration) option" where
  "duration_from_str F s0 =
     (let is_negative = (s0 \<noteq> [] \<and> hd s0 = 45);
          s = dropWhile (\<lambda>c. c = 45) (dropWhile (\<lambda>c. c = 43) s0)
      in map_option (\<lambda>r. rbind r (\<lambda>acc. Inr \<lparr>kd_duration = acc, kd_is_negative = is_negative\<rparr>)) (parse_loop F 0 s))"

section \<open>Comparisons\<close>

datatype ordering = Less | Equal | Greater

definition nat_cmp :: "nat \<Rightarrow> nat \<Rightarrow> ordering" where
  "nat_cmp a b = (if a < b then Less else if a = b then Equal else Greater)"

fun reverse_ord :: "ordering \<Rightarrow> ordering" where
  "reverse_ord Less = Greater" | "reverse_ord Equal = Equal" | "reverse_ord Greater = Less"

definition kd_cmp :: "kduration \<Rightarrow> kduration \<Rightarrow> ordering" where
  "kd_cmp a b =
     (case (kd_is_negative a, kd_is_negative b) of
        (True, False) \<Rightarrow> Less
      | (False, True) \<Rightarrow> Greater
      | (True, True) \<Rightarrow> reverse_ord (nat_cmp (kd_duration a) (kd_duration b))
      | (False, False) \<Rightarrow> nat_cmp (kd_duration a) (kd_duration b))"

definition kd_eq_std :: "kduration \<Rightarrow> nat \<Rightarrow> bool" where
  "kd_eq_std a d = (if kd_is_negative a then False else kd_duration a = d)"

definition kd_partial_cmp_std :: "kduration \<Rightarrow> nat \<Rightarrow> ordering option" where
  "kd_partial_cmp_std a d = (if kd_is_negative a then Some Less else Some (nat_cmp (kd_duration a) d))"

section \<open>Every round uses up part of the text\<close>

lemma find_from_take: "find_from P s = Some n \<Longrightarrow> take n s = takeWhile (\<lambda>c. \<not> P c) s \<and> drop n s = dropWhile (\<lambda>c. \<not> P c) s \<and> drop n s \<noteq> []"
proof -
  assume f: "find_from P s = Some n"
  then have n: "n = length (takeWhile (\<lambda>c. \<not> P c) s)" and e: "\<exists>c\<in>set s. P c" by (auto simp: find_from_def split: if_splits)
  have "dropWhile (\<lambda>c. \<not> P c) s \<noteq> []" using e by (auto simp: dropWhile_eq_Nil_conv)
  then show ?thesis unfolding n by (simp add: takeWhile_eq_take [symmetric] dropWhile_eq_drop [symmetric])
qed

lemma find_from_None: "find_from P s = None \<longleftrightarrow> (\<forall>c\<in>set s. \<not> P c)"
  by (auto simp: find_from_def)

lemma find_from_pos: "find_from (\<lambda>c. \<not> P c) (dropWhile (\<lambda>c. \<not> P c) s) = Some n \<Longrightarrow> 0 < n"
proof -
  assume f: "find_from (\<lambda>c. \<not> P c) (dropWhile (\<lambda>c. \<not> P c) s) = Some n"
  obtain c cs where d: "dropWhile (\<lambda>c. \<not> P c) s = c # cs" using f by (cases "dropWhile (\<lambda>c. \<not> P c) s") (auto simp: find_from_def)
  then have "P c" by (metis (mono_tags) dropWhile_eq_Cons_conv)
  with f d show ?thesis by (auto simp: find_from_def split: if_splits)
qed

lemma parse_round_shorter: "parse_round F acc s = Inr (acc', s') \<Longrightarrow> length s' < length s"
proof -
  assume r: "parse_round F acc s = Inr (acc', s')"
  then obtain n where n: "find_from (is_alphabetic F) s = Some n"
    by (auto simp: parse_round_def rbind_eq_Inr)
  note d = find_from_take [OF n]
  have pos: "0 < m" if "find_from (\<lambda>c. \<not> is_alphabetic F c) (drop n s) = Some m" for m
    using that d find_from_pos [of "is_alphabetic F" s m] by simp
  have "length (drop n s) \<le> length s" by simp
  then show ?thesis using r n d pos
    by (cases "find_from (\<lambda>c. \<not> is_alphabetic F c) (drop n s)")
      (auto simp: next_unit_def parse_round_def rbind_eq_Inr Let_def split: if_splits)
qed

lemma parse_loop_total: "\<exists>r. parse_loop F acc s = Some r"
proof (induction "length s" arbitrary: acc s rule: less_induct)
  case less
  show ?case
  proof (cases "parse_round F acc s")
    case (Inl e)
    then show ?thesis by (subst parse_loop.simps) simp
  next
    case (Inr p)
    obtain t' s' where p: "p = (t', s')" by fastforce
    have "\<exists>r. parse_loop F t' s' = Some r" using less parse_round_shorter Inr p by blast
    then show ?thesis using Inr p by (subst parse_loop.simps) auto
  qed
qed

section \<open>What the parser relies on\<close>

text \<open>
  Letters are alphabetic, digits and signs are not; a whole number below a bound is parsed and
  multiplied exactly, as long as the result is a duration; and multiplying with a negative
  number panics.
\<close>

definition digits :: "nat \<Rightarrow> ustring" where
  "digits n = utf (show_nat n)"

definition units :: "ustring set" where
  "units = {utf ''ns'', utf ''us'', [0xB5, 115], [0x3BC, 115], utf ''ms'', utf ''s'', utf ''m'', utf ''h''}"

locale go_numbers =
  fixes F :: "'f num_env" and bound :: nat
  assumes letters: "c \<in> {104, 109, 110, 115, 117, 0xB5, 0x3BC} \<Longrightarrow> is_alphabetic F c"
    and others: "48 \<le> c \<and> c \<le> 57 \<or> c \<in> {43, 45, 46} \<Longrightarrow> \<not> is_alphabetic F c"
    and whole: "n < bound \<Longrightarrow> \<exists>f. parse_f64 F (digits n) = Some f \<and>
        (\<forall>u b. unit_base u = Some b \<and> n * b \<le> DURATION_MAX \<longrightarrow> mul_f64 F b f = Some (n * b))"
    and negative: "\<lbrakk>0 < n; n < bound\<rbrakk> \<Longrightarrow> \<exists>f. parse_f64 F (45 # digits n) = Some f \<and> (\<forall>b. 0 < b \<longrightarrow> mul_f64 F b f = None)"

lemma unit_base_units: "unit_base u = Some b \<Longrightarrow> u \<in> units \<and> 0 < b"
  by (auto simp: unit_base_def units_def split: if_splits)

lemma digits_chars: "c \<in> set (digits n) \<Longrightarrow> 48 \<le> c \<and> c \<le> 57"
proof -
  assume "c \<in> set (digits n)"
  then obtain ch where "ch \<in> set (show_nat n)" "c = of_char ch" by (auto simp: digits_def utf_def)
  moreover have "list_all is_digit (show_nat n)" by (rule show_nat_digits)
  ultimately show ?thesis by (auto simp: list_all_iff is_digit_def less_eq_char_def)
qed

lemma digits_nonempty [simp]: "digits n \<noteq> []"
  by (simp add: digits_def utf_def)

lemma units_chars: "u \<in> units \<Longrightarrow> u \<noteq> [] \<and> set u \<subseteq> {104, 109, 110, 115, 117, 0xB5, 0x3BC}"
  by (auto simp: units_def utf_def)

lemma dropWhile_keeps: "s = [] \<or> \<not> P (hd s) \<Longrightarrow> dropWhile P s = s"
  by (cases s) auto

lemma find_from_append:
  "\<lbrakk>\<forall>c\<in>set xs. \<not> P c; ys \<noteq> []; P (hd ys)\<rbrakk> \<Longrightarrow> find_from P (xs @ ys) = Some (length xs)"
  by (cases ys) (auto simp: find_from_def)

context go_numbers
begin

lemma digits_not_alphabetic: "c \<in> set (digits n) \<Longrightarrow> \<not> is_alphabetic F c"
  using digits_chars others by blast

lemma units_alphabetic: "\<lbrakk>u \<in> units; c \<in> set u\<rbrakk> \<Longrightarrow> is_alphabetic F c"
  using units_chars letters by blast

lemma cut_unit:
  assumes "u \<in> units" and "rest = [] \<or> \<not> is_alphabetic F (hd rest)"
  shows "next_unit F (u @ rest) = (u, rest)"
proof (cases "rest = []")
  case True
  then have "find_from (\<lambda>c. \<not> is_alphabetic F c) (u @ rest) = None"
    using units_alphabetic [OF assms(1)] by (simp add: find_from_None)
  then show ?thesis using True by (simp add: next_unit_def)
next
  case False
  then have "find_from (\<lambda>c. \<not> is_alphabetic F c) (u @ rest) = Some (length u)"
    using assms units_alphabetic by (intro find_from_append) auto
  then show ?thesis by (simp add: next_unit_def)
qed

lemma round_reads:
  assumes "\<forall>c\<in>set v. \<not> is_alphabetic F c" "u \<in> units" "rest = [] \<or> \<not> is_alphabetic F (hd rest)"
  shows "parse_round F acc (v @ u @ rest) =
    rbind (ok_or (parse_f64 F v) (Fail NotANumber)) (\<lambda>val.
      rbind (ok_or (unit_base u) (Fail InvalidUnit)) (\<lambda>base.
        rbind (ok_or (mul_f64 F base val) Panic) (\<lambda>d.
          if acc + d > DURATION_MAX then Inl Panic else Inr (acc + d, rest))))"
proof -
  have "u @ rest \<noteq> []" "is_alphabetic F (hd (u @ rest))"
    using units_chars [OF assms(2)] units_alphabetic [OF assms(2)] by (auto simp: hd_append)
  then have "find_from (is_alphabetic F) (v @ u @ rest) = Some (length v)"
    using assms(1) by (intro find_from_append) auto
  then show ?thesis using cut_unit [OF assms(2,3)] by (simp add: parse_round_def Let_def)
qed

lemma loop_step:
  assumes "\<forall>c\<in>set v. \<not> is_alphabetic F c" "u \<in> units" "rest = [] \<or> \<not> is_alphabetic F (hd rest)"
    and "parse_f64 F v = Some f" "unit_base u = Some b"
  shows "parse_loop F acc (v @ u @ rest) =
    (case mul_f64 F b f of
       None \<Rightarrow> Some (Inl Panic)
     | Some d \<Rightarrow> if acc + d > DURATION_MAX then Some (Inl Panic) else parse_loop F (acc + d) rest)"
proof -
  have "u \<noteq> []" "last u \<in> {104, 109, 110, 115, 117, 0xB5, 0x3BC}" using units_chars [OF assms(2)] last_in_set [of u] by blast+
  then have "v @ u @ rest \<noteq> []" "v @ u @ rest \<noteq> [48]"
    by (auto simp: append_eq_Cons_conv) 
  then show ?thesis
    using round_reads [OF assms(1-3), of acc] assms(4,5)
    by (subst parse_loop.simps) (auto split: option.splits)
qed

text \<open>A text made of numbers and units.\<close>

lemma loop_sums:
  "\<lbrakk>\<forall>(n, u)\<in>set parts. n < bound \<and> unit_base u \<noteq> None;
    acc + sum_list (map (\<lambda>(n, u). n * the (unit_base u)) parts) \<le> DURATION_MAX\<rbrakk>
   \<Longrightarrow> parse_loop F acc (concat (map (\<lambda>(n, u). digits n @ u) parts)) =
      Some (Inr (acc + sum_list (map (\<lambda>(n, u). n * the (unit_base u)) parts)))"
proof (induction parts arbitrary: acc)
  case Nil
  then show ?case by (subst parse_loop.simps) simp
next
  case (Cons p parts)
  obtain n u where p: "p = (n, u)" by fastforce
  obtain b where b: "unit_base u = Some b" using Cons.prems p by auto
  let ?rest = "concat (map (\<lambda>(n, u). digits n @ u) parts)"
  have r: "?rest = [] \<or> \<not> is_alphabetic F (hd ?rest)"
  proof (cases parts)
    case (Cons q qs)
    then show ?thesis using digits_not_alphabetic [OF hd_in_set] by (cases q) (auto simp: hd_append)
  qed simp
  obtain f where f: "parse_f64 F (digits n) = Some f" "\<forall>u b. unit_base u = Some b \<and> n * b \<le> DURATION_MAX \<longrightarrow> mul_f64 F b f = Some (n * b)"
    using whole [of n] Cons.prems(1) p by auto
  have "mul_f64 F b f = Some (n * b)" using f(2) b Cons.prems(2) p by auto
  then have "parse_loop F acc (digits n @ u @ ?rest) = parse_loop F (acc + n * b) ?rest"
    using loop_step [of "digits n" u ?rest f b acc] digits_not_alphabetic unit_base_units [OF b] r f(1) b Cons.prems(2) p by auto
  then show ?case using Cons.IH [of "acc + n * b"] Cons.prems p b by (simp add: add.assoc)
qed

end

lemma few_digits: "digits 2 = [50]" "digits 3 = [51]" "digits 5 = [53]"
  by code_simp+

context go_numbers
begin

lemma five_seconds:
  assumes "5 < bound" and "rest = [] \<or> \<not> is_alphabetic F (hd rest)"
  shows "parse_loop F 0 (53 # 115 # rest) = parse_loop F 5000000000 rest"
proof -
  obtain f where f: "parse_f64 F (digits 5) = Some f" "\<forall>u b. unit_base u = Some b \<and> 5 * b \<le> DURATION_MAX \<longrightarrow> mul_f64 F b f = Some (5 * b)"
    using whole [OF assms(1)] by blast
  have b: "unit_base [115] = Some 1000000000" by (simp add: unit_base_def utf_def)
  have "mul_f64 F 1000000000 f = Some 5000000000" using f(2) b by (simp add: DURATION_MAX_def)
  moreover have "[115] \<in> units" by (simp add: units_def utf_def)
  ultimately show ?thesis
    using loop_step [of "digits 5" "[115]" rest f 1000000000 0] others [of 53] assms(2) f(1) b
    by (simp add: few_digits DURATION_MAX_def)
qed

lemma lenient:
  assumes "5 < bound"
  shows "duration_from_str F [] = Some (Inr \<lparr>kd_duration = 0, kd_is_negative = False\<rparr>)
    \<and> duration_from_str F (utf ''+-5s'') = Some (Inr \<lparr>kd_duration = 5000000000, kd_is_negative = False\<rparr>)
    \<and> duration_from_str F (utf ''5s0'') = Some (Inr \<lparr>kd_duration = 5000000000, kd_is_negative = False\<rparr>)
    \<and> duration_from_str F (utf ''5s-3s'') = Some (Inl Panic)"
proof -
  have e: "parse_loop F acc [] = Some (Inr acc)" "parse_loop F acc [48] = Some (Inr acc)" for acc
    by (subst parse_loop.simps; simp)+
  obtain f where f: "parse_f64 F (45 # digits 3) = Some f" "\<forall>b. 0 < b \<longrightarrow> mul_f64 F b f = None"
    using negative [of 3] assms by auto
  have b: "unit_base [115] = Some 1000000000" "[115] \<in> units" by (simp_all add: unit_base_def units_def utf_def)
  have "parse_loop F acc [45, 51, 115] = Some (Inl Panic)" for acc
    using loop_step [of "45 # digits 3" "[115]" "[]" f 1000000000 acc] others [of 45] digits_not_alphabetic [of _ 3] f b
    by (simp add: few_digits)
  then show ?thesis
    using five_seconds [OF assms, of "[]"] five_seconds [OF assms, of "[48]"] five_seconds [OF assms, of "[45, 51, 115]"]
      others [of 48] others [of 45] e
    by (simp add: duration_from_str_def Let_def utf_def)
qed

end

section \<open>Whole numbers\<close>

text \<open>The contract on whole numbers: decimal digits with an optional sign, and exact products.\<close>

definition int_env :: "int num_env" where
  "int_env = \<lparr>is_alphabetic = (\<lambda>c. 65 \<le> c \<and> c \<le> 90 \<or> 97 \<le> c \<and> c \<le> 122 \<or> c = 0xB5 \<or> c = 0x3BC),
     parse_f64 = (\<lambda>s. if s = [] then None
        else if hd s = 45 then (if tl s \<noteq> [] \<and> list_all (\<lambda>c. 48 \<le> c \<and> c \<le> 57) (tl s) then Some (- int (foldl (\<lambda>a c. 10 * a + (c - 48)) 0 (tl s))) else None)
        else if list_all (\<lambda>c. 48 \<le> c \<and> c \<le> 57) s then Some (int (foldl (\<lambda>a c. 10 * a + (c - 48)) 0 s)) else None),
     mul_f64 = (\<lambda>b v. if v < 0 \<or> nat v * b > DURATION_MAX then None else Some (nat v * b))\<rparr>"

lemma foldl_digits: "foldl (\<lambda>a c. 10 * a + (c - 48)) a (utf s) = foldl (\<lambda>a c. 10 * a + digit_val c) a s"
  by (induction s arbitrary: a) (auto simp: utf_def digit_val_def)

lemma int_env_digits [simp]: "foldl (\<lambda>a c. 10 * a + (c - 48)) 0 (digits n) = n"
  using digits_val_show_nat [of n] by (simp add: digits_def foldl_digits digits_val_def)

lemma hd_digits: "hd (digits n) \<noteq> 45"
proof -
  have "48 \<le> hd (digits n)" using digits_chars [OF hd_in_set [OF digits_nonempty]] by blast
  then show ?thesis by simp
qed

interpretation int_numbers: go_numbers int_env bound for bound
proof
  fix n :: nat
  have d: "list_all (\<lambda>c. 48 \<le> c \<and> c \<le> 57) (digits n)" using digits_chars by (auto simp: list_all_iff)
  then show "\<exists>f. parse_f64 int_env (digits n) = Some f \<and> (\<forall>u b. unit_base u = Some b \<and> n * b \<le> DURATION_MAX \<longrightarrow> mul_f64 int_env b f = Some (n * b))"
    using hd_digits [of n] by (intro exI [of _ "int n"]) (simp add: int_env_def)
  show "\<exists>f. parse_f64 int_env (45 # digits n) = Some f \<and> (\<forall>b. 0 < b \<longrightarrow> mul_f64 int_env b f = None)" if "0 < n"
    using d that by (intro exI [of _ "- int n"]) (simp add: int_env_def)
qed (auto simp: int_env_def)

section \<open>Properties\<close>

text \<open>
  C37: the parser always returns. Whatever the text and whatever the number parser and the
  character table do, the loop ends with a duration, an error or a panic: a round that does not
  stop has used up a letter at least.
\<close>

theorem duration_from_str_terminates: "\<exists>r. duration_from_str F s = Some r"
  using parse_loop_total [of F 0] by (auto simp: duration_from_str_def Let_def)



text \<open>
  texts outside Go's format. The empty text, a text with both signs and a text that ends in
  a lone zero are accepted, where Go's parser reports an error; a negative number inside a text
  does not give an error but a panic of the multiplication.
\<close>

theorem duration_from_str_lenient:
  assumes "go_numbers F bound" and "5 < bound"
  shows "duration_from_str F [] = Some (Inr \<lparr>kd_duration = 0, kd_is_negative = False\<rparr>)
    \<and> duration_from_str F (utf ''+-5s'') = Some (Inr \<lparr>kd_duration = 5000000000, kd_is_negative = False\<rparr>)
    \<and> duration_from_str F (utf ''5s0'') = Some (Inr \<lparr>kd_duration = 5000000000, kd_is_negative = False\<rparr>)
    \<and> duration_from_str F (utf ''5s-3s'') = Some (Inl Panic)"
  using go_numbers.lenient [OF assms] by blast

theorem duration_from_str_lenient_witness: "duration_from_str int_env (utf ''5s-3s'') = Some (Inl Panic)"
  using duration_from_str_lenient [OF int_numbers.go_numbers_axioms, of 10] by simp

text \<open>
  C1: the order of durations. It is total, agrees with equality, orders durations by their signed
  values, except that a negative zero comes before zero, and comparing with a duration of the
  standard library is the same as comparing with its conversion.
\<close>

definition signed :: "kduration \<Rightarrow> int" where
  "signed d = (if kd_is_negative d then - int (kd_duration d) else int (kd_duration d))"

theorem duration_order:
  "(kd_cmp a b = Equal \<longleftrightarrow> a = b) \<and> (kd_cmp a b = Greater \<longleftrightarrow> kd_cmp b a = Less)
   \<and> (kd_cmp a b = Less \<longleftrightarrow> signed a < signed b \<or> signed a = signed b \<and> kd_is_negative a \<and> \<not> kd_is_negative b)
   \<and> kd_partial_cmp_std a d = Some (kd_cmp a (kd_from_std d)) \<and> (kd_eq_std a d \<longleftrightarrow> a = kd_from_std d)
   \<and> (\<not> kd_is_negative a \<longleftrightarrow> kd_from_std (kd_into_std a) = a)"
proof -
  have "kd_cmp a b = Equal \<longleftrightarrow> a = b"
    by (cases a; cases b) (auto simp: kd_cmp_def nat_cmp_def split: bool.splits)
  moreover have "kd_cmp a b = Greater \<longleftrightarrow> kd_cmp b a = Less"
    by (cases a; cases b) (auto simp: kd_cmp_def nat_cmp_def split: bool.splits)
  moreover have "kd_cmp a b = Less \<longleftrightarrow> signed a < signed b \<or> signed a = signed b \<and> kd_is_negative a \<and> \<not> kd_is_negative b"
    by (auto simp: kd_cmp_def nat_cmp_def signed_def split: bool.splits)
  moreover have "kd_partial_cmp_std a d = Some (kd_cmp a (kd_from_std d)) \<and> (kd_eq_std a d \<longleftrightarrow> a = kd_from_std d)
      \<and> (\<not> kd_is_negative a \<longleftrightarrow> kd_from_std (kd_into_std a) = a)"
    by (cases a) (auto simp: kd_partial_cmp_std_def kd_cmp_def kd_from_std_def kd_eq_std_def kd_into_std_def)
  ultimately show ?thesis by blast
qed

end
