(* ===== verification/Core_Schema.thy ===== *)
theory Core_Schema
  imports Prelude "HOL-Library.Multiset"
begin

text \<open>
  \<open>kube-core/src/crd.rs\<close>: merging custom resource definitions; \<open>kube-core/src/schema.rs\<close>: the
  rewriting of JSON schemas into the structural form that Kubernetes asks for. The types of
  k8s_openapi and schemars have the fields that the sources use, and one field for the others.
  A panic is \<open>None\<close>.
\<close>

section \<open>Merging custom resource definitions\<close>

record 'x crd_version =
  vn_name :: string
  vn_storage :: bool
  vn_other :: 'x

record ('x, 'y) crd =
  crd_group :: string
  crd_kind :: string
  crd_scope :: string
  crd_versions :: "'x crd_version list"
  crd_other :: 'y

datatype merge_error =
    MissingCrds
  | MissingStoredApi string
  | MissingRootVersion string
  | MissingVersions
  | MultiVersionCrd
  | PropertyMismatch string

text \<open>The first loop: every definition has exactly one version.\<close>

fun check_versions :: "('x, 'y) crd list \<Rightarrow> merge_error + unit" where
  "check_versions [] = Inr ()"
| "check_versions (c # cs) =
     (if crd_versions c = [] then Inl MissingVersions
      else if length (crd_versions c) \<noteq> 1 then Inl MultiVersionCrd
      else check_versions cs)"

text \<open>The second loop: the properties that have to agree.\<close>

fun check_properties :: "('x, 'y) crd \<Rightarrow> ('x, 'y) crd list \<Rightarrow> merge_error + unit" where
  "check_properties root [] = Inr ()"
| "check_properties root (c # cs) =
     (if crd_group c \<noteq> crd_group root then Inl (PropertyMismatch ''group'')
      else if crd_kind c \<noteq> crd_kind root then Inl (PropertyMismatch ''kind'')
      else if crd_scope c \<noteq> crd_scope root then Inl (PropertyMismatch ''scope'')
      else check_properties root cs)"

text \<open>The last loops pop definitions and their versions from the end.\<close>

definition pop_versions :: "('x, 'y) crd list \<Rightarrow> 'x crd_version list" where
  "pop_versions crds = concat (map (\<lambda>c. map (\<lambda>v. v\<lparr>vn_storage := False\<rparr>) (rev (crd_versions c))) (rev crds))"

fun position_of :: "('a \<Rightarrow> bool) \<Rightarrow> 'a list \<Rightarrow> nat option" where
  "position_of P [] = None"
| "position_of P (x # xs) = (if P x then Some 0 else map_option Suc (position_of P xs))"

definition merge_crds :: "('x, 'y) crd list \<Rightarrow> string \<Rightarrow> merge_error + ('x, 'y) crd" where
  "merge_crds crds ver =
     (if crds = [] then Inl MissingCrds
      else rbind (check_versions crds) (\<lambda>_.
        case position_of (\<lambda>c. vn_name (crd_versions c ! 0) = ver) crds of
          None \<Rightarrow> Inl (MissingRootVersion ver)
        | Some idx \<Rightarrow>
            let root = crds ! idx;
                crds = take idx crds @ drop (Suc idx) crds;
                root = root\<lparr>crd_versions := (crd_versions root)[0 := (crd_versions root ! 0)\<lparr>vn_storage := True\<rparr>]\<rparr>
            in rbind (check_properties root crds) (\<lambda>_.
                 Inr (root\<lparr>crd_versions := crd_versions root @ pop_versions crds\<rparr>))))"

lemma check_versions_ok: "check_versions cs = Inr () \<longleftrightarrow> (\<forall>c\<in>set cs. length (crd_versions c) = 1)"
  by (induction cs) auto

lemma check_properties_ok:
  "check_properties root cs = Inr () \<longleftrightarrow>
     (\<forall>c\<in>set cs. crd_group c = crd_group root \<and> crd_kind c = crd_kind root \<and> crd_scope c = crd_scope root)"
  by (induction cs) auto

lemma position_of_Some: "position_of P xs = Some i \<Longrightarrow> i < length xs \<and> P (xs ! i) \<and> (\<forall>j<i. \<not> P (xs ! j))"
  by (induction P xs arbitrary: i rule: position_of.induct) (auto simp: less_Suc_eq_0_disj split: if_splits)

lemma position_of_None: "position_of P xs = None \<longleftrightarrow> (\<forall>x\<in>set xs. \<not> P x)"
  by (induction xs) auto

lemma mset_cut: "i < length xs \<Longrightarrow> mset xs = add_mset (xs ! i) (mset (take i xs @ drop (Suc i) xs))"
proof -
  assume i: "i < length xs"
  have "xs = take i xs @ xs ! i # drop (Suc i) xs" using id_take_nth_drop [OF i] .
  then have "mset xs = mset (take i xs @ xs ! i # drop (Suc i) xs)" by simp
  then show ?thesis by simp
qed

text \<open>A version without its storage flag.\<close>

definition unflagged :: "'x crd_version \<Rightarrow> string \<times> 'x" where
  "unflagged v = (vn_name v, vn_other v)"

lemma unflagged_storage [simp]: "unflagged (v\<lparr>vn_storage := b\<rparr>) = unflagged v"
  by (simp add: unflagged_def)

lemma pop_versions_mset:
  "mset (map unflagged (pop_versions cs)) = mset (map unflagged (concat (map crd_versions cs)))"
  by (induction cs) (auto simp: pop_versions_def comp_def)

lemma pop_versions_storage: "v \<in> set (pop_versions cs) \<Longrightarrow> \<not> vn_storage v"
  by (auto simp: pop_versions_def)

lemma merge_crds_ok:
  assumes "merge_crds crds ver = Inr m"
  obtains root rest v where "mset crds = add_mset root (mset rest)" "crd_versions root = [v]" "vn_name v = ver"
    "\<forall>c\<in>set crds. length (crd_versions c) = 1"
    "\<forall>c\<in>set rest. crd_group c = crd_group root \<and> crd_kind c = crd_kind root \<and> crd_scope c = crd_scope root"
    "m = root\<lparr>crd_versions := v\<lparr>vn_storage := True\<rparr> # pop_versions rest\<rparr>"
proof -
  from assms obtain i where i: "position_of (\<lambda>c. vn_name (crd_versions c ! 0) = ver) crds = Some i" and one: "\<forall>c\<in>set crds. length (crd_versions c) = 1"
    by (auto simp: merge_crds_def rbind_eq_Inr check_versions_ok split: if_splits option.splits)
  let ?root = "crds ! i" and ?rest = "take i crds @ drop (Suc i) crds"
  note p = position_of_Some [OF i]
  have "length (crd_versions ?root) = 1" using one p nth_mem by blast
  then obtain v where v: "crd_versions ?root = [v]" by (cases "crd_versions ?root") auto
  have m: "check_properties (?root\<lparr>crd_versions := [v\<lparr>vn_storage := True\<rparr>]\<rparr>) ?rest = Inr ()"
    "m = ?root\<lparr>crd_versions := v\<lparr>vn_storage := True\<rparr> # pop_versions ?rest\<rparr>"
    using assms i v by (simp_all add: merge_crds_def rbind_eq_Inr Let_def split: if_splits)
  have "vn_name v = ver" using p v by simp
  moreover have "\<forall>c\<in>set ?rest. crd_group c = crd_group ?root \<and> crd_kind c = crd_kind ?root \<and> crd_scope c = crd_scope ?root"
    using m(1) unfolding check_properties_ok by simp
  ultimately show ?thesis using that [of ?root ?rest v] mset_cut [of i crds] p one v m(2) by simp
qed

lemma mset_versions: "mset (concat (map crd_versions cs)) = \<Sum>\<^sub># (image_mset (\<lambda>c. mset (crd_versions c)) (mset cs))"
  by (induction cs) auto

lemma merge_crds_versions:
  assumes "merge_crds crds ver = Inr m"
  shows "mset (map unflagged (crd_versions m)) = mset (map unflagged (concat (map crd_versions crds)))"
proof -
  obtain root rest v where c: "mset crds = add_mset root (mset rest)" "crd_versions root = [v]" "vn_name v = ver"
    "\<forall>c\<in>set crds. length (crd_versions c) = 1"
    "\<forall>c\<in>set rest. crd_group c = crd_group root \<and> crd_kind c = crd_kind root \<and> crd_scope c = crd_scope root"
    and m: "m = root\<lparr>crd_versions := v\<lparr>vn_storage := True\<rparr> # pop_versions rest\<rparr>"
    using merge_crds_ok [OF assms] .
  have "mset (concat (map crd_versions crds)) = add_mset v (mset (concat (map crd_versions rest)))"
    using c(1,2) unfolding mset_versions by simp
  then have "mset (map unflagged (concat (map crd_versions crds)))
      = add_mset (unflagged v) (mset (map unflagged (concat (map crd_versions rest))))" by simp
  then show ?thesis using m pop_versions_mset [of rest] by simp
qed

text \<open>
  A merged definition keeps every version that was given, the stored one first, and exactly
  that one has the storage flag.
\<close>

theorem merge_crds_stored_version:
  assumes "merge_crds crds ver = Inr m"
  shows "map (\<lambda>v. (vn_name v, vn_storage v)) (crd_versions m) = (ver, True) # map (\<lambda>v. (vn_name v, False)) (tl (crd_versions m))
    \<and> mset (map unflagged (crd_versions m)) = mset (map unflagged (concat (map crd_versions crds)))
    \<and> (\<forall>c\<in>set crds. crd_group c = crd_group m \<and> crd_kind c = crd_kind m \<and> crd_scope c = crd_scope m)"
proof -
  obtain root rest v where c: "mset crds = add_mset root (mset rest)" "crd_versions root = [v]" "vn_name v = ver"
    "\<forall>c\<in>set crds. length (crd_versions c) = 1"
    "\<forall>c\<in>set rest. crd_group c = crd_group root \<and> crd_kind c = crd_kind root \<and> crd_scope c = crd_scope root"
    and m: "m = root\<lparr>crd_versions := v\<lparr>vn_storage := True\<rparr> # pop_versions rest\<rparr>"
    using merge_crds_ok [OF assms] .
  have none: "map (\<lambda>v. (vn_name v, vn_storage v)) (pop_versions rest) = map (\<lambda>v. (vn_name v, False)) (pop_versions rest)"
    by (auto dest: pop_versions_storage)
  have s: "set crds = insert root (set rest)" using arg_cong [OF c(1), of set_mset] by simp
  show ?thesis using merge_crds_versions [OF assms] m none c(3,5) s by simp
qed

theorem merge_crds_stored_version_witness:
  "\<exists>m. merge_crds [\<lparr>crd_group = ''g'', crd_kind = ''K'', crd_scope = ''Cluster'',
          crd_versions = [\<lparr>vn_name = ''v1'', vn_storage = True, vn_other = ()\<rparr>], crd_other = ()\<rparr>,
        \<lparr>crd_group = ''g'', crd_kind = ''K'', crd_scope = ''Cluster'',
          crd_versions = [\<lparr>vn_name = ''v2'', vn_storage = True, vn_other = ()\<rparr>], crd_other = ()\<rparr>] ''v2'' = Inr m
      \<and> map (\<lambda>v. (vn_name v, vn_storage v)) (crd_versions m) = [(''v2'', True), (''v1'', False)]"
  (is "\<exists>m. merge_crds ?cs _ = _ \<and> _")
proof -
  obtain m where m: "merge_crds ?cs ''v2'' = Inr m" and t: "map vn_name (tl (crd_versions m)) = [''v1'']"
    by (simp add: merge_crds_def pop_versions_def)
  then have "map (\<lambda>v. (vn_name v, False)) (tl (crd_versions m)) = [(''v1'', False)]" by (cases "tl (crd_versions m)") auto
  then show ?thesis using merge_crds_stored_version [OF m] m by auto
qed

text \<open>Merging succeeds exactly on single-version definitions that agree and include the version asked for.\<close>

lemma merge_crds_total:
  "(\<exists>m. merge_crds crds ver = Inr m) \<longleftrightarrow>
     (\<forall>c\<in>set crds. length (crd_versions c) = 1) \<and> (\<exists>c\<in>set crds. vn_name (crd_versions c ! 0) = ver)
     \<and> (\<forall>c\<in>set crds. \<forall>d\<in>set crds. crd_group c = crd_group d \<and> crd_kind c = crd_kind d \<and> crd_scope c = crd_scope d)"
  (is "?l \<longleftrightarrow> ?r")
proof
  assume ?l
  then obtain m where m: "merge_crds crds ver = Inr m" ..
  obtain root rest v where c: "mset crds = add_mset root (mset rest)" "crd_versions root = [v]" "vn_name v = ver"
    "\<forall>c\<in>set crds. length (crd_versions c) = 1"
    "\<forall>c\<in>set rest. crd_group c = crd_group root \<and> crd_kind c = crd_kind root \<and> crd_scope c = crd_scope root"
    "m = root\<lparr>crd_versions := v\<lparr>vn_storage := True\<rparr> # pop_versions rest\<rparr>"
    using merge_crds_ok [OF m] .
  have s: "set crds = insert root (set rest)" using arg_cong [OF c(1), of set_mset] by simp
  show ?r using c(2-5) unfolding s by auto
next
  assume r: ?r
  then obtain i where i: "position_of (\<lambda>c. vn_name (crd_versions c ! 0) = ver) crds = Some i"
    using position_of_None [of "\<lambda>c. vn_name (crd_versions c ! 0) = ver" crds] by (meson option.exhaust)
  have one: "check_versions crds = Inr ()" and ne: "crds \<noteq> []" using r by (auto simp: check_versions_ok)
  let ?root = "(crds ! i)\<lparr>crd_versions := (crd_versions (crds ! i))[0 := (crd_versions (crds ! i) ! 0)\<lparr>vn_storage := True\<rparr>]\<rparr>"
  have "crds ! i \<in> set crds" using position_of_Some [OF i] by simp
  moreover have "set (take i crds @ drop (Suc i) crds) \<subseteq> set crds" by (auto dest: in_set_takeD in_set_dropD)
  ultimately have "\<forall>c\<in>set (take i crds @ drop (Suc i) crds).
      crd_group c = crd_group (crds ! i) \<and> crd_kind c = crd_kind (crds ! i) \<and> crd_scope c = crd_scope (crds ! i)"
    using r by blast
  then have "check_properties ?root (take i crds @ drop (Suc i) crds) = Inr ()" unfolding check_properties_ok by simp
  then show ?l using i one ne by (simp add: merge_crds_def Let_def)
qed

section \<open>Structural schemas\<close>

text \<open>
  The data of schemars: a schema is a boolean or an object. Maps are BTreeMaps, here lists sorted
  by key. The fields that the rewriter never looks at are collected in one field of an arbitrary
  type, except in the two structs that it also creates with their default values.
\<close>

datatype instance_type = INull | IBoolean | IObject | IArray | INumber | IString | IInteger

datatype single_or_vec = Single instance_type | Multiple "instance_type list"

datatype metadata = Metadata (md_description: "string option") (md_other: "(string \<times> json) list")

datatype 's object_validation = ObjectValidation
  (ov_max_properties: "u32 option")
  (ov_min_properties: "u32 option")
  (ov_required: "string list")
  (ov_properties: "(string \<times> 's) list")
  (ov_pattern_properties: "(string \<times> 's) list")
  (ov_additional_properties: "'s option")
  (ov_property_names: "'s option")

datatype ('s, 'q) subschema_validation = SubschemaValidation
  (sv_one_of: "'s list option")
  (sv_any_of: "'s list option")
  (sv_other: 'q)

datatype ('s, 'q, 'r) schema_object = SchemaObject
  (so_metadata: "metadata option")
  (so_instance_type: "single_or_vec option")
  (so_enum_values: "json list option")
  (so_subschemas: "('s, 'q) subschema_validation option")
  (so_object: "'s object_validation option")
  (so_extensions: "(string \<times> json) list")
  (so_other: 'r)

datatype ('q, 'r) schema =
    SBool bool
  | SObject "(('q, 'r) schema, 'q, 'r) schema_object"

definition metadata_default :: metadata where
  "metadata_default = Metadata None []"

definition object_default :: "'s object_validation" where
  "object_default = ObjectValidation None None [] [] [] None None"

definition with_properties :: "(string \<times> 's) list \<Rightarrow> 's option \<Rightarrow> 's object_validation \<Rightarrow> 's object_validation" where
  "with_properties ps add o1 = (case o1 of ObjectValidation ma mi re _ pp _ pn \<Rightarrow> ObjectValidation ma mi re ps pp add pn)"

text \<open>\<open>BTreeMap::insert\<close>\<close>

fun btree_insert :: "string \<Rightarrow> 'v \<Rightarrow> (string \<times> 'v) list \<Rightarrow> (string \<times> 'v) list" where
  "btree_insert k v [] = [(k, v)]"
| "btree_insert k v ((k', v') # m) =
     (if k = k' then (k, v) # m else if k < k' then (k, v) # (k', v') # m else (k', v') # btree_insert k v m)"

fun only_item :: "'a list \<Rightarrow> 'a option" where
  "only_item [x] = Some x"
| "only_item _ = None"

definition merge_metadata :: "single_or_vec option \<Rightarrow> single_or_vec option \<Rightarrow> single_or_vec option option" where
  "merge_metadata ty vt =
     (case (ty, vt) of
        (_, None) \<Rightarrow> Some ty
      | (None, vt) \<Rightarrow> Some vt
      | (Some t, Some v) \<Rightarrow> if t \<noteq> v then None else Some ty)"

text \<open>
  The description of a variant moves to its property, when it has exactly one and that is an
  object; it is taken from the variant in every case.
\<close>

fun describe :: "string \<Rightarrow> ('q, 'r) schema \<Rightarrow> ('q, 'r) schema" where
  "describe d (SObject (SchemaObject md ty en sub ov ext oth)) =
     SObject (SchemaObject
       (Some (Metadata (Some d) (md_other (case md of None \<Rightarrow> metadata_default | Some m \<Rightarrow> m)))) ty en sub ov ext oth)"
| "describe d (SBool b) = SBool b"

definition move_description ::
  "metadata option \<Rightarrow> (string \<times> ('q, 'r) schema) list \<Rightarrow> metadata option \<times> (string \<times> ('q, 'r) schema) list" where
  "move_description md ps =
     (case md of
        Some (Metadata (Some d) oth) \<Rightarrow>
          (Some (Metadata None oth),
           case only_item ps of Some (k, p) \<Rightarrow> [(k, describe d p)] | None \<Rightarrow> ps)
      | _ \<Rightarrow> (md, ps))"

text \<open>Moving the properties panics when one is already there with another schema.\<close>

fun move_properties :: "(string \<times> 's) list \<Rightarrow> (string \<times> 's) list \<Rightarrow> (string \<times> 's) list option" where
  "move_properties [] ps = Some ps"
| "move_properties ((k, p) # vs) ps =
     (case map_of ps k of
        None \<Rightarrow> move_properties vs (btree_insert k p ps)
      | Some p' \<Rightarrow> if p \<noteq> p' then None else move_properties vs ps)"

fun hoist_subschema_properties ::
  "('q, 'r) schema list \<Rightarrow> ('q, 'r) schema object_validation option \<Rightarrow> single_or_vec option
   \<Rightarrow> (('q, 'r) schema list \<times> ('q, 'r) schema object_validation option \<times> single_or_vec option) option" where
  "hoist_subschema_properties [] common ty = Some ([], common, ty)"
| "hoist_subschema_properties (SObject (SchemaObject md vt en sub (Some vo) ext oth) # vs) common ty =
     (let co = unwrap_or common object_default;
          (md', vps) = move_description md (ov_properties vo)
      in Option.bind (move_properties vps (ov_properties co)) (\<lambda>ps.
         Option.bind (merge_metadata ty vt) (\<lambda>ty'.
         Option.bind (hoist_subschema_properties vs
             (Some (with_properties ps (ov_additional_properties co) co)) ty') (\<lambda>(vs', common', ty'').
           Some (SObject (SchemaObject md' None en sub (Some (with_properties [] None vo)) ext oth) # vs',
                 common', ty'')))))"
| "hoist_subschema_properties (v # vs) common ty =
     Option.bind (hoist_subschema_properties vs common ty) (\<lambda>(vs', common', ty').
       Some (v # vs', common', ty'))"

fun hoist_subschema_enum_values ::
  "('q, 'r) schema list \<Rightarrow> json list option \<Rightarrow> single_or_vec option
   \<Rightarrow> (('q, 'r) schema list \<times> json list option \<times> single_or_vec option) option" where
  "hoist_subschema_enum_values [] common ty = Some ([], common, ty)"
| "hoist_subschema_enum_values (SObject (SchemaObject md vt (Some en) sub ob ext oth) # vs) common ty =
     Option.bind (merge_metadata ty vt) (\<lambda>ty'.
       hoist_subschema_enum_values vs (Some (unwrap_or common [] @ en)) ty')"
| "hoist_subschema_enum_values (v # vs) common ty =
     Option.bind (hoist_subschema_enum_values vs common ty) (\<lambda>(vs', common', ty').
       Some (v # vs', common', ty'))"

text \<open>The rewriting of one schema object; \<open>None\<close> is a panic.\<close>

definition hoist_one_of ::
  "('q, 'r) schema list option \<Rightarrow> ('q, 'r) schema object_validation option \<Rightarrow> json list option \<Rightarrow> single_or_vec option
   \<Rightarrow> (('q, 'r) schema list option \<times> ('q, 'r) schema object_validation option \<times> json list option
       \<times> single_or_vec option) option" where
  "hoist_one_of one_of ob en ty =
     (case one_of of
        None \<Rightarrow> Some (None, ob, en, ty)
      | Some vs \<Rightarrow>
          Option.bind (hoist_subschema_properties vs ob ty) (\<lambda>(vs, ob, ty).
          Option.bind (hoist_subschema_enum_values vs en ty) (\<lambda>(vs, en, ty).
            Some (if vs = [] then None else Some vs, ob, en, ty))))"

definition hoist_any_of ::
  "('q, 'r) schema list option \<Rightarrow> ('q, 'r) schema object_validation option \<Rightarrow> single_or_vec option
   \<Rightarrow> (('q, 'r) schema list option \<times> ('q, 'r) schema object_validation option \<times> single_or_vec option) option" where
  "hoist_any_of any_of ob ty =
     (case any_of of
        None \<Rightarrow> Some (None, ob, ty)
      | Some vs \<Rightarrow> Option.bind (hoist_subschema_properties vs ob ty) (\<lambda>(vs, ob, ty). Some (Some vs, ob, ty)))"

definition flattened_map :: "('q, 'r) schema object_validation \<Rightarrow> bool" where
  "flattened_map ob \<longleftrightarrow> ov_properties ob \<noteq> [] \<and> ov_additional_properties ob = Some (SBool True)"

definition preserve_unknown :: "(('q, 'r) schema, 'q, 'r) schema_object \<Rightarrow> (('q, 'r) schema, 'q, 'r) schema_object" where
  "preserve_unknown so =
     (case so of SchemaObject md ty en sub ob ext oth \<Rightarrow>
        (case ob of
           None \<Rightarrow> so
         | Some o1 \<Rightarrow>
             if flattened_map o1
             then SchemaObject md ty en sub (Some (with_properties (ov_properties o1) None o1))
                    (btree_insert ''x-kubernetes-preserve-unknown-fields'' (JBool True) ext) oth
             else so))"

definition rewrite_object ::
  "(('q, 'r) schema, 'q, 'r) schema_object \<Rightarrow> (('q, 'r) schema, 'q, 'r) schema_object option" where
  "rewrite_object so =
     (case so of SchemaObject md ty en sub ob ext oth \<Rightarrow>
        (case sub of
           None \<Rightarrow> Some (preserve_unknown so)
         | Some (SubschemaValidation one_of any_of q) \<Rightarrow>
             Option.bind (hoist_one_of one_of ob en ty) (\<lambda>(one_of, ob, en, ty).
             Option.bind (hoist_any_of any_of ob ty) (\<lambda>(any_of, ob, ty).
               Some (preserve_unknown
                 (SchemaObject md ty en (Some (SubschemaValidation one_of any_of q)) ob ext oth))))))"

text \<open>
  \<open>walk\<close> is \<open>schemars::visit::visit_schema_object\<close> for this visitor: it visits the schemas
  below the object, and panics when one of these visits does.
\<close>

definition visit_schema_object ::
  "((('q, 'r) schema, 'q, 'r) schema_object \<Rightarrow> (('q, 'r) schema, 'q, 'r) schema_object option)
   \<Rightarrow> (('q, 'r) schema, 'q, 'r) schema_object \<Rightarrow> (('q, 'r) schema, 'q, 'r) schema_object option" where
  "visit_schema_object walk so = Option.bind (walk so) rewrite_object"

subsection \<open>What the rewriting establishes\<close>

text \<open>A variant that carries nothing which Kubernetes forbids in a subschema.\<close>

fun hoisted :: "('q, 'r) schema \<Rightarrow> bool" where
  "hoisted (SObject (SchemaObject md vt en sub (Some vo) ext oth)) \<longleftrightarrow>
     ov_properties vo = [] \<and> ov_additional_properties vo = None \<and> vt = None
     \<and> (case md of None \<Rightarrow> True | Some m \<Rightarrow> md_description m = None)"
| "hoisted _ \<longleftrightarrow> True"

fun variant_enum :: "('q, 'r) schema \<Rightarrow> json list option" where
  "variant_enum (SObject so) = so_enum_values so"
| "variant_enum (SBool b) = None"

definition structural :: "(('q, 'r) schema, 'q, 'r) schema_object \<Rightarrow> bool" where
  "structural so \<longleftrightarrow>
     (case so_subschemas so of
        None \<Rightarrow> True
      | Some sv \<Rightarrow>
          (case sv_one_of sv of
             None \<Rightarrow> True
           | Some vs \<Rightarrow> vs \<noteq> [] \<and> list_all (\<lambda>v. hoisted v \<and> variant_enum v = None) vs)
          \<and> (case sv_any_of sv of None \<Rightarrow> True | Some vs \<Rightarrow> list_all hoisted vs))
     \<and> (case so_object so of None \<Rightarrow> True | Some ob \<Rightarrow> \<not> flattened_map ob)"

lemma with_properties_sel [simp]:
  "ov_properties (with_properties ps ad ob) = ps"
  "ov_additional_properties (with_properties ps ad ob) = ad"
  by (simp_all add: with_properties_def split: object_validation.splits)

lemma with_properties_same [simp]: "with_properties (ov_properties ob) (ov_additional_properties ob) ob = ob"
  by (cases ob) (simp add: with_properties_def)

lemma move_description_taken: "move_description md ps = (md', ps') \<Longrightarrow> case md' of None \<Rightarrow> True | Some m \<Rightarrow> md_description m = None"
  by (auto simp: move_description_def split: option.splits metadata.splits)

lemma move_description_none:
  "(case md of None \<Rightarrow> True | Some m \<Rightarrow> md_description m = None) \<Longrightarrow> move_description md ps = (md, ps)"
  by (auto simp: move_description_def split: option.splits metadata.splits)

lemma hoist_object_variant:
  assumes "hoist_subschema_properties (SObject (SchemaObject md vt en sub (Some vo) ext oth) # vs) common ty = Some (vs', common', ty')"
    and "move_description md (ov_properties vo) = (md', vps)"
    and "co = unwrap_or common object_default"
  obtains ps ty1 vs1 where "move_properties vps (ov_properties co) = Some ps" "merge_metadata ty vt = Some ty1"
    "hoist_subschema_properties vs (Some (with_properties ps (ov_additional_properties co) co)) ty1 = Some (vs1, common', ty')"
    "vs' = SObject (SchemaObject md' None en sub (Some (with_properties [] None vo)) ext oth) # vs1"
  using assms by (auto simp: Let_def bind_eq_Some_conv)

lemma hoist_properties_hoisted:
  "hoist_subschema_properties vs common ty = Some (vs', common', ty') \<Longrightarrow>
     list_all hoisted vs' \<and> map variant_enum vs' = map variant_enum vs"
proof (induction vs common ty arbitrary: vs' common' ty' rule: hoist_subschema_properties.induct)
  case (2 md vt en sub vo ext oth vs common ty)
  obtain md' vps where m: "move_description md (ov_properties vo) = (md', vps)" by fastforce
  obtain ps ty1 vs1 where s: "move_properties vps (ov_properties (unwrap_or common object_default)) = Some ps" "merge_metadata ty vt = Some ty1"
    "hoist_subschema_properties vs (Some (with_properties ps (ov_additional_properties (unwrap_or common object_default)) (unwrap_or common object_default))) ty1
       = Some (vs1, common', ty')"
    "vs' = SObject (SchemaObject md' None en sub (Some (with_properties [] None vo)) ext oth) # vs1"
    using hoist_object_variant [OF "2.prems" m refl] .
  show ?case using "2.IH" [OF refl m [symmetric] refl s(1,2,3)] s(4) move_description_taken [OF m] by simp
qed (auto split: Option.bind_splits)

lemma hoist_enum_gone:
  "hoist_subschema_enum_values vs common ty = Some (vs', common', ty') \<Longrightarrow>
     vs' = filter (\<lambda>v. variant_enum v = None) vs"
  by (induction vs common ty arbitrary: vs' common' ty' rule: hoist_subschema_enum_values.induct)
    (auto split: Option.bind_splits)

lemma preserve_unknown_sel [simp]:
  "so_subschemas (preserve_unknown so) = so_subschemas so"
  "so_enum_values (preserve_unknown so) = so_enum_values so"
  by (auto simp: preserve_unknown_def split: schema_object.splits option.splits)

lemma preserve_unknown_object:
  "case so_object (preserve_unknown so) of None \<Rightarrow> True | Some ob \<Rightarrow> \<not> flattened_map ob"
  by (auto simp: preserve_unknown_def flattened_map_def split: schema_object.splits option.splits)

lemma hoist_one_of_structural:
  assumes "hoist_one_of one_of ob en ty = Some (one_of', ob', en', ty')"
  shows "case one_of' of None \<Rightarrow> True | Some vs \<Rightarrow> vs \<noteq> [] \<and> list_all (\<lambda>v. hoisted v \<and> variant_enum v = None) vs"
proof (cases one_of)
  case (Some vs)
  then obtain vs1 ob1 ty1 vs2 where "hoist_subschema_properties vs ob ty = Some (vs1, ob1, ty1)"
    and e: "hoist_subschema_enum_values vs1 en ty1 = Some (vs2, en', ty')" and o: "one_of' = (if vs2 = [] then None else Some vs2)"
    using assms by (auto simp: hoist_one_of_def bind_eq_Some_conv)
  then have "list_all hoisted vs1" using hoist_properties_hoisted by blast
  then show ?thesis using o hoist_enum_gone [OF e] by (auto simp: list_all_iff)
qed (use assms in \<open>auto simp: hoist_one_of_def\<close>)

lemma hoist_any_of_structural:
  "hoist_any_of any_of ob ty = Some (any_of', ob', ty') \<Longrightarrow> case any_of' of None \<Rightarrow> True | Some vs \<Rightarrow> list_all hoisted vs"
  by (auto simp: hoist_any_of_def bind_eq_Some_conv split: option.splits dest: hoist_properties_hoisted)

lemma rewrite_object_structural:
  assumes "rewrite_object so = Some so'"
  shows "structural so'"
proof (cases so)
  case (SchemaObject md ty en sub ob ext oth)
  show ?thesis
  proof (cases sub)
    case None
    then show ?thesis using assms SchemaObject preserve_unknown_object [of so]
      by (auto simp: rewrite_object_def structural_def)
  next
    case (Some sv)
    then obtain one_of any_of q where sv: "sv = SubschemaValidation one_of any_of q" by (cases sv)
    then obtain one1 ob1 en1 ty1 any1 ob2 ty2 where h: "hoist_one_of one_of ob en ty = Some (one1, ob1, en1, ty1)"
        "hoist_any_of any_of ob1 ty1 = Some (any1, ob2, ty2)"
      and so': "so' = preserve_unknown (SchemaObject md ty2 en1 (Some (SubschemaValidation one1 any1 q)) ob2 ext oth)"
      using assms Some SchemaObject by (auto simp: rewrite_object_def bind_eq_Some_conv)
    show ?thesis unfolding structural_def so'
      using hoist_one_of_structural [OF h(1)] hoist_any_of_structural [OF h(2)] preserve_unknown_object by simp
  qed
qed

subsection \<open>What the rewriting keeps\<close>

abbreviation own_properties :: "'s object_validation option \<Rightarrow> (string \<times> 's) list" where
  "own_properties ob \<equiv> (case ob of None \<Rightarrow> [] | Some o1 \<Rightarrow> ov_properties o1)"

text \<open>The properties that a variant contributes, its description moved to the only one.\<close>

fun variant_properties :: "('q, 'r) schema \<Rightarrow> (string \<times> ('q, 'r) schema) list" where
  "variant_properties (SObject (SchemaObject md vt en sub (Some vo) ext oth)) =
     snd (move_description md (ov_properties vo))"
| "variant_properties _ = []"

lemma map_of_btree_insert: "map_of ps k = None \<Longrightarrow> map_of (btree_insert k p ps) = (map_of ps)(k \<mapsto> p)"
  by (induction k p ps rule: btree_insert.induct) (auto split: if_splits)

lemma move_properties_exact:
  "move_properties vs ps = Some qs \<Longrightarrow> map_of qs k = Some p \<longleftrightarrow> map_of ps k = Some p \<or> (k, p) \<in> set vs"
proof (induction vs ps rule: move_properties.induct)
  case (2 k' p' vs ps)
  then show ?case
    by (cases "map_of ps k'") (auto simp: map_of_btree_insert split: if_splits)
qed simp

lemma own_properties_default: "ov_properties (unwrap_or common object_default) = own_properties common"
  by (cases common) (simp_all add: object_default_def)

lemma hoist_properties_exact:
  "hoist_subschema_properties vs common ty = Some (vs', common', ty') \<Longrightarrow>
     map_of (own_properties common') k = Some p \<longleftrightarrow>
       map_of (own_properties common) k = Some p \<or> (\<exists>v\<in>set vs. (k, p) \<in> set (variant_properties v))"
proof (induction vs common ty arbitrary: vs' common' ty' rule: hoist_subschema_properties.induct)
  case (2 md vt en sub vo ext oth vs common ty)
  obtain md' vps where m: "move_description md (ov_properties vo) = (md', vps)" by fastforce
  obtain ps ty1 vs1 where s: "move_properties vps (ov_properties (unwrap_or common object_default)) = Some ps" "merge_metadata ty vt = Some ty1"
    "hoist_subschema_properties vs (Some (with_properties ps (ov_additional_properties (unwrap_or common object_default)) (unwrap_or common object_default))) ty1
       = Some (vs1, common', ty')"
    "vs' = SObject (SchemaObject md' None en sub (Some (with_properties [] None vo)) ext oth) # vs1"
    using hoist_object_variant [OF "2.prems" m refl] .
  show ?case
    using "2.IH" [OF refl m [symmetric] refl s(1,2,3)] move_properties_exact [OF s(1), of k p] m
    unfolding own_properties_default by auto
qed (auto split: Option.bind_splits)

lemma hoist_enum_exact:
  "hoist_subschema_enum_values vs common ty = Some (vs', common', ty') \<Longrightarrow>
     unwrap_or common' [] = unwrap_or common [] @ concat (map (\<lambda>v. unwrap_or (variant_enum v) []) vs)"
  by (induction vs common ty arbitrary: vs' common' ty' rule: hoist_subschema_enum_values.induct)
    (auto split: Option.bind_splits)

definition one_of_variants :: "(('q, 'r) schema, 'q, 'r) schema_object \<Rightarrow> ('q, 'r) schema list" where
  "one_of_variants so = (case so_subschemas so of None \<Rightarrow> [] | Some sv \<Rightarrow> unwrap_or (sv_one_of sv) [])"

definition any_of_variants :: "(('q, 'r) schema, 'q, 'r) schema_object \<Rightarrow> ('q, 'r) schema list" where
  "any_of_variants so = (case so_subschemas so of None \<Rightarrow> [] | Some sv \<Rightarrow> unwrap_or (sv_any_of sv) [])"

lemma preserve_unknown_properties [simp]:
  "own_properties (so_object (preserve_unknown so)) = own_properties (so_object so)"
  by (auto simp: preserve_unknown_def split: schema_object.splits option.splits)

lemma hoist_one_of_exact:
  assumes "hoist_one_of one_of ob en ty = Some (one_of', ob', en', ty')"
  shows "map_of (own_properties ob') k = Some p \<longleftrightarrow>
       map_of (own_properties ob) k = Some p \<or> (\<exists>v\<in>set (unwrap_or one_of []). (k, p) \<in> set (variant_properties v))"
    and "unwrap_or en' [] = unwrap_or en [] @ concat (map (\<lambda>v. unwrap_or (variant_enum v) []) (unwrap_or one_of []))"
proof -
  consider "one_of = None" "ob' = ob" "en' = en"
    | vs vs1 ty1 vs2 where "one_of = Some vs" "hoist_subschema_properties vs ob ty = Some (vs1, ob', ty1)"
        "hoist_subschema_enum_values vs1 en ty1 = Some (vs2, en', ty')"
    using assms by (cases one_of) (auto simp: hoist_one_of_def bind_eq_Some_conv)
  then have "(map_of (own_properties ob') k = Some p \<longleftrightarrow>
       map_of (own_properties ob) k = Some p \<or> (\<exists>v\<in>set (unwrap_or one_of []). (k, p) \<in> set (variant_properties v)))
    \<and> unwrap_or en' [] = unwrap_or en [] @ concat (map (\<lambda>v. unwrap_or (variant_enum v) []) (unwrap_or one_of []))"
  proof cases
    case 2
    have "map variant_enum vs1 = map variant_enum vs" using hoist_properties_hoisted [OF 2(2)] by simp
    from arg_cong [OF this, of "map (\<lambda>e. unwrap_or e [])"]
    have "map (\<lambda>v. unwrap_or (variant_enum v) []) vs1 = map (\<lambda>v. unwrap_or (variant_enum v) []) vs"
      by (simp add: comp_def)
    then show ?thesis using hoist_properties_exact [OF 2(2), of k p] hoist_enum_exact [OF 2(3)] 2(1) by simp
  qed simp
  then show "map_of (own_properties ob') k = Some p \<longleftrightarrow>
       map_of (own_properties ob) k = Some p \<or> (\<exists>v\<in>set (unwrap_or one_of []). (k, p) \<in> set (variant_properties v))"
    and "unwrap_or en' [] = unwrap_or en [] @ concat (map (\<lambda>v. unwrap_or (variant_enum v) []) (unwrap_or one_of []))"
    by auto
qed

lemma hoist_any_of_exact:
  "hoist_any_of any_of ob ty = Some (any_of', ob', ty') \<Longrightarrow> map_of (own_properties ob') k = Some p \<longleftrightarrow>
       map_of (own_properties ob) k = Some p \<or> (\<exists>v\<in>set (unwrap_or any_of []). (k, p) \<in> set (variant_properties v))"
  using hoist_properties_exact [of _ ob ty _ ob' ty' k p]
  by (cases any_of) (auto simp: hoist_any_of_def bind_eq_Some_conv)

text \<open>
  The rewriting loses no property and no enum value: the properties of the result are those of
  the object and of all its variants, and its enum values are its own followed by those of the
  \<open>oneOf\<close> variants in order.
\<close>

theorem rewrite_object_keeps:
  assumes "rewrite_object so = Some so'"
  shows "(map_of (own_properties (so_object so')) k = Some p \<longleftrightarrow>
       map_of (own_properties (so_object so)) k = Some p
       \<or> (\<exists>v\<in>set (one_of_variants so @ any_of_variants so). (k, p) \<in> set (variant_properties v)))
    \<and> unwrap_or (so_enum_values so') []
       = unwrap_or (so_enum_values so) [] @ concat (map (\<lambda>v. unwrap_or (variant_enum v) []) (one_of_variants so))"
proof (cases so)
  case (SchemaObject md ty en sub ob ext oth)
  show ?thesis
  proof (cases sub)
    case None
    then show ?thesis using assms SchemaObject
      by (auto simp: rewrite_object_def one_of_variants_def any_of_variants_def)
  next
    case (Some sv)
    then obtain one_of any_of q where sv: "sv = SubschemaValidation one_of any_of q" by (cases sv)
    then obtain one1 ob1 en1 ty1 any1 ob2 ty2 where h: "hoist_one_of one_of ob en ty = Some (one1, ob1, en1, ty1)"
        "hoist_any_of any_of ob1 ty1 = Some (any1, ob2, ty2)"
      and so': "so' = preserve_unknown (SchemaObject md ty2 en1 (Some (SubschemaValidation one1 any1 q)) ob2 ext oth)"
      using assms Some SchemaObject by (auto simp: rewrite_object_def bind_eq_Some_conv)
    have v: "one_of_variants so = unwrap_or one_of []" "any_of_variants so = unwrap_or any_of []"
      using SchemaObject Some sv by (simp_all add: one_of_variants_def any_of_variants_def)
    show ?thesis unfolding so' v
      using hoist_one_of_exact(1) [OF h(1), of k p] hoist_one_of_exact(2) [OF h(1)] hoist_any_of_exact [OF h(2), of k p] SchemaObject by auto
  qed
qed

abbreviation tagged_variant :: "string \<Rightarrow> string \<Rightarrow> (unit, unit) schema" where
  "tagged_variant d k \<equiv> SObject (SchemaObject (Some (Metadata (Some d) [])) (Some (Single IObject)) None None
      (Some (ObjectValidation None None [k] [(k, SObject (SchemaObject None None None None None [] ()))] []
        (Some (SBool False)) None)) [] ())"

definition tagged_enum :: "((unit, unit) schema, unit, unit) schema_object" where
  "tagged_enum = SchemaObject None None None
     (Some (SubschemaValidation (Some [tagged_variant ''first'' ''a'', tagged_variant ''second'' ''b'']) None ())) None [] ()"

theorem rewrite_object_keeps_witness:
  "\<exists>so'. rewrite_object tagged_enum = Some so'
     \<and> (\<exists>p. map_of (own_properties (so_object so')) ''b'' = Some p)
     \<and> map_of (own_properties (so_object so')) ''c'' = None"
proof -
  have r: "\<exists>so'. rewrite_object tagged_enum = Some so'"
    by (simp add: rewrite_object_def tagged_enum_def hoist_one_of_def hoist_any_of_def move_description_def merge_metadata_def Let_def object_default_def)
  have v: "set (one_of_variants tagged_enum @ any_of_variants tagged_enum) = {tagged_variant ''first'' ''a'', tagged_variant ''second'' ''b''}"
    by (simp add: tagged_enum_def one_of_variants_def any_of_variants_def)
  obtain so' where so': "rewrite_object tagged_enum = Some so'" using r ..
  have "map_of (own_properties (so_object so')) ''b'' = Some (describe ''second'' (SObject (SchemaObject None None None None None [] ())))"
    using rewrite_object_keeps [OF so', of "''b''"] unfolding v by (simp add: move_description_def)
  moreover have "map_of (own_properties (so_object so')) ''c'' \<noteq> Some p" for p
    using rewrite_object_keeps [OF so', of "''c''" p] unfolding v by (simp add: move_description_def tagged_enum_def)
  ultimately show ?thesis using so' by (meson option.exhaust)
qed



end
