(* ===== verification/Rt_Run.thy ===== *)
theory Rt_Run
  imports Rt_Controller Rt_Streams "HOL-Library.Product_Lexorder" "HOL-Library.Option_ord"
begin

text \<open>
  \<open>kube-runtime/src/controller/mod.rs\<close>, the \<open>Controller\<close> builder: the trigger streams it
  collects, the store they share, the shutdown futures, and what \<open>run\<close> feeds to the applier.
  A trigger stream is a machine: the requests it has ready, and the steps that it takes on the
  items of its source. A step may read the store, and a step of the watched stream also writes
  it. \<open>SelectAll\<close> may poll its streams in any order, so a schedule lists the stream that is
  polled each time; one poll of a stream is one or two entries of the schedule.
\<close>

section \<open>Trigger streams\<close>

type_synonym 'dt titem = "watcher_error + 'dt reconcile_request"

type_synonym ('dt, 'k) tstep = "('dt, 'k) store_writer \<Rightarrow> ('dt titem list \<times> ('dt, 'k) store_writer) option"

record ('dt, 'k) trigger =
  t_queue :: "'dt titem list"
  t_steps :: "('dt, 'k) tstep list"

definition trigger_of :: "('dt, 'k) tstep list \<Rightarrow> ('dt, 'k) trigger" where
  "trigger_of steps = \<lparr>t_queue = [], t_steps = steps\<rparr>"

definition reading :: "'dt titem list option \<Rightarrow> ('dt, 'k) tstep" where
  "reading outs st = map_option (\<lambda>rs. (rs, st)) outs"

text \<open>The watched stream: the reflector applies an event, then its objects are triggered one by one.\<close>

definition reflect_step :: "('k \<Rightarrow> object_meta) \<Rightarrow> watcher_error + 'k event \<Rightarrow> ('dt, 'k) tstep" where
  "reflect_step meta item st = map_option (\<lambda>(_, st'). ([], st')) (reflector meta st [item])"

definition self_step :: "('k \<Rightarrow> object_meta) \<Rightarrow> 'dt \<Rightarrow> watcher_error + 'k \<Rightarrow> ('dt, 'k) tstep" where
  "self_step meta dt obj = reading (trigger_self meta dt [obj])"

definition self_steps :: "('k \<Rightarrow> object_meta) \<Rightarrow> 'dt \<Rightarrow> watcher_error + 'k event \<Rightarrow> ('dt, 'k) tstep list" where
  "self_steps meta dt item = reflect_step meta item # map (self_step meta dt) (flat_item False item)"

definition trigger_poll :: "('dt, 'k) trigger \<Rightarrow> ('dt, 'k) store_writer
     \<Rightarrow> ('dt titem option \<times> ('dt, 'k) trigger \<times> ('dt, 'k) store_writer) option" where
  "trigger_poll t st =
     (case t_queue t of
        x # q \<Rightarrow> Some (Some x, t\<lparr>t_queue := q\<rparr>, st)
      | [] \<Rightarrow>
          (case t_steps t of
             [] \<Rightarrow> Some (None, t, st)
           | f # fs \<Rightarrow> map_option (\<lambda>(q, st'). (None, \<lparr>t_queue = q, t_steps = fs\<rparr>, st')) (f st)))"

section \<open>The builder\<close>

text \<open>
  A shutdown future is the instant at which it completes, if it ever does. The first field of
  the streams that are built from an API is the items which its watcher yields.
\<close>

record ('dt, 'k, 'b) controller =
  c_trigger_selector :: "('dt, 'k) trigger list"
  c_trigger_backoff :: 'b
  c_graceful_shutdown :: "instant option list"
  c_forceful_shutdown :: "instant option list"
  c_dyntype :: 'dt
  c_reader :: "('dt, 'k) store_writer"

definition controller_with :: "'b \<Rightarrow> ('dt, 'k) trigger \<Rightarrow> ('dt, 'k) store_writer \<Rightarrow> 'dt \<Rightarrow> ('dt, 'k, 'b) controller" where
  "controller_with dflt self_watcher reader dyntype =
     \<lparr>c_trigger_selector = [self_watcher], c_trigger_backoff = dflt,
      c_graceful_shutdown = [None], c_forceful_shutdown = [None], c_dyntype = dyntype, c_reader = reader\<rparr>"

definition controller_new_with :: "'b \<Rightarrow> ('k \<Rightarrow> object_meta) \<Rightarrow> (watcher_error + 'k event) list \<Rightarrow> 'dt
     \<Rightarrow> ('dt, 'k, 'b) controller" where
  "controller_new_with dflt meta watched dyntype =
     controller_with dflt (trigger_of (concat (map (self_steps meta dyntype) watched))) (writer_new dyntype) dyntype"

definition controller_for_stream_with :: "'b \<Rightarrow> ('k \<Rightarrow> object_meta) \<Rightarrow> (watcher_error + 'k) list
     \<Rightarrow> ('dt, 'k) store_writer \<Rightarrow> 'dt \<Rightarrow> ('dt, 'k, 'b) controller" where
  "controller_for_stream_with dflt meta objs reader dyntype =
     controller_with dflt (trigger_of (map (self_step meta dyntype) objs)) reader dyntype"

definition c_set_trigger_backoff :: "('dt, 'k, 'b) controller \<Rightarrow> 'b \<Rightarrow> ('dt, 'k, 'b) controller" where
  "c_set_trigger_backoff c b = c\<lparr>c_trigger_backoff := b\<rparr>"

definition c_store :: "('dt, 'k, 'b) controller \<Rightarrow> ('dt, 'k) store_writer" where
  "c_store c = c_reader c"

definition push_trigger :: "('dt, 'k, 'b) controller \<Rightarrow> ('dt, 'k) trigger \<Rightarrow> ('dt, 'k, 'b) controller" where
  "push_trigger c t = c\<lparr>c_trigger_selector := c_trigger_selector c @ [t]\<rparr>"

definition owns_stream_with :: "'dt resource_class \<Rightarrow> 'c resource_class \<Rightarrow> ('o \<Rightarrow> object_meta)
     \<Rightarrow> ('dt, 'k, 'b) controller \<Rightarrow> (watcher_error + 'o) list \<Rightarrow> 'c \<Rightarrow> ('dt, 'k, 'b) controller" where
  "owns_stream_with K C meta c objs dyntype =
     push_trigger c (trigger_of (map (\<lambda>obj. reading (trigger_owners K C meta (c_dyntype c) dyntype [obj])) objs))"

definition owns_with :: "'dt resource_class \<Rightarrow> 'c resource_class \<Rightarrow> ('o \<Rightarrow> object_meta)
     \<Rightarrow> ('dt, 'k, 'b) controller \<Rightarrow> (watcher_error + 'o event) list \<Rightarrow> 'c \<Rightarrow> ('dt, 'k, 'b) controller" where
  "owns_with K C meta c watched dyntype =
     owns_stream_with K C meta c (concat (map (flat_item True) watched)) dyntype"

definition watches_stream_with :: "'c resource_class \<Rightarrow> ('o \<Rightarrow> object_meta) \<Rightarrow> ('dt, 'k, 'b) controller
     \<Rightarrow> (watcher_error + 'o) list \<Rightarrow> ('o \<Rightarrow> 'dt kref list) \<Rightarrow> 'c \<Rightarrow> ('dt, 'k, 'b) controller" where
  "watches_stream_with C meta c objs mapper dyntype =
     push_trigger c (trigger_of (map (\<lambda>obj. reading (trigger_others C meta mapper dyntype [obj])) objs))"

definition watches_with :: "'c resource_class \<Rightarrow> ('o \<Rightarrow> object_meta) \<Rightarrow> ('dt, 'k, 'b) controller
     \<Rightarrow> (watcher_error + 'o event) list \<Rightarrow> ('o \<Rightarrow> 'dt kref list) \<Rightarrow> 'c \<Rightarrow> ('dt, 'k, 'b) controller" where
  "watches_with C meta c watched mapper dyntype =
     watches_stream_with C meta c (concat (map (flat_item True) watched)) mapper dyntype"

text \<open>
  Every tick of the trigger requests all objects that the store has at that moment, in the
  order \<open>iter\<close> in which the map iterates.
\<close>

fun bulk_requests :: "('k \<Rightarrow> object_meta) \<Rightarrow> 'dt \<Rightarrow> 'k list \<Rightarrow> 'dt titem list option" where
  "bulk_requests meta dt [] = Some []"
| "bulk_requests meta dt (obj # objs) =
     (case from_obj_with (meta obj) dt of
        None \<Rightarrow> None
      | Some r \<Rightarrow> map_option ((#) (Inr \<lparr>rr_obj_ref = r, rr_reason = BulkReconcile\<rparr>)) (bulk_requests meta dt objs))"

definition bulk_step :: "('dt ref_key set \<Rightarrow> 'dt ref_key list) \<Rightarrow> ('k \<Rightarrow> object_meta) \<Rightarrow> 'dt \<Rightarrow> ('dt, 'k) tstep" where
  "bulk_step iter meta dt st = map_option (\<lambda>rs. (rs, st)) (bulk_requests meta dt (store_state iter st))"

definition reconcile_all_on :: "('dt ref_key set \<Rightarrow> 'dt ref_key list) \<Rightarrow> ('k \<Rightarrow> object_meta)
     \<Rightarrow> ('dt, 'k, 'b) controller \<Rightarrow> unit list \<Rightarrow> ('dt, 'k, 'b) controller" where
  "reconcile_all_on iter meta c ticks =
     push_trigger c (trigger_of (map (\<lambda>_. bulk_step iter meta (c_dyntype c)) ticks))"

fun unknown_request :: "watcher_error + 'dt kref \<Rightarrow> 'dt titem" where
  "unknown_request (Inl e) = Inl e"
| "unknown_request (Inr r) = Inr \<lparr>rr_obj_ref = r, rr_reason = Unknown\<rparr>"

definition reconcile_on :: "('dt, 'k, 'b) controller \<Rightarrow> (watcher_error + 'dt kref) list \<Rightarrow> ('dt, 'k, 'b) controller" where
  "reconcile_on c refs = push_trigger c (trigger_of (map (\<lambda>r. reading (Some [unknown_request r])) refs))"

definition graceful_shutdown_on :: "('dt, 'k, 'b) controller \<Rightarrow> instant option \<Rightarrow> ('dt, 'k, 'b) controller" where
  "graceful_shutdown_on c fut = c\<lparr>c_graceful_shutdown := c_graceful_shutdown c @ [fut]\<rparr>"

text \<open>
  \<open>next_signal t\<close> is when a listener created at \<open>t\<close> gets its first signal. The second
  listener is created when the first one has got its signal.
\<close>

definition shutdown_on_signal :: "(instant \<Rightarrow> instant option) \<Rightarrow> instant \<Rightarrow> ('dt, 'k, 'b) controller \<Rightarrow> ('dt, 'k, 'b) controller" where
  "shutdown_on_signal next_signal start c =
     c\<lparr>c_graceful_shutdown := c_graceful_shutdown c @ [next_signal start],
       c_forceful_shutdown := c_forceful_shutdown c @ [Option.bind (next_signal start) next_signal]\<rparr>"

section \<open>Running\<close>

text \<open>\<open>select_all\<close> panics on no futures.\<close>

fun earliest :: "instant option list \<Rightarrow> instant option" where
  "earliest [] = None"
| "earliest (None # fs) = earliest fs"
| "earliest (Some t # fs) = (case earliest fs of None \<Rightarrow> Some t | Some u \<Rightarrow> Some (min t u))"

definition select_all_futures :: "instant option list \<Rightarrow> instant option option" where
  "select_all_futures fs = (if fs = [] then None else Some (earliest fs))"

definition take_until :: "instant option \<Rightarrow> (instant \<times> 'a) list \<Rightarrow> (instant \<times> 'a) list" where
  "take_until stop xs = takeWhile (\<lambda>(t, _). case stop of None \<Rightarrow> True | Some s \<Rightarrow> t < s) xs"

text \<open>Polls of the selected streams; every item comes with the store of that moment.\<close>

fun poll_triggers :: "nat list \<Rightarrow> ('dt, 'k) trigger list \<Rightarrow> ('dt, 'k) store_writer
     \<Rightarrow> (('dt titem \<times> ('dt, 'k) store_writer) list \<times> ('dt, 'k) trigger list \<times> ('dt, 'k) store_writer) option" where
  "poll_triggers [] ts st = Some ([], ts, st)"
| "poll_triggers (i # sched) ts st =
     (if i < length ts then
        (case trigger_poll (ts ! i) st of
           None \<Rightarrow> None
         | Some (x, t, st') \<Rightarrow>
             map_option (map_prod (\<lambda>trace. (case x of None \<Rightarrow> [] | Some x \<Rightarrow> [(x, st')]) @ trace) id)
               (poll_triggers sched (ts[i := t]) st'))
      else poll_triggers sched ts st)"

text \<open>The queue that \<open>run\<close> hands to the applier, and the outputs of the applier that it returns.\<close>

definition run_queue :: "('dt, 'k, 'b) controller \<Rightarrow> (instant \<times> nat) list
     \<Rightarrow> (('dt titem \<times> ('dt, 'k) store_writer) list \<times> ('dt, 'k) trigger list \<times> ('dt, 'k) store_writer) option" where
  "run_queue c sched =
     Option.bind (select_all_futures (c_graceful_shutdown c)) (\<lambda>stop.
       poll_triggers (map snd (take_until stop sched)) (c_trigger_selector c) (c_reader c))"

definition run_outputs :: "('dt, 'k, 'b) controller \<Rightarrow> (instant \<times> 'a) list \<Rightarrow> (instant \<times> 'a) list option" where
  "run_outputs c outs = map_option (\<lambda>stop. take_until stop outs) (select_all_futures (c_forceful_shutdown c))"

section \<open>The invariant of a controller\<close>

definition store_keyed :: "('k \<Rightarrow> object_meta) \<Rightarrow> ('dt, 'k) store_writer \<Rightarrow> bool" where
  "store_keyed meta st \<longleftrightarrow> (\<forall>k obj. w_store st k = Some obj \<longrightarrow> obj_key meta (w_dyntype st) obj = Some k)"

definition known :: "('dt, 'k) store_writer \<Rightarrow> 'dt titem \<Rightarrow> bool" where
  "known st x \<longleftrightarrow> (case x of Inl e \<Rightarrow> True
     | Inr r \<Rightarrow> rr_reason r = ObjectUpdated \<longrightarrow> w_store st (key_of (rr_obj_ref r)) \<noteq> None)"

definition quiet_step :: "('dt, 'k) tstep \<Rightarrow> bool" where
  "quiet_step f \<longleftrightarrow> (\<forall>st q st'. f st = Some (q, st') \<longrightarrow> st' = st \<and> (\<forall>r. Inr r \<in> set q \<longrightarrow> rr_reason r \<noteq> ObjectUpdated))"

text \<open>A stream that neither writes the store nor requests its own objects.\<close>

definition quiet :: "('dt, 'k) trigger \<Rightarrow> bool" where
  "quiet t \<longleftrightarrow> (\<forall>f\<in>set (t_steps t). quiet_step f) \<and> (\<forall>r. Inr r \<in> set (t_queue t) \<longrightarrow> rr_reason r \<noteq> ObjectUpdated)"

text \<open>The watched stream, in the middle of an event: the objects that are left are in the store.\<close>

definition watching_own :: "('k \<Rightarrow> object_meta) \<Rightarrow> 'dt \<Rightarrow> ('dt, 'k) store_writer \<Rightarrow> ('dt, 'k) trigger \<Rightarrow> bool" where
  "watching_own meta dt st t \<longleftrightarrow>
     (\<exists>objs items. t_steps t = map (self_step meta dt) objs @ concat (map (self_steps meta dt) items)
        \<and> (\<forall>obj k. Inr obj \<in> set objs \<longrightarrow> obj_key meta dt obj = Some k \<longrightarrow> w_store st k \<noteq> None))
     \<and> (\<forall>x\<in>set (t_queue t). known st x)"

definition triggers_ok :: "('k \<Rightarrow> object_meta) \<Rightarrow> 'dt \<Rightarrow> ('dt, 'k) trigger list \<Rightarrow> ('dt, 'k) store_writer \<Rightarrow> bool" where
  "triggers_ok meta dt ts st \<longleftrightarrow> ts \<noteq> [] \<and> watching_own meta dt st (hd ts) \<and> (\<forall>t\<in>set (tl ts). quiet t)
     \<and> store_keyed meta st \<and> w_dyntype st = dt"

definition controller_ok :: "('k \<Rightarrow> object_meta) \<Rightarrow> ('dt, 'k, 'b) controller \<Rightarrow> bool" where
  "controller_ok meta c \<longleftrightarrow> triggers_ok meta (c_dyntype c) (c_trigger_selector c) (c_reader c)
     \<and> c_graceful_shutdown c \<noteq> [] \<and> c_forceful_shutdown c \<noteq> []"

subsection \<open>The store\<close>

lemma store_keyedD: "\<lbrakk>store_keyed meta st; w_store st k = Some obj\<rbrakk> \<Longrightarrow> obj_key meta (w_dyntype st) obj = Some k"
  unfolding store_keyed_def by blast

lemma collect_objs_keyed:
  "\<lbrakk>collect_objs meta dt objs m = Some m'; \<forall>k o1. m k = Some o1 \<longrightarrow> obj_key meta dt o1 = Some k; m' k = Some o1\<rbrakk>
     \<Longrightarrow> obj_key meta dt o1 = Some k"
proof (induction objs arbitrary: m)
  case (Cons obj objs)
  then obtain key where key: "obj_key meta dt obj = Some key" by (cases "obj_key meta dt obj") auto
  then have c: "collect_objs meta dt objs (m(key \<mapsto> obj)) = Some m'" using Cons.prems(1) by simp
  show ?case by (rule Cons.IH [OF c _ Cons.prems(3)]) (use Cons.prems(2) key in auto)
qed (metis collect_objs.simps(1) option.inject)

lemma collect_objs_grows: "\<lbrakk>collect_objs meta dt objs m = Some m'; m k \<noteq> None\<rbrakk> \<Longrightarrow> m' k \<noteq> None"
proof (induction objs arbitrary: m)
  case (Cons obj objs)
  then show ?case by (auto split: option.splits if_splits)
qed simp

lemma collect_objs_has:
  "\<lbrakk>collect_objs meta dt objs m = Some m'; obj \<in> set objs; obj_key meta dt obj = Some k\<rbrakk> \<Longrightarrow> m' k \<noteq> None"
proof (induction objs arbitrary: m)
  case (Cons o1 objs)
  then show ?case
    by (cases "obj_key meta dt o1") (auto dest: collect_objs_grows [where k = k])
qed simp

lemma event_keyed:
  assumes "apply_watcher_event meta st ev = Some st'" and "store_keyed meta st"
  shows "store_keyed meta st'"
proof -
  have d: "w_dyntype st' = w_dyntype st" using apply_event_ready [OF assms(1)] by simp
  have m: "Some (w_store st') = apply_event_store meta (w_dyntype st) ev (w_store st)"
    using assms(1) by (auto simp: apply_watcher_event_def split: option.splits if_splits)
  show ?thesis
  proof (cases ev)
    case (Restarted objs)
    then show ?thesis using m collect_objs_keyed [of meta "w_dyntype st" objs Map.empty "w_store st'"] d
      by (simp add: store_keyed_def)
  qed (use m assms(2) d in \<open>auto simp: store_keyed_def split: option.splits if_splits\<close>)
qed

lemma event_stores:
  assumes "apply_watcher_event meta st ev = Some st'" and "obj \<in> set (into_iter_applied ev)"
    and "obj_key meta (w_dyntype st) obj = Some k"
  shows "w_store st' k \<noteq> None"
proof -
  have m: "Some (w_store st') = apply_event_store meta (w_dyntype st) ev (w_store st)"
    using assms(1) by (auto simp: apply_watcher_event_def split: option.splits if_splits)
  show ?thesis using assms(2,3) m by (cases ev) (auto dest: collect_objs_has [OF sym])
qed

subsection \<open>Polling keeps it\<close>

lemma self_step_known:
  assumes "self_step meta dt obj st = Some (q, st')"
    and "\<And>o1 k. obj = Inr o1 \<Longrightarrow> obj_key meta dt o1 = Some k \<Longrightarrow> w_store st k \<noteq> None"
  shows "st' = st \<and> (\<forall>x\<in>set q. known st x)"
proof (cases obj)
  case (Inr o1)
  then obtain r where r: "from_obj_with (meta o1) dt = Some r" "st' = st" "q = [Inr \<lparr>rr_obj_ref = r, rr_reason = ObjectUpdated\<rparr>]"
    using assms(1) by (auto simp: self_step_def reading_def trigger_self_def split: option.splits)
  then have "w_store st (key_of r) \<noteq> None" using assms(2) [OF Inr, of "key_of r"] by (simp add: obj_key_def)
  then show ?thesis using r by (simp add: known_def)
qed (use assms(1) in \<open>auto simp: self_step_def reading_def trigger_self_def known_def\<close>)

lemma reflect_step_applies:
  assumes "reflect_step meta item st = Some (q, st')" and "store_keyed meta st" and "w_dyntype st = dt"
  shows "q = [] \<and> store_keyed meta st' \<and> w_dyntype st' = dt
    \<and> (\<forall>obj k. Inr obj \<in> set (flat_item False item) \<longrightarrow> obj_key meta dt obj = Some k \<longrightarrow> w_store st' k \<noteq> None)"
proof (cases item)
  case (Inr ev)
  then have a: "apply_watcher_event meta st ev = Some st'" "q = []"
    using assms(1) by (auto simp: reflect_step_def split: option.splits)
  then show ?thesis using Inr event_keyed [OF a(1) assms(2)] apply_event_ready [OF a(1)] event_stores [OF a(1)] assms(3) by auto
qed (use assms in \<open>auto simp: reflect_step_def\<close>)

lemma own_poll:
  assumes "trigger_poll t st = Some (x, t', st')" and "watching_own meta dt st t" and "store_keyed meta st" and "w_dyntype st = dt"
  shows "watching_own meta dt st' t' \<and> store_keyed meta st' \<and> w_dyntype st' = dt \<and> (\<forall>y. x = Some y \<longrightarrow> known st' y)"
proof (cases "t_queue t")
  case (Cons y q)
  then have e: "x = Some y" "t' = t\<lparr>t_queue := q\<rparr>" "st' = st" using assms(1) by (auto simp: trigger_poll_def)
  have "watching_own meta dt st t' \<and> known st y" using assms(2) Cons unfolding watching_own_def e(2) by simp
  then show ?thesis using e assms(3,4) by simp
next
  case Nil
  obtain objs items where s: "t_steps t = map (self_step meta dt) objs @ concat (map (self_steps meta dt) items)"
    "\<forall>obj k. Inr obj \<in> set objs \<longrightarrow> obj_key meta dt obj = Some k \<longrightarrow> w_store st k \<noteq> None"
    using assms(2) by (auto simp: watching_own_def)
  consider "objs = []" "items = []" | o1 os where "objs = o1 # os" | it its where "objs = []" "items = it # its"
    by (cases objs; cases items) auto
  then show ?thesis
  proof cases
    case 1
    then show ?thesis using assms Nil s by (auto simp: trigger_poll_def)
  next
    case 2
    then obtain q where q: "self_step meta dt o1 st = Some (q, st')" "x = None"
      "t' = \<lparr>t_queue = q, t_steps = map (self_step meta dt) os @ concat (map (self_steps meta dt) items)\<rparr>"
      using assms(1) Nil s by (auto simp: trigger_poll_def)
    have k: "st' = st \<and> (\<forall>x\<in>set q. known st x)" using self_step_known [OF q(1)] s(2) 2 by auto
    have "\<forall>obj k. Inr obj \<in> set os \<longrightarrow> obj_key meta dt obj = Some k \<longrightarrow> w_store st k \<noteq> None" using s(2) 2 by simp
    then have "watching_own meta dt st t'" unfolding watching_own_def q(3) using k by auto
    then show ?thesis using k assms(3,4) q(2) by simp
  next
    case 3
    then obtain q where q: "reflect_step meta it st = Some (q, st')" "x = None"
      "t' = \<lparr>t_queue = q, t_steps = map (self_step meta dt) (flat_item False it) @ concat (map (self_steps meta dt) its)\<rparr>"
      using assms(1) Nil s by (auto simp: trigger_poll_def self_steps_def)
    note r = reflect_step_applies [OF q(1) assms(3,4)]
    then have "watching_own meta dt st' t'" unfolding watching_own_def q(3) by auto
    then show ?thesis using r q(2) by simp
  qed
qed

lemma quiet_poll:
  assumes "trigger_poll t st = Some (x, t', st')" and "quiet t"
  shows "quiet t' \<and> st' = st \<and> (\<forall>y. x = Some y \<longrightarrow> known st y)"
proof (cases "t_queue t")
  case (Cons y q)
  then show ?thesis using assms by (auto simp: trigger_poll_def quiet_def known_def split: sum.splits)
next
  case Nil
  then show ?thesis using assms
    by (cases "t_steps t") (auto simp: trigger_poll_def quiet_def quiet_step_def)
qed

lemma poll_keeps_ok:
  assumes "triggers_ok meta dt ts st" and "i < length ts" and "trigger_poll (ts ! i) st = Some (x, t, st')"
  shows "triggers_ok meta dt (ts[i := t]) st' \<and> (\<forall>y. x = Some y \<longrightarrow> known st' y)"
proof -
  obtain t0 ts' where ts: "ts = t0 # ts'" using assms(1) by (cases ts) (auto simp: triggers_ok_def)
  show ?thesis
  proof (cases i)
    case 0
    then show ?thesis using own_poll [of t0 st x t st' meta dt] assms ts by (auto simp: triggers_ok_def)
  next
    case (Suc j)
    have "ts' ! j \<in> set ts'" using assms(2) ts Suc by simp
    then have "quiet t \<and> st' = st \<and> (\<forall>y. x = Some y \<longrightarrow> known st y)"
      using quiet_poll [of "ts' ! j" st x t st'] assms ts Suc by (auto simp: triggers_ok_def)
    then show ?thesis using assms ts Suc by (auto simp: triggers_ok_def dest: set_update_subset_insert [THEN subsetD])
  qed
qed

lemma run_keeps_ok:
  "\<lbrakk>triggers_ok meta dt ts st; poll_triggers sched ts st = Some (trace, ts', st')\<rbrakk> \<Longrightarrow>
     triggers_ok meta dt ts' st' \<and> (\<forall>(x, s)\<in>set trace. known s x \<and> store_keyed meta s \<and> w_dyntype s = dt)"
proof (induction sched ts st arbitrary: trace ts' st' rule: poll_triggers.induct)
  case (2 i sched ts st)
  show ?case
  proof (cases "i < length ts")
    case True
    then obtain x t st1 tr where p: "trigger_poll (ts ! i) st = Some (x, t, st1)"
      "poll_triggers sched (ts[i := t]) st1 = Some (tr, ts', st')"
      "trace = (case x of None \<Rightarrow> [] | Some x \<Rightarrow> [(x, st1)]) @ tr"
      using "2.prems"(2) by (auto split: option.splits)
    note k = poll_keeps_ok [OF "2.prems"(1) True p(1)]
    have s1: "store_keyed meta st1" "w_dyntype st1 = dt" using k by (auto simp: triggers_ok_def)
    have "triggers_ok meta dt ts' st' \<and> (\<forall>(x, s)\<in>set tr. known s x \<and> store_keyed meta s \<and> w_dyntype s = dt)"
      using "2.IH"(1) [OF True p(1) refl refl _ p(2)] k by simp
    then show ?thesis using k s1 p(3) by (cases x) auto
  qed (use 2 in simp)
qed auto

subsection \<open>The builder keeps it\<close>

lemma quiet_trigger_of [inv_intros]: "(\<And>f. f \<in> set fs \<Longrightarrow> quiet_step f) \<Longrightarrow> quiet (trigger_of fs)"
  by (simp add: quiet_def trigger_of_def)

lemma trigger_with_reason:
  assumes "\<And>obj rs r. mapper obj = Some rs \<Longrightarrow> r \<in> set rs \<Longrightarrow> rr_reason r \<noteq> ObjectUpdated"
  shows "quiet_step (reading (trigger_with mapper items))"
  using assms by (auto simp: quiet_step_def reading_def dest: trigger_with_sound)

lemma others_quiet [inv_intros]: "quiet_step (reading (trigger_others C meta mapper dt items))"
  unfolding trigger_others_def by (rule trigger_with_reason) (auto simp: others_mapper_def Let_def)

lemma owners_quiet [inv_intros]: "quiet_step (reading (trigger_owners K C meta odt cdt items))"
  unfolding trigger_owners_def by (rule others_quiet)

lemma bulk_requests_exact:
  "bulk_requests meta dt objs =
     (if \<exists>obj\<in>set objs. from_obj_with (meta obj) dt = None then None
      else Some (map (\<lambda>obj. Inr \<lparr>rr_obj_ref = the (from_obj_with (meta obj) dt), rr_reason = BulkReconcile\<rparr>) objs))"
  by (induction objs) (auto split: option.splits)

lemma bulk_quiet [inv_intros]: "quiet_step (bulk_step iter meta dt)"
  by (auto simp: quiet_step_def bulk_step_def bulk_requests_exact)

lemma unknown_quiet [inv_intros]: "quiet_step (reading (Some [unknown_request r]))"
  by (cases r) (auto simp: quiet_step_def reading_def)

lemma new_ok [inv_intros]: "controller_ok meta (controller_new_with dflt meta watched dt)"
proof -
  have "watching_own meta dt (writer_new dt) (trigger_of (concat (map (self_steps meta dt) watched)))"
    unfolding watching_own_def trigger_of_def by (intro conjI exI [of _ "[]"] exI [of _ watched]) simp_all
  then show ?thesis
    by (simp add: controller_ok_def controller_new_with_def controller_with_def triggers_ok_def store_keyed_def writer_new_def)
qed

lemma push_ok [inv_intros]: "\<lbrakk>controller_ok meta c; quiet t\<rbrakk> \<Longrightarrow> controller_ok meta (push_trigger c t)"
  by (cases "c_trigger_selector c") (auto simp: controller_ok_def push_trigger_def triggers_ok_def)

text \<open>Every operation of the builder keeps the invariant.\<close>

theorem builder_keeps_ok:
  assumes "controller_ok meta c"
  shows "controller_ok meta (c_set_trigger_backoff c b)
    \<and> controller_ok meta (owns_with K C ometa c watched cdt)
    \<and> controller_ok meta (owns_stream_with K C ometa c objs cdt)
    \<and> controller_ok meta (watches_with C ometa c watched mapper cdt)
    \<and> controller_ok meta (watches_stream_with C ometa c objs mapper cdt)
    \<and> controller_ok meta (reconcile_all_on iter meta c ticks)
    \<and> controller_ok meta (reconcile_on c refs)
    \<and> controller_ok meta (graceful_shutdown_on c fut)
    \<and> controller_ok meta (shutdown_on_signal next_signal start c)"
proof -
  have s: "controller_ok meta (owns_stream_with K C ometa c objs cdt)"
      "controller_ok meta (watches_stream_with C ometa c objs mapper cdt)" for objs
    using assms unfolding owns_stream_with_def watches_stream_with_def by (auto intro!: inv_intros)
  have r: "controller_ok meta (reconcile_all_on iter meta c ticks)" "controller_ok meta (reconcile_on c refs)"
    using assms unfolding reconcile_all_on_def reconcile_on_def by (auto intro!: inv_intros)
  have o: "controller_ok meta (c_set_trigger_backoff c b)" "controller_ok meta (graceful_shutdown_on c fut)"
      "controller_ok meta (shutdown_on_signal next_signal start c)"
    using assms by (simp_all add: controller_ok_def c_set_trigger_backoff_def graceful_shutdown_on_def shutdown_on_signal_def)
  show ?thesis using s r o unfolding owns_with_def watches_with_def by simp
qed

section \<open>What the applier is handed\<close>

lemma select_all_never_panics: "controller_ok meta c \<Longrightarrow> select_all_futures (c_graceful_shutdown c) \<noteq> None \<and> select_all_futures (c_forceful_shutdown c) \<noteq> None"
  by (simp add: controller_ok_def select_all_futures_def)

text \<open>
  C8: No reconciliation of an updated object misses it. Take a controller with the invariant that
  \<open>new_with\<close> establishes and every later operation of the builder keeps. However its streams are
  polled, when a request that an update of a watched object has caused is handed to the applier,
  a lookup of its reference finds an object of just that name and namespace.
\<close>

theorem updates_are_stored:
  assumes "controller_ok meta c" and "run_queue c sched = Some (trace, ts, st)"
    and "(Inr r, s) \<in> set trace" and "rr_reason r = ObjectUpdated"
  shows "\<exists>obj. store_get s (rr_obj_ref r) = Some obj \<and> obj_key meta (c_dyntype c) obj = Some (key_of (rr_obj_ref r))"
proof -
  obtain stop where p: "poll_triggers (map snd (take_until stop sched)) (c_trigger_selector c) (c_reader c) = Some (trace, ts, st)"
    using assms(2) by (auto simp: run_queue_def bind_eq_Some_conv)
  have "triggers_ok meta (c_dyntype c) (c_trigger_selector c) (c_reader c)" using assms(1) by (simp add: controller_ok_def)
  from run_keeps_ok [OF this p] have k: "known s (Inr r)" "store_keyed meta s" "w_dyntype s = c_dyntype c"
    using assms(3) by auto
  then obtain obj where "w_store s (key_of (rr_obj_ref r)) = Some obj" using assms(4) by (auto simp: known_def)
  then show ?thesis using k(3) store_keyedD [OF k(2)] by (auto simp: store_get_def)
qed

definition sample_controller :: "(unit, object_meta, unit) controller" where
  "sample_controller = reconcile_on
     (controller_new_with () (\<lambda>m. m) [Inr (Applied (log_object 1 ''a''))] ())
     [Inr (kref_new_with ''c'' ())]"

lemmas sample_simps = sample_controller_def reconcile_on_def push_trigger_def controller_new_with_def controller_with_def
  trigger_of_def self_steps_def reflect_step_def self_step_def reading_def trigger_self_def

lemma sample_ok: "controller_ok (\<lambda>m. m) sample_controller"
  unfolding sample_controller_def reconcile_on_def by (intro inv_intros) (auto intro: inv_intros simp del: unknown_request.simps)

theorem builder_keeps_ok_witness:
  "controller_ok (\<lambda>m. m) (graceful_shutdown_on sample_controller (Some 5))
   \<and> controller_ok (\<lambda>m. m) (shutdown_on_signal (\<lambda>t. Some (t + 1)) 0 sample_controller)"
  by (intro conjI; rule builder_keeps_ok [OF sample_ok, THEN conjunct2, THEN conjunct2, THEN conjunct2, THEN conjunct2, THEN conjunct2, THEN conjunct2,
        THEN conjunct2, THEN conjunct1] builder_keeps_ok [OF sample_ok, THEN conjunct2, THEN conjunct2, THEN conjunct2, THEN conjunct2, THEN conjunct2,
        THEN conjunct2, THEN conjunct2, THEN conjunct2])

theorem updates_are_stored_witness:
  "\<exists>trace ts st. run_queue sample_controller [(0, 0), (0, 1), (0, 0), (1, 1), (1, 0)] = Some (trace, ts, st)
     \<and> (\<exists>r s. (Inr r, s) \<in> set trace \<and> rr_reason r = ObjectUpdated \<and> (\<exists>obj. store_get s (rr_obj_ref r) = Some obj))"
proof -
  have "\<exists>trace ts st. run_queue sample_controller [(0, 0), (0, 1), (0, 0), (1, 1), (1, 0)] = Some (trace, ts, st)
      \<and> (\<exists>r s. (Inr r, s) \<in> set trace \<and> rr_reason r = ObjectUpdated)"
    by (simp add: run_queue_def select_all_futures_def take_until_def sample_simps trigger_poll_def
        apply_watcher_event_def writer_new_def from_obj_with_def name_unchecked_def log_object_def object_meta_default_def
        obj_key_cases) (metis reconcile_request.select_convs(2))
  then obtain trace ts st where r: "run_queue sample_controller [(0, 0), (0, 1), (0, 0), (1, 1), (1, 0)] = Some (trace, ts, st)"
    and m: "\<exists>r s. (Inr r, s) \<in> set trace \<and> rr_reason r = ObjectUpdated" by blast
  then show ?thesis using updates_are_stored [OF sample_ok r] by blast
qed

text \<open>A bulk reconciliation requests exactly the objects of the store, each once.\<close>

theorem bulk_requests_all:
  assumes "store_keyed meta st" and "w_dyntype st = dt" and "finite (dom (w_store st))"
    and "hash_order iter"
  shows "\<exists>q. bulk_step iter meta dt st = Some (q, st) \<and> length q = store_len st
    \<and> (\<forall>k obj. w_store st k = Some obj \<longleftrightarrow>
         (\<exists>r. Inr r \<in> set q \<and> rr_reason r = BulkReconcile \<and> key_of (rr_obj_ref r) = k \<and> store_get st (rr_obj_ref r) = Some obj))"
proof -
  let ?ks = "iter (dom (w_store st))" and ?ref = "\<lambda>k. the (from_obj_with (meta (the (w_store st k))) dt)"
  let ?q = "map (\<lambda>k. Inr \<lparr>rr_obj_ref = ?ref k, rr_reason = BulkReconcile\<rparr> :: watcher_error + _) ?ks"
  have ks: "set ?ks = dom (w_store st)" "distinct ?ks" using hash_order.iter_keys [OF assms(4,3)] hash_order.iter_distinct [OF assms(4,3)] by auto
  have key: "\<exists>r. from_obj_with (meta (the (w_store st k))) dt = Some r \<and> key_of r = k" if "k \<in> dom (w_store st)" for k
  proof -
    have "obj_key meta dt (the (w_store st k)) = Some k" using that assms(2) store_keyedD [OF assms(1), of k] by auto
    then show ?thesis by (auto simp: obj_key_def)
  qed
  have "\<forall>k\<in>set ?ks. from_obj_with (meta (the (w_store st k))) dt \<noteq> None" unfolding ks(1) using key by fastforce
  then have q: "bulk_step iter meta dt st = Some (?q, st)"
    by (auto simp: bulk_step_def bulk_requests_exact store_state_def)
  have ref: "key_of (?ref k) = k \<and> store_get st (?ref k) = w_store st k" if "k \<in> dom (w_store st)" for k
    using key [OF that] that by (auto simp: store_get_def)
  have "length ?q = store_len st" using distinct_card [OF ks(2)] ks(1) by (simp add: store_len_def)
  moreover have "w_store st k = Some obj \<longleftrightarrow>
      (\<exists>r. Inr r \<in> set ?q \<and> rr_reason r = BulkReconcile \<and> key_of (rr_obj_ref r) = k \<and> store_get st (rr_obj_ref r) = Some obj)" (is "?l = ?r") for k obj
  proof
    assume ?l
    then have "k \<in> dom (w_store st)" by auto
    then show ?r using ref [of k] ks(1) \<open>?l\<close> unfolding set_map by (intro exI [of _ "\<lparr>rr_obj_ref = ?ref k, rr_reason = BulkReconcile\<rparr>"] conjI imageI) simp_all
  next
    assume ?r
    then obtain r where r: "Inr r \<in> set ?q" "key_of (rr_obj_ref r) = k" "store_get st (rr_obj_ref r) = Some obj" by blast
    then obtain k' where "k' \<in> dom (w_store st)" "r = \<lparr>rr_obj_ref = ?ref k', rr_reason = BulkReconcile\<rparr>"
      using ks(1) unfolding set_map by (elim imageE) simp
    then have "k' \<in> dom (w_store st)" "key_of (?ref k') = k" "store_get st (?ref k') = Some obj" using r(2,3) by simp_all
    then show ?l using ref [of k'] by simp
  qed
  ultimately show ?thesis using q by blast
qed

definition sample_store :: "(unit, object_meta) store_writer" where
  "sample_store = (writer_new ())\<lparr>w_store := [((), ''a'', None) \<mapsto> log_object 1 ''a'', ((), ''b'', None) \<mapsto> log_object 2 ''b'']\<rparr>"

theorem bulk_requests_all_witness:
  "\<exists>q. bulk_step sorted_list_of_set (\<lambda>m. m) () sample_store = Some (q, sample_store) \<and> length q = store_len sample_store"
proof -
  have "store_keyed (\<lambda>m. m) sample_store" "w_dyntype sample_store = ()" "finite (dom (w_store sample_store))"
    by (simp_all add: store_keyed_def sample_store_def writer_new_def)
  from bulk_requests_all [OF this sorted_order.hash_order_axioms] show ?thesis by blast
qed

section \<open>Every update is handed over\<close>

text \<open>What a stream does when it is polled to its end.\<close>

fun run_steps :: "('dt, 'k) tstep list \<Rightarrow> ('dt, 'k) store_writer \<Rightarrow> ('dt titem list \<times> ('dt, 'k) store_writer) option" where
  "run_steps [] st = Some ([], st)"
| "run_steps (f # fs) st =
     Option.bind (f st) (\<lambda>(q, st1). Option.bind (run_steps fs st1) (\<lambda>(q', st2). Some (q @ q', st2)))"

lemma poll_queue:
  "poll_triggers (replicate (length q) 0 @ sched) (\<lparr>t_queue = q, t_steps = fs\<rparr> # ts) st
     = map_option (map_prod (\<lambda>trace. map (\<lambda>x. (x, st)) q @ trace) id) (poll_triggers sched (\<lparr>t_queue = [], t_steps = fs\<rparr> # ts) st)"
  by (induction q) (auto simp: trigger_poll_def option.map_comp comp_def map_prod_def split_beta option.map_ident)

lemma drain_steps:
  "run_steps fs st = Some (outs, st') \<Longrightarrow>
     \<exists>n trace. poll_triggers (replicate n 0) (\<lparr>t_queue = [], t_steps = fs\<rparr> # ts) st = Some (trace, \<lparr>t_queue = [], t_steps = []\<rparr> # ts, st')
       \<and> map fst trace = outs"
proof (induction fs st arbitrary: outs rule: run_steps.induct)
  case (1 st)
  then show ?case by (intro exI [of _ 0]) simp
next
  case (2 f fs st)
  obtain q st1 q' where f: "f st = Some (q, st1)" and r: "run_steps fs st1 = Some (q', st')" and o: "outs = q @ q'"
    using "2.prems" by (auto simp: bind_eq_Some_conv)
  obtain n trace where n: "poll_triggers (replicate n 0) (\<lparr>t_queue = [], t_steps = fs\<rparr> # ts) st1 = Some (trace, \<lparr>t_queue = [], t_steps = []\<rparr> # ts, st')"
    "map fst trace = q'" using "2.IH" [OF f refl r] by blast
  have "poll_triggers (replicate (length q) 0 @ replicate n 0) (\<lparr>t_queue = q, t_steps = fs\<rparr> # ts) st1
      = Some (map (\<lambda>x. (x, st1)) q @ trace, \<lparr>t_queue = [], t_steps = []\<rparr> # ts, st')" by (simp add: poll_queue n)
  then have "poll_triggers (replicate (Suc (length q + n)) 0) (\<lparr>t_queue = [], t_steps = f # fs\<rparr> # ts) st
      = Some (map (\<lambda>x. (x, st1)) q @ trace, \<lparr>t_queue = [], t_steps = []\<rparr> # ts, st')"
    using f by (simp add: trigger_poll_def replicate_add)
  moreover have "map fst (map (\<lambda>x. (x, st1)) q @ trace) = outs" using n(2) o by (simp add: comp_def)
  ultimately show ?case by blast
qed

lemma run_steps_append:
  "run_steps (fs @ gs) st = Option.bind (run_steps fs st) (\<lambda>(q, st1). Option.bind (run_steps gs st1) (\<lambda>(q', st2). Some (q @ q', st2)))"
  by (induction fs st rule: run_steps.induct) (auto split: Option.bind_splits)

lemma trigger_with_append:
  "trigger_with m (xs @ ys) = Option.bind (trigger_with m xs) (\<lambda>a. Option.bind (trigger_with m ys) (\<lambda>b. Some (a @ b)))"
  by (induction m xs rule: trigger_with.induct) (auto split: option.splits Option.bind_splits)

lemma run_self_objects: "run_steps (map (self_step meta dt) objs) st = map_option (\<lambda>q. (q, st)) (trigger_self meta dt objs)"
proof (induction objs)
  case (Cons obj objs)
  have "trigger_self meta dt (obj # objs) = Option.bind (trigger_self meta dt [obj]) (\<lambda>a. Option.bind (trigger_self meta dt objs) (\<lambda>b. Some (a @ b)))"
    using trigger_with_append [of _ "[obj]" objs] by (simp add: trigger_self_def)
  then show ?case using Cons by (auto simp: self_step_def reading_def split: Option.bind_splits)
qed (simp add: trigger_self_def)

lemma run_self_watched:
  "\<lbrakk>reflector meta st watched = Some (items, st'); trigger_self meta dt (concat (map (flat_item False) watched)) = Some outs\<rbrakk>
     \<Longrightarrow> run_steps (concat (map (self_steps meta dt) watched)) st = Some (outs, st')"
proof (induction watched arbitrary: st items outs)
  case (Cons item watched)
  obtain st1 where one: "reflector meta st [item] = Some ([item], st1)" and rest: "\<exists>items. reflector meta st1 watched = Some (items, st')"
    using Cons.prems(1) by (cases item) (auto split: option.splits)
  obtain a b where ab: "trigger_self meta dt (flat_item False item) = Some a"
    "trigger_self meta dt (concat (map (flat_item False) watched)) = Some b" "outs = a @ b"
    using Cons.prems(2) by (auto simp: trigger_self_def trigger_with_append bind_eq_Some_conv)
  show ?case using Cons.IH [of st1 _ b] rest one ab
    by (auto simp: self_steps_def run_steps_append run_self_objects reflect_step_def)
qed (simp add: trigger_self_def)



end
