(* ===== verification/Rt_Events.thy ===== *)
theory Rt_Events
  imports Cl_Api
begin

text \<open>
  \<open>kube-runtime/src/events.rs\<close>: events about one object, posted through the API handle of the
  events in its namespace. The clock is the argument \<open>now\<close>.
\<close>

section \<open>Events and reporters\<close>

datatype event_type = NormalEvent | WarningEvent

record recorder_event =
  ev_type :: event_type
  ev_reason :: string
  ev_note :: "string option"
  ev_action :: string
  ev_secondary :: "object_reference option"

record reporter =
  rp_controller :: string
  rp_instance :: "string option"

definition reporter_from :: "string \<Rightarrow> reporter" where
  "reporter_from es = \<lparr>rp_controller = es, rp_instance = None\<rparr>"

text \<open>\<open>events.k8s.io/v1\<close> events; the deprecated fields and \<open>series\<close> are always unset.\<close>

record k8s_event =
  ke_metadata :: object_meta
  ke_action :: "string option"
  ke_reason :: "string option"
  ke_note :: "string option"
  ke_type :: "string option"
  ke_event_time :: "int option"
  ke_regarding :: "object_reference option"
  ke_related :: "object_reference option"
  ke_reporting_controller :: "string option"
  ke_reporting_instance :: "string option"

definition events_resource :: api_resource where
  "events_resource = from_gvk_with_plural (gvk_new ''events.k8s.io'' ''v1'' ''Event'') ''events''"

section \<open>The recorder\<close>

record 's recorder =
  rc_events :: "'s api_handle"
  rc_reporter :: reporter
  rc_reference :: object_reference

definition recorder_new :: "'s client \<Rightarrow> reporter \<Rightarrow> object_reference \<Rightarrow> 's recorder" where
  "recorder_new client reporter reference =
     (let default_namespace = ''kube-system'';
          events = api_namespaced dynamic_class events_resource client (unwrap_or (oref_namespace reference) default_namespace)
      in \<lparr>rc_events = events, rc_reporter = reporter, rc_reference = reference\<rparr>)"

definition recorder_object :: "int \<Rightarrow> 's recorder \<Rightarrow> recorder_event \<Rightarrow> k8s_event" where
  "recorder_object now r ev =
     \<lparr>ke_metadata = object_meta_default\<lparr>m_namespace := oref_namespace (rc_reference r),
        m_generate_name := Some (rp_controller (rc_reporter r) @ ''-'')\<rparr>,
      ke_action = Some (ev_action ev), ke_reason = Some (ev_reason ev), ke_note = ev_note ev,
      ke_type = Some (case ev_type ev of NormalEvent \<Rightarrow> ''Normal'' | WarningEvent \<Rightarrow> ''Warning''),
      ke_event_time = Some now, ke_regarding = Some (rc_reference r), ke_related = ev_secondary ev,
      ke_reporting_controller = Some (rp_controller (rc_reporter r)),
      ke_reporting_instance = Some (unwrap_or (rp_instance (rc_reporter r)) (rp_controller (rc_reporter r)))\<rparr>"

definition publish :: "('qp, k8s_event) api_env \<Rightarrow> int \<Rightarrow> 's recorder \<Rightarrow> recorder_event \<Rightarrow> ('s, unit) io" where
  "publish A now r ev =
     io_bind (kapi_create A (rc_events r) post_params_default (recorder_object now r ev)) (\<lambda>_. io_of (Inr ()))"

section \<open>Publishing posts the event once\<close>

lemma sends_once_unit:
  assumes "sends_once m q"
  shows "sends_once (io_bind m (\<lambda>_. io_of (Inr ()))) q"
  unfolding sends_once_def
proof (intro allI impI)
  fix log w r log' w'
  assume a: "io_bind m (\<lambda>_. io_of (Inr ())) (log, w) = (r, log', w')"
  obtain r0 where m: "m (log, w) = (r0, log', w')" and r: "r = (case r0 of Inl e \<Rightarrow> Inl e | Inr _ \<Rightarrow> Inr ())"
    using a by (cases "m (log, w)") (auto simp: io_bind_def io_of_def split: sum.splits)
  then show "case q of Inl e \<Rightarrow> r = Inl e \<and> log' = log \<and> w' = w | Inr q \<Rightarrow> log' = log \<and> isl r \<or> log' = log @ [q]"
    using assms unfolding sends_once_def by (fastforce split: sum.splits)
qed

text \<open>
  An event is posted at most once, to the events of the namespace that the object is in, or of
  \<open>kube-system\<close> when it has none, and the call succeeds only if it was.
\<close>

theorem publish_posts_once:
  assumes "logging client"
  shows "sends_once (publish A now (recorder_new client reporter reference) ev)
     (rbind (map_err KSerde (ke_to_vec (ae_kind A) (recorder_object now (recorder_new client reporter reference) ev))) (\<lambda>bs.
        prepared ''create'' (req_create (ae_req A) (request_new (''/apis/events.k8s.io/v1/namespaces/''
          @ unwrap_or (oref_namespace reference) ''kube-system'' @ ''/events'')) post_params_default bs)))"
proof -
  have p: "resource_url_path dynamic_class events_resource (Some ns) = ''/apis/events.k8s.io/v1/namespaces/'' @ ns @ ''/events''" for ns
    by (simp add: resource_url_path_def events_resource_def from_gvk_with_plural_def gvk_new_def dynamic_class_def gvk_api_version_def)
  have h: "rc_events (recorder_new client reporter reference) = \<lparr>ah_request = request_new (''/apis/events.k8s.io/v1/namespaces/''
          @ unwrap_or (oref_namespace reference) ''kube-system'' @ ''/events''), ah_client = client,
      ah_namespace = Some (unwrap_or (oref_namespace reference) ''kube-system'')\<rparr>"
    by (simp add: recorder_new_def Let_def api_namespaced_def p)
  show ?thesis unfolding publish_def kapi_create_def h
    by (intro sends_once_unit sends_once_bind) (simp add: typed_calls.call_sends_once [OF assms])
qed

end
