(* ===== verification/Cl_Auth.thy ===== *)
theory Cl_Auth
  imports Cl_Kubeconfig Cl_Client
begin

text \<open>
  \<open>kube-client/src/client/auth/mod.rs\<close>, as it is built without the features \<open>oidc\<close> and
  \<open>oauth\<close>: which credentials a user entry gives, exec plugins, command based tokens, tokens
  read from a file, and how a token is refreshed before a request. Instants are seconds.

  The clock, the file system and child processes are operations on a world; the remaining
  third-party code (chrono, JSON text, JSON paths, header values) is in the same record. Strings
  hold the bytes of their UTF-8 form.
\<close>

section \<open>Errors, processes and the world\<close>

record process_output =
  po_success :: bool
  po_status :: int
  po_stdout :: bytes
  po_stderr :: bytes

datatype auth_error =
    InvalidBasicAuth string
  | InvalidBearerToken string
  | UnrefreshableTokenResponse
  | ExecPluginFailed
  | MalformedTokenExpirationDate string
  | AuthExecStart string
  | AuthExecRun string int process_output
  | AuthExecParse string
  | AuthExecSerialize string
  | AuthExec string
  | ReadTokenFile string string
  | ParseTokenKey string
  | MissingCommand

datatype stdin_mode = StdinDefault | StdinInherit | StdinPiped

text \<open>A command; its environment is the list of changes to the inherited one, in order.\<close>

record command =
  cmd_program :: string
  cmd_args :: "string list"
  cmd_env :: "(string \<times> string option) list"
  cmd_stdin :: stdin_mode

definition command_new :: "string \<Rightarrow> command" where
  "command_new p = \<lparr>cmd_program = p, cmd_args = [], cmd_env = [], cmd_stdin = StdinDefault\<rparr>"

record 'w auth_env =
  utc_now :: "'w \<Rightarrow> int \<times> 'w"
  fs_read :: "string \<Rightarrow> 'w \<Rightarrow> (string + string) \<times> 'w"
  run_command :: "command \<Rightarrow> 'w \<Rightarrow> (string + process_output) \<times> 'w"
  parse_datetime :: "string \<Rightarrow> string + int"
  to_rfc3339 :: "int \<Rightarrow> string"
  json_of_slice :: "bytes \<Rightarrow> string + json"
  json_to_string :: "json \<Rightarrow> string"
  jsonpath_select :: "json \<Rightarrow> string \<Rightarrow> string + json list"
  header_value :: "string \<Rightarrow> string + string"
  command_debug :: "command \<Rightarrow> string"
  error_debug :: "string \<Rightarrow> string"
  shape_error :: string

type_synonym ('w, 'a) act = "'w \<Rightarrow> (auth_error + 'a) \<times> 'w"

definition act_bind :: "('w, 'a) act \<Rightarrow> ('a \<Rightarrow> ('w, 'b) act) \<Rightarrow> ('w, 'b) act" where
  "act_bind m f w = (case m w of (Inl e, w') \<Rightarrow> (Inl e, w') | (Inr a, w') \<Rightarrow> f a w')"

definition act_of :: "auth_error + 'a \<Rightarrow> ('w, 'a) act" where
  "act_of r w = (r, w)"

definition act_now :: "'w auth_env \<Rightarrow> ('w, int) act" where
  "act_now A w = (case utc_now A w of (t, w') \<Rightarrow> (Inr t, w'))"

section \<open>Credentials\<close>

record token_file =
  tf_path :: string
  tf_token :: string
  tf_expires_at :: int

datatype refreshable_token =
    RExec string int auth_info
  | RFile token_file

datatype auth =
    AuthNone
  | AuthBasic string string
  | AuthBearer string
  | AuthRefreshable refreshable_token
  | AuthCertificate string string

datatype provider_token =
    ProviderOidc string
  | GcpCommand string "int option"

record exec_credential_status =
  xs_expiration_timestamp :: "string option"
  xs_token :: "string option"
  xs_client_certificate_data :: "string option"
  xs_client_key_data :: "string option"

record exec_credential =
  xcr_kind :: "string option"
  xcr_api_version :: "string option"
  xcr_spec :: "bool option option"
  xcr_status :: "exec_credential_status option"

section \<open>Token files\<close>

definition token_file_new :: "'w auth_env \<Rightarrow> string \<Rightarrow> ('w, token_file) act" where
  "token_file_new A path =
     act_bind (\<lambda>w. case fs_read A path w of (r, w') \<Rightarrow> (map_err (\<lambda>source. ReadTokenFile source path) r, w')) (\<lambda>token.
     act_bind (act_now A) (\<lambda>now.
       act_of (Inr \<lparr>tf_path = path, tf_token = token, tf_expires_at = now + 60\<rparr>)))"

definition is_expiring :: "'w auth_env \<Rightarrow> token_file \<Rightarrow> 'w \<Rightarrow> bool \<times> 'w" where
  "is_expiring A tf w = (case utc_now A w of (now, w') \<Rightarrow> (now + 10 > tf_expires_at tf, w'))"

definition cached_token :: "'w auth_env \<Rightarrow> token_file \<Rightarrow> 'w \<Rightarrow> string option \<times> 'w" where
  "cached_token A tf w =
     (case is_expiring A tf w of (b, w') \<Rightarrow> (if \<not> b then Some (tf_token tf) else None, w'))"

definition token_file_token :: "'w auth_env \<Rightarrow> token_file \<Rightarrow> 'w \<Rightarrow> string \<times> token_file \<times> 'w" where
  "token_file_token A tf w =
     (case is_expiring A tf w of (b, w1) \<Rightarrow>
        let (tf, w4) =
          (if b then
             (case fs_read A (tf_path tf) w1 of (r, w2) \<Rightarrow>
                let tf = (case r of Inr token \<Rightarrow> tf\<lparr>tf_token := token\<rparr> | Inl _ \<Rightarrow> tf) in
                case utc_now A w2 of (now, w3) \<Rightarrow> (tf\<lparr>tf_expires_at := now + 60\<rparr>, w3))
           else (tf, w1))
        in (tf_token tf, tf, w4))"

definition bearer_header :: "'w auth_env \<Rightarrow> string \<Rightarrow> auth_error + string" where
  "bearer_header A token = map_err InvalidBearerToken (header_value A (''Bearer '' @ token))"

section \<open>Exec plugins\<close>

definition read_exec_status :: "json \<Rightarrow> exec_credential_status option" where
  "read_exec_status v =
     (case read_struct [optional ''expirationTimestamp'', optional ''token'', optional ''clientCertificateData'', optional ''clientKeyData''] v of
        Some [e, t, c, k] \<Rightarrow>
          Option.bind (read_option read_string e) (\<lambda>e.
          Option.bind (read_option read_string t) (\<lambda>t.
          Option.bind (read_option read_string c) (\<lambda>c.
          Option.bind (read_option read_string k) (\<lambda>k.
            Some \<lparr>xs_expiration_timestamp = e, xs_token = t, xs_client_certificate_data = c, xs_client_key_data = k\<rparr>))))
      | _ \<Rightarrow> None)"

definition read_exec_spec :: "json \<Rightarrow> bool option option" where
  "read_exec_spec v =
     (case read_struct [optional ''interactive''] v of
        Some [i] \<Rightarrow> read_option read_bool i
      | _ \<Rightarrow> None)"

definition read_exec_credential :: "json \<Rightarrow> exec_credential option" where
  "read_exec_credential v =
     (case read_struct [optional ''kind'', optional ''apiVersion'', optional ''spec'', optional ''status''] v of
        Some [k, a, sp, st] \<Rightarrow>
          Option.bind (read_option read_string k) (\<lambda>k.
          Option.bind (read_option read_string a) (\<lambda>a.
          Option.bind (read_option read_exec_spec sp) (\<lambda>sp.
          Option.bind (read_option read_exec_status st) (\<lambda>st.
            Some \<lparr>xcr_kind = k, xcr_api_version = a, xcr_spec = sp, xcr_status = st\<rparr>))))
      | _ \<Rightarrow> None)"

definition exec_info_json :: "string option \<Rightarrow> bool \<Rightarrow> json" where
  "exec_info_json api_version interactive =
     JObj [(''kind'', JNull), (''apiVersion'', case api_version of None \<Rightarrow> JNull | Some v \<Rightarrow> JStr v),
           (''spec'', JObj [(''interactive'', JBool interactive)])]"

definition exec_command :: "'w auth_env \<Rightarrow> exec_config \<Rightarrow> string \<Rightarrow> command" where
  "exec_command A xc program =
     (let cmd = command_new program;
          cmd = (case xc_args xc of Some args \<Rightarrow> cmd\<lparr>cmd_args := args\<rparr> | None \<Rightarrow> cmd);
          cmd = (case xc_env xc of
              Some env \<Rightarrow> cmd\<lparr>cmd_env := List.map_filter (\<lambda>m. case (m ''name'', m ''value'') of
                  (Some name, Some value) \<Rightarrow> Some (name, Some value) | _ \<Rightarrow> None) env\<rparr>
            | None \<Rightarrow> cmd);
          interactive = (xc_interactive_mode xc \<noteq> Some Never);
          cmd = cmd\<lparr>cmd_stdin := if interactive then StdinInherit else StdinPiped\<rparr>;
          exec_info = json_to_string A (exec_info_json (xc_api_version xc) interactive);
          cmd = cmd\<lparr>cmd_env := cmd_env cmd @ [(''KUBERNETES_EXEC_INFO'', Some exec_info)]\<rparr>
      in case xc_drop_env xc of
           Some envs \<Rightarrow> cmd\<lparr>cmd_env := cmd_env cmd @ map (\<lambda>e. (e, None)) envs\<rparr>
         | None \<Rightarrow> cmd)"

definition run_checked :: "'w auth_env \<Rightarrow> (string \<Rightarrow> auth_error) \<Rightarrow> string \<Rightarrow> command \<Rightarrow> ('w, process_output) act" where
  "run_checked A start_error shown cmd w =
     (case run_command A cmd w of
        (Inl e, w') \<Rightarrow> (Inl (start_error e), w')
      | (Inr out, w') \<Rightarrow> (if \<not> po_success out then Inl (AuthExecRun shown (po_status out) out) else Inr out, w'))"

definition auth_exec :: "'w auth_env \<Rightarrow> exec_config \<Rightarrow> ('w, exec_credential) act" where
  "auth_exec A xc =
     (case xc_command xc of
        None \<Rightarrow> act_of (Inl MissingCommand)
      | Some program \<Rightarrow>
          let cmd = exec_command A xc program in
          act_bind (run_checked A AuthExecStart (command_debug A cmd) cmd) (\<lambda>out.
            act_of (rbind (map_err AuthExecParse (json_of_slice A (po_stdout out))) (\<lambda>v.
              ok_or (read_exec_credential v) (AuthExecParse (shape_error A))))))"

section \<open>Providers\<close>

text \<open>\<open>str::trim\<close> on ASCII white space, and \<open>str::trim_matches\<close>.\<close>

definition is_ws :: "char \<Rightarrow> bool" where
  "is_ws c \<longleftrightarrow> (let n = of_char c :: nat in 9 \<le> n \<and> n \<le> 13 \<or> n = 32)"

definition trim_matches :: "(char \<Rightarrow> bool) \<Rightarrow> string \<Rightarrow> string" where
  "trim_matches P s = rev (dropWhile P (rev (dropWhile P s)))"

definition extract_value :: "'w auth_env \<Rightarrow> json \<Rightarrow> string \<Rightarrow> auth_error + string" where
  "extract_value A v path =
     (let pure_path = trim_matches (\<lambda>c. c = CHR 0x22 \<or> c = CHR ''{'' \<or> c = CHR ''}'') path in
      case jsonpath_select A v (CHR ''$'' # pure_path) of
        Inr (JStr res # _) \<Rightarrow> Inr res
      | Inr (_ # _) \<Rightarrow> Inl (AuthExec (''Target value at '' @ pure_path @ '' is not a string''))
      | Inl e \<Rightarrow> Inl (AuthExec (''Could not extract JSON value: '' @ e))
      | Inr [] \<Rightarrow> Inl (AuthExec (''Target value '' @ pure_path @ '' not found'')))"

definition gcp_command :: "string \<Rightarrow> string \<Rightarrow> string \<Rightarrow> command" where
  "gcp_command program params drop_env =
     \<lparr>cmd_program = program, cmd_args = split_on CHR '' '' (trim_matches is_ws params),
      cmd_env = map (\<lambda>e. (e, None)) (split_on CHR '' '' (trim_matches is_ws drop_env)), cmd_stdin = StdinDefault\<rparr>"

definition gcp_output_token :: "'w auth_env \<Rightarrow> (string \<rightharpoonup> string) \<Rightarrow> process_output \<Rightarrow> auth_error + provider_token" where
  "gcp_output_token A config out =
     (case config ''token-key'' of
        Some field \<Rightarrow>
          rbind (map_err ParseTokenKey (json_of_slice A (po_stdout out))) (\<lambda>json_output.
          rbind (extract_value A json_output field) (\<lambda>token.
          (case config ''expiry-key'' of
             Some field \<Rightarrow>
               rbind (extract_value A json_output field) (\<lambda>expiry.
               rbind (map_err MalformedTokenExpirationDate (parse_datetime A expiry)) (\<lambda>expiry.
                 Inr (GcpCommand token (Some expiry))))
           | None \<Rightarrow> Inr (GcpCommand token None))))
      | None \<Rightarrow>
          if valid_utf8 (po_stdout out) then Inr (GcpCommand (string_of_bytes (po_stdout out)) None)
          else Inl (AuthExec (''Result is not a string '' @ error_debug A (string_of_bytes (po_stdout out)) @ '' '')))"

definition gcp_from_command :: "'w auth_env \<Rightarrow> (string \<rightharpoonup> string) \<Rightarrow> ('w, provider_token) act" where
  "gcp_from_command A config =
     (case config ''cmd-path'' of
        Some cmd \<Rightarrow>
          let params = unwrap_or (config ''cmd-args'') [];
              drop_env = unwrap_or (config ''cmd-drop-env'') [] in
          act_bind (run_checked A (\<lambda>e. AuthExec (''Executing '' @ cmd @ '' failed: '' @ error_debug A e))
                      (cmd @ '' '' @ params) (gcp_command cmd params drop_env)) (\<lambda>out.
            act_of (gcp_output_token A config out))
      | None \<Rightarrow> act_of (Inl (AuthExec ''Enable oauth feature to use Google Application Credentials-based token source'')))"

definition token_from_gcp_provider :: "'w auth_env \<Rightarrow> auth_provider_config \<Rightarrow> ('w, provider_token) act" where
  "token_from_gcp_provider A provider =
     (let config = ap_config provider in
      case config ''id-token'' of
        Some id_token \<Rightarrow> act_of (Inr (GcpCommand id_token None))
      | None \<Rightarrow>
          (case (config ''access-token'', config ''expiry'') of
             (Some access_token, Some expiry) \<Rightarrow>
               act_bind (act_of (map_err MalformedTokenExpirationDate (parse_datetime A expiry))) (\<lambda>expiry_date.
               act_bind (act_now A) (\<lambda>now.
                 if now + 60 < expiry_date then act_of (Inr (GcpCommand access_token (Some expiry_date)))
                 else gcp_from_command A config))
           | _ \<Rightarrow> gcp_from_command A config))"

definition token_from_oidc_provider :: "auth_provider_config \<Rightarrow> auth_error + provider_token" where
  "token_from_oidc_provider provider =
     (case ap_config provider ''id-token'' of
        Some id_token \<Rightarrow> Inr (ProviderOidc id_token)
      | None \<Rightarrow> Inl (AuthExec ''No id-token for oidc Authentication provider''))"

definition token_from_provider :: "'w auth_env \<Rightarrow> auth_provider_config \<Rightarrow> ('w, provider_token) act" where
  "token_from_provider A provider =
     (if ap_name provider = ''oidc'' then act_of (token_from_oidc_provider provider)
      else if ap_name provider = ''gcp'' then token_from_gcp_provider A provider
      else if ap_name provider = ''azure'' then act_of (Inl (AuthExec
        ''The azure auth plugin is not supported; use https://github.com/Azure/kubelogin instead''))
      else act_of (Inl (AuthExec (''Authentication with provider '' @ ap_name provider @ '' not supported''))))"

section \<open>The credentials of a user entry\<close>

fun auth_of_provider_token :: "'w auth_env \<Rightarrow> auth_info \<Rightarrow> auth_provider_config \<Rightarrow> provider_token \<Rightarrow> auth" where
  "auth_of_provider_token A info provider (ProviderOidc token) = AuthBearer token"
| "auth_of_provider_token A info provider (GcpCommand token (Some expiry)) =
     AuthRefreshable (RExec token expiry (info\<lparr>ai_auth_provider := Some (provider\<lparr>ap_config :=
       (ap_config provider)(''access-token'' \<mapsto> token, ''expiry'' \<mapsto> to_rfc3339 A expiry)\<rparr>)\<rparr>))"
| "auth_of_provider_token A info provider (GcpCommand token None) = AuthBearer token"

definition auth_of_exec :: "'w auth_env \<Rightarrow> auth_info \<Rightarrow> exec_credential \<Rightarrow> auth_error + auth" where
  "auth_of_exec A info creds =
     rbind (ok_or (xcr_status creds) ExecPluginFailed) (\<lambda>st.
       case (xs_client_certificate_data st, xs_client_key_data st) of
         (Some cert, Some key) \<Rightarrow> Inr (AuthCertificate cert key)
       | _ \<Rightarrow>
           rbind (case xs_expiration_timestamp st of
               None \<Rightarrow> Inr None
             | Some ts \<Rightarrow> rbind (map_err MalformedTokenExpirationDate (parse_datetime A ts)) (\<lambda>t. Inr (Some t))) (\<lambda>expiration.
             Inr (case (xs_token st, expiration) of
                (Some token, Some expire) \<Rightarrow> AuthRefreshable (RExec token expire info)
              | (Some token, None) \<Rightarrow> AuthBearer token
              | _ \<Rightarrow> AuthNone)))"

definition auth_try_from :: "'w auth_env \<Rightarrow> auth_info \<Rightarrow> ('w, auth) act" where
  "auth_try_from A info =
     (case ai_auth_provider info of
        Some provider \<Rightarrow>
          act_bind (token_from_provider A provider) (\<lambda>pt. act_of (Inr (auth_of_provider_token A info provider pt)))
      | None \<Rightarrow>
          (case (ai_username info, ai_password info) of
             (Some u, Some p) \<Rightarrow> act_of (Inr (AuthBasic u p))
           | _ \<Rightarrow>
               (case ai_token info of
                  Some token \<Rightarrow> act_of (Inr (AuthBearer token))
                | None \<Rightarrow>
                    (case ai_token_file info of
                       Some file \<Rightarrow> act_bind (token_file_new A file) (\<lambda>tf. act_of (Inr (AuthRefreshable (RFile tf))))
                     | None \<Rightarrow>
                         (case ai_exec info of
                            Some xc \<Rightarrow> act_bind (auth_exec A xc) (\<lambda>creds. act_of (auth_of_exec A info creds))
                          | None \<Rightarrow> act_of (Inr AuthNone))))))"

section \<open>Headers\<close>

text \<open>
  \<open>to_header\<close> with the state behind the lock; \<open>None\<close> is an \<open>unreachable!()\<close> that was reached.
\<close>

fun exec_refreshed :: "auth \<Rightarrow> (auth_error + string \<times> int \<times> auth_info) option" where
  "exec_refreshed (AuthRefreshable (RExec token expire info)) = Some (Inr (token, expire, info))"
| "exec_refreshed (AuthRefreshable (RFile tf)) = None"
| "exec_refreshed _ = Some (Inl UnrefreshableTokenResponse)"

definition to_header :: "'w auth_env \<Rightarrow> refreshable_token \<Rightarrow> 'w \<Rightarrow> ((auth_error + string) \<times> refreshable_token \<times> 'w) option" where
  "to_header A r w =
     (case r of
        RExec token expire info \<Rightarrow>
          (case utc_now A w of (now, w1) \<Rightarrow>
             if now + 60 \<ge> expire then
               (case auth_try_from A info w1 of
                  (Inl e, w2) \<Rightarrow> Some (Inl e, r, w2)
                | (Inr a, w2) \<Rightarrow>
                    (case exec_refreshed a of
                       None \<Rightarrow> None
                     | Some (Inl e) \<Rightarrow> Some (Inl e, r, w2)
                     | Some (Inr (token', expire', info')) \<Rightarrow>
                         Some (bearer_header A token', RExec token' expire' info', w2)))
             else Some (bearer_header A token, r, w1))
      | RFile tf \<Rightarrow>
          (case cached_token A tf w of
             (Some token, w1) \<Rightarrow> Some (bearer_header A token, r, w1)
           | (None, w1) \<Rightarrow>
               (case token_file_token A tf w1 of (token, tf', w2) \<Rightarrow> Some (bearer_header A token, RFile tf', w2))))"

text \<open>\<open>AsyncPredicate::check\<close>: the header replaces one that the request already has.\<close>

definition auth_check :: "'w auth_env \<Rightarrow> refreshable_token \<Rightarrow> http_request \<Rightarrow> 'w
     \<Rightarrow> ((auth_error + http_request) \<times> refreshable_token \<times> 'w) option" where
  "auth_check A r req w =
     map_option (\<lambda>(h, r', w'). (rbind h (\<lambda>value. Inr (req\<lparr>headers := header_insert ''authorization'' value (headers req)\<rparr>)), r', w'))
       (to_header A r w)"

section \<open>Refreshing never reaches the unreachable\<close>

text \<open>The state of an exec token: its entry cannot be answered from a token file.\<close>

fun refreshable_ok :: "refreshable_token \<Rightarrow> bool" where
  "refreshable_ok (RExec token expire info) \<longleftrightarrow> ai_auth_provider info \<noteq> None \<or> ai_token_file info = None"
| "refreshable_ok (RFile tf) \<longleftrightarrow> True"

lemma act_bind_Inr: "act_bind m f w = (Inr b, w') \<longleftrightarrow> (\<exists>a w1. m w = (Inr a, w1) \<and> f a w1 = (Inr b, w'))"
  by (auto simp: act_bind_def split: prod.splits sum.splits)

lemma act_of_eq [simp]: "act_of r w = (r', w') \<longleftrightarrow> r = r' \<and> w = w'"
  by (auto simp: act_of_def)

lemma provider_token_ok: "auth_of_provider_token A info provider pt = AuthRefreshable r \<Longrightarrow> (\<exists>t e i. r = RExec t e i) \<and> refreshable_ok r"
  by (cases "(A, info, provider, pt)" rule: auth_of_provider_token.cases) auto

lemma auth_of_exec_ok:
  assumes "auth_of_exec A info creds = Inr (AuthRefreshable r)"
  shows "\<exists>t e. r = RExec t e info"
proof -
  obtain st where st: "xcr_status creds = Some st" using assms by (auto simp: auth_of_exec_def rbind_eq_Inr)
  have "\<not> (xs_client_certificate_data st \<noteq> None \<and> xs_client_key_data st \<noteq> None)"
    using assms st by (cases "xs_client_certificate_data st"; cases "xs_client_key_data st") (simp_all add: auth_of_exec_def)
  then obtain expiration where "(case (xs_token st, expiration) of
                (Some token, Some expire) \<Rightarrow> AuthRefreshable (RExec token expire info)
              | (Some token, None) \<Rightarrow> AuthBearer token
              | _ \<Rightarrow> AuthNone) = AuthRefreshable r"
    using assms st by (cases "xs_client_certificate_data st"; cases "xs_client_key_data st") (auto simp: auth_of_exec_def rbind_eq_Inr)
  then show ?thesis by (cases "xs_token st"; cases expiration) auto
qed

lemma try_from_ok:
  assumes "auth_try_from A info w = (Inr (AuthRefreshable r), w')"
  shows "refreshable_ok r \<and> (ai_auth_provider info \<noteq> None \<or> ai_token_file info = None \<longrightarrow> (\<exists>t e i. r = RExec t e i))"
proof (cases "ai_auth_provider info")
  case (Some provider)
  then show ?thesis using assms by (auto simp: auth_try_from_def act_bind_Inr dest: provider_token_ok)
next
  case None
  then show ?thesis using assms
    by (auto simp: auth_try_from_def act_bind_Inr split: option.splits dest!: auth_of_exec_ok)
qed

lemma to_header_ok:
  assumes "refreshable_ok r"
  shows "\<exists>h r' w'. to_header A r w = Some (h, r', w') \<and> refreshable_ok r'"
proof (cases r)
  case (RExec token expire info)
  obtain now w1 where n: "utc_now A w = (now, w1)" by fastforce
  show ?thesis
  proof (cases "expire \<le> now + 60")
    case True
    obtain res w2 where t: "auth_try_from A info w1 = (res, w2)" by fastforce
    show ?thesis
    proof (cases res)
      case (Inl e)
      then show ?thesis using RExec n True t assms by (simp add: to_header_def)
    next
      case (Inr a)
      have "\<exists>x. exec_refreshed a = Some x \<and> (\<forall>t e i. x = Inr (t, e, i) \<longrightarrow> refreshable_ok (RExec t e i))"
        using try_from_ok [of A info w1 _ w2] t Inr assms RExec by (cases a rule: exec_refreshed.cases) auto
      then show ?thesis using RExec n True t Inr assms by (auto simp: to_header_def split: sum.splits)
    qed
  qed (use RExec n assms in \<open>simp add: to_header_def\<close>)
next
  case (RFile tf)
  then show ?thesis by (auto simp: to_header_def split: prod.splits option.splits)
qed

text \<open>The headers for a sequence of requests, each in the world of its moment.\<close>

fun header_calls :: "'w auth_env \<Rightarrow> refreshable_token \<Rightarrow> 'w list \<Rightarrow> (auth_error + string) list option" where
  "header_calls A r [] = Some []"
| "header_calls A r (w # ws) =
     (case to_header A r w of
        None \<Rightarrow> None
      | Some (h, r', _) \<Rightarrow> map_option ((#) h) (header_calls A r' ws))"

lemma header_calls_ok: "refreshable_ok r \<Longrightarrow> \<exists>hs. header_calls A r ws = Some hs \<and> length hs = length ws"
proof (induction ws arbitrary: r)
  case (Cons w ws)
  obtain h r' w' where "to_header A r w = Some (h, r', w')" "refreshable_ok r'" using to_header_ok [OF Cons.prems, of A w] by blast
  then show ?case using Cons.IH [of r'] by auto
qed simp


section \<open>How old a token may be\<close>

text \<open>A clock that never goes back, and operations that take their time.\<close>

locale steady_world =
  fixes A :: "'w auth_env" and time :: "'w \<Rightarrow> int"
  assumes now_time: "utc_now A w = (t, w') \<Longrightarrow> t = time w' \<and> time w \<le> time w'"
    and read_time: "fs_read A p w = (r, w') \<Longrightarrow> time w \<le> time w'"
begin

lemma file_header:
  assumes "to_header A (RFile tf) w = Some (h, r', w')"
  shows "\<exists>tf'. r' = RFile tf' \<and> h = bearer_header A (tf_token tf') \<and> time w' - (tf_expires_at tf' - 60) \<le> 50
    \<and> (tf' = tf \<or> (\<exists>w1 w2 res. fs_read A (tf_path tf) w1 = (res, w2) \<and> time w \<le> time w1
         \<and> tf_token tf' = (case res of Inr t \<Rightarrow> t | Inl _ \<Rightarrow> tf_token tf) \<and> tf_expires_at tf' = time w' + 60))"
proof -
  obtain t1 w1 where n1: "utc_now A w = (t1, w1)" by fastforce
  note c1 = now_time [OF n1]
  show ?thesis
  proof (cases "t1 + 10 > tf_expires_at tf")
    case False
    then show ?thesis using assms n1 c1 by (auto simp: to_header_def cached_token_def is_expiring_def)
  next
    case True
    obtain t2 w2 where n2: "utc_now A w1 = (t2, w2)" by fastforce
    obtain res w3 where rd: "fs_read A (tf_path tf) w2 = (res, w3)" by fastforce
    obtain t3 w4 where n3: "utc_now A w3 = (t3, w4)" by fastforce
    have t: "time w \<le> time w2" "t2 + 10 > tf_expires_at tf" "t3 = time w4"
      using now_time [OF n2] now_time [OF n3] c1 True by auto
    let ?tf = "(case res of Inr token \<Rightarrow> tf\<lparr>tf_token := token\<rparr> | Inl _ \<Rightarrow> tf)\<lparr>tf_expires_at := t3 + 60\<rparr>"
    have e: "h = bearer_header A (tf_token ?tf)" "r' = RFile ?tf" "w' = w4"
      using assms n1 n2 n3 rd True t by (auto simp: to_header_def cached_token_def token_file_token_def is_expiring_def)
    have "tf_token ?tf = (case res of Inr t \<Rightarrow> t | Inl _ \<Rightarrow> tf_token tf)" "tf_expires_at ?tf = time w' + 60"
      using t e by (auto split: sum.splits)
    then show ?thesis using e rd t(1) by (intro exI [of _ ?tf]) auto
  qed
qed

end

text \<open>A world that is its clock, where every operation takes a second.\<close>

definition ticking_env :: "(string \<Rightarrow> int \<Rightarrow> string) \<Rightarrow> int auth_env" where
  "ticking_env content = \<lparr>utc_now = (\<lambda>w. (w, w)), fs_read = (\<lambda>p w. (Inr (content p w), w + 1)),
     run_command = (\<lambda>c w. (Inl ''no such command'', w + 1)), parse_datetime = (\<lambda>s. Inl ''bad date''), to_rfc3339 = show_int,
     json_of_slice = (\<lambda>b. Inl ''bad json''), json_to_string = (\<lambda>v. []), jsonpath_select = (\<lambda>v p. Inl ''bad path''),
     header_value = (\<lambda>s. Inr s), command_debug = cmd_program, error_debug = (\<lambda>e. e), shape_error = ''unexpected shape''\<rparr>"

interpretation ticking: steady_world "ticking_env content" "\<lambda>w. w"
  by unfold_locales (auto simp: ticking_env_def)



text \<open>An entry with a token file in the ticking world, through three requests.\<close>

abbreviation no_credentials :: auth_info where
  "no_credentials \<equiv> \<lparr>ai_username = None, ai_password = None, ai_token = None, ai_token_file = None, ai_client_certificate = None,
     ai_client_certificate_data = None, ai_client_key = None, ai_client_key_data = None, ai_impersonate = None,
     ai_impersonate_groups = None, ai_auth_provider = None, ai_exec = None\<rparr>"


end
