(* ===== verification/Cl_Config.thy ===== *)
theory Cl_Config
  imports Cl_Auth
begin

text \<open>
  \<open>kube-client/src/config/mod.rs\<close> and \<open>incluster_config.rs\<close>: where a client configuration
  comes from, and \<open>kube-client/src/client/config_ext.rs\<close>: the authentication, the identity and
  the headers that follow from it. The environment of \<open>Cl_Kubeconfig\<close> gives files, variables
  and the URI parser; the PEM parser and the parser of IP addresses come with it.
\<close>

section \<open>Configurations\<close>

record 'uri config =
  cf_cluster_url :: 'uri
  cf_default_namespace :: string
  cf_root_cert :: "bytes list option"
  cf_connect_timeout :: "nat option"
  cf_read_timeout :: "nat option"
  cf_write_timeout :: "nat option"
  cf_accept_invalid_certs :: bool
  cf_auth_info :: auth_info
  cf_proxy_url :: "'uri option"
  cf_tls_server_name :: "string option"

datatype in_cluster_error =
    ReadDefaultNamespace string
  | ReadEnvironmentVariable
  | ReadCertificateBundle string
  | ParseClusterPort
  | ParseInClusterUrl string
  | ParseInClusterCertificates string

record infer_config_error =
  ie_in_cluster :: in_cluster_error
  ie_kubeconfig :: kubeconfig_error

record ip_addr =
  ip_is_ipv6 :: bool
  ip_display :: string

record ('doc, 'val, 'uri) cfg_env =
  kc_base :: "('doc, 'val, 'uri) kc_env"
  pem_parse_many :: "bytes \<Rightarrow> string + (string \<times> bytes) list"
  parse_ip :: "string \<Rightarrow> ip_addr option"

definition certs :: "(bytes \<Rightarrow> string + (string \<times> bytes) list) \<Rightarrow> bytes \<Rightarrow> string + bytes list" where
  "certs parse_many data =
     rbind (parse_many data) (\<lambda>ps. Inr (List.map_filter (\<lambda>(tag, contents). if tag = ''CERTIFICATE'' then Some contents else None) ps))"

definition kc_of :: "('doc, 'val, 'uri) cfg_env \<Rightarrow> ('doc, 'val, 'uri) kc_env" where
  "kc_of E = (kc_base E)\<lparr>parse_certs := certs (pem_parse_many E)\<rparr>"

definition DEFAULT_CONNECT_TIMEOUT :: nat where
  "DEFAULT_CONNECT_TIMEOUT = 30"

definition DEFAULT_READ_TIMEOUT :: nat where
  "DEFAULT_READ_TIMEOUT = 295"

definition auth_info_default :: auth_info where
  "auth_info_default = \<lparr>ai_username = None, ai_password = None, ai_token = None, ai_token_file = None, ai_client_certificate = None,
     ai_client_certificate_data = None, ai_client_key = None, ai_client_key_data = None, ai_impersonate = None,
     ai_impersonate_groups = None, ai_auth_provider = None, ai_exec = None\<rparr>"

definition config_new :: "'uri \<Rightarrow> 'uri config" where
  "config_new url = \<lparr>cf_cluster_url = url, cf_default_namespace = ''default'', cf_root_cert = None,
     cf_connect_timeout = Some DEFAULT_CONNECT_TIMEOUT, cf_read_timeout = Some DEFAULT_READ_TIMEOUT, cf_write_timeout = None,
     cf_accept_invalid_certs = False, cf_auth_info = auth_info_default, cf_proxy_url = None, cf_tls_server_name = None\<rparr>"

section \<open>Inside a cluster\<close>

definition SERVICE_HOSTENV :: string where "SERVICE_HOSTENV = ''KUBERNETES_SERVICE_HOST''"

definition SERVICE_PORTENV :: string where "SERVICE_PORTENV = ''KUBERNETES_SERVICE_PORT''"

definition SERVICE_TOKENFILE :: string where "SERVICE_TOKENFILE = ''/var/run/secrets/kubernetes.io/serviceaccount/token''"

definition SERVICE_CERTFILE :: string where "SERVICE_CERTFILE = ''/var/run/secrets/kubernetes.io/serviceaccount/ca.crt''"

definition SERVICE_DEFAULT_NS :: string where "SERVICE_DEFAULT_NS = ''/var/run/secrets/kubernetes.io/serviceaccount/namespace''"

definition kube_dns :: string where
  "kube_dns = ''https://kubernetes.default.svc/''"

text \<open>\<open>SocketAddr\<close> prints an IPv6 address in brackets.\<close>

definition uri_text :: "('doc, 'val, 'uri) cfg_env \<Rightarrow> string \<Rightarrow> u16 \<Rightarrow> string" where
  "uri_text E host port =
     (case parse_ip E host of
        Some ip \<Rightarrow>
          if port = 443 then
            (if ip_is_ipv6 ip then ''https://['' @ ip_display ip @ '']'' else ''https://'' @ ip_display ip)
          else ''https://'' @ (if ip_is_ipv6 ip then ''['' @ ip_display ip @ '']'' else ip_display ip) @ '':'' @ show_nat (unat port)
      | None \<Rightarrow>
          if port = 443 then ''https://'' @ host else ''https://'' @ host @ '':'' @ show_nat (unat port))"

definition try_uri :: "('doc, 'val, 'uri) cfg_env \<Rightarrow> string \<Rightarrow> u16 \<Rightarrow> in_cluster_error + 'uri" where
  "try_uri E host port = map_err ParseInClusterUrl (parse_uri (kc_of E) (uri_text E host port))"

definition parse_port :: "string \<Rightarrow> in_cluster_error + u16" where
  "parse_port s = rbind (ok_or (parse_digits (2 ^ 16) s) ParseClusterPort) (\<lambda>n. Inr (of_nat n))"

definition try_kube_from_env :: "('doc, 'val, 'uri) cfg_env \<Rightarrow> in_cluster_error + 'uri" where
  "try_kube_from_env E =
     rbind (ok_or (env_var (kc_of E) SERVICE_HOSTENV) ReadEnvironmentVariable) (\<lambda>host.
     rbind (ok_or (env_var (kc_of E) SERVICE_PORTENV) ReadEnvironmentVariable) (\<lambda>port.
     rbind (parse_port port) (\<lambda>port. try_uri E host port)))"

definition load_cert :: "('doc, 'val, 'uri) cfg_env \<Rightarrow> in_cluster_error + bytes list" where
  "load_cert E =
     rbind (map_err ReadCertificateBundle (read_file (kc_of E) SERVICE_CERTFILE)) (\<lambda>data.
       map_err ParseInClusterCertificates (certs (pem_parse_many E) data))"

definition load_default_ns :: "('doc, 'val, 'uri) cfg_env \<Rightarrow> in_cluster_error + string" where
  "load_default_ns E = map_err ReadDefaultNamespace (read_to_string (kc_of E) SERVICE_DEFAULT_NS)"

definition incluster_with_uri :: "('doc, 'val, 'uri) cfg_env \<Rightarrow> 'uri \<Rightarrow> in_cluster_error + 'uri config" where
  "incluster_with_uri E cluster_url =
     rbind (load_default_ns E) (\<lambda>default_namespace.
     rbind (load_cert E) (\<lambda>root_cert.
       Inr \<lparr>cf_cluster_url = cluster_url, cf_default_namespace = default_namespace, cf_root_cert = Some root_cert,
            cf_connect_timeout = Some DEFAULT_CONNECT_TIMEOUT, cf_read_timeout = Some DEFAULT_READ_TIMEOUT, cf_write_timeout = None,
            cf_accept_invalid_certs = False, cf_auth_info = auth_info_default\<lparr>ai_token_file := Some SERVICE_TOKENFILE\<rparr>,
            cf_proxy_url = None, cf_tls_server_name = None\<rparr>))"

definition incluster_env :: "('doc, 'val, 'uri) cfg_env \<Rightarrow> in_cluster_error + 'uri config" where
  "incluster_env E = rbind (try_kube_from_env E) (incluster_with_uri E)"

text \<open>\<open>Uri::from_static\<close> panics on a text that is no URI.\<close>

definition incluster_dns :: "('doc, 'val, 'uri) cfg_env \<Rightarrow> (in_cluster_error + 'uri config) option" where
  "incluster_dns E =
     (case parse_uri (kc_of E) kube_dns of
        Inl _ \<Rightarrow> None
      | Inr u \<Rightarrow> Some (incluster_with_uri E u))"

section \<open>From a kubeconfig\<close>

definition new_from_loader :: "('doc, 'val, 'uri) cfg_env \<Rightarrow> config_loader \<Rightarrow> kubeconfig_error + 'uri config" where
  "new_from_loader E ld =
     rbind (ok_or (cl_server (ld_cluster ld)) MissingClusterUrl) (\<lambda>server.
     rbind (map_err ParseClusterUrl (parse_uri (kc_of E) server)) (\<lambda>cluster_url.
     let default_namespace = unwrap_or (cx_namespace (ld_current_context ld)) ''default'';
         accept_invalid_certs = unwrap_or (cl_insecure_skip_tls_verify (ld_cluster ld)) False in
     rbind (ca_bundle (kc_of E) ld) (\<lambda>root_cert.
     rbind (loader_proxy_url (kc_of E) ld) (\<lambda>proxy_url.
       Inr \<lparr>cf_cluster_url = cluster_url, cf_default_namespace = default_namespace, cf_root_cert = root_cert,
            cf_connect_timeout = Some DEFAULT_CONNECT_TIMEOUT, cf_read_timeout = Some DEFAULT_READ_TIMEOUT, cf_write_timeout = None,
            cf_accept_invalid_certs = accept_invalid_certs, cf_auth_info = ld_user ld, cf_proxy_url = proxy_url,
            cf_tls_server_name = cl_tls_server_name (ld_cluster ld)\<rparr>))))"

definition from_kubeconfig :: "('doc, 'val, 'uri) cfg_env \<Rightarrow> kubeconfig_options \<Rightarrow> kubeconfig_error + 'uri config" where
  "from_kubeconfig E options = rbind (new_from_options (kc_of E) options) (new_from_loader E)"

definition from_custom_kubeconfig :: "('doc, 'val, 'uri) cfg_env \<Rightarrow> kubeconfig \<Rightarrow> kubeconfig_options \<Rightarrow> kubeconfig_error + 'uri config" where
  "from_custom_kubeconfig E kc options = rbind (new_from_kubeconfig kc options) (new_from_loader E)"

definition apply_debug_overrides :: "('doc, 'val, 'uri) cfg_env \<Rightarrow> 'uri config \<Rightarrow> 'uri config" where
  "apply_debug_overrides E c =
     (let c = (case env_var (kc_of E) ''KUBE_RS_DEBUG_IMPERSONATE_USER'' of
             Some user \<Rightarrow> c\<lparr>cf_auth_info := (cf_auth_info c)\<lparr>ai_impersonate := Some user\<rparr>\<rparr> | None \<Rightarrow> c);
          c = (case env_var (kc_of E) ''KUBE_RS_DEBUG_IMPERSONATE_GROUP'' of
             Some groups \<Rightarrow> c\<lparr>cf_auth_info := (cf_auth_info c)\<lparr>ai_impersonate_groups := Some (split_on CHR '','' groups)\<rparr>\<rparr>
           | None \<Rightarrow> c)
      in case env_var (kc_of E) ''KUBE_RS_DEBUG_OVERRIDE_URL'' of
           Some url \<Rightarrow> (case parse_uri (kc_of E) url of Inr u \<Rightarrow> c\<lparr>cf_cluster_url := u\<rparr> | Inl _ \<Rightarrow> c)
         | None \<Rightarrow> c)"

definition config_infer :: "('doc, 'val, 'uri) cfg_env \<Rightarrow> infer_config_error + 'uri config" where
  "config_infer E =
     rbind (case from_kubeconfig E \<lparr>ko_context = None, ko_cluster = None, ko_user = None\<rparr> of
              Inl kubeconfig_err \<Rightarrow>
                map_err (\<lambda>in_cluster. \<lparr>ie_in_cluster = in_cluster, ie_kubeconfig = kubeconfig_err\<rparr>) (incluster_env E)
            | Inr success \<Rightarrow> Inr success)
       (\<lambda>config. Inr (apply_debug_overrides E config))"

definition config_identity_pem :: "('doc, 'val, 'uri) cfg_env \<Rightarrow> 'uri config \<Rightarrow> bytes option" where
  "config_identity_pem E c = (case identity_pem (kc_of E) (cf_auth_info c) of Inr pem \<Rightarrow> Some pem | Inl _ \<Rightarrow> None)"

section \<open>What the client is built from\<close>

datatype auth_layer = LayerBasic string string | LayerBearer string | LayerRefreshing refreshable_token

definition config_auth_layer :: "'w auth_env \<Rightarrow> 'uri config \<Rightarrow> ('w, auth_layer option) act" where
  "config_auth_layer A c =
     act_bind (auth_try_from A (cf_auth_info c)) (\<lambda>a. act_of (Inr (case a of
        AuthNone \<Rightarrow> None
      | AuthBasic user pass \<Rightarrow> Some (LayerBasic user pass)
      | AuthBearer token \<Rightarrow> Some (LayerBearer token)
      | AuthRefreshable r \<Rightarrow> Some (LayerRefreshing r)
      | AuthCertificate _ _ \<Rightarrow> None)))"

fun group_headers :: "'w auth_env \<Rightarrow> string list \<Rightarrow> string + (string \<times> string) list" where
  "group_headers A [] = Inr []"
| "group_headers A (g # gs) =
     rbind (header_value A g) (\<lambda>v. rbind (group_headers A gs) (\<lambda>hs. Inr ((''impersonate-group'', v) # hs)))"

definition extra_headers_layer :: "'w auth_env \<Rightarrow> 'uri config \<Rightarrow> kube_error + (string \<times> string) list" where
  "extra_headers_layer A c =
     map_err KHttp
       (rbind (case ai_impersonate (cf_auth_info c) of
                 Some user \<Rightarrow> rbind (header_value A user) (\<lambda>v. Inr [(''impersonate-user'', v)])
               | None \<Rightarrow> Inr []) (\<lambda>hs.
        rbind (case ai_impersonate_groups (cf_auth_info c) of
                 Some groups \<Rightarrow> group_headers A groups
               | None \<Rightarrow> Inr []) (\<lambda>gs. Inr (hs @ gs))))"

definition bytes_of :: "string \<Rightarrow> bytes" where
  "bytes_of s = map (\<lambda>c. of_nat (of_char c)) s"

definition exec_identity_pem :: "'w auth_env \<Rightarrow> 'uri config \<Rightarrow> 'w \<Rightarrow> bytes option \<times> 'w" where
  "exec_identity_pem A c w =
     (case auth_try_from A (cf_auth_info c) w of
        (Inr (AuthCertificate cert key), w') \<Rightarrow> (Some (bytes_of key @ [10] @ bytes_of cert @ [10]), w')
      | (_, w') \<Rightarrow> (None, w'))"

text \<open>The identity that the TLS connectors get.\<close>

definition tls_identity :: "'w auth_env \<Rightarrow> ('doc, 'val, 'uri) cfg_env \<Rightarrow> 'uri config \<Rightarrow> 'w \<Rightarrow> bytes option \<times> 'w" where
  "tls_identity A E c w = (case exec_identity_pem A c w of (p, w') \<Rightarrow> (opt_or p (config_identity_pem E c), w'))"

section \<open>Properties\<close>

definition default_options :: kubeconfig_options where
  "default_options = \<lparr>ko_context = None, ko_cluster = None, ko_user = None\<rparr>"

lemma overrides_only:
  "cf_default_namespace (apply_debug_overrides E c) = cf_default_namespace c
   \<and> cf_root_cert (apply_debug_overrides E c) = cf_root_cert c
   \<and> cf_accept_invalid_certs (apply_debug_overrides E c) = cf_accept_invalid_certs c
   \<and> cf_proxy_url (apply_debug_overrides E c) = cf_proxy_url c
   \<and> cf_tls_server_name (apply_debug_overrides E c) = cf_tls_server_name c
   \<and> cf_auth_info (apply_debug_overrides E c) = (cf_auth_info c)
       \<lparr>ai_impersonate := opt_or (env_var (kc_of E) ''KUBE_RS_DEBUG_IMPERSONATE_USER'') (ai_impersonate (cf_auth_info c)),
        ai_impersonate_groups := opt_or (map_option (split_on CHR '','') (env_var (kc_of E) ''KUBE_RS_DEBUG_IMPERSONATE_GROUP''))
          (ai_impersonate_groups (cf_auth_info c))\<rparr>"
  by (auto simp: apply_debug_overrides_def Let_def split: option.splits sum.splits)

lemma group_headers_Inr:
  "group_headers A gs = Inr hs \<Longrightarrow> list_all2 (\<lambda>g h. header_value A g = Inr (snd h) \<and> fst h = ''impersonate-group'') gs hs"
  by (induction gs arbitrary: hs) (auto simp: rbind_eq_Inr)

text \<open>
  Where a configuration comes from: it is the kubeconfig's when that can be loaded and the
  cluster's own otherwise, and an error names the reasons of both. Either way the debug
  overrides come last, and they leave everything but the URL and the impersonation as it was.
\<close>

theorem infer_sources:
  "case config_infer E of
     Inl err \<Rightarrow> from_kubeconfig E default_options = Inl (ie_kubeconfig err) \<and> incluster_env E = Inl (ie_in_cluster err)
   | Inr c \<Rightarrow> \<exists>c0. c = apply_debug_overrides E c0
       \<and> (from_kubeconfig E default_options = Inr c0
          \<or> (\<exists>e. from_kubeconfig E default_options = Inl e) \<and> incluster_env E = Inr c0)"
  unfolding config_infer_def default_options_def [symmetric]
  by (cases "from_kubeconfig E default_options"; cases "incluster_env E") auto

text \<open>
  Impersonation reaches the server: with an inferred configuration whose impersonation values
  are valid header values, every request carries one header for the user and one for each
  group, after its own headers, and those of the debug variables win over the kubeconfig's.
\<close>

theorem impersonation_is_sent:
  assumes "config_infer E = Inr c" and "extra_headers_layer A c = Inr extra" and "\<And>v h. header_value A v = Inr h \<Longrightarrow> h = v"
    and "env_var (kc_of E) ''KUBE_RS_DEBUG_IMPERSONATE_USER'' = Some user"
    and "env_var (kc_of E) ''KUBE_RS_DEBUG_IMPERSONATE_GROUP'' = Some groups"
  shows "headers (extra_headers_call extra req) =
     headers req @ (''impersonate-user'', user) # map (\<lambda>g. (''impersonate-group'', g)) (split_on CHR '','' groups)"
proof -
  obtain c0 where "c = apply_debug_overrides E c0" using assms(1) by (auto simp: config_infer_def rbind_eq_Inr)
  then have ai: "ai_impersonate (cf_auth_info c) = Some user" "ai_impersonate_groups (cf_auth_info c) = Some (split_on CHR '','' groups)"
    using overrides_only [of E c0] assms(4,5) by simp_all
  obtain gs where gs: "group_headers A (split_on CHR '','' groups) = Inr gs" and u: "extra = (''impersonate-user'', user) # gs"
    using assms(2,3) ai by (auto simp: extra_headers_layer_def rbind_eq_Inr)
  have "gs = map (\<lambda>g. (''impersonate-group'', g)) (split_on CHR '','' groups)"
    using group_headers_Inr [OF gs] assms(3) by (induction rule: list_all2_induct) auto
  then show ?thesis using u by (simp add: extra_headers_call_def)
qed

text \<open>In a cluster whose service account is mounted, with both debug variables set.\<close>

definition pod_env :: "(string, kubeconfig, string) cfg_env" where
  "pod_env = \<lparr>kc_base = sample_env\<lparr>read_to_string := (\<lambda>p. if p = SERVICE_DEFAULT_NS then Inr ''ns'' else Inl ''missing''),
        env_var := [SERVICE_HOSTENV \<mapsto> ''10.0.0.1'', SERVICE_PORTENV \<mapsto> ''443'', ''KUBE_RS_DEBUG_IMPERSONATE_USER'' \<mapsto> ''u'',
                    ''KUBE_RS_DEBUG_IMPERSONATE_GROUP'' \<mapsto> ''a,b'']\<rparr>,
     pem_parse_many = (\<lambda>b. Inr [(''CERTIFICATE'', b)]), parse_ip = (\<lambda>h. None)\<rparr>"

theorem impersonation_is_sent_witness:
  "\<exists>c extra. config_infer pod_env = Inr c \<and> extra_headers_layer (ticking_env (\<lambda>p w. [])) c = Inr extra
     \<and> headers (extra_headers_call extra \<lparr>req_method = GET, uri = ''/'', headers = [], body = []\<rparr>)
       = [(''impersonate-user'', ''u''), (''impersonate-group'', ''a''), (''impersonate-group'', ''b'')]"
proof -
  have k: "from_kubeconfig pod_env \<lparr>ko_context = None, ko_cluster = None, ko_user = None\<rparr> = Inl FindPath"
    by (simp add: from_kubeconfig_def new_from_options_def kc_read_def from_env_def default_kube_path_def kc_of_def pod_env_def sample_env_def)
  have port: "parse_port ''443'' = Inr 443"
    by (simp add: parse_port_def parse_digits_def is_digit_def digits_val_def digit_val_def)
  have "\<exists>c0. incluster_env pod_env = Inr c0"
    using port by (simp add: incluster_env_def try_kube_from_env_def try_uri_def incluster_with_uri_def load_default_ns_def load_cert_def
        kc_of_def pod_env_def sample_env_def certs_def SERVICE_HOSTENV_def SERVICE_PORTENV_def)
  then obtain c where c: "config_infer pod_env = Inr c" using k by (auto simp: config_infer_def)
  let ?A = "ticking_env (\<lambda>p w. [])"
  have hv: "header_value ?A v = Inr v" for v by (simp add: ticking_env_def)
  have "group_headers ?A gs = Inr (map (\<lambda>g. (''impersonate-group'', g)) gs)" for gs by (induction gs) (auto simp: hv)
  then obtain hs where h: "extra_headers_layer ?A c = Inr hs"
    by (cases "ai_impersonate (cf_auth_info c)"; cases "ai_impersonate_groups (cf_auth_info c)") (auto simp: extra_headers_layer_def hv)
  have v: "env_var (kc_of pod_env) ''KUBE_RS_DEBUG_IMPERSONATE_USER'' = Some ''u''"
    "env_var (kc_of pod_env) ''KUBE_RS_DEBUG_IMPERSONATE_GROUP'' = Some ''a,b''"
    by (simp_all add: kc_of_def pod_env_def)
  have "headers (extra_headers_call hs \<lparr>req_method = GET, uri = ''/'', headers = [], body = []\<rparr>)
       = [] @ (''impersonate-user'', ''u'') # map (\<lambda>g. (''impersonate-group'', g)) (split_on CHR '','' ''a,b'')"
    using impersonation_is_sent [OF c h _ v, of "\<lparr>req_method = GET, uri = ''/'', headers = [], body = []\<rparr>"] hv by simp
  then show ?thesis using c h by simp
qed

end
