(* ===== verification/Cl_Portforward.thy ===== *)
theory Cl_Portforward
  imports Cl_Client
begin

text \<open>
  \<open>kube-client/src/api/portforward.rs\<close>: one WebSocket connection carries the data and the error
  channel of every forwarded port. One loop per port reads what the user of the port writes, one
  loop reads the connection, and the forwarder is the only one that writes; they are joined by a
  bounded channel of messages.

  What a loop will read is a list: the items of a reader or of the WebSocket stream, each of which
  may be an error. A loop is then the list of messages it sends with the result it returns
  afterwards. The task is a state machine in which any loop that can make progress may be the
  next one to do so. Results of writes, of sends to the connection and of error receivers come
  with the step of the forwarder that asks for them (\<open>fw_outcome\<close>); the capacity of the channel, as
  a function of the number of its senders, is a parameter.
\<close>

section \<open>Errors and messages\<close>

datatype ws_message = WsBinary bytes | WsClose | WsOther

fun is_close :: "ws_message \<Rightarrow> bool" where
  "is_close WsClose = True"
| "is_close _ = False"

datatype pf_error =
    InvalidChannel nat
  | InvalidInitialFrameSize
  | InvalidPortMapping (actual: u16) (expected: u16)
  | ForwardFromPod
  | ForwardToPod
  | WriteBytesFromPod string
  | ReadBytesToSend string
  | InvalidErrorMessage bytes
  | ForwardErrorMessage string
  | SendWebSocketMessage string
  | ReceiveWebSocketMessage string
  | PfSpawn string
  | Shutdown string

datatype pf_message =
    FromPod u8 bytes
  | ToPod u8 bytes
  | FromPodClose
  | ToPodClose u8

section \<open>The loops that send\<close>

text \<open>\<open>2 * (i as u8)\<close>, in release builds: the conversion truncates and the product wraps around.\<close>

definition pf_channel :: "nat \<Rightarrow> u8" where
  "pf_channel i = 2 * of_nat i"

type_synonym pf_loop = "pf_message list \<times> (pf_error + unit)"

fun to_pod_loop :: "u8 \<Rightarrow> (string + bytes) list \<Rightarrow> pf_loop" where
  "to_pod_loop ch [] = ([ToPodClose ch], Inr ())"
| "to_pod_loop ch (Inl e # _) = ([], Inl (ReadBytesToSend e))"
| "to_pod_loop ch (Inr bs # rest) =
     (let (ms, r) = to_pod_loop ch rest in (if bs \<noteq> [] then ToPod ch bs # ms else ms, r))"

fun from_pod_loop :: "(string + ws_message) list \<Rightarrow> pf_loop" where
  "from_pod_loop [] = ([], Inr ())"
| "from_pod_loop (Inl e # _) = ([], Inl (ReceiveWebSocketMessage e))"
| "from_pod_loop (Inr msg # rest) =
     (let (ms, r) = from_pod_loop rest
      in case msg of
           WsBinary bin \<Rightarrow> (if length bin > 1 then FromPod (hd bin) (tl bin) # ms else ms, r)
         | _ \<Rightarrow> if is_close msg then ([FromPodClose], Inr ()) else (ms, r))"

section \<open>The forwarder\<close>

record channel_state =
  initialized :: bool
  shutdown :: bool

text \<open>
  The state of \<open>forwarder_loop\<close>: its local variables, the bytes written to each port and whether
  its writer is shut down, the error senders left and the messages they delivered, and the frames
  sent to the connection.
\<close>

record forwarder =
  fw_chan_state :: "channel_state list"
  fw_closed_ports :: nat
  fw_socket_shutdown :: bool
  fw_written :: "bytes list"
  fw_writer_shutdown :: "bool list"
  fw_error_senders :: "bool list"
  fw_errors :: "string option list"
  fw_sink :: "ws_message list"

text \<open>
  What the world answers while one message is handled: a failed write with the number of bytes it
  wrote before, failed sends of a data and of a close frame, failed shutdowns of writers, and
  whether the receiver of an error message is gone.
\<close>

record fw_outcome =
  out_write :: "(nat \<times> string) option"
  out_send :: "string option"
  out_close :: "string option"
  out_shutdown :: "nat \<Rightarrow> string option"
  out_receiver_gone :: bool

type_synonym 'a fw = "forwarder \<Rightarrow> (pf_error + 'a) \<times> forwarder"

definition fw_bind :: "'a fw \<Rightarrow> ('a \<Rightarrow> 'b fw) \<Rightarrow> 'b fw" where
  "fw_bind m f fw = (case m fw of (Inl e, fw') \<Rightarrow> (Inl e, fw') | (Inr a, fw') \<Rightarrow> f a fw')"

definition write_all :: "fw_outcome \<Rightarrow> nat \<Rightarrow> bytes \<Rightarrow> unit fw" where
  "write_all out i bs fw =
     (case out_write out of
        None \<Rightarrow> (Inr (), fw\<lparr>fw_written := (fw_written fw)[i := fw_written fw ! i @ bs]\<rparr>)
      | Some (n, e) \<Rightarrow> (Inl (WriteBytesFromPod e), fw\<lparr>fw_written := (fw_written fw)[i := fw_written fw ! i @ take n bs]\<rparr>))"

definition ws_send :: "string option \<Rightarrow> ws_message \<Rightarrow> unit fw" where
  "ws_send failure frame fw =
     (case failure of
        None \<Rightarrow> (Inr (), fw\<lparr>fw_sink := fw_sink fw @ [frame]\<rparr>)
      | Some e \<Rightarrow> (Inl (SendWebSocketMessage e), fw))"

definition shutdown_writer :: "fw_outcome \<Rightarrow> nat \<Rightarrow> unit fw" where
  "shutdown_writer out i fw =
     (case out_shutdown out i of
        None \<Rightarrow> (Inr (), fw\<lparr>fw_writer_shutdown := (fw_writer_shutdown fw)[i := True]\<rparr>)
      | Some e \<Rightarrow> (Inl (Shutdown e), fw))"

fun shutdown_writers :: "fw_outcome \<Rightarrow> nat list \<Rightarrow> unit fw" where
  "shutdown_writers out [] fw = (Inr (), fw)"
| "shutdown_writers out (i # is) fw = fw_bind (shutdown_writer out i) (\<lambda>_. shutdown_writers out is) fw"

definition get_u16_le :: "bytes \<Rightarrow> u16" where
  "get_u16_le bs = ucast (bs ! 0) + 256 * ucast (bs ! 1)"

definition set_channel :: "nat \<Rightarrow> channel_state \<Rightarrow> forwarder \<Rightarrow> forwarder" where
  "set_channel ch c fw = fw\<lparr>fw_chan_state := (fw_chan_state fw)[ch := c]\<rparr>"

text \<open>\<open>Continue\<close> is the \<open>continue\<close> after an initial frame, which skips the check for a shutdown.\<close>

datatype flow = Continue | CheckShutdown

definition forward_error :: "fw_outcome \<Rightarrow> nat \<Rightarrow> bytes \<Rightarrow> flow fw" where
  "forward_error out port_index bs fw =
     (if fw_error_senders fw ! port_index then
        (let fw = fw\<lparr>fw_error_senders := (fw_error_senders fw)[port_index := False]\<rparr>
         in if \<not> valid_utf8 bs then (Inl (InvalidErrorMessage bs), fw)
            else if out_receiver_gone out then (Inl (ForwardErrorMessage (string_of_bytes bs)), fw)
            else (Inr CheckShutdown, fw\<lparr>fw_errors := (fw_errors fw)[port_index := Some (string_of_bytes bs)]\<rparr>))
      else (Inr CheckShutdown, fw))"

definition forward_from_pod :: "u16 list \<Rightarrow> fw_outcome \<Rightarrow> nat \<Rightarrow> bytes \<Rightarrow> flow fw" where
  "forward_from_pod ports out ch bs fw =
     (if length (fw_chan_state fw) \<le> ch then (Inl (InvalidChannel ch), fw)
      else
        let channel = fw_chan_state fw ! ch; port_index = ch div 2
        in if \<not> initialized channel then
             (if length bs \<noteq> 2 then (Inl InvalidInitialFrameSize, fw)
              else
                let port = get_u16_le bs
                in if port \<noteq> ports ! port_index then (Inl (InvalidPortMapping port (ports ! port_index)), fw)
                   else (Inr Continue, set_channel ch (channel\<lparr>initialized := True\<rparr>) fw))
           else if ch mod 2 \<noteq> 0 then forward_error out port_index bs fw
           else if \<not> shutdown channel then fw_bind (write_all out port_index bs) (\<lambda>_ fw. (Inr CheckShutdown, fw)) fw
           else (Inr CheckShutdown, fw))"

definition forward_to_pod_close :: "fw_outcome \<Rightarrow> nat \<Rightarrow> flow fw" where
  "forward_to_pod_close out ch fw =
     (if length (fw_chan_state fw) \<le> ch then (Inl (InvalidChannel ch), fw)
      else
        let channel = fw_chan_state fw ! ch; port_index = ch div 2
        in if \<not> shutdown channel then
             fw_bind (shutdown_writer out port_index)
               (\<lambda>_ fw. (Inr CheckShutdown,
                  (set_channel ch (channel\<lparr>shutdown := True\<rparr>) fw)\<lparr>fw_closed_ports := fw_closed_ports fw + 1\<rparr>)) fw
           else (Inr CheckShutdown, fw))"

fun forward_message :: "u16 list \<Rightarrow> fw_outcome \<Rightarrow> pf_message \<Rightarrow> flow fw" where
  "forward_message ports out (FromPod ch bs) fw = forward_from_pod ports out (unat ch) bs fw"
| "forward_message ports out (ToPod ch bs) fw =
     fw_bind (ws_send (out_send out) (WsBinary (ch # bs))) (\<lambda>_ fw. (Inr CheckShutdown, fw)) fw"
| "forward_message ports out (ToPodClose ch) fw = forward_to_pod_close out (unat ch) fw"
| "forward_message ports out FromPodClose fw =
     fw_bind (shutdown_writers out [0 ..< length (fw_written fw)]) (\<lambda>_ fw. (Inr CheckShutdown, fw)) fw"

definition check_shutdown :: "u16 list \<Rightarrow> fw_outcome \<Rightarrow> unit fw" where
  "check_shutdown ports out fw =
     (if fw_closed_ports fw = length ports \<and> \<not> fw_socket_shutdown fw
      then fw_bind (ws_send (out_close out) WsClose) (\<lambda>_ fw. (Inr (), fw\<lparr>fw_socket_shutdown := True\<rparr>)) fw
      else (Inr (), fw))"

definition forward :: "u16 list \<Rightarrow> pf_message \<times> fw_outcome \<Rightarrow> unit fw" where
  "forward ports = (\<lambda>(msg, out). fw_bind (forward_message ports out msg)
     (\<lambda>flow. case flow of Continue \<Rightarrow> (\<lambda>fw. (Inr (), fw)) | CheckShutdown \<Rightarrow> check_shutdown ports out))"

fun forwarder_loop :: "u16 list \<Rightarrow> (pf_message \<times> fw_outcome) list \<Rightarrow> unit fw" where
  "forwarder_loop ports [] fw = (Inr (), fw)"
| "forwarder_loop ports (m # ms) fw = fw_bind (forward ports m) (\<lambda>_. forwarder_loop ports ms) fw"

definition forwarder_init :: "nat \<Rightarrow> forwarder" where
  "forwarder_init n =
     \<lparr>fw_chan_state = replicate (2 * n) \<lparr>initialized = False, shutdown = False\<rparr>, fw_closed_ports = 0,
      fw_socket_shutdown = False, fw_written = replicate n [], fw_writer_shutdown = replicate n False,
      fw_error_senders = replicate n True, fw_errors = replicate n None, fw_sink = []\<rparr>"

section \<open>The task\<close>

text \<open>
  \<open>pt_loops\<close> are the loops that send, the last one reading the connection; \<open>None\<close> is a loop that
  has returned, whose sender is dropped. \<open>pt_received\<close> is the history of what the forwarder received.
  \<open>pt_receiving\<close> is false once the forwarder has returned, and \<open>pt_result\<close> is what \<open>try_join_all\<close>
  returned.
\<close>

record pf_task =
  pt_loops :: "pf_loop option list"
  pt_queue :: "pf_message list"
  pt_forwarder :: forwarder
  pt_received :: "(pf_message \<times> fw_outcome) list"
  pt_receiving :: bool
  pt_result :: "(pf_error + unit) option"

definition start_message_loop :: "u16 list \<Rightarrow> (string + bytes) list list \<Rightarrow> (string + ws_message) list \<Rightarrow> pf_task" where
  "start_message_loop ports readers ws =
     \<lparr>pt_loops = map (\<lambda>i. Some (to_pod_loop (pf_channel i) (readers ! i))) [0 ..< length ports] @ [Some (from_pod_loop ws)],
      pt_queue = [], pt_forwarder = forwarder_init (length ports), pt_received = [], pt_receiving = True, pt_result = None\<rparr>"

definition live_senders :: "pf_task \<Rightarrow> nat" where
  "live_senders t = length (filter (\<lambda>l. l \<noteq> None) (pt_loops t))"

definition closed_error :: "pf_task \<Rightarrow> nat \<Rightarrow> pf_error" where
  "closed_error t k = (if Suc k < length (pt_loops t) then ForwardToPod else ForwardFromPod)"

definition poll_sender :: "(nat \<Rightarrow> nat) \<Rightarrow> nat \<Rightarrow> pf_task \<Rightarrow> pf_task" where
  "poll_sender capacity k t =
     (if length (pt_loops t) \<le> k then t
      else case pt_loops t ! k of
        None \<Rightarrow> t
      | Some ([], Inl e) \<Rightarrow> t\<lparr>pt_result := Some (Inl e)\<rparr>
      | Some ([], Inr _) \<Rightarrow> t\<lparr>pt_loops := (pt_loops t)[k := None]\<rparr>
      | Some (m # ms, r) \<Rightarrow>
          if \<not> pt_receiving t then t\<lparr>pt_result := Some (Inl (closed_error t k))\<rparr>
          else if capacity (live_senders t) \<le> length (pt_queue t) then t
          else t\<lparr>pt_loops := (pt_loops t)[k := Some (ms, r)], pt_queue := pt_queue t @ [m]\<rparr>)"

definition poll_forwarder :: "u16 list \<Rightarrow> fw_outcome \<Rightarrow> pf_task \<Rightarrow> pf_task" where
  "poll_forwarder ports out t =
     (if \<not> pt_receiving t then t
      else case pt_queue t of
        [] \<Rightarrow> if live_senders t = 0 then t\<lparr>pt_receiving := False\<rparr> else t
      | m # ms \<Rightarrow>
          (case forward ports (m, out) (pt_forwarder t) of
             (r, fw) \<Rightarrow>
               t\<lparr>pt_queue := ms, pt_forwarder := fw, pt_received := pt_received t @ [(m, out)],
                 pt_result := (case r of Inl e \<Rightarrow> Some (Inl e) | Inr _ \<Rightarrow> None)\<rparr>))"

text \<open>\<open>try_join_all\<close> returns the first error at once, and otherwise when every loop has returned.\<close>

definition try_join_all :: "pf_task \<Rightarrow> pf_task" where
  "try_join_all t =
     (if pt_result t = None \<and> live_senders t = 0 \<and> \<not> pt_receiving t then t\<lparr>pt_result := Some (Inr ())\<rparr> else t)"

datatype pf_poll = PollSender nat | PollForwarder fw_outcome

definition pf_step :: "(nat \<Rightarrow> nat) \<Rightarrow> u16 list \<Rightarrow> pf_task \<Rightarrow> pf_poll \<Rightarrow> pf_task" where
  "pf_step capacity ports t p =
     (if pt_result t \<noteq> None then t
      else try_join_all (case p of PollSender k \<Rightarrow> poll_sender capacity k t | PollForwarder out \<Rightarrow> poll_forwarder ports out t))"

definition pf_run :: "(nat \<Rightarrow> nat) \<Rightarrow> u16 list \<Rightarrow> pf_poll list \<Rightarrow> pf_task \<Rightarrow> pf_task" where
  "pf_run capacity ports ps t = foldl (pf_step capacity ports) t ps"

section \<open>The handle\<close>

text \<open>
  The streams and error receivers of the user are named by the position of their port. What their
  users do with them is what the loops read and the outcomes of the forwarder's steps.
\<close>

record portforwarder =
  pf_ports :: "u16 \<Rightarrow> nat option"
  pf_errors :: "u16 \<Rightarrow> nat option"
  pf_task :: pf_task

fun insert_ports :: "nat \<Rightarrow> u16 list \<Rightarrow> (u16 \<Rightarrow> nat option) \<Rightarrow> (u16 \<Rightarrow> nat option)" where
  "insert_ports i [] m = m"
| "insert_ports i (port # port_nums) m = insert_ports (Suc i) port_nums (m(port \<mapsto> i))"

definition portforwarder_new :: "(string + bytes) list list \<Rightarrow> (string + ws_message) list \<Rightarrow> u16 list \<Rightarrow> portforwarder" where
  "portforwarder_new readers stream port_nums =
     \<lparr>pf_ports = insert_ports 0 port_nums Map.empty, pf_errors = insert_ports 0 port_nums Map.empty,
      pf_task = start_message_loop port_nums readers stream\<rparr>"

definition take_stream :: "u16 \<Rightarrow> portforwarder \<Rightarrow> nat option \<times> portforwarder" where
  "take_stream port p = (pf_ports p port, p\<lparr>pf_ports := (pf_ports p)(port := None)\<rparr>)"

definition take_error :: "u16 \<Rightarrow> portforwarder \<Rightarrow> nat option \<times> portforwarder" where
  "take_error port p = (pf_errors p port, p\<lparr>pf_errors := (pf_errors p)(port := None)\<rparr>)"

text \<open>
  The future of \<open>take_error\<close> for the port at position \<open>i\<close>: it resolves with the message that was
  sent, or with nothing when the sender is dropped.
\<close>

definition error_future :: "pf_task \<Rightarrow> nat \<Rightarrow> string option poll" where
  "error_future t i =
     (case fw_errors (pt_forwarder t) ! i of
        Some s \<Rightarrow> Ready (Some s)
      | None \<Rightarrow> if pt_result t \<noteq> None \<or> \<not> pt_receiving t \<or> \<not> fw_error_senders (pt_forwarder t) ! i then Ready None else Pending)"

text \<open>\<open>join\<close>, given what awaiting the task gives: an error of the executor or the result of the task.\<close>

definition pf_join :: "string + (pf_error + unit) \<Rightarrow> pf_error + unit" where
  "pf_join awaited = (case awaited of Inl e \<Rightarrow> Inl (PfSpawn e) | Inr r \<Rightarrow> r)"

section \<open>Channels\<close>

lemma pf_channel_unat: "i < 128 \<Longrightarrow> unat (pf_channel i) = 2 * i"
proof -
  assume "i < 128"
  have "pf_channel i = of_nat (2 * i)" by (simp add: pf_channel_def)
  then show ?thesis using \<open>i < 128\<close> by (simp only:) (subst unat_of_nat, simp)
qed

lemma pf_channel_inj: "i < 128 \<Longrightarrow> j < 128 \<Longrightarrow> pf_channel i = pf_channel j \<longleftrightarrow> i = j"
  by (metis pf_channel_unat mult_cancel1 zero_neq_numeral)

text \<open>The loop a message comes from: the channel of a port, or the connection.\<close>

fun source_of :: "pf_message \<Rightarrow> u8 option" where
  "source_of (ToPod ch _) = Some ch"
| "source_of (ToPodClose ch) = Some ch"
| "source_of _ = None"

definition source_at :: "nat \<Rightarrow> nat \<Rightarrow> u8 option" where
  "source_at n k = (if k < n then Some (pf_channel k) else None)"

lemma source_at_inj: "n \<le> 128 \<Longrightarrow> j \<le> n \<Longrightarrow> k \<le> n \<Longrightarrow> source_at n j = source_at n k \<longleftrightarrow> j = k"
  by (auto simp: source_at_def pf_channel_inj)

abbreviation from_source :: "u8 option \<Rightarrow> pf_message list \<Rightarrow> pf_message list" where
  "from_source s \<equiv> filter (\<lambda>m. source_of m = s)"

lemma to_pod_loop_source: "m \<in> set (fst (to_pod_loop ch items)) \<Longrightarrow> source_of m = Some ch"
  by (induction ch items rule: to_pod_loop.induct) (auto split: prod.splits if_splits)

lemma from_pod_loop_source: "m \<in> set (fst (from_pod_loop items)) \<Longrightarrow> source_of m = None"
  by (induction items rule: from_pod_loop.induct) (auto split: prod.splits if_splits ws_message.splits)

section \<open>Scheduling\<close>

text \<open>
  What holds of a task that was started with the loops \<open>ls\<close>: the messages of each loop are, in
  order, those received, those in the channel and those still to be sent; the forwarder is where
  \<open>forwarder_loop\<close> is after the messages received; and a result is that of the forwarder or of a loop.
\<close>

definition unsent :: "pf_loop option \<Rightarrow> pf_message list" where
  "unsent l = (case l of None \<Rightarrow> [] | Some (ms, _) \<Rightarrow> ms)"

definition loops_ok :: "pf_loop list \<Rightarrow> pf_task \<Rightarrow> bool" where
  "loops_ok ls t \<longleftrightarrow> length (pt_loops t) = length ls
     \<and> (\<forall>k < length ls. from_source (source_at (length ls - 1) k) (map fst (pt_received t) @ pt_queue t) @ unsent (pt_loops t ! k) = fst (ls ! k)
          \<and> (case pt_loops t ! k of None \<Rightarrow> snd (ls ! k) = Inr () | Some (_, r) \<Rightarrow> r = snd (ls ! k)))
     \<and> (\<forall>m \<in> set (map fst (pt_received t) @ pt_queue t). \<exists>k < length ls. source_of m = source_at (length ls - 1) k)
     \<and> (\<not> pt_receiving t \<longrightarrow> live_senders t = 0 \<and> pt_queue t = [])"

definition result_ok :: "u16 list \<Rightarrow> pf_loop list \<Rightarrow> pf_task \<Rightarrow> bool" where
  "result_ok ports ls t \<longleftrightarrow>
     (let (r, fw) = forwarder_loop ports (pt_received t) (forwarder_init (length ports))
      in fw = pt_forwarder t \<and>
         (case pt_result t of
            None \<Rightarrow> r = Inr ()
          | Some (Inr _) \<Rightarrow> r = Inr () \<and> live_senders t = 0 \<and> pt_queue t = []
          | Some (Inl e) \<Rightarrow> r = Inl e \<or> (r = Inr () \<and> (\<exists>k < length ls. snd (ls ! k) = Inl e \<and> unsent (pt_loops t ! k) = []))))"

lemma fw_bind_eq: "fw_bind m f fw = (r, fw') \<longleftrightarrow> (\<exists>e. m fw = (Inl e, fw') \<and> r = Inl e) \<or> (\<exists>a fw1. m fw = (Inr a, fw1) \<and> f a fw1 = (r, fw'))"
  by (auto simp: fw_bind_def split: prod.splits sum.splits)

lemma fw_bind_simps [simp]: "m fw = (Inl e, fw') \<Longrightarrow> fw_bind m f fw = (Inl e, fw')" "m fw = (Inr a, fw') \<Longrightarrow> fw_bind m f fw = f a fw'"
  by (simp_all add: fw_bind_def)

lemma forwarder_loop_append: "forwarder_loop ports (ms @ ms') fw = fw_bind (forwarder_loop ports ms) (\<lambda>_. forwarder_loop ports ms') fw"
  by (induction ms arbitrary: fw) (auto simp: fw_bind_def split: prod.splits sum.splits)

lemma forwarder_loop_snoc: "forwarder_loop ports (ms @ [m]) fw = fw_bind (forwarder_loop ports ms) (\<lambda>_. forward ports m) fw"
  unfolding forwarder_loop_append by (auto simp: fw_bind_def split: prod.splits sum.splits)

text \<open>Every loop of \<open>ls\<close> sends messages of its own source only.\<close>

definition sources_ok :: "pf_loop list \<Rightarrow> bool" where
  "sources_ok ls \<longleftrightarrow> ls \<noteq> [] \<and> length ls \<le> 129 \<and> (\<forall>k < length ls. \<forall>m \<in> set (fst (ls ! k)). source_of m = source_at (length ls - 1) k)"

lemma live_senders_0: "live_senders t = 0 \<longleftrightarrow> (\<forall>k < length (pt_loops t). pt_loops t ! k = None)"
  by (simp add: live_senders_def filter_empty_conv all_set_conv_all_nth del: not_None_eq)

lemma loops_ok_nth: "loops_ok ls t \<Longrightarrow> k < length ls \<Longrightarrow>
   from_source (source_at (length ls - 1) k) (map fst (pt_received t) @ pt_queue t) @ unsent (pt_loops t ! k) = fst (ls ! k)"
  by (simp add: loops_ok_def)

lemma loop_cases:
  fixes l :: "pf_loop option"
  obtains "l = None" | e where "l = Some ([], Inl e)" | "l = Some ([], Inr ())" | m ms r where "l = Some (m # ms, r)"
proof (cases l)
  case (Some p)
  obtain ms r where p: "p = (ms, r)" by (cases p)
  show ?thesis using that Some p by (cases ms; cases r) simp_all
qed (use that in simp)

lemma poll_sender_cases:
  obtains (idle) "poll_sender capacity k t = t"
  | (failed) e where "k < length (pt_loops t)" "pt_loops t ! k = Some ([], Inl e)" "poll_sender capacity k t = t\<lparr>pt_result := Some (Inl e)\<rparr>"
  | (returned) "k < length (pt_loops t)" "pt_loops t ! k = Some ([], Inr ())" "poll_sender capacity k t = t\<lparr>pt_loops := (pt_loops t)[k := None]\<rparr>"
  | (closed) m ms r where "k < length (pt_loops t)" "pt_loops t ! k = Some (m # ms, r)" "\<not> pt_receiving t"
  | (sent) m ms r where "k < length (pt_loops t)" "pt_loops t ! k = Some (m # ms, r)" "pt_receiving t"
      "poll_sender capacity k t = t\<lparr>pt_loops := (pt_loops t)[k := Some (ms, r)], pt_queue := pt_queue t @ [m]\<rparr>"
proof (cases "k < length (pt_loops t)")
  case True
  consider "pt_loops t ! k = None" | e where "pt_loops t ! k = Some ([], Inl e)" | "pt_loops t ! k = Some ([], Inr ())"
    | m ms r where "pt_loops t ! k = Some (m # ms, r)"
    by (rule loop_cases)
  then show ?thesis
  proof cases
    case (4 m ms r)
    consider "\<not> pt_receiving t" | "pt_receiving t" "capacity (live_senders t) \<le> length (pt_queue t)"
      | "pt_receiving t" "\<not> capacity (live_senders t) \<le> length (pt_queue t)" by blast
    then show ?thesis
    proof cases
      case 1
      then show ?thesis using closed True 4 by blast
    next
      case 2
      then show ?thesis using True 4 by (intro idle) (simp add: poll_sender_def)
    next
      case 3
      then show ?thesis using True 4 by (intro sent) (simp_all add: poll_sender_def)
    qed
  next
    case 1
    then show ?thesis by (intro idle) (simp add: poll_sender_def)
  next
    case 2
    then show ?thesis using True by (intro failed) (simp_all add: poll_sender_def)
  next
    case 3
    then show ?thesis using True by (intro returned) (simp_all add: poll_sender_def)
  qed
qed (use idle in \<open>simp add: poll_sender_def\<close>)

lemma loops_ok_cong: "loops_ok ls t \<Longrightarrow> pt_loops t' = pt_loops t \<Longrightarrow> pt_queue t' = pt_queue t \<Longrightarrow> pt_received t' = pt_received t
   \<Longrightarrow> pt_receiving t' = pt_receiving t \<Longrightarrow> loops_ok ls t'"
  by (simp add: loops_ok_def live_senders_def)

lemma loops_ok_source: "loops_ok ls t \<Longrightarrow> m \<in> set (map fst (pt_received t)) \<Longrightarrow> \<exists>k < length ls. source_of m = source_at (length ls - 1) k"
  unfolding loops_ok_def set_append by blast

lemma loops_ok_open: "loops_ok ls t \<Longrightarrow> k < length (pt_loops t) \<Longrightarrow> pt_loops t ! k \<noteq> None \<Longrightarrow> pt_receiving t"
  by (auto simp: loops_ok_def live_senders_0)

lemma poll_sender_loops:
  assumes "sources_ok ls" "loops_ok ls t"
  shows "loops_ok ls (poll_sender capacity k t)"
proof (cases rule: poll_sender_cases [of capacity k t])
  case (sent m ms r)
  have k: "k < length ls" using sent assms by (simp add: loops_ok_def)
  have "m \<in> set (fst (ls ! k))" using loops_ok_nth [OF assms(2) k] sent
    by (metis unsent_def option.simps(5) case_prod_conv in_set_conv_decomp)
  then have src: "source_of m = source_at (length ls - Suc 0) k" using assms k by (auto simp: sources_ok_def)
  have inj: "source_at (length ls - Suc 0) k = source_at (length ls - Suc 0) j \<longleftrightarrow> k = j" if "j < length ls" for j
    using assms k that by (subst source_at_inj) (auto simp: sources_ok_def)
  show ?thesis using assms sent src inj by (auto simp: loops_ok_def nth_list_update unsent_def)
next
  case returned
  then show ?thesis using assms loops_ok_open [of ls t k] by (auto simp: loops_ok_def nth_list_update unsent_def)
qed (use assms loops_ok_open [of ls t k] in \<open>auto intro: loops_ok_cong\<close>)

lemma poll_forwarder_loops: "loops_ok ls t \<Longrightarrow> loops_ok ls (poll_forwarder ports out t)"
  by (auto simp: poll_forwarder_def loops_ok_def live_senders_def split: list.splits prod.splits)

lemma try_join_all_loops: "loops_ok ls (try_join_all t) \<longleftrightarrow> loops_ok ls t"
  by (auto simp: try_join_all_def loops_ok_def live_senders_def)

lemma result_ok_running: "result_ok ports ls t \<Longrightarrow> pt_result t = None \<Longrightarrow>
   forwarder_loop ports (pt_received t) (forwarder_init (length ports)) = (Inr (), pt_forwarder t)"
  by (auto simp: result_ok_def split: prod.splits)

lemma result_okI: "forwarder_loop ports (pt_received t) (forwarder_init (length ports)) = (Inr (), pt_forwarder t)
   \<Longrightarrow> pt_result t = None \<Longrightarrow> result_ok ports ls t"
  by (simp add: result_ok_def)

lemma poll_sender_result:
  assumes ok: "loops_ok ls t" and r: "result_ok ports ls t" "pt_result t = None"
  shows "result_ok ports ls (poll_sender capacity k t)"
proof (cases rule: poll_sender_cases [of capacity k t])
  case (failed e)
  have "snd (ls ! k) = Inl e" "k < length ls" using ok failed by (auto simp: loops_ok_def split: option.splits)
  then show ?thesis using result_ok_running [OF r] failed by (auto simp: result_ok_def unsent_def)
next
  case (closed m ms r)
  then show ?thesis using loops_ok_open [OF ok] by simp
qed (use result_ok_running [OF r] r(2) in \<open>auto intro!: result_okI\<close>)

lemma poll_forwarder_result:
  assumes r: "result_ok ports ls t" "pt_result t = None"
  shows "result_ok ports ls (poll_forwarder ports out t)"
proof -
  note run = result_ok_running [OF r]
  show ?thesis
  proof (cases "pt_receiving t \<and> pt_queue t \<noteq> []")
    case True
    then obtain m ms where q: "pt_queue t = m # ms" by (cases "pt_queue t") auto
    obtain r fw where f: "forward ports (m, out) (pt_forwarder t) = (r, fw)" by (cases "forward ports (m, out) (pt_forwarder t)")
    have "forwarder_loop ports (pt_received t @ [(m, out)]) (forwarder_init (length ports)) = (r, fw)"
      using run f by (simp add: forwarder_loop_snoc)
    then show ?thesis using True q f by (cases r) (auto simp: poll_forwarder_def result_ok_def)
  next
    case False
    then show ?thesis using run r(2) by (auto simp: poll_forwarder_def intro!: result_okI split: list.splits)
  qed
qed

lemma try_join_all_result:
  assumes "loops_ok ls t" "result_ok ports ls t"
  shows "result_ok ports ls (try_join_all t)"
  using assms result_ok_running [of ports ls t] by (auto simp: try_join_all_def result_ok_def loops_ok_def live_senders_def)

definition started :: "u16 list \<Rightarrow> (string + bytes) list list \<Rightarrow> (string + ws_message) list \<Rightarrow> pf_loop list" where
  "started ports readers ws = map (\<lambda>i. to_pod_loop (pf_channel i) (readers ! i)) [0 ..< length ports] @ [from_pod_loop ws]"

lemma started_nth: "length (started ports readers ws) = Suc (length ports)"
  "i < length ports \<Longrightarrow> started ports readers ws ! i = to_pod_loop (pf_channel i) (readers ! i)"
  "started ports readers ws ! length ports = from_pod_loop ws"
  by (simp_all add: started_def nth_append)

lemma started_sources: "length ports \<le> 128 \<Longrightarrow> sources_ok (started ports readers ws)"
  by (auto simp: sources_ok_def started_def source_at_def nth_append dest!: to_pod_loop_source from_pod_loop_source)

lemma start_ok: "loops_ok (started ports readers ws) (start_message_loop ports readers ws)"
  "result_ok ports (started ports readers ws) (start_message_loop ports readers ws)"
  by (auto simp: loops_ok_def start_message_loop_def started_def unsent_def nth_append live_senders_def result_ok_def split: prod.splits)

lemma pf_step_ok:
  assumes "sources_ok ls" "loops_ok ls t" "result_ok ports ls t"
  shows "loops_ok ls (pf_step capacity ports t p)" "result_ok ports ls (pf_step capacity ports t p)"
  using assms
  by (auto simp: pf_step_def try_join_all_loops poll_sender_loops poll_forwarder_loops split: pf_poll.split
      intro!: try_join_all_result poll_sender_result poll_forwarder_result)

lemma pf_run_ok:
  assumes "length ports \<le> 128"
  shows "loops_ok (started ports readers ws) (pf_run capacity ports ps (start_message_loop ports readers ws))
     \<and> result_ok ports (started ports readers ws) (pf_run capacity ports ps (start_message_loop ports readers ws))"
  unfolding pf_run_def
proof (induction ps rule: rev_induct)
  case Nil
  show ?case by (simp add: start_ok)
next
  case (snoc p ps)
  then show ?case using pf_step_ok [OF started_sources [OF assms]] by simp
qed

section \<open>What the forwarder delivers\<close>

text \<open>The payloads of the frames received on a channel, and the frames that were to be sent.\<close>

fun frames_on :: "nat \<Rightarrow> pf_message list \<Rightarrow> bytes list" where
  "frames_on c [] = []"
| "frames_on c (FromPod ch bs # ms) = (if unat ch = c then bs # frames_on c ms else frames_on c ms)"
| "frames_on c (_ # ms) = frames_on c ms"

fun to_pod_frames :: "pf_message list \<Rightarrow> ws_message list" where
  "to_pod_frames [] = []"
| "to_pod_frames (ToPod ch bs # ms) = WsBinary (ch # bs) # to_pod_frames ms"
| "to_pod_frames (_ # ms) = to_pod_frames ms"

lemma frames_on_append [simp]: "frames_on c (ms @ ms') = frames_on c ms @ frames_on c ms'"
  by (induction c ms rule: frames_on.induct) simp_all

lemma to_pod_frames_append [simp]: "to_pod_frames (ms @ ms') = to_pod_frames ms @ to_pod_frames ms'"
  by (induction ms rule: to_pod_frames.induct) simp_all

definition good_init :: "u16 \<Rightarrow> bytes list \<Rightarrow> bool" where
  "good_init port fs \<longleftrightarrow> fs = [] \<or> (length (hd fs) = 2 \<and> get_u16_le (hd fs) = port)"

definition first_error :: "bytes list \<Rightarrow> string option" where
  "first_error fs = (case tl fs of [] \<Rightarrow> None | b # _ \<Rightarrow> Some (string_of_bytes b))"

text \<open>The state of the forwarder after the messages \<open>ms\<close>, all handled without an error.\<close>

definition sizes_ok :: "nat \<Rightarrow> forwarder \<Rightarrow> bool" where
  "sizes_ok n fw \<longleftrightarrow> length (fw_chan_state fw) = 2 * n \<and> length (fw_written fw) = n \<and> length (fw_writer_shutdown fw) = n
     \<and> length (fw_error_senders fw) = n \<and> length (fw_errors fw) = n"

definition channels_ok :: "u16 list \<Rightarrow> pf_message list \<Rightarrow> forwarder \<Rightarrow> bool" where
  "channels_ok ports ms fw \<longleftrightarrow> (\<forall>c < 2 * length ports.
     (initialized (fw_chan_state fw ! c) \<longleftrightarrow> frames_on c ms \<noteq> []) \<and> good_init (ports ! (c div 2)) (frames_on c ms)
     \<and> (shutdown (fw_chan_state fw ! c) \<longleftrightarrow> c \<in> unat ` {ch. ToPodClose ch \<in> set ms}))"

definition data_ok :: "nat \<Rightarrow> pf_message list \<Rightarrow> forwarder \<Rightarrow> bool" where
  "data_ok n ms fw \<longleftrightarrow> (\<forall>i < n. prefix (fw_written fw ! i) (concat (tl (frames_on (2 * i) ms)))
     \<and> (\<not> shutdown (fw_chan_state fw ! (2 * i)) \<longrightarrow> fw_written fw ! i = concat (tl (frames_on (2 * i) ms)))
     \<and> fw_errors fw ! i = first_error (frames_on (2 * i + 1) ms) \<and> (fw_error_senders fw ! i \<longleftrightarrow> tl (frames_on (2 * i + 1) ms) = []))"

definition closed_ok :: "nat \<Rightarrow> pf_message list \<Rightarrow> forwarder \<Rightarrow> bool" where
  "closed_ok n ms fw \<longleftrightarrow> fw_closed_ports fw = card {ch. ToPodClose ch \<in> set ms} \<and> (\<forall>ch. ToPodClose ch \<in> set ms \<longrightarrow> unat ch < 2 * n)"

definition sink_ok :: "nat \<Rightarrow> pf_message list \<Rightarrow> forwarder \<Rightarrow> bool" where
  "sink_ok n ms fw \<longleftrightarrow>
     (if fw_socket_shutdown fw
      then \<exists>ms1 ms2. ms = ms1 @ ms2 \<and> n \<le> card {ch. ToPodClose ch \<in> set ms1}
             \<and> fw_sink fw = to_pod_frames ms1 @ [WsClose] @ to_pod_frames ms2
      else fw_sink fw = to_pod_frames ms)"

lemma shutdown_writer_Inr: "shutdown_writer out i fw = (Inr u, fw') \<Longrightarrow> \<exists>w. length w = length (fw_writer_shutdown fw) \<and> fw' = fw\<lparr>fw_writer_shutdown := w\<rparr>"
  by (auto simp: shutdown_writer_def split: option.splits intro!: exI [of _ "(fw_writer_shutdown fw)[i := True]"])

lemma shutdown_writer_Inl: "shutdown_writer out i fw = (Inl e, fw') \<Longrightarrow> fw' = fw"
  by (auto simp: shutdown_writer_def split: option.splits)

lemma shutdown_writers_eff: "shutdown_writers out is fw = (r, fw') \<Longrightarrow> \<exists>w. length w = length (fw_writer_shutdown fw) \<and> fw' = fw\<lparr>fw_writer_shutdown := w\<rparr>"
proof (induction "is" arbitrary: fw)
  case Nil
  then show ?case by (auto intro!: exI [of _ "fw_writer_shutdown fw"])
next
  case (Cons i "is")
  from Cons.prems consider e where "shutdown_writer out i fw = (Inl e, fw')"
    | fw1 where "shutdown_writer out i fw = (Inr (), fw1)" "shutdown_writers out is fw1 = (r, fw')"
    by (auto simp: fw_bind_eq)
  then show ?case
  proof cases
    case 1
    then show ?thesis using shutdown_writer_Inl [of out i fw e fw'] by (auto intro!: exI [of _ "fw_writer_shutdown fw"])
  next
    case 2
    then obtain w where "length w = length (fw_writer_shutdown fw)" "fw1 = fw\<lparr>fw_writer_shutdown := w\<rparr>"
      using shutdown_writer_Inr by blast
    then show ?thesis using Cons.IH [OF 2(2)] by auto
  qed
qed

text \<open>What one message does when it is handled without an error.\<close>

lemma forward_message_cases:
  assumes "forward_message ports out m fw = (Inr fl, fw')"
  obtains (init) ch bs where "m = FromPod ch bs" "unat ch < length (fw_chan_state fw)" "\<not> initialized (fw_chan_state fw ! unat ch)"
      "length bs = 2" "get_u16_le bs = ports ! (unat ch div 2)"
      "fw' = set_channel (unat ch) ((fw_chan_state fw ! unat ch)\<lparr>initialized := True\<rparr>) fw"
  | (error) ch bs where "m = FromPod ch bs" "unat ch < length (fw_chan_state fw)" "initialized (fw_chan_state fw ! unat ch)" "odd (unat ch)"
      "fw' = (if fw_error_senders fw ! (unat ch div 2)
         then fw\<lparr>fw_error_senders := (fw_error_senders fw)[unat ch div 2 := False],
                 fw_errors := (fw_errors fw)[unat ch div 2 := Some (string_of_bytes bs)]\<rparr> else fw)"
  | (data) ch bs where "m = FromPod ch bs" "unat ch < length (fw_chan_state fw)" "initialized (fw_chan_state fw ! unat ch)" "even (unat ch)"
      "fw' = (if shutdown (fw_chan_state fw ! unat ch) then fw
         else fw\<lparr>fw_written := (fw_written fw)[unat ch div 2 := fw_written fw ! (unat ch div 2) @ bs]\<rparr>)"
  | (send) ch bs where "m = ToPod ch bs" "fw' = fw\<lparr>fw_sink := fw_sink fw @ [WsBinary (ch # bs)]\<rparr>"
  | (close) ch w where "m = ToPodClose ch" "unat ch < length (fw_chan_state fw)" "length w = length (fw_writer_shutdown fw)"
      "fw' = (if shutdown (fw_chan_state fw ! unat ch) then fw
         else (set_channel (unat ch) ((fw_chan_state fw ! unat ch)\<lparr>shutdown := True\<rparr>)
                (fw\<lparr>fw_writer_shutdown := w\<rparr>))\<lparr>fw_closed_ports := fw_closed_ports fw + 1\<rparr>)"
  | (pod_close) w where "m = FromPodClose" "length w = length (fw_writer_shutdown fw)" "fw' = fw\<lparr>fw_writer_shutdown := w\<rparr>"
proof (cases m)
  case (FromPod ch bs)
  note f = assms [unfolded FromPod forward_message.simps forward_from_pod_def Let_def]
  show ?thesis
  proof (cases "initialized (fw_chan_state fw ! unat ch)")
    case False
    then show ?thesis using f FromPod by (intro init) (auto split: if_splits)
  next
    case True
    show ?thesis
    proof (cases "odd (unat ch)")
      case odd: True
      then show ?thesis using f FromPod True
        by (intro error) (auto simp: forward_error_def Let_def odd_iff_mod_2_eq_one split: if_splits)
    next
      case False
      then show ?thesis using f FromPod True
        by (intro data) (auto simp: write_all_def fw_bind_eq split: if_splits option.splits)
    qed
  qed
next
  case (ToPod ch bs)
  then show ?thesis using assms by (intro send) (auto simp: ws_send_def fw_bind_eq split: option.splits)
next
  case (ToPodClose ch)
  note f = assms [unfolded ToPodClose forward_message.simps forward_to_pod_close_def Let_def]
  show ?thesis
  proof (cases "shutdown (fw_chan_state fw ! unat ch)")
    case True
    then show ?thesis using f ToPodClose by (intro close) (auto split: if_splits)
  next
    case False
    then obtain fw1 where "shutdown_writer out (unat ch div 2) fw = (Inr (), fw1)"
      and fw': "fw' = (set_channel (unat ch) ((fw_chan_state fw ! unat ch)\<lparr>shutdown := True\<rparr>) fw1)\<lparr>fw_closed_ports := fw_closed_ports fw1 + 1\<rparr>"
      using f by (auto simp: fw_bind_eq split: if_splits)
    then obtain w where w: "length w = length (fw_writer_shutdown fw)" "fw1 = fw\<lparr>fw_writer_shutdown := w\<rparr>"
      using shutdown_writer_Inr by blast
    show ?thesis using f False fw' w ToPodClose by (intro close [of ch w]) (auto split: if_splits)
  qed
next
  case FromPodClose
  then obtain w where "length w = length (fw_writer_shutdown fw)" "fw' = fw\<lparr>fw_writer_shutdown := w\<rparr>"
    using assms shutdown_writers_eff [of out "[0 ..< length (fw_written fw)]" fw] by (auto simp: fw_bind_eq)
  then show ?thesis using FromPodClose pod_close by blast
qed

text \<open>The check for a shutdown touches the sink and its flag only.\<close>

lemma check_shutdown_cases:
  assumes "check_shutdown ports out fw = (r, fw')"
  obtains (nothing) "fw' = fw" | (closing) "fw' = fw\<lparr>fw_sink := fw_sink fw @ [WsClose], fw_socket_shutdown := True\<rparr>"
      "\<not> fw_socket_shutdown fw" "fw_closed_ports fw = length ports"
  using assms by (auto simp: check_shutdown_def ws_send_def fw_bind_eq split: if_splits option.splits)

lemma check_shutdown_Inr: "check_shutdown ports out fw = (Inr (), fw') \<Longrightarrow> fw_closed_ports fw = length ports \<Longrightarrow> fw_socket_shutdown fw'"
  by (auto simp: check_shutdown_def ws_send_def fw_bind_eq split: if_splits option.splits)

lemma set_channel_simps [simp]:
  "fw_chan_state (set_channel c s fw) = (fw_chan_state fw)[c := s]" "fw_written (set_channel c s fw) = fw_written fw"
  "fw_writer_shutdown (set_channel c s fw) = fw_writer_shutdown fw" "fw_error_senders (set_channel c s fw) = fw_error_senders fw"
  "fw_errors (set_channel c s fw) = fw_errors fw" "fw_closed_ports (set_channel c s fw) = fw_closed_ports fw"
  "fw_sink (set_channel c s fw) = fw_sink fw" "fw_socket_shutdown (set_channel c s fw) = fw_socket_shutdown fw"
  by (simp_all add: set_channel_def)

lemma sizes_message: "sizes_ok n fw \<Longrightarrow> forward_message ports out m fw = (Inr fl, fw') \<Longrightarrow> sizes_ok n fw'"
  by (erule forward_message_cases) (auto simp: sizes_ok_def)

lemma good_init_append [simp]: "fs \<noteq> [] \<Longrightarrow> good_init port (fs @ fs') \<longleftrightarrow> good_init port fs"
  by (simp add: good_init_def)

lemma channels_message:
  assumes "sizes_ok (length ports) fw" "channels_ok ports ms fw" "forward_message ports out m fw = (Inr fl, fw')"
  shows "channels_ok ports (ms @ [m]) fw'"
  using assms(3)
proof (cases rule: forward_message_cases)
  case (init ch bs)
  then show ?thesis using assms by (auto simp: channels_ok_def sizes_ok_def nth_list_update good_init_def)
next
  case (close ch w)
  then show ?thesis using assms
    by (auto simp: channels_ok_def sizes_ok_def nth_list_update image_iff)
qed (use assms in \<open>auto simp: channels_ok_def sizes_ok_def\<close>)

lemma half_even: "even c \<Longrightarrow> c div 2 = i \<longleftrightarrow> c = 2 * i" for c :: nat
  by auto

lemma half_odd: "odd c \<Longrightarrow> c div 2 = i \<longleftrightarrow> c = 2 * i + 1" for c :: nat
  by auto

lemma data_message:
  assumes "sizes_ok (length ports) fw" "channels_ok ports ms fw" "data_ok (length ports) ms fw"
    and "forward_message ports out m fw = (Inr fl, fw')"
  shows "data_ok (length ports) (ms @ [m]) fw'"
  using assms(4)
proof (cases rule: forward_message_cases)
  case (init ch bs)
  have "frames_on (unat ch) ms = []" using assms init by (simp add: channels_ok_def sizes_ok_def)
  then show ?thesis using assms init
    by (auto simp: data_ok_def nth_list_update sizes_ok_def first_error_def)
next
  case (error ch bs)
  have "frames_on (unat ch) ms \<noteq> []" using assms error by (simp add: channels_ok_def sizes_ok_def)
  then show ?thesis using assms error
    by (auto simp: data_ok_def nth_list_update sizes_ok_def first_error_def half_odd split: list.splits)
next
  case (data ch bs)
  have "frames_on (unat ch) ms \<noteq> []" using assms data by (simp add: channels_ok_def sizes_ok_def)
  then show ?thesis using assms data
    by (auto simp: data_ok_def nth_list_update sizes_ok_def half_even)
next
  case (close ch w)
  then show ?thesis using assms by (auto simp: data_ok_def nth_list_update sizes_ok_def)
qed (use assms in \<open>auto simp: data_ok_def\<close>)

lemma unat_eq_u8: "unat ch = unat ch' \<Longrightarrow> ch = ch'" for ch ch' :: u8
  by (simp add: word_unat_eq_iff)

lemma closed_message:
  assumes "sizes_ok (length ports) fw" "channels_ok ports ms fw" "closed_ok (length ports) ms fw"
    and "forward_message ports out m fw = (Inr fl, fw')"
  shows "closed_ok (length ports) (ms @ [m]) fw'"
  using assms(4)
proof (cases rule: forward_message_cases)
  case (close ch w)
  have "shutdown (fw_chan_state fw ! unat ch) \<longleftrightarrow> ToPodClose ch \<in> set ms"
    using assms close by (auto simp: channels_ok_def sizes_ok_def dest!: unat_eq_u8)
  moreover have "{ch'. ToPodClose ch' \<in> set (ms @ [m])} = insert ch {ch'. ToPodClose ch' \<in> set ms}"
    using close by auto
  ultimately show ?thesis using assms close by (auto simp: closed_ok_def sizes_ok_def insert_absorb)
qed (use assms in \<open>auto simp: closed_ok_def\<close>)

lemma sink_okI: "fw_sink fw = to_pod_frames ms \<Longrightarrow> \<not> fw_socket_shutdown fw \<Longrightarrow> sink_ok n ms fw"
  "ms = ms1 @ ms2 \<Longrightarrow> n \<le> card {ch. ToPodClose ch \<in> set ms1} \<Longrightarrow> fw_sink fw = to_pod_frames ms1 @ [WsClose] @ to_pod_frames ms2
     \<Longrightarrow> fw_socket_shutdown fw \<Longrightarrow> sink_ok n ms fw"
  by (auto simp: sink_ok_def)

lemma sink_message:
  assumes "sink_ok n ms fw" "forward_message ports out m fw = (Inr fl, fw')"
  shows "sink_ok n (ms @ [m]) fw'"
proof -
  have eff: "fw_socket_shutdown fw' = fw_socket_shutdown fw" "fw_sink fw' = fw_sink fw @ to_pod_frames [m]"
    using assms(2) by (auto elim!: forward_message_cases split: if_splits)
  show ?thesis
  proof (cases "fw_socket_shutdown fw")
    case True
    then obtain ms1 ms2 where "ms = ms1 @ ms2" "n \<le> card {ch. ToPodClose ch \<in> set ms1}" "fw_sink fw = to_pod_frames ms1 @ [WsClose] @ to_pod_frames ms2"
      using assms(1) by (auto simp: sink_ok_def)
    then show ?thesis using eff True by (intro sink_okI(2) [of _ ms1 "ms2 @ [m]"]) auto
  qed (use assms(1) eff in \<open>auto simp: sink_ok_def\<close>)
qed

text \<open>The invariant of the forwarder, and that every message that is handled keeps it.\<close>

definition fw_ok :: "u16 list \<Rightarrow> pf_message list \<Rightarrow> forwarder \<Rightarrow> bool" where
  "fw_ok ports ms fw \<longleftrightarrow> sizes_ok (length ports) fw \<and> channels_ok ports ms fw \<and> data_ok (length ports) ms fw
     \<and> closed_ok (length ports) ms fw \<and> sink_ok (length ports) ms fw"

lemma message_ok: "fw_ok ports ms fw \<Longrightarrow> forward_message ports out m fw = (Inr fl, fw') \<Longrightarrow> fw_ok ports (ms @ [m]) fw'"
  unfolding fw_ok_def by (blast intro: sizes_message channels_message data_message closed_message sink_message)

lemma check_ok: "fw_ok ports ms fw \<Longrightarrow> check_shutdown ports out fw = (r, fw') \<Longrightarrow> fw_ok ports ms fw'"
proof (erule check_shutdown_cases)
  assume ok: "fw_ok ports ms fw" and fw': "fw' = fw\<lparr>fw_sink := fw_sink fw @ [WsClose], fw_socket_shutdown := True\<rparr>"
    and "\<not> fw_socket_shutdown fw" "fw_closed_ports fw = length ports"
  then have "fw_sink fw = to_pod_frames ms" "length ports \<le> card {ch. ToPodClose ch \<in> set ms}"
    by (auto simp: fw_ok_def sink_ok_def closed_ok_def)
  then have "sink_ok (length ports) ms fw'" using fw' by (intro sink_okI(2) [of _ ms "[]"]) simp_all
  then show ?thesis using ok fw' by (simp add: fw_ok_def sizes_ok_def channels_ok_def data_ok_def closed_ok_def)
qed simp

definition flag_ok :: "u16 list \<Rightarrow> forwarder \<Rightarrow> bool" where
  "flag_ok ports fw \<longleftrightarrow> (fw_closed_ports fw = length ports \<longrightarrow> fw_socket_shutdown fw)"

lemma forward_ok:
  assumes "fw_ok ports ms fw" "flag_ok ports fw" "forward ports (m, out) fw = (Inr (), fw')"
  shows "fw_ok ports (ms @ [m]) fw'" "flag_ok ports fw'"
proof -
  from assms(3) obtain fl fw1 where m: "forward_message ports out m fw = (Inr fl, fw1)"
    and c: "(case fl of Continue \<Rightarrow> (\<lambda>fw. (Inr (), fw)) | CheckShutdown \<Rightarrow> check_shutdown ports out) fw1 = (Inr (), fw')"
    by (auto simp: forward_def fw_bind_eq)
  note ok1 = message_ok [OF assms(1) m]
  show "fw_ok ports (ms @ [m]) fw'" using ok1 c check_ok by (cases fl) auto
  show "flag_ok ports fw'"
  proof (cases fl)
    case CheckShutdown
    then show ?thesis using c check_shutdown_Inr [of ports out fw1 fw']
      by (auto simp: flag_ok_def elim!: check_shutdown_cases)
  next
    case Continue
    then show ?thesis using c assms(2) m
      by (cases m) (auto simp: flag_ok_def forward_from_pod_def forward_error_def forward_to_pod_close_def fw_bind_eq Let_def split: if_splits)
  qed
qed

lemma init_ok: "fw_ok ports [] (forwarder_init (length ports))" "ports \<noteq> [] \<Longrightarrow> flag_ok ports (forwarder_init (length ports))"
  by (auto simp: fw_ok_def sizes_ok_def channels_ok_def data_ok_def closed_ok_def sink_ok_def forwarder_init_def flag_ok_def good_init_def
      first_error_def)

lemma forwarder_loop_ok:
  assumes "ports \<noteq> []" "forwarder_loop ports h (forwarder_init (length ports)) = (Inr (), fw)"
  shows "fw_ok ports (map fst h) fw \<and> flag_ok ports fw"
  using assms(2)
proof (induction h arbitrary: fw rule: rev_induct)
  case (snoc x h)
  obtain m out where x: "x = (m, out)" by (cases x)
  from snoc.prems obtain fw1 where "forwarder_loop ports h (forwarder_init (length ports)) = (Inr (), fw1)" "forward ports (m, out) fw1 = (Inr (), fw)"
    by (auto simp: forwarder_loop_snoc fw_bind_eq x)
  then show ?case using snoc.IH [of fw1] forward_ok [of ports "map fst h" fw1 m out fw] x by simp
qed (use assms(1) init_ok in auto)

text \<open>What holds also when a message was not handled to its end.\<close>

definition delivered :: "u16 list \<Rightarrow> pf_message list \<Rightarrow> forwarder \<Rightarrow> bool" where
  "delivered ports ms fw \<longleftrightarrow> (\<forall>i < length ports.
       prefix (fw_written fw ! i) (concat (tl (frames_on (2 * i) ms)))
     \<and> (fw_written fw ! i \<noteq> [] \<longrightarrow> good_init (ports ! i) (frames_on (2 * i) ms))
     \<and> (\<forall>s. fw_errors fw ! i = Some s \<longrightarrow> first_error (frames_on (2 * i + 1) ms) = Some s \<and> good_init (ports ! i) (frames_on (2 * i + 1) ms)))
     \<and> prefix (filter (\<lambda>f. \<not> is_close f) (fw_sink fw)) (to_pod_frames ms)"

lemma to_pod_frames_open [simp]: "filter (\<lambda>f. \<not> is_close f) (to_pod_frames ms) = to_pod_frames ms"
  by (induction ms rule: to_pod_frames.induct) simp_all

lemma fw_ok_sink: "fw_ok ports ms fw \<Longrightarrow> filter (\<lambda>f. \<not> is_close f) (fw_sink fw) = to_pod_frames ms"
  by (auto simp: fw_ok_def sink_ok_def split: if_splits)

lemma fw_ok_init: "fw_ok ports ms fw \<Longrightarrow> i < length ports \<Longrightarrow> good_init (ports ! i) (frames_on (2 * i) ms) \<and> good_init (ports ! i) (frames_on (2 * i + 1) ms)"
  unfolding fw_ok_def channels_ok_def by (drule conjunct2, drule conjunct1, frule spec [of _ "2 * i"], drule spec [of _ "2 * i + 1"]) simp

lemma fw_ok_delivered: "fw_ok ports ms fw \<Longrightarrow> delivered ports ms fw"
  using fw_ok_sink [of ports ms fw] fw_ok_init [of ports ms fw] by (auto simp: delivered_def fw_ok_def data_ok_def)

lemma tl_frames_append: "frames_on c ms \<noteq> [] \<Longrightarrow> tl (frames_on c (ms @ ms')) = tl (frames_on c ms) @ frames_on c ms'"
  by simp

lemma forward_message_Inl:
  assumes "forward_message ports out m fw = (Inl e, fw')"
  shows "fw_sink fw' = fw_sink fw \<and> fw_errors fw' = fw_errors fw
    \<and> (fw_written fw' = fw_written fw
       \<or> (\<exists>ch bs n. m = FromPod ch bs \<and> unat ch < length (fw_chan_state fw) \<and> initialized (fw_chan_state fw ! unat ch) \<and> even (unat ch)
            \<and> \<not> shutdown (fw_chan_state fw ! unat ch)
            \<and> fw_written fw' = (fw_written fw)[unat ch div 2 := fw_written fw ! (unat ch div 2) @ take n bs]))"
proof (cases m)
  case (FromPod ch bs)
  then show ?thesis using assms
    by (auto simp: forward_from_pod_def forward_error_def Let_def fw_bind_eq write_all_def split: if_splits option.splits)
next
  case (ToPod ch bs)
  then show ?thesis using assms by (auto simp: fw_bind_eq ws_send_def split: option.splits)
next
  case (ToPodClose ch)
  then show ?thesis using assms by (auto simp: forward_to_pod_close_def Let_def fw_bind_eq dest!: shutdown_writer_Inl split: if_splits)
next
  case FromPodClose
  then show ?thesis using assms by (auto simp: fw_bind_eq dest!: shutdown_writers_eff)
qed

lemma first_error_append: "first_error fs = Some s \<Longrightarrow> first_error (fs @ fs') = Some s"
  by (cases fs) (auto simp: first_error_def split: list.splits)

lemma good_init_frames: "fw_ok ports ms fw \<Longrightarrow> i < length ports \<Longrightarrow> c = 2 * i \<or> c = 2 * i + 1 \<Longrightarrow> frames_on c ms \<noteq> []
   \<Longrightarrow> good_init (ports ! i) (frames_on c ms @ fs)"
  using fw_ok_init by auto

lemma prefix_concat_tl: "prefix w (concat (tl fs)) \<Longrightarrow> prefix w (concat (tl (fs @ fs')))"
  by (cases fs) auto

lemma failed_delivered:
  assumes ok: "fw_ok ports ms fw" and f: "forward_message ports out m fw = (Inl e, fw')"
  shows "delivered ports (ms @ [m]) fw'"
proof -
  note eff = forward_message_Inl [OF f]
  have d: "data_ok (length ports) ms fw" and sz: "sizes_ok (length ports) fw" using ok by (simp_all add: fw_ok_def)
  have err: "first_error (frames_on (2 * i + 1) ms @ fs) = Some s \<and> good_init (ports ! i) (frames_on (2 * i + 1) ms @ fs)"
    if "i < length ports" "fw_errors fw ! i = Some s" for i s fs
  proof -
    have "first_error (frames_on (2 * i + 1) ms) = Some s" using d that by (simp add: data_ok_def)
    moreover then have "frames_on (2 * i + 1) ms \<noteq> []" by (auto simp: first_error_def)
    ultimately show ?thesis using first_error_append good_init_frames [OF ok that(1)] by blast
  qed
  have written: "prefix (fw_written fw' ! i) (concat (tl (frames_on (2 * i) (ms @ [m]))))
      \<and> (fw_written fw' ! i \<noteq> [] \<longrightarrow> good_init (ports ! i) (frames_on (2 * i) (ms @ [m])))" if i: "i < length ports" for i
  proof -
    have old: "prefix (fw_written fw ! i) (concat (tl (frames_on (2 * i) (ms @ [m]))))"
      using d i by (simp add: data_ok_def prefix_concat_tl)
    have init: "good_init (ports ! i) (frames_on (2 * i) (ms @ [m]))" if "frames_on (2 * i) ms \<noteq> []"
      using good_init_frames [OF ok i _ that] by simp
    have nonempty: "frames_on (2 * i) ms \<noteq> []" if "fw_written fw ! i \<noteq> []"
      using d i that by (auto simp: data_ok_def)
    show ?thesis
    proof (cases "fw_written fw' ! i = fw_written fw ! i")
      case True
      then show ?thesis using old init nonempty by simp
    next
      case False
      with eff obtain ch bs n where m: "m = FromPod ch bs" "unat ch < length (fw_chan_state fw)" "initialized (fw_chan_state fw ! unat ch)" "even (unat ch)"
        "\<not> shutdown (fw_chan_state fw ! unat ch)" "fw_written fw' = (fw_written fw)[unat ch div 2 := fw_written fw ! (unat ch div 2) @ take n bs]"
        by auto
      then have i': "unat ch = 2 * i" using False by (metis half_even nth_list_update_neq)
      have fr: "frames_on (2 * i) ms \<noteq> []" using m sz ok i i' by (simp add: fw_ok_def channels_ok_def sizes_ok_def)
      have "fw_written fw' ! i = concat (tl (frames_on (2 * i) ms)) @ take n bs"
        using m i' d i sz by (simp add: data_ok_def sizes_ok_def)
      then show ?thesis using fr init [OF fr] m(1) i' by (simp add: tl_frames_append take_is_prefix)
    qed
  qed
  have "prefix (filter (\<lambda>f. \<not> is_close f) (fw_sink fw')) (to_pod_frames (ms @ [m]))"
    using eff fw_ok_sink [OF ok] by simp
  then show ?thesis using eff err written by (auto simp: delivered_def)
qed

lemma forward_delivered:
  assumes ok: "fw_ok ports ms fw" and f: "forward ports (m, out) fw = (r, fw')"
  shows "delivered ports (ms @ [m]) fw'"
proof (cases "forward_message ports out m fw")
  case (Pair r1 fw1)
  show ?thesis
  proof (cases r1)
    case (Inl e)
    then show ?thesis using f Pair failed_delivered [OF ok, of out m e fw1] by (simp add: forward_def)
  next
    case (Inr fl)
    have "fw_ok ports (ms @ [m]) fw'"
      using f Pair Inr message_ok [OF ok, of out m fl fw1] check_ok [of ports "ms @ [m]" fw1 out] by (cases fl) (auto simp: forward_def)
    then show ?thesis by (rule fw_ok_delivered)
  qed
qed

lemma forwarder_loop_delivered:
  assumes "ports \<noteq> []" "forwarder_loop ports h (forwarder_init (length ports)) = (r, fw)"
  shows "\<exists>h1 h2. h = h1 @ h2 \<and> delivered ports (map fst h1) fw"
  using assms(2)
proof (induction h arbitrary: r fw rule: rev_induct)
  case Nil
  then show ?case using init_ok(1) fw_ok_delivered by fastforce
next
  case (snoc x h)
  obtain m out where x: "x = (m, out)" by (cases x)
  from snoc.prems consider e where "forwarder_loop ports h (forwarder_init (length ports)) = (Inl e, fw)"
    | fw1 where "forwarder_loop ports h (forwarder_init (length ports)) = (Inr (), fw1)" "forward ports (m, out) fw1 = (r, fw)"
    by (auto simp: forwarder_loop_snoc fw_bind_eq x)
  then show ?case
  proof cases
    case 1
    then show ?thesis using snoc.IH by fastforce
  next
    case 2
    have ok: "fw_ok ports (map fst h) fw1" using forwarder_loop_ok [OF assms(1) 2(1)] by simp
    show ?thesis using forward_delivered [OF ok 2(2)] x by (intro exI [of _ "h @ [x]"] exI [of _ "[]"]) simp
  qed
qed

section \<open>From the inputs of the loops to the frames\<close>

text \<open>
  What the pod sends on a channel before the connection fails or is closed, and what is read from
  a port before reading fails.
\<close>

fun pod_frames :: "nat \<Rightarrow> (string + ws_message) list \<Rightarrow> bytes list" where
  "pod_frames c (Inr (WsBinary bin) # ws) =
     (if 1 < length bin \<and> unat (hd bin) = c then [tl bin] else []) @ pod_frames c ws"
| "pod_frames c (Inr WsOther # ws) = pod_frames c ws"
| "pod_frames c _ = []"

fun read_bytes :: "(string + bytes) list \<Rightarrow> bytes" where
  "read_bytes (Inr bs # items) = bs @ read_bytes items"
| "read_bytes _ = []"

fun payload_to :: "u8 \<Rightarrow> ws_message list \<Rightarrow> bytes" where
  "payload_to ch [] = []"
| "payload_to ch (WsBinary (c # bs) # fs) = (if c = ch then bs @ payload_to ch fs else payload_to ch fs)"
| "payload_to ch (_ # fs) = payload_to ch fs"

lemma payload_to_append [simp]: "payload_to ch (fs @ fs') = payload_to ch fs @ payload_to ch fs'"
  by (induction ch fs rule: payload_to.induct) simp_all

lemma payload_to_open: "payload_to ch (filter (\<lambda>f. \<not> is_close f) fs) = payload_to ch fs"
  by (induction ch fs rule: payload_to.induct) auto

lemma frames_on_from_pod: "frames_on c (fst (from_pod_loop ws)) = pod_frames c ws"
  by (induction c ws rule: pod_frames.induct) (auto simp: Let_def split: prod.splits)

lemma payload_to_pod: "payload_to ch (to_pod_frames (fst (to_pod_loop ch items))) = read_bytes items"
  by (induction items rule: read_bytes.induct) (auto simp: Let_def split: prod.splits sum.splits)

lemma frames_on_source: "frames_on c (from_source None ms) = frames_on c ms"
  by (induction c ms rule: frames_on.induct) simp_all

lemma payload_to_source: "payload_to ch (to_pod_frames (from_source (Some ch) ms)) = payload_to ch (to_pod_frames ms)"
  by (induction ms rule: to_pod_frames.induct) simp_all

lemma pod_frames_received:
  assumes "loops_ok (started ports readers ws) t" "pt_received t = h1 @ h2"
  shows "prefix (frames_on c (map fst h1)) (pod_frames c ws)"
proof -
  have "from_source None (map fst (pt_received t) @ pt_queue t) @ unsent (pt_loops t ! length ports) = fst (from_pod_loop ws)"
    using loops_ok_nth [OF assms(1), of "length ports"] by (simp add: started_nth source_at_def)
  then have "frames_on c (map fst (pt_received t) @ pt_queue t) @ frames_on c (unsent (pt_loops t ! length ports)) = pod_frames c ws"
    by (metis frames_on_append frames_on_from_pod frames_on_source)
  then show ?thesis using assms(2) by (metis append.assoc frames_on_append map_append prefixI)
qed

lemma to_pod_received:
  assumes "loops_ok (started ports readers ws) t" "i < length ports"
  shows "payload_to (pf_channel i) (to_pod_frames (map fst (pt_received t) @ pt_queue t))
     @ payload_to (pf_channel i) (to_pod_frames (unsent (pt_loops t ! i))) = read_bytes (readers ! i)"
proof -
  have "from_source (Some (pf_channel i)) (map fst (pt_received t) @ pt_queue t) @ unsent (pt_loops t ! i)
      = fst (to_pod_loop (pf_channel i) (readers ! i))"
    using loops_ok_nth [OF assms(1), of i] assms(2) by (simp add: started_nth source_at_def)
  then show ?thesis by (metis payload_to_append payload_to_pod payload_to_source to_pod_frames_append)
qed

lemma prefix_tl: "prefix xs ys \<Longrightarrow> prefix (concat (tl xs)) (concat (tl ys))"
  by (cases xs) (auto simp: prefix_def)

lemma first_error_prefix: "prefix fs fs' \<Longrightarrow> first_error fs = Some s \<Longrightarrow> first_error fs' = Some s"
  by (auto simp: prefix_def first_error_append)

lemma good_init_prefix: "prefix fs fs' \<Longrightarrow> fs \<noteq> [] \<Longrightarrow> good_init port fs \<Longrightarrow> good_init port fs'"
  by (auto simp: prefix_def)

lemma payload_to_prefix: "prefix fs fs' \<Longrightarrow> prefix (payload_to ch fs) (payload_to ch fs')"
  by (auto simp: prefix_def)

lemma from_pod_delivered:
  assumes d: "delivered ports ms fw" and p: "\<And>c. prefix (frames_on c ms) (pod_frames c ws)" and i: "i < length ports"
  shows "prefix (fw_written fw ! i) (concat (tl (pod_frames (2 * i) ws)))
     \<and> (fw_written fw ! i \<noteq> [] \<longrightarrow> good_init (ports ! i) (pod_frames (2 * i) ws))
     \<and> (\<forall>s. fw_errors fw ! i = Some s \<longrightarrow> first_error (pod_frames (2 * i + 1) ws) = Some s \<and> good_init (ports ! i) (pod_frames (2 * i + 1) ws))"
proof -
  have w: "prefix (fw_written fw ! i) (concat (tl (frames_on (2 * i) ms)))"
    "fw_written fw ! i \<noteq> [] \<Longrightarrow> good_init (ports ! i) (frames_on (2 * i) ms)"
    and e: "\<And>s. fw_errors fw ! i = Some s \<Longrightarrow> first_error (frames_on (2 * i + 1) ms) = Some s \<and> good_init (ports ! i) (frames_on (2 * i + 1) ms)"
    using d i unfolding delivered_def by blast+
  have "fw_written fw ! i \<noteq> [] \<Longrightarrow> frames_on (2 * i) ms \<noteq> []" using w(1) by auto
  moreover have "fw_errors fw ! i = Some s \<Longrightarrow> frames_on (2 * i + 1) ms \<noteq> []" for s using e [of s] by (auto simp: first_error_def)
  ultimately show ?thesis using w e prefix_tl [OF p] prefix_order.trans good_init_prefix [OF p] first_error_prefix [OF p] by blast
qed

lemma to_pod_loop_ends: "fst (to_pod_loop ch items) = xs @ ToPodClose ch # ys \<Longrightarrow> ys = [] \<and> list_all (Not \<circ> isl) items"
proof (induction ch items arbitrary: xs rule: to_pod_loop.induct)
  case (3 ch bs rest)
  show ?case
  proof (cases "bs = []")
    case True
    then show ?thesis using 3 by (auto simp: Let_def split: prod.splits)
  next
    case False
    then obtain xs' where "xs = ToPod ch bs # xs'" "fst (to_pod_loop ch rest) = xs' @ ToPodClose ch # ys"
      using "3.prems" by (cases xs) (auto simp: Let_def split: prod.splits)
    then show ?thesis using "3.IH" by simp
  qed
qed (auto simp: append_eq_Cons_conv Cons_eq_append_conv)

text \<open>Once the close of a port is received, all its data has been received before.\<close>

lemma closed_port:
  assumes ok: "loops_ok (started ports readers ws) t" and i: "i < length ports"
    and h: "map fst (pt_received t) = ms1 @ ms2" and c: "ToPodClose (pf_channel i) \<in> set ms1"
  shows "from_source (Some (pf_channel i)) ms2 = []" "from_source (Some (pf_channel i)) (pt_queue t) = []"
    "unsent (pt_loops t ! i) = []" "list_all (Not \<circ> isl) (readers ! i)"
proof -
  let ?s = "from_source (Some (pf_channel i))"
  have "ToPodClose (pf_channel i) \<in> set (?s ms1)" using c by simp
  then obtain a b where "?s ms1 = a @ ToPodClose (pf_channel i) # b" by (metis in_set_conv_decomp)
  then have "fst (to_pod_loop (pf_channel i) (readers ! i))
      = a @ ToPodClose (pf_channel i) # b @ ?s ms2 @ ?s (pt_queue t) @ unsent (pt_loops t ! i)"
    using loops_ok_nth [OF ok, of i] i h by (simp add: started_nth source_at_def)
  from to_pod_loop_ends [OF this] show "?s ms2 = []" "?s (pt_queue t) = []" "unsent (pt_loops t ! i) = []" "list_all (Not \<circ> isl) (readers ! i)"
    by simp_all
qed

lemma closes_of_ports:
  assumes "loops_ok (started ports readers ws) t" "set ms \<subseteq> set (map fst (pt_received t))"
  shows "{ch. ToPodClose ch \<in> set ms} \<subseteq> pf_channel ` {..< length ports}"
proof
  fix ch assume "ch \<in> {ch. ToPodClose ch \<in> set ms}"
  then have "ToPodClose ch \<in> set (map fst (pt_received t))" using assms(2) by blast
  then obtain k where "k < Suc (length ports)" "source_of (ToPodClose ch) = source_at (length ports) k"
    using loops_ok_source [OF assms(1)] by (auto simp: started_nth simp del: source_of.simps)
  then show "ch \<in> pf_channel ` {..< length ports}" by (auto simp: source_at_def split: if_splits)
qed

lemma card_channels: "n \<le> 128 \<Longrightarrow> card (pf_channel ` {..< n}) = n"
  by (subst card_image) (auto simp: inj_on_def pf_channel_inj)

lemma all_ports_closed:
  assumes ok: "loops_ok (started ports readers ws) t" and n: "length ports \<le> 128" and h: "map fst (pt_received t) = ms1 @ ms2"
    and c: "length ports \<le> card {ch. ToPodClose ch \<in> set ms1}" and i: "i < length ports"
  shows "ToPodClose (pf_channel i) \<in> set ms1"
proof -
  have "{ch. ToPodClose ch \<in> set ms1} = pf_channel ` {..< length ports}"
    using closes_of_ports [OF ok, of ms1] h c card_channels [OF n] by (intro card_seteq) auto
  then show ?thesis using i by auto
qed

lemma no_frames_without_source:
  assumes "\<And>m. m \<in> set ms \<Longrightarrow> source_of m = None"
  shows "to_pod_frames ms = []"
  using assms by (induction ms rule: to_pod_frames.induct) fastforce+

lemma sink_closed:
  assumes ok: "loops_ok (started ports readers ws) t" and n: "length ports \<le> 128"
    and s: "sink_ok (length ports) (map fst (pt_received t)) fw" and "fw_socket_shutdown fw"
  shows "\<exists>ms1 ms2. map fst (pt_received t) = ms1 @ ms2 \<and> fw_sink fw = to_pod_frames ms1 @ [WsClose]
     \<and> (\<forall>i < length ports. ToPodClose (pf_channel i) \<in> set ms1)"
proof -
  obtain ms1 ms2 where h: "map fst (pt_received t) = ms1 @ ms2" and c: "length ports \<le> card {ch. ToPodClose ch \<in> set ms1}"
    and sink: "fw_sink fw = to_pod_frames ms1 @ [WsClose] @ to_pod_frames ms2"
    using assms by (auto simp: sink_ok_def)
  note closed = all_ports_closed [OF ok n h c]
  have "source_of m = None" if m: "m \<in> set ms2" for m
  proof (rule ccontr)
    assume "source_of m \<noteq> None"
    moreover obtain k where "k < Suc (length ports)" "source_of m = source_at (length ports) k"
      using loops_ok_source [OF ok, of m] m h by (auto simp: started_nth)
    ultimately have "k < length ports" "source_of m = Some (pf_channel k)" by (auto simp: source_at_def split: if_splits)
    then show False using closed_port(1) [OF ok _ h closed] m by (metis (mono_tags, lifting) filter_empty_conv)
  qed
  then show ?thesis using h sink closed no_frames_without_source [of ms2] by auto
qed

section \<open>Progress\<close>

text \<open>What is left to be sent, to be received and to return.\<close>

definition work_left :: "pf_task \<Rightarrow> nat" where
  "work_left t = (\<Sum>k < length (pt_loops t). 2 * length (unsent (pt_loops t ! k))) + length (pt_queue t) + live_senders t
     + (if pt_receiving t then 1 else 0)"

lemma sum_update: "k < length xs \<Longrightarrow> (\<Sum>j < length xs. f (xs[k := v] ! j)) + f (xs ! k) = (\<Sum>j < length xs. f (xs ! j)) + f v" for f :: "'a \<Rightarrow> nat"
proof -
  assume k: "k < length xs"
  have "(\<Sum>j \<in> {..< length xs} - {k}. f (xs[k := v] ! j)) = (\<Sum>j \<in> {..< length xs} - {k}. f (xs ! j))"
    by (rule sum.cong) auto
  then show ?thesis using k by (simp add: sum.remove [of "{..< length xs}" k])
qed

lemma live_senders_sum: "live_senders t = (\<Sum>k < length (pt_loops t). if pt_loops t ! k = None then 0 else 1)"
proof -
  have "length (filter P xs) = (\<Sum>k < length xs. if P (xs ! k) then 1 else 0)" for P and xs :: "pf_loop option list"
    by (induction xs rule: rev_induct) (simp_all add: nth_append)
  from this [of "\<lambda>l. l \<noteq> None" "pt_loops t"] show ?thesis
    unfolding live_senders_def by (simp only:) (rule sum.cong [OF refl], simp split: if_split del: not_None_eq)
qed

lemma work_left_sum: "work_left t = (\<Sum>k < length (pt_loops t). 2 * length (unsent (pt_loops t ! k)) + (if pt_loops t ! k = None then 0 else 1))
    + length (pt_queue t) + (if pt_receiving t then 1 else 0)"
  by (simp add: work_left_def live_senders_sum sum.distrib)

lemma poll_sender_work:
  assumes "k < length (pt_loops t)" "pt_loops t ! k \<noteq> None" "pt_receiving t" "length (pt_queue t) < capacity (live_senders t)"
    and "pt_result (poll_sender capacity k t) = None"
  shows "work_left (poll_sender capacity k t) < work_left t"
proof -
  let ?f = "\<lambda>l. 2 * length (unsent l) + (if l = None then 0 else 1)"
  obtain ms r where l: "pt_loops t ! k = Some (ms, r)" using assms(2) by auto
  show ?thesis
  proof (cases ms)
    case Nil
    then have "poll_sender capacity k t = t\<lparr>pt_loops := (pt_loops t)[k := None]\<rparr>"
      using assms l by (cases r) (auto simp: poll_sender_def)
    then show ?thesis using sum_update [of k "pt_loops t" ?f None] assms(1) l Nil by (simp add: work_left_sum unsent_def)
  next
    case (Cons m ms')
    then have "poll_sender capacity k t = t\<lparr>pt_loops := (pt_loops t)[k := Some (ms', r)], pt_queue := pt_queue t @ [m]\<rparr>"
      using assms l by (auto simp: poll_sender_def)
    then show ?thesis using sum_update [of k "pt_loops t" ?f "Some (ms', r)"] assms(1) l Cons by (simp add: work_left_sum unsent_def)
  qed
qed

lemma pf_step_progress:
  assumes cap: "\<And>n. 0 < n \<Longrightarrow> 0 < capacity n" and ok: "loops_ok ls t" and run: "pt_result t = None"
  shows "\<exists>p \<in> insert (PollForwarder out) (range PollSender).
     pt_result (pf_step capacity ports t p) \<noteq> None \<or> work_left (pf_step capacity ports t p) < work_left t"
proof -
  have join: "pt_result (try_join_all u) \<noteq> None \<or> work_left (try_join_all u) = work_left u" for u
    by (auto simp: try_join_all_def)
  consider (queue) m ms where "pt_queue t = m # ms" "pt_receiving t"
    | (sender) k where "pt_queue t = []" "k < length (pt_loops t)" "pt_loops t ! k \<noteq> None" "pt_receiving t"
    | (finished) "pt_queue t = []" "live_senders t = 0"
  proof (cases "pt_queue t")
    case Nil
    then show ?thesis using that(2,3) loops_ok_open [OF ok] live_senders_0 [of t] by metis
  next
    case (Cons m ms)
    then show ?thesis using that(1) ok by (auto simp: loops_ok_def)
  qed
  then show ?thesis
  proof cases
    case queue
    then have "pt_result (poll_forwarder ports out t) \<noteq> None \<or> work_left (poll_forwarder ports out t) < work_left t"
      by (auto simp: poll_forwarder_def work_left_def live_senders_def split: prod.splits)
    then show ?thesis using join [of "poll_forwarder ports out t"] run
      by (intro bexI [of _ "PollForwarder out"]) (auto simp: pf_step_def try_join_all_def)
  next
    case sender
    have "0 < live_senders t" using sender live_senders_0 [of t] by fastforce
    then have "pt_result (poll_sender capacity k t) \<noteq> None \<or> work_left (poll_sender capacity k t) < work_left t"
      using poll_sender_work [of k t capacity] sender cap by fastforce
    then show ?thesis using join [of "poll_sender capacity k t"] run
      by (intro bexI [of _ "PollSender k"]) (auto simp: pf_step_def try_join_all_def)
  next
    case finished
    then have "pt_result (pf_step capacity ports t (PollForwarder out)) \<noteq> None"
      using run by (auto simp: pf_step_def poll_forwarder_def try_join_all_def live_senders_def)
    then show ?thesis by blast
  qed
qed

lemma pf_run_finishes:
  assumes cap: "\<And>n. 0 < n \<Longrightarrow> 0 < capacity n" and src: "sources_ok ls"
  shows "loops_ok ls t \<Longrightarrow> result_ok ports ls t \<Longrightarrow>
    \<exists>ps. set ps \<subseteq> insert (PollForwarder out) (range PollSender) \<and> pt_result (pf_run capacity ports ps t) \<noteq> None"
proof (induction "work_left t" arbitrary: t rule: less_induct)
  case less
  show ?case
  proof (cases "pt_result t = None")
    case False
    then show ?thesis by (intro exI [of _ "[]"]) (simp add: pf_run_def)
  next
    case True
    obtain p where p: "p \<in> insert (PollForwarder out) (range PollSender)"
      "pt_result (pf_step capacity ports t p) \<noteq> None \<or> work_left (pf_step capacity ports t p) < work_left t"
      using pf_step_progress [where capacity = capacity and ports = ports and out = out, OF cap less.prems(1) True] by blast
    show ?thesis
    proof (cases "pt_result (pf_step capacity ports t p) = None")
      case False
      then show ?thesis using p(1) by (intro exI [of _ "[p]"]) (simp add: pf_run_def)
    next
      case True
      then obtain ps where "set ps \<subseteq> insert (PollForwarder out) (range PollSender)" "pt_result (pf_run capacity ports ps (pf_step capacity ports t p)) \<noteq> None"
        using less.hyps [of "pf_step capacity ports t p"] p(2) pf_step_ok [OF src less.prems] by blast
      then show ?thesis using p(1) by (intro exI [of _ "p # ps"]) (simp add: pf_run_def)
    qed
  qed
qed

section \<open>Properties\<close>

lemma sink_payload: "sink_ok n ms fw \<Longrightarrow> payload_to ch (fw_sink fw) = payload_to ch (to_pod_frames ms)"
  by (auto simp: sink_ok_def split: if_splits)

lemma request_ports: "req_portforward E rq name ports = Inr r \<Longrightarrow> ports \<noteq> [] \<and> length ports \<le> 128 \<and> distinct ports"
  using distinct_single [of ports]
  by (auto simp: req_portforward_def first_repeated_None build_body_def Let_def split: option.splits if_splits)

text \<open>The forwarder of a task without an error.\<close>

lemma unfailed_ok:
  assumes "ports \<noteq> []" "result_ok ports ls t" "\<forall>e. pt_result t \<noteq> Some (Inl e)"
  shows "fw_ok ports (map fst (pt_received t)) (pt_forwarder t)" "flag_ok ports (pt_forwarder t)"
proof -
  have "forwarder_loop ports (pt_received t) (forwarder_init (length ports)) = (Inr (), pt_forwarder t)"
    using assms(2,3) by (auto simp: result_ok_def split: option.splits sum.splits prod.splits)
  then show "fw_ok ports (map fst (pt_received t)) (pt_forwarder t)" "flag_ok ports (pt_forwarder t)"
    using forwarder_loop_ok [OF assms(1)] by blast+
qed

lemma finished_idle:
  assumes "loops_ok (started ports readers ws) t" "result_ok ports (started ports readers ws) t" "pt_result t = Some (Inr ())"
  shows "pt_queue t = []" "\<And>i. i < length ports \<Longrightarrow> pt_loops t ! i = None"
  using assms by (auto simp: result_ok_def live_senders_0 loops_ok_def started_nth split: prod.splits)

lemma insert_ports_other: "x \<notin> set ps \<Longrightarrow> insert_ports k ps m x = m x"
  by (induction k ps m rule: insert_ports.induct) auto

lemma insert_ports_nth: "distinct ps \<Longrightarrow> j < length ps \<Longrightarrow> insert_ports k ps m (ps ! j) = Some (k + j)"
proof (induction ps arbitrary: j k m)
  case (Cons port ps)
  then show ?case by (cases j) (auto simp: insert_ports_other)
qed simp

lemma to_pod_loop_closes: "snd (to_pod_loop ch items) = Inr () \<Longrightarrow> ToPodClose ch \<in> set (fst (to_pod_loop ch items))"
  by (induction ch items rule: to_pod_loop.induct) (auto simp: Let_def split: prod.splits)

text \<open>A task that ended without an error has received the close of every port.\<close>

lemma finished_closed:
  assumes n: "length ports \<le> 128" and ok: "loops_ok (started ports readers ws) t" and res: "result_ok ports (started ports readers ws) t"
    and fin: "pt_result t = Some (Inr ())"
  shows "card {ch. ToPodClose ch \<in> set (map fst (pt_received t))} = length ports"
proof -
  note idle = finished_idle [OF ok res fin]
  have "ToPodClose (pf_channel i) \<in> set (map fst (pt_received t))" if i: "i < length ports" for i
  proof -
    have "snd (to_pod_loop (pf_channel i) (readers ! i)) = Inr ()"
      using ok i idle(2) [OF i] unfolding loops_ok_def by (auto simp: started_nth dest!: spec [of _ i])
    then have "ToPodClose (pf_channel i) \<in> set (fst (to_pod_loop (pf_channel i) (readers ! i)))" by (rule to_pod_loop_closes)
    moreover have "fst (to_pod_loop (pf_channel i) (readers ! i)) = from_source (Some (pf_channel i)) (map fst (pt_received t))"
      using loops_ok_nth [OF ok, of i] i idle by (simp add: started_nth source_at_def unsent_def)
    ultimately show ?thesis by simp
  qed
  then have "{ch. ToPodClose ch \<in> set (map fst (pt_received t))} = pf_channel ` {..< length ports}"
    using closes_of_ports [OF ok order_refl] by auto
  then show ?thesis using card_channels [OF n] by simp
qed


text \<open>
  C22: the connection is closed from this side exactly once, after the last byte. As long as
  the task has not failed, the frames sent are data frames followed by at most one close frame;
  when the close frame was sent, every user had ended its stream without an error and every byte
  read was sent before; and a task that ended without an error has sent it.
\<close>

theorem portforward_closes_last:
  assumes req: "req_portforward E rq name ports = Inr r"
    and t: "t = pf_run capacity ports ps (pf_task (portforwarder_new readers ws ports))"
    and unfailed: "\<forall>e. pt_result t \<noteq> Some (Inl e)"
  shows "(\<exists>data. fw_sink (pt_forwarder t) = data @ (if fw_socket_shutdown (pt_forwarder t) then [WsClose] else [])
            \<and> (\<forall>f \<in> set data. \<not> is_close f))
     \<and> (fw_socket_shutdown (pt_forwarder t) \<longrightarrow> (\<forall>i < length ports. list_all (Not \<circ> isl) (readers ! i)
            \<and> payload_to (of_nat (2 * i)) (fw_sink (pt_forwarder t)) = read_bytes (readers ! i)))
     \<and> (pt_result t = Some (Inr ()) \<longrightarrow> fw_socket_shutdown (pt_forwarder t))"
proof -
  have ports: "ports \<noteq> []" "length ports \<le> 128" using request_ports [OF req] by auto
  have ok: "loops_ok (started ports readers ws) t" and res: "result_ok ports (started ports readers ws) t"
    using pf_run_ok [OF ports(2)] t by (simp_all add: portforwarder_new_def)
  note fw = unfailed_ok [OF ports(1) res unfailed]
  have sink: "sink_ok (length ports) (map fst (pt_received t)) (pt_forwarder t)" using fw(1) by (simp add: fw_ok_def)
  have open_frames: "\<not> is_close f" if "f \<in> set (to_pod_frames ms)" for f ms
    using that by (metis filter_id_conv to_pod_frames_open)
  show ?thesis
  proof (intro conjI impI)
    show "\<exists>data. fw_sink (pt_forwarder t) = data @ (if fw_socket_shutdown (pt_forwarder t) then [WsClose] else []) \<and> (\<forall>f \<in> set data. \<not> is_close f)"
      using sink_closed [OF ok ports(2) sink] sink open_frames by (cases "fw_socket_shutdown (pt_forwarder t)") (auto simp: sink_ok_def)
  next
    assume "fw_socket_shutdown (pt_forwarder t)"
    from sink_closed [OF ok ports(2) sink this] obtain ms1 ms2 where h: "map fst (pt_received t) = ms1 @ ms2"
      and s: "fw_sink (pt_forwarder t) = to_pod_frames ms1 @ [WsClose]"
      and c: "\<forall>i < length ports. ToPodClose (pf_channel i) \<in> set ms1" by blast
    show "\<forall>i < length ports. list_all (Not \<circ> isl) (readers ! i)
        \<and> payload_to (of_nat (2 * i)) (fw_sink (pt_forwarder t)) = read_bytes (readers ! i)"
    proof (intro allI impI)
      fix i assume i: "i < length ports"
      note closed = closed_port [OF ok i h c [rule_format, OF i]]
      have "payload_to (pf_channel i) (to_pod_frames xs) = []" if "from_source (Some (pf_channel i)) xs = []" for xs
        using payload_to_source [of "pf_channel i" xs] that by simp
      then have "payload_to (pf_channel i) (fw_sink (pt_forwarder t)) = read_bytes (readers ! i)"
        using to_pod_received [OF ok i] closed h s by simp
      then show "list_all (Not \<circ> isl) (readers ! i) \<and> payload_to (of_nat (2 * i)) (fw_sink (pt_forwarder t)) = read_bytes (readers ! i)"
        using closed(4) by (simp add: pf_channel_def)
    qed
  next
    assume "pt_result t = Some (Inr ())"
    from finished_closed [OF ports(2) ok res this] show "fw_socket_shutdown (pt_forwarder t)"
      using fw by (simp add: fw_ok_def closed_ok_def flag_ok_def)
  qed
qed

lemma to_pod_loop_errors: "snd (to_pod_loop ch items) = Inl e \<Longrightarrow> \<exists>x. e = ReadBytesToSend x"
  by (induction ch items rule: to_pod_loop.induct) (auto simp: Let_def split: prod.splits)

lemma from_pod_loop_errors: "snd (from_pod_loop ws) = Inl e \<Longrightarrow> \<exists>x. e = ReceiveWebSocketMessage x"
  by (induction ws rule: from_pod_loop.induct) (auto simp: Let_def split: prod.splits ws_message.splits if_splits)

lemmas loop_errors = to_pod_loop_errors from_pod_loop_errors

definition internal_error :: "pf_error \<Rightarrow> bool" where
  "internal_error e \<longleftrightarrow> e = ForwardToPod \<or> e = ForwardFromPod \<or> (\<exists>x. e = PfSpawn x)"

lemma io_errors:
  "shutdown_writer out i fw = (Inl e, fw') \<Longrightarrow> \<not> internal_error e"
  "ws_send f m fw = (Inl e, fw') \<Longrightarrow> \<not> internal_error e"
  "write_all out i bs fw = (Inl e, fw') \<Longrightarrow> \<not> internal_error e"
  by (auto simp: internal_error_def shutdown_writer_def ws_send_def write_all_def split: option.splits)

lemma shutdown_writers_errors: "shutdown_writers out is fw = (Inl e, fw') \<Longrightarrow> \<not> internal_error e"
  by (induction "is" arbitrary: fw) (auto simp: fw_bind_eq dest: io_errors)

lemma forward_errors: "forward ports m fw = (Inl e, fw') \<Longrightarrow> \<not> internal_error e"
proof (cases m)
  case (Pair msg out)
  have "\<not> internal_error e" if "forward_message ports out msg fw = (Inl e, fw')" for e fw'
    using that by (cases msg) (auto simp: forward_from_pod_def forward_error_def forward_to_pod_close_def Let_def fw_bind_eq
        dest: io_errors shutdown_writers_errors split: if_splits, auto simp: internal_error_def)
  moreover have "\<not> internal_error e" if "check_shutdown ports out fw = (Inl e, fw')" for e fw fw'
    using that by (auto simp: check_shutdown_def fw_bind_eq dest: io_errors split: if_splits)
  moreover assume "forward ports m fw = (Inl e, fw')"
  ultimately show ?thesis using Pair by (auto simp: forward_def fw_bind_eq split: flow.splits) (metis flow.exhaust)
qed

lemma forwarder_loop_errors: "forwarder_loop ports h fw = (Inl e, fw') \<Longrightarrow> \<not> internal_error e"
  by (induction h arbitrary: fw) (auto simp: fw_bind_eq dest: forward_errors)


section \<open>Witnesses\<close>

definition quiet :: fw_outcome where
  "quiet = \<lparr>out_write = None, out_send = None, out_close = None, out_shutdown = (\<lambda>_. None), out_receiver_gone = False\<rparr>"

definition example_ports :: "u16 list" where
  "example_ports = [80, 443]"

definition example_readers :: "(string + bytes) list list" where
  "example_readers = [[Inr [1, 2], Inr [], Inr [3]], []]"

definition example_stream :: "(string + ws_message) list" where
  "example_stream = [Inr (WsBinary [0, 80, 0]), Inr WsOther, Inr (WsBinary [0, 7, 8]), Inr WsClose]"

definition example_polls :: "pf_poll list" where
  "example_polls =
     [PollSender 0, PollSender 2, PollForwarder quiet, PollSender 2, PollForwarder quiet, PollForwarder quiet, PollSender 0,
      PollSender 0, PollSender 1, PollForwarder quiet, PollForwarder quiet, PollForwarder quiet, PollSender 2, PollForwarder quiet,
      PollSender 0, PollSender 1, PollSender 2, PollForwarder quiet]"

definition example_task :: pf_task where
  "example_task = pf_run Suc example_ports example_polls (pf_task (portforwarder_new example_readers example_stream example_ports))"

lemma example_result: "pt_result example_task = Some (Inr ())" "fw_written (pt_forwarder example_task) = [[7, 8], []]"
  "fw_sink (pt_forwarder example_task) = [WsBinary [0, 1, 2], WsBinary [0, 3], WsClose]"
  by code_simp+

lemma example_request: "\<exists>r. req_portforward example_env pods ''p'' example_ports = Inr r"
  by (simp add: portforward_ports example_ports_def example_env_def form_env_def)


theorem portforward_closes_last_witness:
  "\<exists>data. fw_sink (pt_forwarder example_task) = data @ [WsClose] \<and> (\<forall>f \<in> set data. \<not> is_close f)"
proof -
  obtain r where "req_portforward example_env pods ''p'' example_ports = Inr r" using example_request by blast
  from portforward_closes_last [OF this example_task_def] show ?thesis using example_result by auto
qed


lemma take_stream_once: "fst (take_stream port (snd (take_stream port p))) = None" "fst (take_error port (snd (take_error port p))) = None"
  "port' \<noteq> port \<Longrightarrow> fst (take_stream port' (snd (take_stream port p))) = fst (take_stream port' p)"
  by (simp_all add: take_stream_def take_error_def)

end
