(* ===== verification/Cl_Remote.thy ===== *)
theory Cl_Remote
  imports Cl_Portforward
begin

text \<open>
  \<open>kube-client/src/api/remote_command.rs\<close>: the process behind \<open>attach\<close> and \<open>exec\<close>. One WebSocket
  connection carries standard input, output and error, the status the process ends with and the
  sizes of the terminal, each on a channel of its own.

  The message loop is one task that selects between three sources, each given as the list of the
  items it will deliver before it ends. Which source is ready next is up to the schedule. The
  status type and JSON are parameters (\<open>rc_env\<close>); failures of writes and sends come with the step that
  runs into them, as for port forwarding.
\<close>

section \<open>Errors, channels and messages\<close>

record terminal_size =
  width :: u16
  height :: u16

datatype rc_error =
    ReadStdin string
  | SendStdin string
  | WriteStdout string
  | WriteStderr string
  | RcReceiveWebSocketMessage string
  | RcSpawn string
  | SendClose string
  | DeserializeStatus serde_error
  | SendStatus
  | SerializeTerminalSize serde_error
  | SendTerminalSize string
  | TtyNeedToBeTrue

definition MAX_BUF_SIZE :: nat where "MAX_BUF_SIZE = 1024"

definition STDIN_CHANNEL :: u8 where "STDIN_CHANNEL = 0"
definition STDOUT_CHANNEL :: u8 where "STDOUT_CHANNEL = 1"
definition STDERR_CHANNEL :: u8 where "STDERR_CHANNEL = 2"
definition STATUS_CHANNEL :: u8 where "STATUS_CHANNEL = 3"
definition RESIZE_CHANNEL :: u8 where "RESIZE_CHANNEL = 4"

lemmas channel_defs = STDIN_CHANNEL_def STDOUT_CHANNEL_def STDERR_CHANNEL_def STATUS_CHANNEL_def RESIZE_CHANNEL_def

datatype rc_message = Stdout bytes | Stderr bytes | Status bytes

definition filter_message :: "string + ws_message \<Rightarrow> (string + rc_message) option" where
  "filter_message wsm =
     (case wsm of
        Inr (WsBinary bin) \<Rightarrow>
          if length bin > 1 then
            (if hd bin = STDOUT_CHANNEL then Some (Inr (Stdout bin))
             else if hd bin = STDERR_CHANNEL then Some (Inr (Stderr bin))
             else if hd bin = STATUS_CHANNEL then Some (Inr (Status bin))
             else None)
          else None
      | Inr _ \<Rightarrow> None
      | Inl err \<Rightarrow> Some (Inl err))"

section \<open>The message loop\<close>

record 's rc_env =
  status_from_slice :: "bytes \<Rightarrow> serde_error + 's"
  size_to_vec :: "terminal_size \<Rightarrow> serde_error + bytes"

text \<open>
  The three sources, the flag and the writers of \<open>start_message_loop\<close>, with what was written to
  them, the status that was sent, the frames sent to the server and the result of the task.
\<close>

record 's rc_task =
  rt_server :: "(string + ws_message) list"
  rt_stdin :: "(string + bytes) list"
  rt_sizes :: "terminal_size list option"
  rt_have_sizes :: bool
  rt_stdout :: "bytes option"
  rt_stderr :: "bytes option"
  rt_status :: "'s option"
  rt_sent :: "ws_message list"
  rt_result :: "(rc_error + unit) option"

text \<open>\<open>server_recv.next()\<close> on the filtered stream.\<close>

fun server_next :: "(string + ws_message) list \<Rightarrow> (string + rc_message) option \<times> (string + ws_message) list" where
  "server_next [] = (None, [])"
| "server_next (wsm # rest) = (case filter_message wsm of Some m \<Rightarrow> (Some m, rest) | None \<Rightarrow> server_next rest)"

definition finish :: "rc_error + unit \<Rightarrow> 's rc_task \<Rightarrow> 's rc_task" where
  "finish r t = t\<lparr>rt_result := Some r\<rparr>"

text \<open>A write to an optional writer: the bytes that were written, and the error if it failed.\<close>

definition write_opt :: "fw_outcome \<Rightarrow> bytes \<Rightarrow> bytes option \<Rightarrow> string option \<times> bytes option" where
  "write_opt out bs writer =
     (case writer of
        None \<Rightarrow> (None, None)
      | Some w \<Rightarrow> (case out_write out of None \<Rightarrow> (None, Some (w @ bs)) | Some (n, e) \<Rightarrow> (Some e, Some (w @ take n bs))))"

definition on_server :: "'s rc_env \<Rightarrow> fw_outcome \<Rightarrow> 's rc_task \<Rightarrow> 's rc_task" where
  "on_server E out t0 =
     (case server_next (rt_server t0) of
        (server_message, rest) \<Rightarrow>
          let t = t0\<lparr>rt_server := rest\<rparr>
          in case server_message of
               Some (Inr (Stdout bin)) \<Rightarrow>
                 (case write_opt out (tl bin) (rt_stdout t) of
                    (None, w) \<Rightarrow> t\<lparr>rt_stdout := w\<rparr>
                  | (Some e, w) \<Rightarrow> finish (Inl (WriteStdout e)) (t\<lparr>rt_stdout := w\<rparr>))
             | Some (Inr (Stderr bin)) \<Rightarrow>
                 (case write_opt out (tl bin) (rt_stderr t) of
                    (None, w) \<Rightarrow> t\<lparr>rt_stderr := w\<rparr>
                  | (Some e, w) \<Rightarrow> finish (Inl (WriteStderr e)) (t\<lparr>rt_stderr := w\<rparr>))
             | Some (Inr (Status bin)) \<Rightarrow>
                 (case status_from_slice E (tl bin) of
                    Inl e \<Rightarrow> finish (Inl (DeserializeStatus e)) t
                  | Inr status \<Rightarrow>
                      if out_receiver_gone out then finish (Inl SendStatus) t
                      else finish (Inr ()) (t\<lparr>rt_status := Some status\<rparr>))
             | Some (Inl err) \<Rightarrow> finish (Inl (RcReceiveWebSocketMessage err)) t
             | None \<Rightarrow> finish (Inr ()) t)"

definition send_frame :: "fw_outcome \<Rightarrow> u8 \<Rightarrow> bytes \<Rightarrow> (string \<Rightarrow> rc_error) \<Rightarrow> 's rc_task \<Rightarrow> 's rc_task" where
  "send_frame out ch bs err t =
     (case out_send out of
        None \<Rightarrow> t\<lparr>rt_sent := rt_sent t @ [WsBinary (ch # bs)]\<rparr>
      | Some e \<Rightarrow> finish (Inl (err e)) t)"

definition on_stdin :: "fw_outcome \<Rightarrow> 's rc_task \<Rightarrow> 's rc_task" where
  "on_stdin out t =
     (case rt_stdin t of
        Inr bs # rest \<Rightarrow>
          if bs \<noteq> [] then send_frame out STDIN_CHANNEL bs SendStdin (t\<lparr>rt_stdin := rest\<rparr>) else t\<lparr>rt_stdin := rest\<rparr>
      | Inl err # rest \<Rightarrow> finish (Inl (ReadStdin err)) (t\<lparr>rt_stdin := rest\<rparr>)
      | [] \<Rightarrow>
          (case out_close out of
             None \<Rightarrow> finish (Inr ()) (t\<lparr>rt_sent := rt_sent t @ [WsClose]\<rparr>)
           | Some e \<Rightarrow> finish (Inl (SendClose e)) t))"

text \<open>The branch of the terminal sizes is disabled without a receiver and after its end.\<close>

definition on_resize :: "'s rc_env \<Rightarrow> fw_outcome \<Rightarrow> 's rc_task \<Rightarrow> 's rc_task" where
  "on_resize E out t =
     (if \<not> rt_have_sizes t then t
      else case rt_sizes t of
        None \<Rightarrow> t
      | Some [] \<Rightarrow> t\<lparr>rt_have_sizes := False\<rparr>
      | Some (new_size # rest) \<Rightarrow>
          (case size_to_vec E new_size of
             Inl e \<Rightarrow> finish (Inl (SerializeTerminalSize e)) (t\<lparr>rt_sizes := Some rest\<rparr>)
           | Inr bs \<Rightarrow> send_frame out RESIZE_CHANNEL bs SendTerminalSize (t\<lparr>rt_sizes := Some rest\<rparr>)))"

datatype rc_branch = ServerReady | StdinReady | ResizeReady

definition select :: "'s rc_env \<Rightarrow> 's rc_task \<Rightarrow> rc_branch \<times> fw_outcome \<Rightarrow> 's rc_task" where
  "select E t = (\<lambda>(branch, out).
     if rt_result t \<noteq> None then t
     else case branch of
       ServerReady \<Rightarrow> on_server E out t
     | StdinReady \<Rightarrow> on_stdin out t
     | ResizeReady \<Rightarrow> on_resize E out t)"

definition message_loop :: "'s rc_env \<Rightarrow> (rc_branch \<times> fw_outcome) list \<Rightarrow> 's rc_task \<Rightarrow> 's rc_task" where
  "message_loop E bs t = foldl (select E) t bs"

section \<open>The handle\<close>

text \<open>
  A pipe is named by the size of its buffer. The task starts with what will be read from its
  sources: the connection, the pipe of standard input and, with a terminal, the sizes.
\<close>

record 's attached_process =
  has_stdin :: bool
  has_stdout :: bool
  has_stderr :: bool
  stdin_writer :: "nat option"
  stdout_reader :: "nat option"
  stderr_reader :: "nat option"
  status_rx :: bool
  terminal_resize_tx :: bool
  ap_task :: "'s rc_task"

definition rc_start :: "attach_params \<Rightarrow> (string + ws_message) list \<Rightarrow> (string + bytes) list \<Rightarrow> terminal_size list \<Rightarrow> 's rc_task" where
  "rc_start ap stream stdin sizes =
     \<lparr>rt_server = stream, rt_stdin = stdin, rt_sizes = (if at_tty ap then Some sizes else None), rt_have_sizes = at_tty ap,
      rt_stdout = (if at_stdout ap then Some [] else None), rt_stderr = (if at_stderr ap then Some [] else None),
      rt_status = None, rt_sent = [], rt_result = None\<rparr>"

definition attached_process_new :: "(string + bytes) list \<Rightarrow> terminal_size list \<Rightarrow> (string + ws_message) list \<Rightarrow> attach_params \<Rightarrow> 's attached_process" where
  "attached_process_new stdin sizes stream ap =
     \<lparr>has_stdin = at_stdin ap, has_stdout = at_stdout ap, has_stderr = at_stderr ap,
      stdin_writer = Some (unwrap_or (at_max_stdin_buf_size ap) MAX_BUF_SIZE),
      stdout_reader = (if at_stdout ap then Some (unwrap_or (at_max_stdout_buf_size ap) MAX_BUF_SIZE) else None),
      stderr_reader = (if at_stderr ap then Some (unwrap_or (at_max_stderr_buf_size ap) MAX_BUF_SIZE) else None),
      status_rx = True, terminal_resize_tx = at_tty ap, ap_task = rc_start ap stream stdin sizes\<rparr>"

definition ap_stdin :: "'s attached_process \<Rightarrow> nat option \<times> 's attached_process" where
  "ap_stdin p = (if \<not> has_stdin p then (None, p) else (stdin_writer p, p\<lparr>stdin_writer := None\<rparr>))"

definition ap_stdout :: "'s attached_process \<Rightarrow> nat option \<times> 's attached_process" where
  "ap_stdout p = (if \<not> has_stdout p then (None, p) else (stdout_reader p, p\<lparr>stdout_reader := None\<rparr>))"

definition ap_stderr :: "'s attached_process \<Rightarrow> nat option \<times> 's attached_process" where
  "ap_stderr p = (if \<not> has_stderr p then (None, p) else (stderr_reader p, p\<lparr>stderr_reader := None\<rparr>))"

text \<open>\<open>take_status\<close> and \<open>terminal_size\<close> give away the one receiver and the one sender.\<close>

definition take_status :: "'s attached_process \<Rightarrow> bool \<times> 's attached_process" where
  "take_status p = (status_rx p, p\<lparr>status_rx := False\<rparr>)"

definition ap_terminal_size :: "'s attached_process \<Rightarrow> bool \<times> 's attached_process" where
  "ap_terminal_size p = (terminal_resize_tx p, p\<lparr>terminal_resize_tx := False\<rparr>)"

text \<open>The future of \<open>take_status\<close>: the status that was sent, or nothing when the task ended without.\<close>

definition status_future :: "'s rc_task \<Rightarrow> 's option poll" where
  "status_future t = (case rt_status t of Some s \<Rightarrow> Ready (Some s) | None \<Rightarrow> if rt_result t \<noteq> None then Ready None else Pending)"

definition ap_join :: "string + (rc_error + unit) \<Rightarrow> rc_error + unit" where
  "ap_join awaited = (case awaited of Inl e \<Rightarrow> Inl (RcSpawn e) | Inr r \<Rightarrow> r)"

section \<open>What the sources hold\<close>

text \<open>
  The output of the process: what the server sends on a channel before the status, an error or
  the end; the first status; and the bytes of the terminal sizes up to one that cannot be written.
\<close>

definition server_messages :: "(string + ws_message) list \<Rightarrow> (string + rc_message) list" where
  "server_messages ws = List.map_filter filter_message ws"

fun stdout_of :: "(string + rc_message) list \<Rightarrow> bytes" where
  "stdout_of (Inr (Stdout bin) # ms) = tl bin @ stdout_of ms"
| "stdout_of (Inr (Stderr bin) # ms) = stdout_of ms"
| "stdout_of _ = []"

fun stderr_of :: "(string + rc_message) list \<Rightarrow> bytes" where
  "stderr_of (Inr (Stderr bin) # ms) = tl bin @ stderr_of ms"
| "stderr_of (Inr (Stdout bin) # ms) = stderr_of ms"
| "stderr_of _ = []"

fun ending :: "(string + rc_message) list \<Rightarrow> (string + bytes) option" where
  "ending [] = None"
| "ending (Inl e # _) = Some (Inl e)"
| "ending (Inr (Status bin) # _) = Some (Inr (tl bin))"
| "ending (Inr _ # ms) = ending ms"

fun sizes_bytes :: "'s rc_env \<Rightarrow> terminal_size list \<Rightarrow> bytes" where
  "sizes_bytes E [] = []"
| "sizes_bytes E (sz # szs) = (case size_to_vec E sz of Inl _ \<Rightarrow> [] | Inr bs \<Rightarrow> bs @ sizes_bytes E szs)"

lemma server_next_messages:
  "server_next ws = (Some m, rest) \<Longrightarrow> server_messages ws = m # server_messages rest"
  "server_next ws = (None, rest) \<Longrightarrow> server_messages ws = [] \<and> rest = []"
  by (induction ws) (auto simp: server_messages_def split: option.splits)

section \<open>The invariant of the loop\<close>

definition is_data :: "ws_message \<Rightarrow> bool" where
  "is_data f \<longleftrightarrow> (\<exists>ch bs. f = WsBinary (ch # bs) \<and> (ch = STDIN_CHANNEL \<or> ch = RESIZE_CHANNEL))"

definition sizes_left :: "'s rc_env \<Rightarrow> 's rc_task \<Rightarrow> bytes" where
  "sizes_left E t = sizes_bytes E (case rt_sizes t of None \<Rightarrow> [] | Some szs \<Rightarrow> szs)"

text \<open>The running task \<open>t\<close> started as \<open>t0\<close>: nothing is lost, repeated or mixed up.\<close>

definition rc_running :: "'s rc_env \<Rightarrow> 's rc_task \<Rightarrow> 's rc_task \<Rightarrow> bool" where
  "rc_running E t0 t \<longleftrightarrow> rt_result t = None \<and> rt_status t = None
     \<and> (rt_stdout t = None \<longleftrightarrow> rt_stdout t0 = None) \<and> (rt_stderr t = None \<longleftrightarrow> rt_stderr t0 = None)
     \<and> (\<forall>w. rt_stdout t = Some w \<longrightarrow> w @ stdout_of (server_messages (rt_server t)) = stdout_of (server_messages (rt_server t0)))
     \<and> (\<forall>w. rt_stderr t = Some w \<longrightarrow> w @ stderr_of (server_messages (rt_server t)) = stderr_of (server_messages (rt_server t0)))
     \<and> ending (server_messages (rt_server t)) = ending (server_messages (rt_server t0))
     \<and> payload_to STDIN_CHANNEL (rt_sent t) @ read_bytes (rt_stdin t) = read_bytes (rt_stdin t0)
     \<and> (list_all (Not \<circ> isl) (rt_stdin t) \<longleftrightarrow> list_all (Not \<circ> isl) (rt_stdin t0))
     \<and> payload_to RESIZE_CHANNEL (rt_sent t) @ sizes_left E t = sizes_left E t0
     \<and> list_all is_data (rt_sent t)"

text \<open>How the task may have ended well: with a status, with the connection, or with standard input.\<close>

definition outputs_complete :: "'s rc_task \<Rightarrow> 's rc_task \<Rightarrow> bool" where
  "outputs_complete t0 t \<longleftrightarrow>
     (\<forall>w. rt_stdout t = Some w \<longrightarrow> w = stdout_of (server_messages (rt_server t0)))
     \<and> (\<forall>w. rt_stderr t = Some w \<longrightarrow> w = stderr_of (server_messages (rt_server t0)))"

definition ended_well :: "'s rc_env \<Rightarrow> 's rc_task \<Rightarrow> 's rc_task \<Rightarrow> bool" where
  "ended_well E t0 t \<longleftrightarrow>
     (\<exists>bs s. ending (server_messages (rt_server t0)) = Some (Inr bs) \<and> status_from_slice E bs = Inr s \<and> rt_status t = Some s
        \<and> outputs_complete t0 t \<and> list_all is_data (rt_sent t))
     \<or> (ending (server_messages (rt_server t0)) = None \<and> rt_status t = None \<and> outputs_complete t0 t \<and> list_all is_data (rt_sent t))
     \<or> (rt_status t = None \<and> list_all (Not \<circ> isl) (rt_stdin t0) \<and> payload_to STDIN_CHANNEL (rt_sent t) = read_bytes (rt_stdin t0)
        \<and> (\<exists>data. rt_sent t = data @ [WsClose] \<and> list_all is_data data))"

definition rc_separate :: "'s rc_env \<Rightarrow> 's rc_task \<Rightarrow> 's rc_task \<Rightarrow> bool" where
  "rc_separate E t0 t \<longleftrightarrow>
     (rt_stdout t = None \<longleftrightarrow> rt_stdout t0 = None) \<and> (rt_stderr t = None \<longleftrightarrow> rt_stderr t0 = None)
     \<and> (\<forall>w. rt_stdout t = Some w \<longrightarrow> prefix w (stdout_of (server_messages (rt_server t0))))
     \<and> (\<forall>w. rt_stderr t = Some w \<longrightarrow> prefix w (stderr_of (server_messages (rt_server t0))))
     \<and> prefix (payload_to STDIN_CHANNEL (rt_sent t)) (read_bytes (rt_stdin t0))
     \<and> prefix (payload_to RESIZE_CHANNEL (rt_sent t)) (sizes_left E t0)"

definition rc_finished :: "'s rc_env \<Rightarrow> 's rc_task \<Rightarrow> 's rc_task \<Rightarrow> bool" where
  "rc_finished E t0 t \<longleftrightarrow> rc_separate E t0 t \<and> rt_result t \<noteq> None \<and> (rt_result t = Some (Inr ()) \<longrightarrow> ended_well E t0 t)
     \<and> (\<forall>e. rt_result t = Some (Inl e) \<longrightarrow> rt_status t = None)"

lemma append_prefix: "xs @ ys = zs \<Longrightarrow> prefix xs zs"
  by auto

lemma append_prefix_take: "xs @ ys @ us = zs \<Longrightarrow> prefix (xs @ take n ys) zs"
  by (metis append.assoc append_take_drop_id prefixI)

lemma running_separate: "rc_running E t0 t \<Longrightarrow> rc_separate E t0 t"
  unfolding rc_running_def rc_separate_def by (auto dest: append_prefix)

lemma finish_simps [simp]: "rt_server (finish r t) = rt_server t" "rt_stdin (finish r t) = rt_stdin t" "rt_sizes (finish r t) = rt_sizes t"
  "rt_stdout (finish r t) = rt_stdout t" "rt_stderr (finish r t) = rt_stderr t" "rt_status (finish r t) = rt_status t"
  "rt_sent (finish r t) = rt_sent t" "rt_result (finish r t) = Some r"
  by (simp_all add: finish_def)

lemma separate_cong: "rc_separate E t0 t \<Longrightarrow> rt_stdout t' = rt_stdout t \<Longrightarrow> rt_stderr t' = rt_stderr t \<Longrightarrow> rt_sent t' = rt_sent t \<Longrightarrow> rc_separate E t0 t'"
  by (simp add: rc_separate_def)

text \<open>A branch that fails without writing or sending anything.\<close>

lemma failed_finished: "rc_running E t0 t \<Longrightarrow> rt_stdout t' = rt_stdout t \<Longrightarrow> rt_stderr t' = rt_stderr t \<Longrightarrow> rt_sent t' = rt_sent t
    \<Longrightarrow> rt_status t' = rt_status t \<Longrightarrow> rc_finished E t0 (finish (Inl e) t')"
  using separate_cong [OF running_separate, of E t0 t "finish (Inl e) t'"] by (simp add: rc_finished_def rc_running_def)

lemma stdout_ok:
  assumes run: "rc_running E t0 t" and ms: "server_messages (rt_server t) = Inr (Stdout bin) # server_messages rest"
    and w: "write_opt out (tl bin) (rt_stdout t) = (r, w)"
  shows "case r of None \<Rightarrow> rc_running E t0 (t\<lparr>rt_server := rest, rt_stdout := w\<rparr>)
     | Some e \<Rightarrow> rc_finished E t0 (finish (Inl (WriteStdout e)) (t\<lparr>rt_server := rest, rt_stdout := w\<rparr>))"
proof (cases r)
  case None
  then show ?thesis using run ms w by (auto simp: rc_running_def write_opt_def sizes_left_def split: option.splits)
next
  case (Some e)
  then obtain v n where "rt_stdout t = Some v" "w = Some (v @ take n (tl bin))" using w by (auto simp: write_opt_def split: option.splits)
  moreover have "v @ tl bin @ stdout_of (server_messages rest) = stdout_of (server_messages (rt_server t0))"
    using run ms calculation(1) by (simp add: rc_running_def)
  ultimately show ?thesis using Some running_separate [OF run] run append_prefix_take
    by (auto simp: rc_finished_def rc_separate_def rc_running_def)
qed

lemma stderr_ok:
  assumes run: "rc_running E t0 t" and ms: "server_messages (rt_server t) = Inr (Stderr bin) # server_messages rest"
    and w: "write_opt out (tl bin) (rt_stderr t) = (r, w)"
  shows "case r of None \<Rightarrow> rc_running E t0 (t\<lparr>rt_server := rest, rt_stderr := w\<rparr>)
     | Some e \<Rightarrow> rc_finished E t0 (finish (Inl (WriteStderr e)) (t\<lparr>rt_server := rest, rt_stderr := w\<rparr>))"
proof (cases r)
  case None
  then show ?thesis using run ms w by (auto simp: rc_running_def write_opt_def sizes_left_def split: option.splits)
next
  case (Some e)
  then obtain v n where "rt_stderr t = Some v" "w = Some (v @ take n (tl bin))" using w by (auto simp: write_opt_def split: option.splits)
  moreover have "v @ tl bin @ stderr_of (server_messages rest) = stderr_of (server_messages (rt_server t0))"
    using run ms calculation(1) by (simp add: rc_running_def)
  ultimately show ?thesis using Some running_separate [OF run] run append_prefix_take
    by (auto simp: rc_finished_def rc_separate_def rc_running_def)
qed

text \<open>The server's side ends: with a status or with the connection.\<close>

lemma server_ended:
  assumes run: "rc_running E t0 t" and t': "rt_stdout t' = rt_stdout t" "rt_stderr t' = rt_stderr t" "rt_sent t' = rt_sent t"
    and none: "stdout_of (server_messages (rt_server t)) = []" "stderr_of (server_messages (rt_server t)) = []"
    and e: "(\<exists>bs s. ending (server_messages (rt_server t)) = Some (Inr bs) \<and> status_from_slice E bs = Inr s \<and> rt_status t' = Some s)
       \<or> (ending (server_messages (rt_server t)) = None \<and> rt_status t' = None)"
  shows "rc_finished E t0 (finish (Inr ()) t')"
proof -
  have "outputs_complete t0 t'" "list_all is_data (rt_sent t')" using run t' none by (auto simp: rc_running_def outputs_complete_def)
  moreover have "ending (server_messages (rt_server t)) = ending (server_messages (rt_server t0))" using run by (simp add: rc_running_def)
  ultimately have "ended_well E t0 (finish (Inr ()) t')" using e by (auto simp: ended_well_def outputs_complete_def)
  then show ?thesis using separate_cong [OF running_separate [OF run], of "finish (Inr ()) t'"] t' by (simp add: rc_finished_def)
qed

lemma on_server_ok:
  assumes run: "rc_running E t0 t"
  shows "rc_running E t0 (on_server E out t) \<or> rc_finished E t0 (on_server E out t)"
proof (cases "server_next (rt_server t)")
  case (Pair m rest)
  have ms: "m = Some x \<Longrightarrow> server_messages (rt_server t) = x # server_messages rest" "m = None \<Longrightarrow> server_messages (rt_server t) = []" for x
    using server_next_messages Pair by blast+
  have st: "rt_status t = None" using run by (simp add: rc_running_def)
  consider "m = None" | e where "m = Some (Inl e)" | bin where "m = Some (Inr (Stdout bin))" | bin where "m = Some (Inr (Stderr bin))"
    | bin where "m = Some (Inr (Status bin))"
    by (metis not_None_eq rc_message.exhaust sum.exhaust)
  then show ?thesis
  proof cases
    case 1
    then show ?thesis using server_ended [OF run, of "t\<lparr>rt_server := rest\<rparr>"] ms(2) Pair st by (simp add: on_server_def)
  next
    case 2
    then show ?thesis using failed_finished [OF run, of "t\<lparr>rt_server := rest\<rparr>"] Pair by (simp add: on_server_def)
  next
    case (3 bin)
    then show ?thesis using stdout_ok [OF run ms(1), of bin out] Pair
      by (cases "write_opt out (tl bin) (rt_stdout t)") (auto simp: on_server_def split: option.splits)
  next
    case (4 bin)
    then show ?thesis using stderr_ok [OF run ms(1), of bin out] Pair
      by (cases "write_opt out (tl bin) (rt_stderr t)") (auto simp: on_server_def split: option.splits)
  next
    case (5 bin)
    then show ?thesis using failed_finished [OF run, of "t\<lparr>rt_server := rest\<rparr>"] Pair ms(1) [OF 5]
        server_ended [OF run, of "t\<lparr>rt_server := rest, rt_status := Some s\<rparr>" for s]
      by (cases "status_from_slice E (tl bin)") (simp_all add: on_server_def Let_def)
  qed
qed

lemma channels_differ [simp]: "STDIN_CHANNEL \<noteq> RESIZE_CHANNEL" "RESIZE_CHANNEL \<noteq> STDIN_CHANNEL"
  by (simp_all add: channel_defs)

lemma on_stdin_ok:
  assumes run: "rc_running E t0 t"
  shows "rc_running E t0 (on_stdin out t) \<or> rc_finished E t0 (on_stdin out t)"
proof -
  consider bs rest where "rt_stdin t = Inr bs # rest" | e rest where "rt_stdin t = Inl e # rest" | "rt_stdin t = []"
    by (metis list.exhaust sum.exhaust)
  then show ?thesis
  proof cases
    case (1 bs rest)
    show ?thesis
    proof (cases "bs \<noteq> [] \<and> out_send out \<noteq> None")
      case True
      then show ?thesis using failed_finished [OF run, of "t\<lparr>rt_stdin := rest\<rparr>"] 1 by (auto simp: on_stdin_def send_frame_def)
    next
      case False
      then show ?thesis using run 1 by (auto simp: on_stdin_def send_frame_def rc_running_def sizes_left_def is_data_def)
    qed
  next
    case (2 e rest)
    then show ?thesis using failed_finished [OF run, of "t\<lparr>rt_stdin := rest\<rparr>"] by (simp add: on_stdin_def)
  next
    case 3
    show ?thesis
    proof (cases "out_close out")
      case None
      have "ended_well E t0 (on_stdin out t)" using run 3 None by (simp add: on_stdin_def ended_well_def rc_running_def)
      then show ?thesis using 3 None running_separate [OF run] by (simp add: on_stdin_def rc_finished_def rc_separate_def)
    next
      case (Some e)
      then show ?thesis using failed_finished [OF run, of t] 3 by (simp add: on_stdin_def)
    qed
  qed
qed

lemma on_resize_ok:
  assumes run: "rc_running E t0 t"
  shows "rc_running E t0 (on_resize E out t) \<or> rc_finished E t0 (on_resize E out t)"
proof (cases "rt_have_sizes t \<and> (\<exists>sz szs. rt_sizes t = Some (sz # szs))")
  case True
  then obtain sz szs where sz: "rt_have_sizes t" "rt_sizes t = Some (sz # szs)" by blast
  show ?thesis
  proof (cases "size_to_vec E sz")
    case (Inl e)
    then show ?thesis using failed_finished [OF run, of "t\<lparr>rt_sizes := Some szs\<rparr>"] sz by (simp add: on_resize_def)
  next
    case (Inr bs)
    show ?thesis
    proof (cases "out_send out")
      case None
      then show ?thesis using run sz Inr by (auto simp: on_resize_def send_frame_def rc_running_def sizes_left_def is_data_def)
    next
      case (Some e)
      then show ?thesis using failed_finished [OF run, of "t\<lparr>rt_sizes := Some szs\<rparr>"] sz Inr by (simp add: on_resize_def send_frame_def)
    qed
  qed
next
  case False
  then have "on_resize E out t = t \<or> on_resize E out t = t\<lparr>rt_have_sizes := False\<rparr>"
    by (auto simp: on_resize_def split: option.splits list.splits)
  then show ?thesis using run by (auto simp: rc_running_def sizes_left_def)
qed

lemma select_ok:
  assumes "rc_running E t0 t \<or> rc_finished E t0 t"
  shows "rc_running E t0 (select E t b) \<or> rc_finished E t0 (select E t b)"
proof (cases "rt_result t = None")
  case True
  then have run: "rc_running E t0 t" using assms by (auto simp: rc_finished_def)
  obtain branch out where "b = (branch, out)" by (cases b)
  then show ?thesis using on_server_ok [OF run, of out] on_stdin_ok [OF run, of out] on_resize_ok [OF run, of out] True
    by (cases branch) (simp_all add: select_def)
next
  case False
  then show ?thesis using assms by (simp add: select_def split: prod.split)
qed

lemma message_loop_ok:
  assumes "rc_running E t0 t0"
  shows "rc_running E t0 (message_loop E bs t0) \<or> rc_finished E t0 (message_loop E bs t0)"
  unfolding message_loop_def
proof (induction bs rule: rev_induct)
  case (snoc b bs)
  then show ?case using select_ok [of E t0 "foldl (select E) t0 bs" b] by simp
qed (use assms in simp)

lemma start_running: "rc_running E (rc_start ap stream stdin sizes) (rc_start ap stream stdin sizes)"
  by (simp add: rc_running_def rc_start_def)

section \<open>Termination\<close>

lemma server_next_shorter: "server_next ws = (Some m, rest) \<Longrightarrow> length rest < length ws"
  by (induction ws) (auto split: option.splits)

text \<open>Every turn of the server consumes a message or ends the loop, and so does every turn of standard input.\<close>

lemma on_server_turn: "rt_result t = None \<Longrightarrow> rt_result (on_server E out t) = None \<Longrightarrow>
   length (rt_server (on_server E out t)) < length (rt_server t) \<and> rt_stdin (on_server E out t) = rt_stdin t"
  by (auto simp: on_server_def Let_def dest!: server_next_shorter split: prod.splits option.splits sum.splits rc_message.splits if_splits)

lemma on_stdin_turn: "rt_result t = None \<Longrightarrow> rt_result (on_stdin out t) = None \<Longrightarrow>
   length (rt_stdin (on_stdin out t)) < length (rt_stdin t) \<and> rt_server (on_stdin out t) = rt_server t"
  by (auto simp: on_stdin_def send_frame_def split: list.splits option.splits sum.splits if_splits)

lemma on_resize_turn: "rt_server (on_resize E out t) = rt_server t" "rt_stdin (on_resize E out t) = rt_stdin t"
  by (auto simp: on_resize_def send_frame_def split: list.splits option.splits sum.splits)

lemma select_turn:
  assumes "rt_result (select E t (b, out)) = None"
  shows "rt_result t = None \<and> length (rt_server (select E t (b, out))) + (if b = ServerReady then 1 else 0) \<le> length (rt_server t)
     \<and> length (rt_stdin (select E t (b, out))) + (if b = StdinReady then 1 else 0) \<le> length (rt_stdin t)"
proof -
  have "rt_result t = None" using assms by (auto simp: select_def split: if_splits)
  then show ?thesis using assms on_server_turn [of t E out] on_stdin_turn [of t out] on_resize_turn [of E out t]
    by (cases b) (auto simp: select_def)
qed

lemma message_loop_turns:
  assumes "rt_result (message_loop E bs t0) = None"
  shows "length (rt_server (message_loop E bs t0)) + count_list (map fst bs) ServerReady \<le> length (rt_server t0)
     \<and> length (rt_stdin (message_loop E bs t0)) + count_list (map fst bs) StdinReady \<le> length (rt_stdin t0)"
  using assms unfolding message_loop_def
proof (induction bs rule: rev_induct)
  case (snoc b bs)
  obtain branch out where b: "b = (branch, out)" by (cases b)
  then show ?case using snoc.IH select_turn [of E "foldl (select E) t0 bs" branch out] snoc.prems by fastforce
qed simp

section \<open>Properties\<close>

text \<open>
  C16: the channels of an attached process are kept apart, in every order in which its sources
  are served and whatever fails: standard output and error are given what the server sends on
  their channels up to the status, in order and without gaps; the server is given what was read
  from standard input, and the terminal sizes, on theirs; without a terminal there are no sizes.
  When the task ends without an error, it ends with a status that was decoded from the server's
  frame, or with the connection, both with all output written, or with standard input, all of it
  sent and followed by a close frame. It has ended once the server or standard input was served
  more often than it has items.
\<close>

theorem attached_streams:
  assumes t0: "t0 = ap_task (attached_process_new stdin sizes stream ap)" and t: "t = message_loop E bs t0"
  shows "((rt_stdout t = None) = (\<not> at_stdout ap)) \<and> ((rt_stderr t = None) = (\<not> at_stderr ap))
     \<and> (\<forall>w. rt_stdout t = Some w \<longrightarrow> prefix w (stdout_of (server_messages stream)))
     \<and> (\<forall>w. rt_stderr t = Some w \<longrightarrow> prefix w (stderr_of (server_messages stream)))
     \<and> prefix (payload_to STDIN_CHANNEL (rt_sent t)) (read_bytes stdin)
     \<and> prefix (payload_to RESIZE_CHANNEL (rt_sent t)) (if at_tty ap then sizes_bytes E sizes else [])
     \<and> (rt_result t = Some (Inr ()) \<longrightarrow> ended_well E t0 t)
     \<and> (length stream < count_list (map fst bs) ServerReady \<or> length stdin < count_list (map fst bs) StdinReady \<longrightarrow> rt_result t \<noteq> None)"
proof -
  have start: "t0 = rc_start ap stream stdin sizes" using t0 by (simp add: attached_process_new_def)
  note ok = message_loop_ok [OF start_running, of E ap stream stdin sizes bs, folded start, folded t]
  have "rc_separate E t0 t" using ok running_separate by (auto simp: rc_finished_def)
  moreover have "rt_result t = Some (Inr ()) \<Longrightarrow> ended_well E t0 t" using ok by (auto simp: rc_finished_def rc_running_def)
  moreover have "rt_result t \<noteq> None" if "length stream < count_list (map fst bs) ServerReady \<or> length stdin < count_list (map fst bs) StdinReady"
  proof
    assume "rt_result t = None"
    then show False using message_loop_turns [of E bs t0] t start that by (auto simp: rc_start_def)
  qed
  moreover have "rt_stdout t0 = None \<longleftrightarrow> \<not> at_stdout ap" "rt_stderr t0 = None \<longleftrightarrow> \<not> at_stderr ap" "rt_server t0 = stream" "rt_stdin t0 = stdin"
    "sizes_left E t0 = (if at_tty ap then sizes_bytes E sizes else [])"
    by (simp_all add: start rc_start_def sizes_left_def)
  ultimately show ?thesis unfolding rc_separate_def by simp
qed

definition example_rc_env :: "bytes rc_env" where
  "example_rc_env = \<lparr>status_from_slice = (\<lambda>bs. if bs = [] then Inl \<lparr>se_is_eof = True, se_display = ''eof''\<rparr> else Inr bs),
     size_to_vec = (\<lambda>sz. Inr [ucast (width sz), ucast (height sz)])\<rparr>"

definition example_output :: "(string + ws_message) list" where
  "example_output = [Inr (WsBinary [1]), Inr (WsBinary [1, 104, 105]), Inr (WsBinary [2, 33]), Inr (WsBinary [3, 9]), Inr (WsBinary [1, 7])]"

definition example_start :: "bytes rc_task" where
  "example_start = ap_task (attached_process_new [Inr [5, 6]] [\<lparr>width = 80, height = 24\<rparr>] example_output (at_interactive_tty\<lparr>at_stderr := True\<rparr>))"

definition example_end :: "bytes rc_task" where
  "example_end = message_loop example_rc_env
     (map (\<lambda>b. (b, quiet)) [ServerReady, StdinReady, ResizeReady, ServerReady, ServerReady, StdinReady]) example_start"

lemma example_end_values: "rt_result example_end = Some (Inr ())" "rt_stdout example_end = Some [104, 105]" "rt_stderr example_end = Some [33]"
  "rt_status example_end = Some [9]" "rt_sent example_end = [WsBinary [0, 5, 6], WsBinary [4, 80, 24]]"
  by code_simp+

theorem attached_streams_witness:
  "rt_result example_end = Some (Inr ()) \<and> ended_well example_rc_env example_start example_end \<and> prefix [104, 105] (stdout_of (server_messages example_output))"
  using attached_streams [OF example_start_def example_end_def] example_end_values by simp

lemma taken_once: "fst (ap_stdin (snd (ap_stdin p))) = None" "fst (ap_stdout (snd (ap_stdout p))) = None" "fst (ap_stderr (snd (ap_stderr p))) = None"
  "\<not> fst (take_status (snd (take_status p)))" "\<not> fst (ap_terminal_size (snd (ap_terminal_size p)))"
  by (simp_all add: ap_stdin_def ap_stdout_def ap_stderr_def take_status_def ap_terminal_size_def)

end
