(* ===== verification/Cl_Oidc.thy ===== *)
theory Cl_Oidc
  imports Cl_Auth
begin

text \<open>
  \<open>kube-client/src/client/auth/oidc.rs\<close>, the branches of \<open>auth/mod.rs\<close> that use it with the feature
  \<open>oidc\<close>, and \<open>oauth.rs\<close>: an identity token that is kept until shortly before it expires and is then
  fetched with a refresh token from the issuer.

  The issuer behind the HTTPS client and the clock are operations on a world. JSON text, base64,
  URIs, form encoding and the range of timestamps are parameters in the same record. Instants are
  seconds.
\<close>

section \<open>Errors\<close>

datatype id_token_error = InvalidFormat | InvalidBase64 string | InvalidJson string | InvalidExpirationTimestamp

datatype refresh_init_error = MissingField string | CreateOpensslHttpsConnector string

datatype refresh_error =
    InvalidURI string
  | HyperError hyper_error
  | InvalidMetadata string
  | RequestFailed u16
  | HttpError string
  | AuthorizationFailure
  | InvalidTokenResponse string
  | NoIdTokenReceived

datatype oidc_error =
    IdTokenMissing
  | IdToken id_token_error
  | RefreshInit refresh_init_error
  | Refresh refresh_error

section \<open>The issuer and the parameters\<close>

record form_request =
  fr_uri :: string
  fr_headers :: "(string \<times> string) list"
  fr_body :: string

record token_response =
  tr_refresh_token :: "string option"
  tr_id_token :: "string option"

text \<open>
  \<open>claims_number\<close> reads the number under \<open>exp\<close> of a JSON object; \<open>num_as_i64\<close> and \<open>num_f64_as_i64\<close> are the
  conversions of that number to an integer, the second one through a float.
\<close>

record ('w, 'qp, 'num) oidc_env =
  oe_form :: "'qp req_env"
  oe_now :: "'w \<Rightarrow> int \<times> 'w"
  oe_https_get :: "string \<Rightarrow> 'w \<Rightarrow> (hyper_error + http_response) \<times> 'w"
  oe_https_post :: "form_request \<Rightarrow> 'w \<Rightarrow> (hyper_error + http_response) \<times> 'w"
  oe_connector :: "string + unit"
  uri_parse :: "string \<Rightarrow> string + string"
  build_error :: "form_request \<Rightarrow> string option"
  b64_decode :: "string \<Rightarrow> string + bytes"
  b64_encode :: "string \<Rightarrow> string"
  claims_number :: "bytes \<Rightarrow> string + 'num"
  num_as_i64 :: "'num \<Rightarrow> int option"
  num_f64_as_i64 :: "'num \<Rightarrow> int option"
  timestamp_opt :: "int \<Rightarrow> int option"
  oe_json :: "bytes \<Rightarrow> string + json"
  oe_shape_error :: string

definition status_is_success :: "u16 \<Rightarrow> bool" where
  "status_is_success s \<longleftrightarrow> 200 \<le> s \<and> s < 300"

definition read_metadata :: "json \<Rightarrow> string option" where
  "read_metadata v = (case read_struct [required ''token_endpoint''] v of Some [e] \<Rightarrow> read_string e | _ \<Rightarrow> None)"

definition read_token_response :: "json \<Rightarrow> token_response option" where
  "read_token_response v =
     (case read_struct [optional ''refresh_token'', optional ''id_token''] v of
        Some [r, i] \<Rightarrow>
          Option.bind (read_option read_string r) (\<lambda>r.
          Option.bind (read_option read_string i) (\<lambda>i.
            Some \<lparr>tr_refresh_token = r, tr_id_token = i\<rparr>))
      | _ \<Rightarrow> None)"

section \<open>The refresher\<close>

datatype auth_style = Header | Params

definition all_styles :: "auth_style list" where "all_styles = [Header, Params]"

record refresher =
  rf_issuer :: string
  rf_token_endpoint :: "string option"
  rf_refresh_token :: string
  rf_client_id :: string
  rf_client_secret :: string
  rf_auth_style :: "auth_style option"

definition CONFIG_CLIENT_ID :: string where "CONFIG_CLIENT_ID = ''client-id''"
definition CONFIG_CLIENT_SECRET :: string where "CONFIG_CLIENT_SECRET = ''client-secret''"
definition CONFIG_ISSUER_URL :: string where "CONFIG_ISSUER_URL = ''idp-issuer-url''"
definition CONFIG_REFRESH_TOKEN :: string where "CONFIG_REFRESH_TOKEN = ''refresh-token''"

definition refresher_from_config :: "('w, 'qp, 'num) oidc_env \<Rightarrow> (string \<rightharpoonup> string) \<Rightarrow> refresh_init_error + refresher" where
  "refresher_from_config V config =
     (let get_field = (\<lambda>name. ok_or (config name) (MissingField name)) in
      rbind (get_field CONFIG_ISSUER_URL) (\<lambda>issuer.
      rbind (get_field CONFIG_REFRESH_TOKEN) (\<lambda>refresh_token.
      rbind (get_field CONFIG_CLIENT_ID) (\<lambda>client_id.
      rbind (get_field CONFIG_CLIENT_SECRET) (\<lambda>client_secret.
      rbind (map_err CreateOpensslHttpsConnector (oe_connector V)) (\<lambda>_.
        Inr \<lparr>rf_issuer = issuer, rf_token_endpoint = None, rf_refresh_token = refresh_token, rf_client_id = client_id,
             rf_client_secret = client_secret, rf_auth_style = None\<rparr>))))))"

text \<open>Steps on the refresher and the world.\<close>

type_synonym ('w, 'a) rf_act = "refresher \<times> 'w \<Rightarrow> (refresh_error + 'a) \<times> refresher \<times> 'w"

definition rf_bind :: "('w, 'a) rf_act \<Rightarrow> ('a \<Rightarrow> ('w, 'b) rf_act) \<Rightarrow> ('w, 'b) rf_act" where
  "rf_bind m f s = (case m s of (Inl e, s') \<Rightarrow> (Inl e, s') | (Inr a, s') \<Rightarrow> f a s')"

definition rf_of :: "refresh_error + 'a \<Rightarrow> ('w, 'a) rf_act" where
  "rf_of r s = (r, s)"

definition rf_modify :: "(refresher \<Rightarrow> refresher) \<Rightarrow> ('w, unit) rf_act" where
  "rf_modify f s = (Inr (), f (fst s), snd s)"

definition https_get :: "('w, 'qp, 'num) oidc_env \<Rightarrow> string \<Rightarrow> ('w, http_response) rf_act" where
  "https_get V u s = (case oe_https_get V u (snd s) of (r, w) \<Rightarrow> (map_err HyperError r, fst s, w))"

definition https_request :: "('w, 'qp, 'num) oidc_env \<Rightarrow> form_request \<Rightarrow> ('w, http_response) rf_act" where
  "https_request V q s = (case oe_https_post V q (snd s) of (r, w) \<Rightarrow> (map_err HyperError r, fst s, w))"

definition discovery_url :: "string \<Rightarrow> string" where
  "discovery_url issuer = issuer @ ''/.well-known/openid-configuration''"

definition parse_metadata :: "('w, 'qp, 'num) oidc_env \<Rightarrow> bytes \<Rightarrow> refresh_error + string" where
  "parse_metadata V bs =
     map_err InvalidMetadata (rbind (oe_json V bs) (\<lambda>v. ok_or (read_metadata v) (oe_shape_error V)))"

definition parse_token_response :: "('w, 'qp, 'num) oidc_env \<Rightarrow> bytes \<Rightarrow> refresh_error + token_response" where
  "parse_token_response V bs =
     map_err InvalidTokenResponse (rbind (oe_json V bs) (\<lambda>v. ok_or (read_token_response v) (oe_shape_error V)))"

definition token_endpoint :: "('w, 'qp, 'num) oidc_env \<Rightarrow> ('w, string) rf_act" where
  "token_endpoint V s =
     (case rf_token_endpoint (fst s) of
        Some endpoint \<Rightarrow> (Inr endpoint, s)
      | None \<Rightarrow>
          rf_bind (rf_of (map_err InvalidURI (uri_parse V (discovery_url (rf_issuer (fst s)))))) (\<lambda>discovery.
          rf_bind (https_get V discovery) (\<lambda>response.
            if status_is_success (rs_status response) then
              rf_bind (rf_of (map_err HyperError (body_to_bytes (rs_body response)))) (\<lambda>bs.
              rf_bind (rf_of (parse_metadata V bs)) (\<lambda>endpoint.
              rf_bind (rf_modify (\<lambda>rf. rf\<lparr>rf_token_endpoint := Some endpoint\<rparr>)) (\<lambda>_.
                rf_of (Inr endpoint))))
            else rf_of (Inl (RequestFailed (rs_status response))))) s)"

definition token_params :: "refresher \<Rightarrow> auth_style \<Rightarrow> (string \<times> string) list" where
  "token_params rf style =
     [(''grant_type'', ''refresh_token''), (''refresh_token'', rf_refresh_token rf)]
     @ (case style of Header \<Rightarrow> [] | Params \<Rightarrow> [(''client_id'', rf_client_id rf), (''client_secret'', rf_client_secret rf)])"

definition form_body :: "'qp req_env \<Rightarrow> (string \<times> string) list \<Rightarrow> string" where
  "form_body F params = ser_finish F (foldl (\<lambda>q (k, v). append_pair F q k v) (ser_new F []) params)"

definition token_form :: "('w, 'qp, 'num) oidc_env \<Rightarrow> refresher \<Rightarrow> string \<Rightarrow> auth_style \<Rightarrow> form_request" where
  "token_form V rf endpoint style =
     \<lparr>fr_uri = endpoint,
      fr_headers = (''content-type'', ''application/x-www-form-urlencoded'') #
        (case style of
           Header \<Rightarrow> [(''authorization'', ''Basic '' @ b64_encode V (rf_client_id rf @ '':'' @ rf_client_secret rf))]
         | Params \<Rightarrow> []),
      fr_body = form_body (oe_form V) (token_params rf style)\<rparr>"

definition token_request :: "('w, 'qp, 'num) oidc_env \<Rightarrow> refresher \<Rightarrow> string \<Rightarrow> auth_style \<Rightarrow> refresh_error + form_request" where
  "token_request V rf endpoint style =
     (let q = token_form V rf endpoint style in case build_error V q of None \<Rightarrow> Inr q | Some e \<Rightarrow> Inl (HttpError e))"

definition send_token_request :: "('w, 'qp, 'num) oidc_env \<Rightarrow> string \<Rightarrow> auth_style \<Rightarrow> ('w, http_response) rf_act" where
  "send_token_request V endpoint style s =
     rf_bind (rf_of (token_request V (fst s) endpoint style)) (https_request V) s"

fun try_styles :: "('w, 'qp, 'num) oidc_env \<Rightarrow> string \<Rightarrow> auth_style list \<Rightarrow> ('w, http_response option) rf_act" where
  "try_styles V endpoint [] s = (Inr None, s)"
| "try_styles V endpoint (style # styles) s =
     rf_bind (send_token_request V endpoint style) (\<lambda>response.
       if status_is_success (rs_status response)
       then rf_bind (rf_modify (\<lambda>rf. rf\<lparr>rf_auth_style := Some style\<rparr>)) (\<lambda>_. rf_of (Inr (Some response)))
       else try_styles V endpoint styles) s"

definition token_exchange :: "('w, 'qp, 'num) oidc_env \<Rightarrow> string \<Rightarrow> ('w, http_response) rf_act" where
  "token_exchange V endpoint s =
     (case rf_auth_style (fst s) of
        Some style \<Rightarrow> send_token_request V endpoint style s
      | None \<Rightarrow> rf_bind (try_styles V endpoint all_styles) (\<lambda>ok_response. rf_of (ok_or ok_response AuthorizationFailure)) s)"

definition refresher_id_token :: "('w, 'qp, 'num) oidc_env \<Rightarrow> ('w, string) rf_act" where
  "refresher_id_token V =
     rf_bind (token_endpoint V) (\<lambda>endpoint.
     rf_bind (token_exchange V endpoint) (\<lambda>response.
       if \<not> status_is_success (rs_status response) then rf_of (Inl (RequestFailed (rs_status response)))
       else
         rf_bind (rf_of (map_err HyperError (body_to_bytes (rs_body response)))) (\<lambda>bs.
         rf_bind (rf_of (parse_token_response V bs)) (\<lambda>tr.
         rf_bind (rf_modify (\<lambda>rf. case tr_refresh_token tr of Some token \<Rightarrow> rf\<lparr>rf_refresh_token := token\<rparr> | None \<Rightarrow> rf)) (\<lambda>_.
           rf_of (ok_or (tr_id_token tr) NoIdTokenReceived))))))"

section \<open>The token\<close>

record oidc =
  oi_id_token :: string
  oi_refresher :: "refresh_init_error + refresher"

definition CONFIG_ID_TOKEN :: string where "CONFIG_ID_TOKEN = ''id-token''"
definition EXPIRY_DELTA_SECONDS :: int where "EXPIRY_DELTA_SECONDS = 10"

definition deserialize_expiry :: "('w, 'qp, 'num) oidc_env \<Rightarrow> 'num \<Rightarrow> string + int" where
  "deserialize_expiry V json_number =
     ok_or (opt_or (num_as_i64 V json_number) (num_f64_as_i64 V json_number)) ''cannot be casted to i64''"

definition token_expiry :: "('w, 'qp, 'num) oidc_env \<Rightarrow> string \<Rightarrow> id_token_error + int" where
  "token_expiry V token =
     (case split_on CHR ''.'' token of
        _ # part # _ \<Rightarrow>
          rbind (map_err InvalidBase64 (b64_decode V part)) (\<lambda>payload.
          rbind (map_err InvalidJson (rbind (claims_number V payload) (deserialize_expiry V))) (\<lambda>expiry.
            ok_or (timestamp_opt V expiry) InvalidExpirationTimestamp))
      | _ \<Rightarrow> Inl InvalidFormat)"

definition token_valid :: "('w, 'qp, 'num) oidc_env \<Rightarrow> oidc \<Rightarrow> 'w \<Rightarrow> (id_token_error + bool) \<times> 'w" where
  "token_valid V oi w =
     (case token_expiry V (oi_id_token oi) of
        Inl e \<Rightarrow> (Inl e, w)
      | Inr timestamp \<Rightarrow> (case oe_now V w of (now, w') \<Rightarrow> (Inr (now + EXPIRY_DELTA_SECONDS < timestamp), w')))"

definition oidc_id_token :: "('w, 'qp, 'num) oidc_env \<Rightarrow> oidc \<Rightarrow> 'w \<Rightarrow> (oidc_error + string) \<times> oidc \<times> 'w" where
  "oidc_id_token V oi w =
     (case token_valid V oi w of
        (Inl e, w1) \<Rightarrow> (Inl (IdToken e), oi, w1)
      | (Inr True, w1) \<Rightarrow> (Inr (oi_id_token oi), oi, w1)
      | (Inr False, w1) \<Rightarrow>
          (case oi_refresher oi of
             Inl e \<Rightarrow> (Inl (RefreshInit e), oi, w1)
           | Inr rf \<Rightarrow>
               (case refresher_id_token V (rf, w1) of
                  (Inl e, rf', w2) \<Rightarrow> (Inl (Refresh e), oi\<lparr>oi_refresher := Inr rf'\<rparr>, w2)
                | (Inr id_token, rf', w2) \<Rightarrow> (Inr id_token, oi\<lparr>oi_refresher := Inr rf', oi_id_token := id_token\<rparr>, w2))))"

definition oidc_from_config :: "('w, 'qp, 'num) oidc_env \<Rightarrow> (string \<rightharpoonup> string) \<Rightarrow> oidc_error + oidc" where
  "oidc_from_config V config =
     rbind (ok_or (config CONFIG_ID_TOKEN) IdTokenMissing) (\<lambda>id_token.
       Inr \<lparr>oi_id_token = id_token, oi_refresher = refresher_from_config V config\<rparr>)"

text \<open>The branches of \<open>auth/mod.rs\<close>: the state is created from a provider entry, and a request takes its header from it.\<close>

definition oidc_provider_token :: "('w, 'qp, 'num) oidc_env \<Rightarrow> auth_provider_config \<Rightarrow> oidc_error + oidc" where
  "oidc_provider_token V provider = oidc_from_config V (ap_config provider)"

datatype oidc_header_error = OidcError oidc_error | OidcBearer auth_error

definition oidc_to_header :: "('w, 'qp, 'num) oidc_env \<Rightarrow> 'v auth_env \<Rightarrow> oidc \<Rightarrow> 'w \<Rightarrow> (oidc_header_error + string) \<times> oidc \<times> 'w" where
  "oidc_to_header V A oi w =
     (case oidc_id_token V oi w of
        (Inl e, oi', w') \<Rightarrow> (Inl (OidcError e), oi', w')
      | (Inr token, oi', w') \<Rightarrow> (map_err OidcBearer (bearer_header A token), oi', w'))"

section \<open>The exchanges with the issuer\<close>

text \<open>
  An issuer whose exchanges are recorded, and what a reader of the record knows: the first token
  endpoint that was announced, the style of the first request that was accepted, and the last
  refresh token that was given out. \<open>replay\<close> is the refresher such a reader would have.
\<close>

datatype exchange = Got string "hyper_error + http_response" | Posted form_request "hyper_error + http_response"

definition recorded :: "('w, 'qp, 'num) oidc_env \<Rightarrow> (exchange list \<times> 'w, 'qp, 'num) oidc_env" where
  "recorded V = \<lparr>oe_form = oe_form V,
     oe_now = (\<lambda>(log, w). case oe_now V w of (t, w') \<Rightarrow> (t, log, w')),
     oe_https_get = (\<lambda>u (log, w). case oe_https_get V u w of (r, w') \<Rightarrow> (r, log @ [Got u r], w')),
     oe_https_post = (\<lambda>q (log, w). case oe_https_post V q w of (r, w') \<Rightarrow> (r, log @ [Posted q r], w')),
     oe_connector = oe_connector V, uri_parse = uri_parse V, build_error = build_error V, b64_decode = b64_decode V,
     b64_encode = b64_encode V, claims_number = claims_number V, num_as_i64 = num_as_i64 V, num_f64_as_i64 = num_f64_as_i64 V,
     timestamp_opt = timestamp_opt V, oe_json = oe_json V, oe_shape_error = oe_shape_error V\<rparr>"

definition answer :: "hyper_error + http_response \<Rightarrow> bytes option" where
  "answer r =
     (case r of
        Inl _ \<Rightarrow> None
      | Inr res \<Rightarrow> if status_is_success (rs_status res) then (case body_to_bytes (rs_body res) of Inl _ \<Rightarrow> None | Inr bs \<Rightarrow> Some bs) else None)"

definition metadata_of :: "('w, 'qp, 'num) oidc_env \<Rightarrow> hyper_error + http_response \<Rightarrow> string option" where
  "metadata_of V r = Option.bind (answer r) (\<lambda>bs. case parse_metadata V bs of Inl _ \<Rightarrow> None | Inr ep \<Rightarrow> Some ep)"

definition tokens_of :: "('w, 'qp, 'num) oidc_env \<Rightarrow> hyper_error + http_response \<Rightarrow> token_response option" where
  "tokens_of V r = Option.bind (answer r) (\<lambda>bs. case parse_token_response V bs of Inl _ \<Rightarrow> None | Inr tr \<Rightarrow> Some tr)"

definition style_of :: "form_request \<Rightarrow> auth_style" where
  "style_of q = (if ''authorization'' \<in> fst ` set (fr_headers q) then Header else Params)"

fun observe :: "('w, 'qp, 'num) oidc_env \<Rightarrow> refresher \<Rightarrow> exchange \<Rightarrow> refresher" where
  "observe V rf (Got u r) = rf\<lparr>rf_token_endpoint := opt_or (rf_token_endpoint rf) (metadata_of V r)\<rparr>"
| "observe V rf (Posted q r) =
     rf\<lparr>rf_auth_style := opt_or (rf_auth_style rf)
          (case r of Inr res \<Rightarrow> if status_is_success (rs_status res) then Some (style_of q) else None | Inl _ \<Rightarrow> None),
        rf_refresh_token := unwrap_or (Option.bind (tokens_of V r) tr_refresh_token) (rf_refresh_token rf)\<rparr>"

definition replay :: "('w, 'qp, 'num) oidc_env \<Rightarrow> refresher \<Rightarrow> exchange list \<Rightarrow> refresher" where
  "replay V rf log = foldl (observe V) rf log"

text \<open>
  When an exchange may happen after the ones before it: the metadata is asked for while no endpoint
  is known; a token request goes to the known endpoint and is built from what is known, in the
  known style or, while none is known, first in the header and then, when that was refused, in the body.
\<close>

definition refused :: "hyper_error + http_response \<Rightarrow> bool" where
  "refused r \<longleftrightarrow> (case r of Inl _ \<Rightarrow> False | Inr res \<Rightarrow> \<not> status_is_success (rs_status res))"

definition may_follow :: "('w, 'qp, 'num) oidc_env \<Rightarrow> refresher \<Rightarrow> exchange list \<Rightarrow> exchange \<Rightarrow> bool" where
  "may_follow V rf0 log x \<longleftrightarrow>
     (let rf = replay V rf0 log in
      case x of
        Got u r \<Rightarrow> rf_token_endpoint rf = None \<and> uri_parse V (discovery_url (rf_issuer rf0)) = Inr u
      | Posted q r \<Rightarrow> (\<exists>ep style. rf_token_endpoint rf = Some ep \<and> q = token_form V rf ep style
          \<and> (rf_auth_style rf = Some style \<or> rf_auth_style rf = None \<and>
               (style = Header \<or> (\<exists>pre r'. log = pre @ [Posted (token_form V rf ep Header) r'] \<and> refused r')))))"

inductive protocol :: "('w, 'qp, 'num) oidc_env \<Rightarrow> refresher \<Rightarrow> exchange list \<Rightarrow> bool" for V rf0 where
  start: "protocol V rf0 []"
| exchange: "protocol V rf0 log \<Longrightarrow> may_follow V rf0 log x \<Longrightarrow> protocol V rf0 (log @ [x])"

lemma replay_snoc [simp]: "replay V rf (log @ [x]) = observe V (replay V rf log) x"
  by (simp add: replay_def)

lemma replay_issuer [simp]: "rf_issuer (replay V rf log) = rf_issuer rf"
proof (induction log rule: rev_induct)
  case (snoc x log)
  then show ?case by (cases x) simp_all
qed (simp add: replay_def)

lemma style_of_form [simp]: "style_of (token_form V rf ep style) = style"
  by (cases style) (simp_all add: style_of_def token_form_def)

section \<open>The refresher follows the exchanges\<close>

text \<open>The refresher and the exchanges so far agree, in a world with the record \<open>log\<close>.\<close>

definition follows :: "('w, 'qp, 'num) oidc_env \<Rightarrow> ('w \<Rightarrow> exchange list) \<Rightarrow> refresher \<Rightarrow> refresher \<times> 'w \<Rightarrow> bool" where
  "follows V log rf0 s \<longleftrightarrow> fst s = replay V rf0 (log (snd s)) \<and> protocol V rf0 (log (snd s))"

definition style_allowed :: "('w, 'qp, 'num) oidc_env \<Rightarrow> ('w \<Rightarrow> exchange list) \<Rightarrow> refresher \<Rightarrow> string \<Rightarrow> refresher \<times> 'w \<Rightarrow> auth_style \<Rightarrow> bool" where
  "style_allowed V log rf0 ep s style \<longleftrightarrow> rf_auth_style (fst s) = Some style \<or> rf_auth_style (fst s) = None \<and>
     (style = Header \<or> (\<exists>pre r'. log (snd s) = pre @ [Posted (token_form V (fst s) ep Header) r'] \<and> refused r'))"

text \<open>After an accepted token request the refresher has all but the refresh token that came with it.\<close>

definition answered_by :: "('w, 'qp, 'num) oidc_env \<Rightarrow> ('w \<Rightarrow> exchange list) \<Rightarrow> refresher \<Rightarrow> refresher \<times> 'w \<Rightarrow> http_response \<Rightarrow> bool" where
  "answered_by V log rf0 s res \<longleftrightarrow> protocol V rf0 (log (snd s)) \<and>
     (\<exists>pre q. log (snd s) = pre @ [Posted q (Inr res)]
        \<and> replay V rf0 (log (snd s)) = (fst s)\<lparr>rf_refresh_token := unwrap_or (Option.bind (tokens_of V (Inr res)) tr_refresh_token) (rf_refresh_token (fst s))\<rparr>)"

text \<open>
  The interface of the issuer the refresher relies on: its operations are the recorded exchanges,
  and reading the clock is none.
\<close>

locale logged_issuer =
  fixes V :: "('w, 'qp, 'num) oidc_env" and log :: "'w \<Rightarrow> exchange list"
  assumes get_logged: "oe_https_get V u w = (r, w') \<Longrightarrow> log w' = log w @ [Got u r]"
    and post_logged: "oe_https_post V q w = (r, w') \<Longrightarrow> log w' = log w @ [Posted q r]"
    and now_logged: "oe_now V w = (t, w') \<Longrightarrow> log w' = log w"
begin

lemma rf_bind_eq: "rf_bind m f s = (r, s') \<longleftrightarrow> (\<exists>e. m s = (Inl e, s') \<and> r = Inl e) \<or> (\<exists>a s1. m s = (Inr a, s1) \<and> f a s1 = (r, s'))"
  by (auto simp: rf_bind_def split: prod.splits sum.splits)

lemma rf_of_eq [simp]: "rf_of r s = (r', s') \<longleftrightarrow> r' = r \<and> s' = s"
  by (auto simp: rf_of_def)

lemma token_endpoint_follows:
  assumes f: "follows V log rf0 s" and e: "token_endpoint V s = (r, s')"
  shows "follows V log rf0 s' \<and> (\<forall>ep. r = Inr ep \<longrightarrow> rf_token_endpoint (fst s') = Some ep)"
proof (cases "rf_token_endpoint (fst s)")
  case (Some ep)
  then show ?thesis using assms by (auto simp: token_endpoint_def)
next
  case None
  note e' = e [unfolded token_endpoint_def None option.case]
  show ?thesis
  proof (cases "uri_parse V (discovery_url (rf_issuer (fst s)))")
    case (Inl x)
    then show ?thesis using e' f by (auto simp: rf_bind_eq)
  next
    case (Inr u)
    obtain resp w where g: "oe_https_get V u (snd s) = (resp, w)" by (cases "oe_https_get V u (snd s)")
    have log: "log w = log (snd s) @ [Got u resp]" using get_logged [OF g] .
    have fst: "fst s = replay V rf0 (log (snd s))" and p: "protocol V rf0 (log (snd s))" using f by (simp_all add: follows_def)
    have "may_follow V rf0 (log (snd s)) (Got u resp)" using None Inr fst by (simp add: may_follow_def)
    then have p': "protocol V rf0 (log w)" using p log by (simp add: protocol.exchange)
    have rep: "replay V rf0 (log w) = (fst s)\<lparr>rf_token_endpoint := metadata_of V resp\<rparr>" using None fst log by simp
    have same: "(fst s)\<lparr>rf_token_endpoint := None\<rparr> = fst s" using None by simp
    show ?thesis using e' g Inr p' rep same
      by (auto simp: rf_bind_eq https_get_def rf_modify_def follows_def metadata_of_def answer_def
          split: if_splits sum.splits)
  qed
qed

text \<open>A token request that may follow: nothing happens when it cannot be built, and otherwise it is the next exchange.\<close>

lemma send_cases:
  assumes "send_token_request V ep style s = (r, s')"
  obtains (unbuilt) e where "r = Inl e" "s' = s"
  | (failed) e where "r = Inl (HyperError e)" "fst s' = fst s" "log (snd s') = log (snd s) @ [Posted (token_form V (fst s) ep style) (Inl e)]"
  | (answered) res where "r = Inr res" "fst s' = fst s" "log (snd s') = log (snd s) @ [Posted (token_form V (fst s) ep style) (Inr res)]"
proof (cases "token_request V (fst s) ep style")
  case (Inl e)
  then show ?thesis using assms unbuilt by (auto simp: send_token_request_def rf_bind_eq)
next
  case (Inr q)
  then have q: "q = token_form V (fst s) ep style" by (auto simp: token_request_def Let_def split: option.splits)
  obtain resp w where p: "oe_https_post V q (snd s) = (resp, w)" by (cases "oe_https_post V q (snd s)")
  then have "s' = (fst s, w)" "r = map_err HyperError resp" "log w = log (snd s) @ [Posted q resp]"
    using assms Inr post_logged [OF p] by (auto simp: send_token_request_def rf_bind_eq https_request_def)
  then show ?thesis using q failed answered by (cases resp) auto
qed

lemma send_protocol:
  assumes "follows V log rf0 s" "rf_token_endpoint (fst s) = Some ep" "style_allowed V log rf0 ep s style"
    and "log w' = log (snd s) @ [Posted (token_form V (fst s) ep style) r]"
  shows "protocol V rf0 (log w')"
proof -
  have "fst s = replay V rf0 (log (snd s))" "protocol V rf0 (log (snd s))" using assms(1) by (simp_all add: follows_def)
  moreover have "may_follow V rf0 (log (snd s)) (Posted (token_form V (fst s) ep style) r)"
    using assms(2,3) calculation(1) unfolding may_follow_def Let_def style_allowed_def by auto
  ultimately show ?thesis using assms(4) by (simp add: protocol.exchange)
qed

lemma observe_posted:
  assumes "fst s = replay V rf0 (log (snd s))" "log w' = log (snd s) @ [Posted (token_form V (fst s) ep style) r]"
  shows "replay V rf0 (log w') = (fst s)\<lparr>rf_auth_style := opt_or (rf_auth_style (fst s))
            (case r of Inr res \<Rightarrow> if status_is_success (rs_status res) then Some style else None | Inl _ \<Rightarrow> None),
          rf_refresh_token := unwrap_or (Option.bind (tokens_of V r) tr_refresh_token) (rf_refresh_token (fst s))\<rparr>"
  using assms by (simp split: sum.split)

lemma no_tokens: "refused r \<Longrightarrow> tokens_of V r = None" "tokens_of V (Inl e) = None"
  by (auto simp: refused_def tokens_of_def answer_def split: sum.splits)

lemma rf_unchanged [simp]: "rf\<lparr>rf_refresh_token := rf_refresh_token rf\<rparr> = rf"
  "rf\<lparr>rf_auth_style := rf_auth_style rf, rf_refresh_token := rf_refresh_token rf\<rparr> = rf"
  by simp_all

lemma known_style_follows:
  assumes f: "follows V log rf0 s" and ep: "rf_token_endpoint (fst s) = Some ep" and st: "rf_auth_style (fst s) = Some style"
    and e: "send_token_request V ep style s = (r, s')"
  shows "case r of Inl _ \<Rightarrow> follows V log rf0 s' | Inr res \<Rightarrow> answered_by V log rf0 s' res"
proof -
  have rep: "fst s = replay V rf0 (log (snd s))" using f by (simp add: follows_def)
  have ok: "style_allowed V log rf0 ep s style" using st by (simp add: style_allowed_def)
  have same: "(fst s)\<lparr>rf_auth_style := Some style\<rparr> = fst s" using st by simp
  from e show ?thesis
  proof (cases rule: send_cases)
    case unbuilt
    then show ?thesis using f by simp
  next
    case (failed x)
    note o = observe_posted [OF rep failed(3)]
    show ?thesis using failed send_protocol [OF f ep ok failed(3)] o st same by (simp add: follows_def no_tokens)
  next
    case (answered res)
    note o = observe_posted [OF rep answered(3)]
    show ?thesis using answered send_protocol [OF f ep ok answered(3)] o st same by (auto simp: answered_by_def)
  qed
qed

text \<open>Trying the styles while none is known.\<close>

lemma try_styles_follows:
  assumes "follows V log rf0 s" "rf_token_endpoint (fst s) = Some ep" "rf_auth_style (fst s) = None"
    and "styles = [Header, Params] \<or> styles = [Params] \<and> style_allowed V log rf0 ep s Params \<or> styles = []"
    and "try_styles V ep styles s = (r, s')"
  shows "case r of Inr (Some res) \<Rightarrow> answered_by V log rf0 s' res | _ \<Rightarrow> follows V log rf0 s'"
  using assms
proof (induction styles arbitrary: s)
  case Nil
  then show ?case by auto
next
  case (Cons style styles)
  have rep: "fst s = replay V rf0 (log (snd s))" using Cons.prems by (simp add: follows_def)
  have ok: "style_allowed V log rf0 ep s style" using Cons.prems by (auto simp: style_allowed_def)
  obtain r1 s1 where send: "send_token_request V ep style s = (r1, s1)" by (cases "send_token_request V ep style s")
  from send show ?case
  proof (cases rule: send_cases)
    case (unbuilt e)
    then show ?thesis using Cons.prems send by (auto simp: rf_bind_eq)
  next
    case (failed e)
    have "follows V log rf0 s1" using send_protocol [OF Cons.prems(1,2) ok failed(3)] observe_posted [OF rep failed(3)] failed Cons.prems(3)
      by (simp add: follows_def no_tokens)
    then show ?thesis using Cons.prems(5) send failed by (auto simp: rf_bind_eq)
  next
    case (answered res)
    note p = send_protocol [OF Cons.prems(1,2) ok answered(3)] and o = observe_posted [OF rep answered(3)]
    show ?thesis
    proof (cases "status_is_success (rs_status res)")
      case True
      then have "s' = ((fst s)\<lparr>rf_auth_style := Some style\<rparr>, snd s1)" "r = Inr (Some res)"
        using Cons.prems(5) send answered by (auto simp: rf_bind_eq rf_modify_def)
      then show ?thesis using p o answered Cons.prems(3) True by (auto simp: answered_by_def)
    next
      case False
      then have refused: "refused (Inr res)" by (simp add: refused_def)
      have f1: "follows V log rf0 s1" using p o answered Cons.prems(3) False refused by (simp add: follows_def no_tokens)
      have "try_styles V ep styles s1 = (r, s')" using Cons.prems(5) send answered False by (auto simp: rf_bind_eq)
      moreover have "styles = [Params] \<and> style_allowed V log rf0 ep s1 Params \<or> styles = []"
        using Cons.prems(3,4) answered refused by (auto simp: style_allowed_def)
      ultimately show ?thesis using Cons.IH [OF f1] answered Cons.prems(2,3) by auto
    qed
  qed
qed

lemma token_exchange_follows:
  assumes f: "follows V log rf0 s" and ep: "rf_token_endpoint (fst s) = Some ep" and e: "token_exchange V ep s = (r, s')"
  shows "case r of Inl _ \<Rightarrow> follows V log rf0 s' | Inr res \<Rightarrow> answered_by V log rf0 s' res"
proof (cases "rf_auth_style (fst s)")
  case (Some style)
  then show ?thesis using known_style_follows [OF f ep Some] e by (simp add: token_exchange_def)
next
  case None
  obtain r1 s1 where t: "try_styles V ep all_styles s = (r1, s1)" by (cases "try_styles V ep all_styles s")
  have "case r1 of Inr (Some res) \<Rightarrow> answered_by V log rf0 s1 res | _ \<Rightarrow> follows V log rf0 s1"
    using try_styles_follows [OF f ep None _ t] by (simp add: all_styles_def)
  then show ?thesis using e None t
    by (auto simp: token_exchange_def rf_bind_eq ok_or_def split: sum.splits option.splits)
qed

lemma answered_tokens: "status_is_success (rs_status res) \<Longrightarrow> body_to_bytes (rs_body res) = Inr bs \<Longrightarrow> parse_token_response V bs = Inr tr
    \<Longrightarrow> tokens_of V (Inr res) = Some tr"
  "\<not> status_is_success (rs_status res) \<Longrightarrow> tokens_of V (Inr res) = None"
  "body_to_bytes (rs_body res) = Inl e \<Longrightarrow> tokens_of V (Inr res) = None"
  "body_to_bytes (rs_body res) = Inr bs \<Longrightarrow> parse_token_response V bs = Inl e' \<Longrightarrow> tokens_of V (Inr res) = None"
  by (simp_all add: tokens_of_def answer_def)

lemma refresher_follows:
  assumes f: "follows V log rf0 s" and e: "refresher_id_token V s = (r, s')"
  shows "follows V log rf0 s' \<and> (\<forall>tok. r = Inr tok \<longrightarrow> (\<exists>pre q res. log (snd s') = pre @ [Posted q (Inr res)]
           \<and> map_option tr_id_token (tokens_of V (Inr res)) = Some (Some tok)))"
proof -
  obtain r1 s1 where ep: "token_endpoint V s = (r1, s1)" by (cases "token_endpoint V s")
  note f1 = token_endpoint_follows [OF f ep]
  show ?thesis
  proof (cases r1)
    case (Inl x)
    then show ?thesis using e ep f1 by (auto simp: refresher_id_token_def rf_bind_eq)
  next
    case (Inr endpoint)
    obtain r2 s2 where ex: "token_exchange V endpoint s1 = (r2, s2)" by (cases "token_exchange V endpoint s1")
    note f2 = token_exchange_follows [OF conjunct1 [OF f1] _ ex]
    have f2: "case r2 of Inl _ \<Rightarrow> follows V log rf0 s2 | Inr res \<Rightarrow> answered_by V log rf0 s2 res" using f2 f1 Inr by blast
    show ?thesis
    proof (cases r2)
      case (Inl x)
      then show ?thesis using e ep ex f2 \<open>r1 = Inr endpoint\<close> by (auto simp: refresher_id_token_def rf_bind_eq)
    next
      case res: (Inr res)
      then have a: "answered_by V log rf0 s2 res" using f2 by simp
      have none: "follows V log rf0 s2" if "tokens_of V (Inr res) = None"
        using a that by (auto simp: answered_by_def follows_def)
      show ?thesis
      proof (cases "\<exists>bs tr. status_is_success (rs_status res) \<and> body_to_bytes (rs_body res) = Inr bs \<and> parse_token_response V bs = Inr tr")
        case True
        then obtain bs tr where tr: "status_is_success (rs_status res)" "body_to_bytes (rs_body res) = Inr bs" "parse_token_response V bs = Inr tr" by blast
        have "s' = ((fst s2)\<lparr>rf_refresh_token := unwrap_or (tr_refresh_token tr) (rf_refresh_token (fst s2))\<rparr>, snd s2)"
          "r = ok_or (tr_id_token tr) NoIdTokenReceived"
          using e ep ex \<open>r1 = Inr endpoint\<close> res tr
          by (cases "tr_refresh_token tr"; auto simp: refresher_id_token_def rf_bind_eq rf_modify_def)+
        then show ?thesis using a answered_tokens(1) [OF tr] by (auto simp: answered_by_def follows_def ok_or_def split: option.splits)
      next
        case False
        then consider "\<not> status_is_success (rs_status res)" | x where "status_is_success (rs_status res)" "body_to_bytes (rs_body res) = Inl x"
          | bs x where "status_is_success (rs_status res)" "body_to_bytes (rs_body res) = Inr bs" "parse_token_response V bs = Inl x"
          by (metis sum.exhaust)
        then have "s' = s2 \<and> (\<exists>x. r = Inl x) \<and> tokens_of V (Inr res) = None"
        proof cases
          case 1
          then show ?thesis using e ep ex \<open>r1 = Inr endpoint\<close> res answered_tokens(2) by (auto simp: refresher_id_token_def rf_bind_def rf_of_def)
        next
          case 2
          then show ?thesis using e ep ex \<open>r1 = Inr endpoint\<close> res answered_tokens(3) by (auto simp: refresher_id_token_def rf_bind_def rf_of_def)
        next
          case 3
          then show ?thesis using e ep ex \<open>r1 = Inr endpoint\<close> res answered_tokens(4) by (auto simp: refresher_id_token_def rf_bind_def rf_of_def)
        qed
        then show ?thesis using none by auto
      qed
    qed
  qed
qed

text \<open>One call of \<open>id_token\<close>.\<close>

lemma id_token_follows:
  assumes f: "case oi_refresher oi of Inl _ \<Rightarrow> log w = [] | Inr rf \<Rightarrow> follows V log rf0 (rf, w)"
    and e: "oidc_id_token V oi w = (r, oi', w')"
  shows "(case oi_refresher oi' of Inl _ \<Rightarrow> log w' = [] | Inr rf \<Rightarrow> follows V log rf0 (rf, w'))
     \<and> (isl (oi_refresher oi') = isl (oi_refresher oi))
     \<and> (\<forall>tok. r = Inr tok \<longrightarrow> oi_id_token oi' = tok \<and>
          (log w' = log w \<and> tok = oi_id_token oi \<and> (\<exists>now w1 exp. oe_now V w1 = (now, w') \<and> token_expiry V tok = Inr exp \<and> now + 10 < exp)
           \<or> (\<exists>pre q res. log w' = pre @ [Posted q (Inr res)] \<and> map_option tr_id_token (tokens_of V (Inr res)) = Some (Some tok))))"
proof (cases "token_expiry V (oi_id_token oi)")
  case (Inl x)
  then show ?thesis using e f by (auto simp: oidc_id_token_def token_valid_def)
next
  case (Inr exp)
  obtain now w1 where now: "oe_now V w = (now, w1)" by (cases "oe_now V w")
  note l = now_logged [OF now]
  show ?thesis
  proof (cases "now + EXPIRY_DELTA_SECONDS < exp")
    case True
    then have "r = Inr (oi_id_token oi)" "oi' = oi" "w' = w1" using e Inr now by (auto simp: oidc_id_token_def token_valid_def)
    then show ?thesis using f l Inr True now by (auto simp: follows_def EXPIRY_DELTA_SECONDS_def split: sum.splits)
  next
    case False
    show ?thesis
    proof (cases "oi_refresher oi")
      case (Inl x)
      then show ?thesis using e f Inr now False l by (auto simp: oidc_id_token_def token_valid_def)
    next
      case rf: (Inr rf)
      obtain r1 rf' w2 where ref: "refresher_id_token V (rf, w1) = (r1, rf', w2)" by (cases "refresher_id_token V (rf, w1)")
      have "follows V log rf0 (rf, w1)" using f rf l by (simp add: follows_def)
      note fol = refresher_follows [OF this ref]
      show ?thesis using e Inr now False rf ref fol by (cases r1) (auto simp: oidc_id_token_def token_valid_def)
    qed
  qed
qed

end

interpretation rec_issuer: logged_issuer "recorded V" fst
  by unfold_locales (auto simp: recorded_def split: prod.splits)

lemma recorded_simps [simp]: "uri_parse (recorded V) = uri_parse V" "b64_encode (recorded V) = b64_encode V" "oe_form (recorded V) = oe_form V"
  "oe_json (recorded V) = oe_json V" "oe_shape_error (recorded V) = oe_shape_error V" "oe_connector (recorded V) = oe_connector V"
  "b64_decode (recorded V) = b64_decode V" "claims_number (recorded V) = claims_number V" "num_as_i64 (recorded V) = num_as_i64 V"
  "num_f64_as_i64 (recorded V) = num_f64_as_i64 V" "timestamp_opt (recorded V) = timestamp_opt V"
  by (simp_all add: recorded_def)

section \<open>Properties\<close>

text \<open>Any number of calls of \<open>id_token\<close>, with their results.\<close>

fun id_tokens :: "('w, 'qp, 'num) oidc_env \<Rightarrow> nat \<Rightarrow> oidc \<Rightarrow> 'w \<Rightarrow> (oidc_error + string) list \<times> oidc \<times> 'w" where
  "id_tokens V 0 oi w = ([], oi, w)"
| "id_tokens V (Suc n) oi w =
     (case id_tokens V n oi w of (rs, oi', w') \<Rightarrow> (case oidc_id_token V oi' w' of (r, oi'', w'') \<Rightarrow> (rs @ [r], oi'', w'')))"

lemma id_tokens_follow:
  assumes "oidc_from_config V config = Inr oi" "id_tokens (recorded V) n oi ([], w) = (rs, oi', w')"
  shows "(case oi_refresher oi' of Inl _ \<Rightarrow> fst w' = [] | Inr rf \<Rightarrow> follows (recorded V) fst (projr (refresher_from_config V config)) (rf, w'))
     \<and> isl (oi_refresher oi') = isl (refresher_from_config V config)"
  using assms(2)
proof (induction n arbitrary: rs oi' w')
  case 0
  have "oi_refresher oi = refresher_from_config V config" using assms(1) by (auto simp: oidc_from_config_def rbind_def split: sum.splits)
  then show ?case using 0 by (auto simp: follows_def replay_def protocol.start split: sum.splits)
next
  case (Suc n)
  obtain rs1 oi1 w1 where one: "id_tokens (recorded V) n oi ([], w) = (rs1, oi1, w1)" by (cases "id_tokens (recorded V) n oi ([], w)")
  obtain r where "oidc_id_token (recorded V) oi1 w1 = (r, oi', w')" using Suc.prems one by (auto split: prod.splits)
  from rec_issuer.id_token_follows [OF conjunct1 [OF Suc.IH [OF one]] this] show ?case using Suc.IH [OF one] by simp
qed

lemma recorded_reads [simp]: "metadata_of (recorded V) = metadata_of V" "tokens_of (recorded V) = tokens_of V"
  "token_form (recorded V) = token_form V" "token_expiry (recorded V) = token_expiry V"
  by (auto simp: fun_eq_iff metadata_of_def tokens_of_def parse_metadata_def parse_token_response_def token_form_def token_expiry_def
      deserialize_expiry_def [abs_def] split: auth_style.split list.split)

lemma recorded_observe [simp]: "observe (recorded V) = observe V"
proof (intro ext)
  fix rf x
  show "observe (recorded V) rf x = observe V rf x" by (cases x) simp_all
qed

lemma recorded_replay [simp]: "replay (recorded V) = replay V"
  by (simp add: fun_eq_iff replay_def)

lemma recorded_may_follow: "may_follow (recorded V) = may_follow V"
  by (auto simp: fun_eq_iff may_follow_def Let_def split: exchange.split)

lemma recorded_protocol [simp]: "protocol (recorded V) rf0 log \<longleftrightarrow> protocol V rf0 log"
proof
  show "protocol (recorded V) rf0 log \<Longrightarrow> protocol V rf0 log"
    by (induction rule: protocol.induct) (simp_all add: protocol.intros recorded_may_follow)
  show "protocol V rf0 log \<Longrightarrow> protocol (recorded V) rf0 log"
    by (induction rule: protocol.induct) (simp_all add: protocol.intros recorded_may_follow)
qed

text \<open>
  C17: however often a header is asked for and whatever the issuer answers, the refresher is
  the function \<open>replay\<close> of the exchanges so far, and these follow the protocol: the metadata is asked
  for until an endpoint is announced and never again; every token request goes to that endpoint
  with the refresh token that was given out last; once a style was accepted it is the only
  one used, and before that the client secret is sent in the body only right after it was refused in
  the header.
\<close>

theorem oidc_follows_protocol:
  assumes "oidc_from_config V config = Inr oi" "refresher_from_config V config = Inr rf0"
    and "id_tokens (recorded V) n oi ([], w) = (rs, oi', log, w')"
  shows "oi_refresher oi' = Inr (replay V rf0 log) \<and> protocol V rf0 log"
  using id_tokens_follow [OF assms(1,3)] assms(2)
  by (cases "oi_refresher oi'") (auto simp: follows_def)

text \<open>
  a token is used only while it is known to be valid for more than ten seconds, or when it
  has just been received; without the fields for refreshing nothing is ever sent to an issuer.
\<close>

theorem oidc_token_fresh:
  assumes "oidc_from_config V config = Inr oi" "id_tokens (recorded V) n oi ([], w) = (rs, oi1, log1, w1)"
    and "oidc_id_token (recorded V) oi1 (log1, w1) = (r, oi2, log2, w2)"
  shows "(\<forall>tok. r = Inr tok \<longrightarrow> oi_id_token oi2 = tok \<and>
       (log2 = log1 \<and> tok = oi_id_token oi1 \<and> (\<exists>now w0 exp. oe_now V w0 = (now, w2) \<and> token_expiry V tok = Inr exp \<and> now + 10 < exp)
        \<or> (\<exists>pre q res. log2 = pre @ [Posted q (Inr res)] \<and> map_option tr_id_token (tokens_of V (Inr res)) = Some (Some tok))))
     \<and> (\<forall>e. refresher_from_config V config = Inl e \<longrightarrow> log2 = [])"
proof -
  note f = id_tokens_follow [OF assms(1,2)]
  note one = rec_issuer.id_token_follows [OF conjunct1 [OF f] assms(3)]
  have now: "\<exists>w0. oe_now V w0 = (t, w2)" if "oe_now (recorded V) x = (t, log2, w2)" for x t
    using that by (cases x) (auto simp: recorded_def split: prod.splits)
  have unused: "log2 = []" if "refresher_from_config V config = Inl e" for e
    using one f that by (cases "oi_refresher oi2") auto
  have fresh: "\<exists>now w0 exp. oe_now V w0 = (now, w2) \<and> token_expiry V tok = Inr exp \<and> now + 10 < exp"
    if "\<exists>now w1 exp. oe_now (recorded V) w1 = (now, log2, w2) \<and> token_expiry (recorded V) tok = Inr exp \<and> now + 10 < exp" for tok
    using that now by fastforce
  show ?thesis
  proof (intro conjI allI impI)
    fix tok assume "r = Inr tok"
    note tok = conjunct2 [OF conjunct2 [OF one], rule_format, OF this]
    show "oi_id_token oi2 = tok" using tok by (rule conjunct1)
    show "log2 = log1 \<and> tok = oi_id_token oi1 \<and> (\<exists>now w0 exp. oe_now V w0 = (now, w2) \<and> token_expiry V tok = Inr exp \<and> now + 10 < exp)
      \<or> (\<exists>pre q res. log2 = pre @ [Posted q (Inr res)] \<and> map_option tr_id_token (tokens_of V (Inr res)) = Some (Some tok))"
      using tok fresh [of tok] unfolding fst_conv recorded_reads by argo
  qed (rule unused)
qed

section \<open>Witnesses\<close>

text \<open>An issuer that announces its endpoint, accepts the second style only, and hands out new tokens.\<close>

definition ok_with :: "bytes \<Rightarrow> http_response" where
  "ok_with bs = \<lparr>rs_status = 200, rs_headers = [], rs_body = [Inr bs]\<rparr>"

definition example_issuer :: "(int, string \<times> (string \<times> string) list, int) oidc_env" where
  "example_issuer = \<lparr>oe_form = example_env, oe_now = (\<lambda>t. (t, t + 1)), oe_https_get = (\<lambda>u t. (Inr (ok_with [1]), t + 1)),
     oe_https_post = (\<lambda>q t. (Inr (if style_of q = Params then ok_with [2] else \<lparr>rs_status = 401, rs_headers = [], rs_body = []\<rparr>), t + 1)),
     oe_connector = Inr (), uri_parse = Inr, build_error = (\<lambda>_. None), b64_decode = (\<lambda>s. Inr (map (\<lambda>c. of_char c) s)), b64_encode = (\<lambda>s. s),
     claims_number = (\<lambda>bs. if bs = [65] then Inr 50 else Inr 1000), num_as_i64 = Some, num_f64_as_i64 = (\<lambda>_. None), timestamp_opt = Some,
     oe_json = (\<lambda>bs. Inr (if bs = [1] then JObj [(''token_endpoint'', JStr ''https://issuer/token'')]
        else JObj [(''refresh_token'', JStr ''r2''), (''id_token'', JStr ''h.B.s'')])), oe_shape_error = []\<rparr>"

definition example_config :: "string \<rightharpoonup> string" where
  "example_config = [CONFIG_ID_TOKEN \<mapsto> ''h.A.s'', CONFIG_ISSUER_URL \<mapsto> ''https://issuer'', CONFIG_REFRESH_TOKEN \<mapsto> ''r1'',
     CONFIG_CLIENT_ID \<mapsto> ''id'', CONFIG_CLIENT_SECRET \<mapsto> ''secret'']"

definition example_rf :: refresher where
  "example_rf = \<lparr>rf_issuer = ''https://issuer'', rf_token_endpoint = None, rf_refresh_token = ''r1'', rf_client_id = ''id'',
     rf_client_secret = ''secret'', rf_auth_style = None\<rparr>"

definition example_oidc :: oidc where
  "example_oidc = \<lparr>oi_id_token = ''h.A.s'', oi_refresher = Inr example_rf\<rparr>"

lemmas config_keys = CONFIG_ID_TOKEN_def CONFIG_ISSUER_URL_def CONFIG_REFRESH_TOKEN_def CONFIG_CLIENT_ID_def CONFIG_CLIENT_SECRET_def

lemma example_from_config: "refresher_from_config example_issuer example_config = Inr example_rf"
  "oidc_from_config example_issuer example_config = Inr example_oidc"
  by (simp_all add: oidc_from_config_def refresher_from_config_def example_config_def config_keys example_issuer_def example_oidc_def example_rf_def)

definition example_calls :: "(oidc_error + string) list \<times> oidc \<times> exchange list \<times> int" where
  "example_calls = id_tokens (recorded example_issuer) 2 example_oidc ([], 100)"

lemma example_calls_values: "fst example_calls = [Inr ''h.B.s'', Inr ''h.B.s'']" "length (fst (snd (snd example_calls))) = 3"
  by code_simp+

theorem oidc_follows_protocol_witness:
  "oi_refresher (fst (snd example_calls)) = Inr (replay example_issuer example_rf (fst (snd (snd example_calls))))
     \<and> protocol example_issuer example_rf (fst (snd (snd example_calls))) \<and> length (fst (snd (snd example_calls))) = 3"
proof -
  obtain rs oi' log w' where c: "example_calls = (rs, oi', log, w')" by (cases example_calls)
  from oidc_follows_protocol [OF example_from_config(2,1) c [unfolded example_calls_def]] show ?thesis
    using example_calls_values(2) unfolding c by simp
qed

theorem oidc_token_fresh_witness:
  "\<exists>oi log w. oidc_id_token (recorded example_issuer) example_oidc ([], 100) = (Inr ''h.B.s'', oi, log, w)
     \<and> (log = [] \<and> ''h.B.s'' = oi_id_token example_oidc
        \<or> (\<exists>pre q res. log = pre @ [Posted q (Inr res)] \<and> map_option tr_id_token (tokens_of example_issuer (Inr res)) = Some (Some ''h.B.s'')))"
proof -
  have v: "fst (oidc_id_token (recorded example_issuer) example_oidc ([], 100)) = Inr ''h.B.s''" by code_simp
  obtain r oi log w where o: "oidc_id_token (recorded example_issuer) example_oidc ([], 100) = (r, oi, log, w)"
    by (cases "oidc_id_token (recorded example_issuer) example_oidc ([], 100)")
  have z: "id_tokens (recorded example_issuer) 0 example_oidc ([], 100) = ([], example_oidc, [], 100)" by simp
  from oidc_token_fresh [OF example_from_config(2) z o] show ?thesis using v o by auto
qed

end
