(* ===== verification/Cl_Oauth.thy ===== *)
theory Cl_Oauth
  imports Cl_Auth
begin

text \<open>
  \<open>kube-client/src/client/auth/oauth.rs\<close> and the branches of \<open>auth/mod.rs\<close> that use it with the feature
  \<open>oauth\<close>: tokens of Google's default credentials. The provider of \<open>tame-oauth\<close>, the TLS connector and
  the HTTPS client are parameters; of the errors of \<open>tame-oauth\<close> the ones that the code tells apart
  are constructors.
\<close>

section \<open>Errors and the provider\<close>

datatype tame_error =
    TameAuth string
  | TameHttpStatus u16
  | TameJson string
  | TameHttp string
  | TameInvalidRsaKey string
  | TameInvalidKeyFormat
  | TameOther string

datatype oauth_error =
    InvalidDefaultProviderConfig tame_error
  | NoDefaultProvider
  | LoadCredentials string
  | ParseCredentials string
  | InvalidKeyFormat tame_error
  | InvalidRsaKey tame_error
  | RequestToken hyper_error
  | RetrieveCredentials tame_error
  | ParseToken string
  | ConcatBuffers hyper_error
  | OAuthBuildRequest string
  | OAuthUnknown string
  | OAuthConnector string

text \<open>A provider answers with a token it has, or with a request to send and the hash of the scopes.\<close>

datatype ('t, 'r, 'h) token_or_request = TameToken 't | TameRequest 'r 'h

record ('w, 't, 'r, 'h, 'p) oauth_env =
  default_provider :: "tame_error + 'p option"
  get_token :: "'p \<Rightarrow> string list \<Rightarrow> 'w \<Rightarrow> (tame_error + ('t, 'r, 'h) token_or_request) \<times> 'w"
  parse_response :: "'p \<Rightarrow> 'h \<Rightarrow> u16 \<Rightarrow> bytes \<Rightarrow> 'w \<Rightarrow> (tame_error + 't) \<times> 'w"
  tls_connector :: "string + unit"
  oauth_send :: "'r \<Rightarrow> 'w \<Rightarrow> (hyper_error + http_response) \<times> 'w"
  access_token :: "'t \<Rightarrow> string"
  tame_display :: "tame_error \<Rightarrow> string"

record 'p gcp =
  gcp_provider :: 'p
  gcp_scopes :: "string list"

definition DEFAULT_SCOPES :: string where
  "DEFAULT_SCOPES = ''https://www.googleapis.com/auth/cloud-platform,https://www.googleapis.com/auth/userinfo.email''"

definition default_credentials_with_scopes :: "('w, 't, 'r, 'h, 'p) oauth_env \<Rightarrow> string option \<Rightarrow> oauth_error + 'p gcp" where
  "default_credentials_with_scopes T scopes =
     rbind (map_err InvalidDefaultProviderConfig (default_provider T)) (\<lambda>provider.
     rbind (ok_or provider NoDefaultProvider) (\<lambda>provider.
       Inr \<lparr>gcp_provider = provider, gcp_scopes = split_on CHR '','' (unwrap_or scopes DEFAULT_SCOPES)\<rparr>))"

fun response_error :: "('w, 't, 'r, 'h, 'p) oauth_env \<Rightarrow> tame_error \<Rightarrow> oauth_error" where
  "response_error T (TameAuth e) = RetrieveCredentials (TameAuth e)"
| "response_error T (TameHttpStatus e) = RetrieveCredentials (TameHttpStatus e)"
| "response_error T (TameJson e) = ParseToken e"
| "response_error T err = OAuthUnknown (tame_display T err)"

fun provider_error :: "('w, 't, 'r, 'h, 'p) oauth_env \<Rightarrow> tame_error \<Rightarrow> oauth_error" where
  "provider_error T (TameHttp e) = OAuthBuildRequest e"
| "provider_error T (TameInvalidRsaKey e) = InvalidRsaKey (TameInvalidRsaKey e)"
| "provider_error T TameInvalidKeyFormat = InvalidKeyFormat TameInvalidKeyFormat"
| "provider_error T e = OAuthUnknown (tame_display T e)"

definition fetch_token :: "('w, 't, 'r, 'h, 'p) oauth_env \<Rightarrow> 'p \<Rightarrow> 'r \<Rightarrow> 'h \<Rightarrow> 'w \<Rightarrow> (oauth_error + 't) \<times> 'w" where
  "fetch_token T provider request scope_hash w =
     (case tls_connector T of
        Inl e \<Rightarrow> (Inl (OAuthConnector e), w)
      | Inr _ \<Rightarrow>
          (case oauth_send T request w of
             (Inl e, w1) \<Rightarrow> (Inl (RequestToken e), w1)
           | (Inr res, w1) \<Rightarrow>
               (case body_to_bytes (rs_body res) of
                  Inl e \<Rightarrow> (Inl (ConcatBuffers e), w1)
                | Inr bs \<Rightarrow>
                    (case parse_response T provider scope_hash (rs_status res) bs w1 of
                       (Inr token, w2) \<Rightarrow> (Inr token, w2)
                     | (Inl err, w2) \<Rightarrow> (Inl (response_error T err), w2)))))"

definition gcp_token :: "('w, 't, 'r, 'h, 'p) oauth_env \<Rightarrow> 'p gcp \<Rightarrow> 'w \<Rightarrow> (oauth_error + 't) \<times> 'w" where
  "gcp_token T g w =
     (case get_token T (gcp_provider g) (gcp_scopes g) w of
        (Inr (TameRequest request scope_hash), w1) \<Rightarrow> fetch_token T (gcp_provider g) request scope_hash w1
      | (Inr (TameToken token), w1) \<Rightarrow> (Inr token, w1)
      | (Inl err, w1) \<Rightarrow> (Inl (provider_error T err), w1))"

text \<open>The branches of \<open>auth/mod.rs\<close>: the fallback of the gcp provider, and the header of a request.\<close>

definition gcp_oauth_provider :: "('w, 't, 'r, 'h, 'p) oauth_env \<Rightarrow> auth_provider_config \<Rightarrow> oauth_error + 'p gcp" where
  "gcp_oauth_provider T provider = default_credentials_with_scopes T (ap_config provider ''scopes'')"

datatype oauth_header_error = OAuthFailed oauth_error | OAuthBearer auth_error

definition oauth_to_header :: "('w, 't, 'r, 'h, 'p) oauth_env \<Rightarrow> 'v auth_env \<Rightarrow> 'p gcp \<Rightarrow> 'w \<Rightarrow> (oauth_header_error + string) \<times> 'w" where
  "oauth_to_header T A g w =
     (case gcp_token T g w of
        (Inl e, w') \<Rightarrow> (Inl (OAuthFailed e), w')
      | (Inr token, w') \<Rightarrow> (map_err OAuthBearer (bearer_header A (access_token T token)), w'))"

section \<open>Properties\<close>

lemma default_scopes: "default_provider T = Inr (Some p) \<Longrightarrow> default_credentials_with_scopes T None =
   Inr \<lparr>gcp_provider = p, gcp_scopes = [''https://www.googleapis.com/auth/cloud-platform'', ''https://www.googleapis.com/auth/userinfo.email'']\<rparr>"
proof -
  have "split_on CHR '','' DEFAULT_SCOPES = [''https://www.googleapis.com/auth/cloud-platform'', ''https://www.googleapis.com/auth/userinfo.email'']"
    by code_simp
  then show "default_provider T = Inr (Some p) \<Longrightarrow> ?thesis" by (simp add: default_credentials_with_scopes_def)
qed

text \<open>
  A header carries a token that the provider holds or accepted in this call; the network is used only
  for a request that the provider asked for, and a response the provider refuses for its status or
  its text is told apart from other failures.
\<close>

lemma oauth_header_source:
  assumes "oauth_to_header T A g w = (Inr h, w')"
  shows "\<exists>t. bearer_header A (access_token T t) = Inr h \<and>
     (get_token T (gcp_provider g) (gcp_scopes g) w = (Inr (TameToken t), w')
      \<or> (\<exists>req hash w1 res w2 bs. get_token T (gcp_provider g) (gcp_scopes g) w = (Inr (TameRequest req hash), w1)
           \<and> oauth_send T req w1 = (Inr res, w2) \<and> body_to_bytes (rs_body res) = Inr bs
           \<and> parse_response T (gcp_provider g) hash (rs_status res) bs w2 = (Inr t, w')))"
proof -
  have h: "\<exists>t. gcp_token T g w = (Inr t, w') \<and> bearer_header A (access_token T t) = Inr h"
    using assms by (auto simp: oauth_to_header_def map_err_def split: prod.splits sum.splits)
  then obtain t where t: "gcp_token T g w = (Inr t, w')" "bearer_header A (access_token T t) = Inr h" by blast
  have "(get_token T (gcp_provider g) (gcp_scopes g) w = (Inr (TameToken t), w')
      \<or> (\<exists>req hash w1 res w2 bs. get_token T (gcp_provider g) (gcp_scopes g) w = (Inr (TameRequest req hash), w1)
           \<and> oauth_send T req w1 = (Inr res, w2) \<and> body_to_bytes (rs_body res) = Inr bs
           \<and> parse_response T (gcp_provider g) hash (rs_status res) bs w2 = (Inr t, w')))"
    using t(1) by (auto simp: gcp_token_def fetch_token_def split: prod.splits sum.splits token_or_request.splits)
  then show ?thesis using t(2) by blast
qed

end
