(* ===== verification/De_Derive.thy ===== *)
theory De_Derive
  imports Core_Resource Core_Serde
begin

text \<open>
  \<open>kube-derive/src/custom_resource.rs\<close>: what \<open>derive(CustomResource)\<close> makes of a type and its
  \<open>kube\<close> attributes. The macro is a function from the parsed input to a compile error or to the
  constants of the generated code (\<open>generated\<close>); a panic of the macro is \<open>None\<close>. The methods it
  generates are definitions over these constants.

  Parsing by \<open>syn\<close> and \<open>darling\<close>, JSON text and the typed readers of \<open>k8s-openapi\<close> are parameters.
  Paths and identifiers are their text. The schema that \<open>schemars\<close> generates and the visitor of
  \<open>Core_Schema\<close> rewrites is given as JSON.
\<close>

section \<open>Attributes\<close>

record crates =
  cr_kube_core :: string
  cr_k8s_openapi :: string
  cr_schemars :: string
  cr_serde :: string
  cr_serde_json :: string
  cr_std :: string

definition crates_default :: crates where
  "crates_default = \<lparr>cr_kube_core = ''::kube::core'', cr_k8s_openapi = ''::k8s_openapi'', cr_schemars = ''::schemars'',
     cr_serde = ''::serde'', cr_serde_json = ''::serde_json'', cr_std = ''::std''\<rparr>"

datatype schema_mode = SchemaDisabled | SchemaManual | SchemaDerived

fun mode_derive :: "schema_mode \<Rightarrow> bool" where
  "mode_derive SchemaDisabled = False"
| "mode_derive SchemaManual = False"
| "mode_derive SchemaDerived = True"

fun use_in_crd :: "schema_mode \<Rightarrow> bool" where
  "use_in_crd SchemaDisabled = False"
| "use_in_crd SchemaManual = True"
| "use_in_crd SchemaDerived = True"

definition mode_from_string :: "string \<Rightarrow> string + schema_mode" where
  "mode_from_string value =
     (if value = ''disabled'' then Inr SchemaDisabled
      else if value = ''manual'' then Inr SchemaManual
      else if value = ''derived'' then Inr SchemaDerived
      else Inl value)"

record kube_attrs =
  ka_group :: string
  ka_version :: string
  ka_kind :: string
  ka_kind_struct :: "string option"
  ka_plural :: "string option"
  ka_singular :: "string option"
  ka_namespaced :: bool
  ka_derives :: "string list"
  ka_schema :: "schema_mode option"
  ka_status :: "string option"
  ka_categories :: "string list"
  ka_shortnames :: "string list"
  ka_printcolums :: "string list"
  ka_scale :: "string option"
  ka_crates :: crates

datatype data_kind = DataStruct | DataEnum | DataUnion

record derive_input =
  di_ident :: string
  di_vis :: string
  di_data :: data_kind

record 'tok derive_env =
  syn_parse :: "'tok \<Rightarrow> string + derive_input"
  from_derive_input :: "'tok \<Rightarrow> string + kube_attrs"
  valid_ident :: "string \<Rightarrow> bool"
  parse_path :: "string \<Rightarrow> string + string"
  json_to_text :: "json \<Rightarrow> string"

section \<open>Generated code\<close>

text \<open>The constants of the generated code, in the order in which the macro computes them.\<close>

record generated =
  gn_ident :: string
  gn_vis :: string
  gn_root :: string
  gn_status :: "string option"
  gn_derives :: "string list"
  gn_has_default :: bool
  gn_schemars_skip :: bool
  gn_group :: string
  gn_version :: string
  gn_kind :: string
  gn_singular :: string
  gn_plural :: string
  gn_scope :: string
  gn_api_version :: string
  gn_printers :: string
  gn_scale_code :: string
  gn_categories_json :: string
  gn_short_json :: string
  gn_shortnames :: "string list"
  gn_crd_name :: string
  gn_use_schema :: bool
  gn_crates :: crates

datatype compile_error =
    SynError string
  | UnionsUnsupported string
  | DarlingError string
  | KindEqualsStruct string

text \<open>\<open>to_plural\<close> of the macro, without the irregular plurals of \<open>kube-core\<close>.\<close>

definition derive_to_plural :: "string \<Rightarrow> string option" where
  "derive_to_plural word =
     (if ends_with word ''s'' \<or> ends_with word ''x'' \<or> ends_with word ''z'' \<or> ends_with word ''ch'' \<or> ends_with word ''sh''
      then Some (word @ ''es'')
      else if ends_with word ''y'' then
        (if length word < 2 then None
         else let cs = chars word; i = length word - 2 in
              if i < length cs \<and> cs ! i \<notin> {''a'', ''e'', ''i'', ''o'', ''u''}
              then Some (butlast word @ ''ies'')
              else Some (word @ ''s''))
      else Some (word @ ''s''))"

fun derive_loop :: "'tok derive_env \<Rightarrow> string list \<Rightarrow> compile_error + bool \<times> string list" where
  "derive_loop D [] = Inr (False, [])"
| "derive_loop D (d # ds) =
     (if d = ''Default'' then rbind (derive_loop D ds) (\<lambda>(_, ps). Inr (True, ps))
      else rbind (map_err SynError (parse_path D d)) (\<lambda>p. rbind (derive_loop D ds) (\<lambda>(h, ps). Inr (h, p # ps))))"

definition derive_paths :: "crates \<Rightarrow> string list \<Rightarrow> schema_mode \<Rightarrow> string list" where
  "derive_paths cr ps mode =
     [cr_serde cr @ ''::Deserialize'', ''Clone'', ''Debug''] @ ps @ (if mode_derive mode then [cr_schemars cr @ ''::JsonSchema''] else [])"

fun join :: "string \<Rightarrow> string list \<Rightarrow> string" where
  "join sep [] = []"
| "join sep [s] = s"
| "join sep (s # ss) = s @ sep @ join sep ss"

definition json_strings :: "string list \<Rightarrow> json" where
  "json_strings ss = JArr (map JStr ss)"

definition derive_generated :: "'tok derive_env \<Rightarrow> derive_input \<Rightarrow> kube_attrs \<Rightarrow> string \<Rightarrow> bool \<Rightarrow> string list \<Rightarrow> string \<Rightarrow> string \<Rightarrow> generated" where
  "derive_generated D di ka root has_default ps name plural =
     (let mode = unwrap_or (ka_schema ka) SchemaDerived in
      \<lparr>gn_ident = di_ident di, gn_vis = di_vis di, gn_root = root, gn_status = ka_status ka,
       gn_derives = derive_paths (ka_crates ka) ps mode, gn_has_default = has_default, gn_schemars_skip = mode_derive mode,
       gn_group = ka_group ka, gn_version = ka_version ka, gn_kind = ka_kind ka, gn_singular = name, gn_plural = plural,
       gn_scope = (if ka_namespaced ka then ''Namespaced'' else ''Cluster''), gn_api_version = ka_group ka @ ''/'' @ ka_version ka,
       gn_printers = ''[ '' @ join '','' (ka_printcolums ka) @ '' ]'', gn_scale_code = unwrap_or (ka_scale ka) [],
       gn_categories_json = json_to_text D (json_strings (ka_categories ka)),
       gn_short_json = json_to_text D (json_strings (ka_shortnames ka)), gn_shortnames = ka_shortnames ka,
       gn_crd_name = plural @ ''.'' @ ka_group ka, gn_use_schema = use_in_crd mode, gn_crates = ka_crates ka\<rparr>)"

definition derive :: "'tok derive_env \<Rightarrow> 'tok \<Rightarrow> (compile_error + generated) option" where
  "derive D input =
     (case syn_parse D input of
        Inl err \<Rightarrow> Some (Inl (SynError err))
      | Inr di \<Rightarrow>
          if di_data di = DataUnion then Some (Inl (UnionsUnsupported (di_ident di)))
          else case from_derive_input D input of
            Inl err \<Rightarrow> Some (Inl (DarlingError err))
          | Inr ka \<Rightarrow>
              let struct_name = unwrap_or (ka_kind_struct ka) (ka_kind ka) in
              if di_ident di = struct_name then Some (Inl (KindEqualsStruct (di_ident di)))
              else if \<not> valid_ident D struct_name then None
              else if \<not> pred_option (valid_ident D) (ka_status ka) then None
              else case derive_loop D (ka_derives ka) of
                Inl err \<Rightarrow> Some (Inl err)
              | Inr (has_default, ps) \<Rightarrow>
                  let name = unwrap_or (ka_singular ka) (to_ascii_lowercase (ka_kind ka)) in
                  case (case ka_plural ka of Some p \<Rightarrow> Some p | None \<Rightarrow> derive_to_plural name) of
                    None \<Rightarrow> None
                  | Some plural \<Rightarrow> Some (Inr (derive_generated D di ka struct_name has_default ps name plural)))"

subsection \<open>The root object\<close>

text \<open>The generated struct; a type without a status has no such field, and \<open>ro_status\<close> is then \<open>None\<close>.\<close>

record ('s, 't) root_obj =
  ro_metadata :: object_meta
  ro_spec :: 's
  ro_status :: "'t option"

definition root_new :: "string \<Rightarrow> 's \<Rightarrow> ('s, 't) root_obj" where
  "root_new name spec = \<lparr>ro_metadata = object_meta_default\<lparr>m_name := Some name\<rparr>, ro_spec = spec, ro_status = None\<rparr>"

definition root_default :: "'s \<Rightarrow> ('s, 't) root_obj" where
  "root_default spec_default = \<lparr>ro_metadata = object_meta_default, ro_spec = spec_default, ro_status = None\<rparr>"

record ('s, 't) root_serde =
  meta_to_json :: "object_meta \<Rightarrow> json"
  meta_of_json :: "json \<Rightarrow> object_meta option"
  spec_to_json :: "'s \<Rightarrow> json"
  spec_of_json :: "json \<Rightarrow> 's option"
  status_to_json :: "'t \<Rightarrow> json"
  status_of_json :: "json \<Rightarrow> 't option"

definition derived_class :: "generated \<Rightarrow> unit resource_class" where
  "derived_class G = \<lparr>kind_of = (\<lambda>_. gn_kind G), group_of = (\<lambda>_. gn_group G), version_of = (\<lambda>_. gn_version G),
     api_version_of = (\<lambda>_. gn_api_version G), plural_of = (\<lambda>_. gn_plural G)\<rparr>"

definition serialize_root :: "generated \<Rightarrow> ('s, 't) root_serde \<Rightarrow> ('s, 't) root_obj \<Rightarrow> json" where
  "serialize_root G C r =
     JObj (put ''apiVersion'' (JStr (api_version_of (derived_class G) ()))
         @ put ''kind'' (JStr (kind_of (derived_class G) ()))
         @ put ''metadata'' (meta_to_json C (ro_metadata r))
         @ put ''spec'' (spec_to_json C (ro_spec r))
         @ (if gn_status G \<noteq> None then (case ro_status r of Some st \<Rightarrow> put ''status'' (status_to_json C st) | None \<Rightarrow> []) else []))"

text \<open>The derived \<open>Deserialize\<close>: \<open>apiVersion\<close> and \<open>kind\<close> are no fields of the struct and are not looked at.\<close>

definition deserialize_root :: "generated \<Rightarrow> ('s, 't) root_serde \<Rightarrow> json \<Rightarrow> ('s, 't) root_obj option" where
  "deserialize_root G C v =
     (if gn_status G \<noteq> None then
        (case read_struct [required ''metadata'', required ''spec'', optional ''status''] v of
           Some [m, s, t] \<Rightarrow>
             Option.bind (meta_of_json C m) (\<lambda>m. Option.bind (spec_of_json C s) (\<lambda>s.
             Option.bind (read_option (status_of_json C) t) (\<lambda>t. Some \<lparr>ro_metadata = m, ro_spec = s, ro_status = t\<rparr>)))
         | _ \<Rightarrow> None)
      else
        (case read_struct [required ''metadata'', required ''spec''] v of
           Some [m, s] \<Rightarrow>
             Option.bind (meta_of_json C m) (\<lambda>m. Option.bind (spec_of_json C s) (\<lambda>s. Some \<lparr>ro_metadata = m, ro_spec = s, ro_status = None\<rparr>))
         | _ \<Rightarrow> None))"

definition root_spec :: "('s, 't) root_obj \<Rightarrow> 's" where
  "root_spec r = ro_spec r"

definition root_spec_mut :: "('s \<Rightarrow> 's) \<Rightarrow> ('s, 't) root_obj \<Rightarrow> ('s, 't) root_obj" where
  "root_spec_mut f r = r\<lparr>ro_spec := f (ro_spec r)\<rparr>"

definition root_status :: "('s, 't) root_obj \<Rightarrow> 't option" where
  "root_status r = ro_status r"

definition root_status_mut :: "('t option \<Rightarrow> 't option) \<Rightarrow> ('s, 't) root_obj \<Rightarrow> ('s, 't) root_obj" where
  "root_status_mut f r = r\<lparr>ro_status := f (ro_status r)\<rparr>"

subsection \<open>The definition of the custom resource\<close>

text \<open>
  \<open>CustomResourceExt\<close>. The typed readers give back the JSON that the value they read is written to.
  A definition is given by the JSON it is read from, provided the final \<open>from_value\<close> accepts it
  (\<open>crd_accepted\<close>). \<open>None\<close> is a panic.
\<close>

record crd_env =
  columns_of_text :: "string \<Rightarrow> json option"
  scale_of_text :: "string \<Rightarrow> json option option"
  strings_of_text :: "string \<Rightarrow> string list option"
  crd_accepted :: "json \<Rightarrow> bool"

definition crd_subresources :: "bool \<Rightarrow> json option \<Rightarrow> json" where
  "crd_subresources has_status scale =
     (if has_status then
        (case scale of
           Some s \<Rightarrow> JObj [(''status'', JObj []), (''scale'', s)]
         | None \<Rightarrow> JObj [(''status'', JObj [])])
      else JObj [])"

definition crd_json :: "generated \<Rightarrow> json \<Rightarrow> json \<Rightarrow> json \<Rightarrow> string list \<Rightarrow> string list \<Rightarrow> json" where
  "crd_json G schema columns subres categories shorts =
     JObj [(''metadata'', JObj [(''name'', JStr (gn_crd_name G))]),
       (''spec'', JObj [
          (''group'', JStr (gn_group G)), (''scope'', JStr (gn_scope G)),
          (''names'', JObj [(''categories'', json_strings categories), (''plural'', JStr (gn_plural G)),
             (''singular'', JStr (gn_singular G)), (''kind'', JStr (gn_kind G)), (''shortNames'', json_strings shorts)]),
          (''versions'', JArr [JObj [(''name'', JStr (gn_version G)), (''served'', JBool True), (''storage'', JBool True),
             (''schema'', JObj [(''openAPIV3Schema'', schema)]), (''additionalPrinterColumns'', columns), (''subresources'', subres)]])])]"

definition derived_crd :: "crd_env \<Rightarrow> generated \<Rightarrow> json \<Rightarrow> json option" where
  "derived_crd X G root_schema =
     Option.bind (columns_of_text X (gn_printers G)) (\<lambda>columns.
     Option.bind (if gn_scale_code G = [] then Some None else scale_of_text X (gn_scale_code G)) (\<lambda>scale.
     Option.bind (strings_of_text X (gn_categories_json G)) (\<lambda>categories.
     Option.bind (strings_of_text X (gn_short_json G)) (\<lambda>shorts.
       let subres = crd_subresources (gn_status G \<noteq> None) scale;
           schema = (if gn_use_schema G then root_schema else JNull);
           jsondata = crd_json G schema columns subres categories shorts
       in if crd_accepted X jsondata then Some jsondata else None))))"

definition derived_crd_name :: "generated \<Rightarrow> string" where
  "derived_crd_name G = gn_crd_name G"

definition derived_api_resource :: "generated \<Rightarrow> api_resource" where
  "derived_api_resource G = erase (derived_class G) ()"

definition derived_shortnames :: "generated \<Rightarrow> string list" where
  "derived_shortnames G = gn_shortnames G"

section \<open>Properties\<close>

text \<open>What a derivation that succeeds has computed.\<close>

lemma derive_Inr:
  assumes "derive D input = Some (Inr G)"
  obtains di ka has_default ps plural where "syn_parse D input = Inr di" "di_data di \<noteq> DataUnion" "from_derive_input D input = Inr ka"
    "di_ident di \<noteq> unwrap_or (ka_kind_struct ka) (ka_kind ka)"
    "(case ka_plural ka of Some p \<Rightarrow> Some p | None \<Rightarrow> derive_to_plural (unwrap_or (ka_singular ka) (to_ascii_lowercase (ka_kind ka)))) = Some plural"
    "G = derive_generated D di ka (unwrap_or (ka_kind_struct ka) (ka_kind ka)) has_default ps
       (unwrap_or (ka_singular ka) (to_ascii_lowercase (ka_kind ka))) plural"
  using assms unfolding derive_def Let_def
  by (auto split: sum.splits if_splits prod.splits option.splits)

lemma derived_class_simps [simp]: "kind_of (derived_class G) u = gn_kind G" "group_of (derived_class G) u = gn_group G"
  "version_of (derived_class G) u = gn_version G" "api_version_of (derived_class G) u = gn_api_version G" "plural_of (derived_class G) u = gn_plural G"
  by (simp_all add: derived_class_def)

lemma derived_constants:
  assumes "derive D input = Some (Inr G)"
  shows "gn_api_version G = gn_group G @ ''/'' @ gn_version G" "gn_crd_name G = gn_plural G @ ''.'' @ gn_group G" "gn_ident G \<noteq> gn_root G"
  using assms by (auto elim!: derive_Inr simp: derive_generated_def Let_def)

lemma derive_to_plural_regular:
  "word \<notin> {''endpoints'', ''endpointslices'', ''nodemetrics'', ''podmetrics''} \<Longrightarrow> derive_to_plural word = to_plural word"
  by (simp add: derive_to_plural_def to_plural_def)

text \<open>
  a type without names of its own is the resource that the dynamic API guesses from its group,
  version and kind: the same \<open>ApiResource\<close>, and so the same URL paths, except for the four words
  with an irregular plural and for an empty group, whose \<open>apiVersion\<close> begins with a slash.
\<close>

theorem derived_matches_guess:
  assumes "derive D input = Some (Inr G)" "from_derive_input D input = Inr ka" "ka_plural ka = None" "ka_singular ka = None" "ka_group ka \<noteq> []"
    and "to_ascii_lowercase (ka_kind ka) \<notin> {''endpoints'', ''endpointslices'', ''nodemetrics'', ''podmetrics''}"
  shows "from_gvk (gvk_new (ka_group ka) (ka_version ka) (ka_kind ka)) = Some (derived_api_resource G)"
proof -
  from assms(1) obtain di ka' has_default ps plural where d: "from_derive_input D input = Inr ka'"
    "(case ka_plural ka' of Some p \<Rightarrow> Some p | None \<Rightarrow> derive_to_plural (unwrap_or (ka_singular ka') (to_ascii_lowercase (ka_kind ka')))) = Some plural"
    "G = derive_generated D di ka' (unwrap_or (ka_kind_struct ka') (ka_kind ka')) has_default ps
       (unwrap_or (ka_singular ka') (to_ascii_lowercase (ka_kind ka'))) plural"
    by (rule derive_Inr)
  then have "to_plural (to_ascii_lowercase (ka_kind ka)) = Some plural" "ka' = ka"
    using assms by (simp_all add: derive_to_plural_regular [symmetric])
  then show ?thesis using d(3) assms(5)
    by (simp add: from_gvk_def gvk_new_def from_gvk_with_plural_def derived_api_resource_def erase_def derive_generated_def Let_def gvk_api_version_def)
qed

text \<open>
  C24: the definition that the generated \<open>crd\<close> gives describes the generated type: its name
  is the one of \<open>crd_name\<close>, its group, kind, plural and short names are those of the traits, and its only
  version is that of the type, served and stored. It has the status subresource exactly when the
  type has a status, and the scale subresource of the attribute only then; a scale without a status
  is dropped.
\<close>

theorem derived_crd_matches_type:
  assumes "derive D input = Some (Inr G)" "from_derive_input D input = Inr ka" "derived_crd X G schema = Some crd"
    and "strings_of_text X (json_to_text D (json_strings (ka_shortnames ka))) = Some (ka_shortnames ka)"
  defines "spec \<equiv> jget ''spec'' crd"
  shows "jget ''name'' (jget ''metadata'' crd) = JStr (derived_crd_name G)
     \<and> derived_crd_name G = plural_of (derived_class G) () @ ''.'' @ group_of (derived_class G) ()
     \<and> jget ''group'' spec = JStr (group_of (derived_class G) ()) \<and> jget ''kind'' (jget ''names'' spec) = JStr (kind_of (derived_class G) ())
     \<and> jget ''plural'' (jget ''names'' spec) = JStr (plural_of (derived_class G) ())
     \<and> jget ''shortNames'' (jget ''names'' spec) = json_strings (derived_shortnames G)
     \<and> jget ''scope'' spec = JStr (if ka_namespaced ka then ''Namespaced'' else ''Cluster'')
     \<and> (\<exists>v. jget ''versions'' spec = JArr [v] \<and> jget ''name'' v = JStr (version_of (derived_class G) ())
          \<and> jget ''served'' v = JBool True \<and> jget ''storage'' v = JBool True
          \<and> jget ''status'' (jget ''subresources'' v) = (if ka_status ka \<noteq> None then JObj [] else JNull)
          \<and> (ka_status ka = None \<or> ka_scale ka = None \<longrightarrow> jget ''scale'' (jget ''subresources'' v) = JNull)
          \<and> (\<forall>code s. ka_status ka \<noteq> None \<and> ka_scale ka = Some code \<and> code \<noteq> [] \<and> scale_of_text X code = Some (Some s)
               \<longrightarrow> jget ''scale'' (jget ''subresources'' v) = s))"
proof -
  from assms(1) obtain di ka' has_default ps plural where d: "from_derive_input D input = Inr ka'"
    "G = derive_generated D di ka' (unwrap_or (ka_kind_struct ka') (ka_kind ka')) has_default ps
       (unwrap_or (ka_singular ka') (to_ascii_lowercase (ka_kind ka'))) plural"
    by (rule derive_Inr)
  then have G: "gn_shortnames G = ka_shortnames ka" "gn_short_json G = json_to_text D (json_strings (ka_shortnames ka))"
    "gn_status G = ka_status ka" "gn_scale_code G = unwrap_or (ka_scale ka) []" "gn_scope G = (if ka_namespaced ka then ''Namespaced'' else ''Cluster'')"
    using assms(2) by (simp_all add: derive_generated_def Let_def)
  from assms(3) G(2) assms(4) obtain columns scale categories where
    s: "(if gn_scale_code G = [] then Some None else scale_of_text X (gn_scale_code G)) = Some scale"
    and crd: "crd = crd_json G (if gn_use_schema G then schema else JNull) columns (crd_subresources (gn_status G \<noteq> None) scale) categories (ka_shortnames ka)"
    by (auto simp: derived_crd_def Let_def bind_eq_Some_conv split: if_splits)
  have version: "jget ''versions'' spec = JArr [JObj [(''name'', JStr (gn_version G)), (''served'', JBool True), (''storage'', JBool True),
     (''schema'', JObj [(''openAPIV3Schema'', if gn_use_schema G then schema else JNull)]), (''additionalPrinterColumns'', columns),
     (''subresources'', crd_subresources (ka_status ka \<noteq> None) scale)]]" (is "_ = JArr [?v]")
    by (simp add: spec_def crd crd_json_def G)
  have no_scale: "jget ''scale'' (crd_subresources (ka_status ka \<noteq> None) scale) = JNull" if "ka_status ka = None \<or> ka_scale ka = None"
    using that s G by (auto simp: crd_subresources_def)
  have scale: "jget ''scale'' (crd_subresources (ka_status ka \<noteq> None) scale) = x"
    if "ka_status ka \<noteq> None \<and> ka_scale ka = Some code \<and> code \<noteq> [] \<and> scale_of_text X code = Some (Some x)" for code x
    using that s G by (auto simp: crd_subresources_def)
  show ?thesis
  proof (intro conjI exI [of _ ?v] allI impI)
    show "jget ''status'' (jget ''subresources'' ?v) = (if ka_status ka \<noteq> None then JObj [] else JNull)"
      by (simp add: crd_subresources_def split: option.split)
    show "jget ''scale'' (jget ''subresources'' ?v) = JNull" if "ka_status ka = None \<or> ka_scale ka = None"
      using no_scale [OF that] by simp
    show "jget ''scale'' (jget ''subresources'' ?v) = x"
      if "ka_status ka \<noteq> None \<and> ka_scale ka = Some code \<and> code \<noteq> [] \<and> scale_of_text X code = Some (Some x)" for code x
      using scale [OF that] by simp
  qed (use derived_constants(2) [OF assms(1)] version in \<open>simp_all add: spec_def crd crd_json_def derived_crd_name_def derived_shortnames_def G\<close>)
qed

text \<open>
  a generated object is recovered from the JSON it is written to, with or without a status,
  when its metadata, its spec and its status are, and the status is not written as null.
\<close>

theorem derived_roundtrip:
  assumes "meta_of_json C (meta_to_json C (ro_metadata r)) = Some (ro_metadata r)" "spec_of_json C (spec_to_json C (ro_spec r)) = Some (ro_spec r)"
    and "\<And>t. ro_status r = Some t \<Longrightarrow> status_of_json C (status_to_json C t) = Some t \<and> status_to_json C t \<noteq> JNull"
    and "gn_status G = None \<longrightarrow> ro_status r = None"
  shows "deserialize_root G C (serialize_root G C r) = Some r"
  using assms by (cases "ro_status r") (auto simp: deserialize_root_def serialize_root_def required_def optional_def put_def)

section \<open>Witnesses\<close>

definition foo_attrs :: kube_attrs where
  "foo_attrs = \<lparr>ka_group = ''clux.dev'', ka_version = ''v1'', ka_kind = ''Policy'', ka_kind_struct = None, ka_plural = None, ka_singular = None,
     ka_namespaced = True, ka_derives = [''PartialEq'', ''Default''], ka_schema = None, ka_status = None, ka_categories = [],
     ka_shortnames = [''p''], ka_printcolums = [], ka_scale = Some ''s'', ka_crates = crates_default\<rparr>"

definition foo_env :: "unit derive_env" where
  "foo_env = \<lparr>syn_parse = (\<lambda>_. Inr \<lparr>di_ident = ''PolicySpec'', di_vis = ''pub'', di_data = DataStruct\<rparr>), from_derive_input = (\<lambda>_. Inr foo_attrs),
     valid_ident = (\<lambda>_. True), parse_path = Inr, json_to_text = (\<lambda>v. case v of JArr [JStr s] \<Rightarrow> s | _ \<Rightarrow> [])\<rparr>"

definition foo_crd_env :: crd_env where
  "foo_crd_env = \<lparr>columns_of_text = (\<lambda>_. Some (JArr [])), scale_of_text = (\<lambda>_. Some (Some (JObj []))),
     strings_of_text = (\<lambda>t. Some (if t = [] then [] else [t])), crd_accepted = (\<lambda>_. True)\<rparr>"

definition foo_generated :: generated where
  "foo_generated = derive_generated foo_env \<lparr>di_ident = ''PolicySpec'', di_vis = ''pub'', di_data = DataStruct\<rparr> foo_attrs ''Policy'' True
     [''PartialEq''] ''policy'' ''policies''"

lemma foo_derive: "derive foo_env () = Some (Inr foo_generated)"
proof -
  have "to_ascii_lowercase ''Policy'' = ''policy''" "derive_to_plural ''policy'' = Some ''policies''" by code_simp+
  then show ?thesis by (simp add: derive_def foo_env_def foo_attrs_def foo_generated_def Let_def)
qed

theorem derived_matches_guess_witness:
  "from_gvk (gvk_new ''clux.dev'' ''v1'' ''Policy'') = Some (derived_api_resource foo_generated)"
proof -
  have "to_ascii_lowercase ''Policy'' = ''policy''" by code_simp
  then show ?thesis using derived_matches_guess [OF foo_derive, of foo_attrs] by (simp add: foo_env_def foo_attrs_def)
qed

theorem derived_crd_matches_type_witness:
  "\<exists>crd v. derived_crd foo_crd_env foo_generated JNull = Some crd \<and> jget ''name'' (jget ''metadata'' crd) = JStr ''policies.clux.dev''
     \<and> jget ''versions'' (jget ''spec'' crd) = JArr [v] \<and> jget ''scale'' (jget ''subresources'' v) = JNull"
proof -
  obtain crd where c: "derived_crd foo_crd_env foo_generated JNull = Some crd"
    by (simp add: derived_crd_def foo_crd_env_def Let_def foo_generated_def derive_generated_def foo_attrs_def)
  have "derived_crd_name foo_generated = ''policies.clux.dev''"
    by (simp add: derived_crd_name_def foo_generated_def derive_generated_def foo_attrs_def Let_def)
  then show ?thesis using c derived_crd_matches_type [OF foo_derive _ c, of foo_attrs]
    by (auto simp: foo_env_def foo_crd_env_def foo_attrs_def json_strings_def)
qed

definition named_serde :: "(string, bool) root_serde" where
  "named_serde = \<lparr>meta_to_json = (\<lambda>m. case m_name m of Some n \<Rightarrow> JStr n | None \<Rightarrow> JNull),
     meta_of_json = (\<lambda>v. map_option (\<lambda>n. object_meta_default\<lparr>m_name := Some n\<rparr>) (read_string v)), spec_to_json = JStr, spec_of_json = read_string,
     status_to_json = JBool, status_of_json = read_bool\<rparr>"

theorem derived_roundtrip_witness:
  "deserialize_root (foo_generated\<lparr>gn_status := Some ''PolicyStatus''\<rparr>) named_serde
     (serialize_root (foo_generated\<lparr>gn_status := Some ''PolicyStatus''\<rparr>) named_serde ((root_new ''a'' ''spec'')\<lparr>ro_status := Some True\<rparr>))
   = Some ((root_new ''a'' ''spec'')\<lparr>ro_status := Some True\<rparr>)"
  by (rule derived_roundtrip) (simp_all add: named_serde_def root_new_def object_meta_default_def)

end
