(* ===== verification/Rt_Applier.thy ===== *)
theory Rt_Applier
  imports Rt_Controller Rt_Streams "HOL-Library.Multiset" "HOL-Library.Product_Lexorder" "HOL-Library.Option_ord"
begin

text \<open>
  The closed loop of \<open>applier\<close> in \<open>kube-runtime/src/controller/mod.rs\<close>, with \<open>trystream_try_via\<close> of
  \<open>utils/mod.rs\<close>: the queue of the user and the channel of reschedules are selected into one
  stream, whose requests go through the scheduler and the runner while its errors go around
  them; a finished reconciliation may send a request back into the channel.

  The state is that of all streams involved. A reconciliation is the sequence of its poll
  answers. Requests are compared and hashed by the key of their reference, so a message of the
  scheduler is that key. Every poll is given the instant, the store and, for each \<open>select\<close>, which
  of its two streams is asked first.
\<close>

section \<open>Selecting between two streams\<close>

text \<open>
  \<open>futures::stream::select\<close>: if the stream that is asked first has no item, the other one is
  asked; the selection ends when both have ended. The second version is for streams whose polls
  may panic or fail to return.
\<close>

definition select_poll :: "bool \<Rightarrow> ('s \<Rightarrow> 'a option poll \<times> 's) \<Rightarrow> ('s \<Rightarrow> 'a option poll \<times> 's) \<Rightarrow> 's \<Rightarrow> 'a option poll \<times> 's" where
  "select_poll left_first left right s =
     (let (first, second) = (if left_first then (left, right) else (right, left)) in
      case first s of
        (Ready (Some x), s1) \<Rightarrow> (Ready (Some x), s1)
      | (r1, s1) \<Rightarrow>
          (case second s1 of
             (Ready None, s2) \<Rightarrow> (if r1 = Ready None then Ready None else Pending, s2)
           | (r2, s2) \<Rightarrow> (r2, s2)))"

type_synonym ('p, 's, 'a) try_poll = "'s \<Rightarrow> ('p + 'a option poll \<times> 's) option"

definition select_try :: "bool \<Rightarrow> ('p, 's, 'a) try_poll \<Rightarrow> ('p, 's, 'a) try_poll \<Rightarrow> ('p, 's, 'a) try_poll" where
  "select_try left_first left right s =
     (let (first, second) = (if left_first then (left, right) else (right, left)) in
      case first s of
        Some (Inr (r1, s1)) \<Rightarrow>
          (case r1 of
             Ready (Some x) \<Rightarrow> Some (Inr (Ready (Some x), s1))
           | _ \<Rightarrow>
               (case second s1 of
                  Some (Inr (Ready None, s2)) \<Rightarrow> Some (Inr (if r1 = Ready None then Ready None else Pending, s2))
                | r2 \<Rightarrow> r2))
      | r \<Rightarrow> r)"

section \<open>The input\<close>

text \<open>
  \<open>in_shutdown\<close> is set when the queue has ended: its \<open>on_complete\<close> resolves the future that
  \<open>take_until\<close> stops the channel with.
\<close>

record ('dt, 'q) inputs =
  in_queue :: "('q + 'dt reconcile_request) stream_script"
  in_shutdown :: bool
  in_channel :: "'dt ref_key schedule_request list"

definition key_request :: "'dt reconcile_request schedule_request \<Rightarrow> 'dt ref_key schedule_request" where
  "key_request r = \<lparr>message = key_of (rr_obj_ref (message r)), req_run_at = req_run_at r\<rparr>"

type_synonym ('dt, 'e, 'q) input_item = "('dt, 'e, 'q) controller_error + 'dt ref_key schedule_request"

definition poll_queue :: "instant \<Rightarrow> ('dt, 'q) inputs \<Rightarrow> ('dt, 'e, 'q) input_item option poll \<times> ('dt, 'q) inputs" where
  "poll_queue now i =
     (if in_shutdown i then (Ready None, i)
      else case poll_stream (in_queue i) of
        (Ready (Some item), q) \<Rightarrow> (Ready (Some (map_sum id key_request (applier_input now item))), i\<lparr>in_queue := q\<rparr>)
      | (Ready None, q) \<Rightarrow> (Ready None, i\<lparr>in_queue := [], in_shutdown := True\<rparr>)
      | (Pending, q) \<Rightarrow> (Pending, i\<lparr>in_queue := q\<rparr>))"

definition poll_channel :: "('dt, 'q) inputs \<Rightarrow> ('dt, 'e, 'q) input_item option poll \<times> ('dt, 'q) inputs" where
  "poll_channel i =
     (if in_shutdown i then (Ready None, i)
      else case in_channel i of
        [] \<Rightarrow> (Pending, i)
      | r # rs \<Rightarrow> (Ready (Some (Inr r)), i\<lparr>in_channel := rs\<rparr>))"

definition poll_inputs :: "(('dt, 'q) inputs \<Rightarrow> bool) \<Rightarrow> instant \<Rightarrow> ('dt, 'q) inputs
     \<Rightarrow> ('dt, 'e, 'q) input_item option poll \<times> ('dt, 'q) inputs" where
  "poll_inputs pick now i = select_poll (pick i) (poll_queue now) poll_channel i"

type_synonym ('dt, 'e, 'q) split_inputs = "(('dt, 'q) inputs, ('dt, 'e, 'q) input_item) peekable"

definition ok_poll :: "(('dt, 'q) inputs \<Rightarrow> bool) \<Rightarrow> instant \<Rightarrow> ('dt, 'e, 'q) split_inputs
     \<Rightarrow> ('dt ref_key schedule_request option poll \<times> ('dt, 'e, 'q) split_inputs) option" where
  "ok_poll pick now = split_oks_poll (poll_inputs pick now)"

definition err_poll :: "(('dt, 'q) inputs \<Rightarrow> bool) \<Rightarrow> instant \<Rightarrow> ('dt, 'e, 'q) split_inputs
     \<Rightarrow> (('dt, 'e, 'q) controller_error option poll \<times> ('dt, 'e, 'q) split_inputs) option" where
  "err_poll pick now = split_errs_poll (poll_inputs pick now)"

subsection \<open>Progress of the input\<close>

fun until_end :: "'a stream_script \<Rightarrow> 'a list" where
  "until_end (Ready (Some x) # st) = x # until_end st"
| "until_end (Pending # st) = until_end st"
| "until_end (Ready None # st) = []"
| "until_end [] = []"

definition input_size :: "('dt, 'e, 'q) split_inputs \<Rightarrow> nat" where
  "input_size pk = 2 * (length (in_queue (pk_stream pk)) + length (in_channel (pk_stream pk)))
     + (if in_shutdown (pk_stream pk) then 0 else 1) + (if pk_peeked pk = None then 0 else 1)"

text \<open>What one poll of the input gives: a request of the queue or of the channel, an error of the queue, the end, or nothing.\<close>

lemma poll_inputs_cases:
  assumes "poll_inputs pick now i = (a, i')"
  obtains (request) req where "a = Ready (Some (Inr \<lparr>message = key_of (rr_obj_ref req), req_run_at = now + 1\<rparr>))"
      "until_end (in_queue i) = Inr req # until_end (in_queue i')" "length (in_queue i') < length (in_queue i)"
      "in_channel i' = in_channel i" "\<not> in_shutdown i" "\<not> in_shutdown i'"
    | (error) e where "a = Ready (Some (Inl (QueueError e)))"
      "until_end (in_queue i) = Inl e # until_end (in_queue i')" "length (in_queue i') < length (in_queue i)"
      "in_channel i' = in_channel i" "\<not> in_shutdown i" "\<not> in_shutdown i'"
    | (requeue) r where "a = Ready (Some (Inr r))" "in_channel i = r # in_channel i'"
      "until_end (in_queue i') = until_end (in_queue i)" "length (in_queue i') \<le> length (in_queue i)" "\<not> in_shutdown i" "\<not> in_shutdown i'"
    | (ended) "a = Ready None" "in_shutdown i'" "in_channel i' = in_channel i"
      "in_shutdown i \<longrightarrow> i' = i" "\<not> in_shutdown i \<longrightarrow> until_end (in_queue i) = [] \<and> in_queue i' = []"
    | (pending) "a = Pending" "\<not> in_shutdown i" "in_channel i = []" "in_channel i' = []"
      "until_end (in_queue i') = until_end (in_queue i)"
      "i' = i \<or> length (in_queue i') < length (in_queue i)"
proof (cases "in_shutdown i")
  case True
  then have "a = Ready None" "i' = i" using assms
    by (cases "pick i"; simp add: poll_inputs_def select_poll_def poll_queue_def poll_channel_def)+
  then show ?thesis using True ended by blast
next
  case False
  note defs = poll_inputs_def select_poll_def poll_queue_def poll_channel_def applier_input_def key_request_def
  show ?thesis
  proof (cases "\<exists>r rs. in_channel i = r # rs \<and> \<not> pick i")
    case True
    then show ?thesis using False assms requeue by (auto simp: defs)
  next
    case order: False
    show ?thesis
    proof (cases "in_queue i" rule: until_end.cases)
      case (1 x st)
      show ?thesis using False 1 order assms request error
        by (cases x; cases "pick i"; cases "in_channel i") (auto simp: defs)
    next
      case (2 st)
      then show ?thesis using False order assms requeue pending
        by (cases "pick i"; cases "in_channel i") (auto simp: defs)
    next
      case (3 st)
      then show ?thesis using False order assms pending ended
        by (cases "pick i"; cases "in_channel i") (auto simp: defs)
    next
      case 4
      then have q: "i\<lparr>in_queue := []\<rparr> = i" by simp
      show ?thesis using False 4 order assms requeue pending
        by (cases "pick i"; cases "in_channel i") (auto simp: defs q)
    qed
  qed
qed

text \<open>
  What is left in the input: the requests and the errors of the queue that were not taken yet,
  and the requests that were taken, or sent into the channel, but not scheduled yet.
\<close>

definition asks :: "('dt, 'e, 'q) split_inputs \<Rightarrow> 'dt reconcile_request list" where
  "asks pk = List.map_filter result_ok (until_end (in_queue (pk_stream pk)))"

definition ask :: "instant \<Rightarrow> 'dt reconcile_request \<Rightarrow> 'dt ref_key schedule_request" where
  "ask now req = \<lparr>message = key_of (rr_obj_ref req), req_run_at = now + 1\<rparr>"

definition peeked_errors :: "('dt, 'e, 'q) split_inputs \<Rightarrow> 'q list" where
  "peeked_errors pk = (case pk_peeked pk of Some (Some (Inl (QueueError e))) \<Rightarrow> [e] | _ \<Rightarrow> [])"

definition errors_left :: "('dt, 'e, 'q) split_inputs \<Rightarrow> 'q list" where
  "errors_left pk = peeked_errors pk @ List.map_filter result_err (until_end (in_queue (pk_stream pk)))"

definition inbox_of :: "('dt, 'e, 'q) split_inputs \<Rightarrow> 'dt ref_key schedule_request multiset" where
  "inbox_of pk = mset (case pk_peeked pk of Some (Some (Inr r)) \<Rightarrow> [r] | _ \<Rightarrow> []) + mset (in_channel (pk_stream pk))"

definition peeked_ok :: "('dt, 'e, 'q) split_inputs \<Rightarrow> bool" where
  "peeked_ok pk \<longleftrightarrow> (\<forall>x. pk_peeked pk = Some (Some (Inl x)) \<longrightarrow> (\<exists>e. x = QueueError e))
     \<and> (pk_peeked pk = Some None \<longrightarrow> in_shutdown (pk_stream pk))"

text \<open>
  The effect of polls at one instant: \<open>reqs\<close> were taken from the queue, \<open>errs\<close> passed on, and
  \<open>taken\<close> handed to the scheduler.
\<close>

definition moves :: "instant \<Rightarrow> ('dt, 'e, 'q) split_inputs \<Rightarrow> 'dt reconcile_request list \<Rightarrow> 'q list
     \<Rightarrow> 'dt ref_key schedule_request list \<Rightarrow> ('dt, 'e, 'q) split_inputs \<Rightarrow> bool" where
  "moves now pk reqs errs taken pk' \<longleftrightarrow>
     asks pk = reqs @ asks pk' \<and> errors_left pk = errs @ errors_left pk'
     \<and> inbox_of pk + mset (map (ask now) reqs) = inbox_of pk' + mset taken
     \<and> (in_shutdown (pk_stream pk) \<longrightarrow> in_shutdown (pk_stream pk'))"

lemma moves_refl: "moves now pk [] [] [] pk"
  by (simp add: moves_def)

lemma moves_trans:
  "moves now pk1 reqs1 errs1 taken1 pk2 \<Longrightarrow> moves now pk2 reqs2 errs2 taken2 pk3
     \<Longrightarrow> moves now pk1 (reqs1 @ reqs2) (errs1 @ errs2) (taken1 @ taken2) pk3"
  unfolding moves_def
proof (elim conjE, intro conjI)
  assume "inbox_of pk1 + mset (map (ask now) reqs1) = inbox_of pk2 + mset taken1"
    and "inbox_of pk2 + mset (map (ask now) reqs2) = inbox_of pk3 + mset taken2"
  then have "(inbox_of pk1 + mset (map (ask now) reqs1)) + mset (map (ask now) reqs2) = (inbox_of pk3 + mset taken2) + mset taken1"
    by (simp add: ac_simps)
  then show "inbox_of pk1 + mset (map (ask now) (reqs1 @ reqs2)) = inbox_of pk3 + mset (taken1 @ taken2)"
    by (simp add: ac_simps)
qed simp_all

lemmas input_defs = moves_def asks_def errors_left_def peeked_errors_def inbox_of_def ask_def peeked_ok_def

text \<open>Peeking moves an item of the input into the place of the peeked one.\<close>

lemma peek_moves:
  assumes "pk_peek (poll_inputs pick now) pk = (a, pk')" and "peeked_ok pk"
  shows "peeked_ok pk' \<and> (\<exists>reqs. moves now pk reqs [] [] pk')
     \<and> (case a of Ready x \<Rightarrow> pk_peeked pk' = Some x
        | Pending \<Rightarrow> pk_peeked pk' = None \<and> in_channel (pk_stream pk') = [])
     \<and> (pk' = pk \<or> input_size pk' < input_size pk \<or> a = Ready None)"
proof (cases "pk_peeked pk")
  case (Some x)
  then show ?thesis using assms moves_refl by (auto simp: pk_peek_def intro: exI [of _ "[]"])
next
  case None
  obtain i' where p: "poll_inputs pick now (pk_stream pk) = (a, i')"
    and pk': "pk' = (case a of Ready x \<Rightarrow> \<lparr>pk_peeked = Some x, pk_stream = i'\<rparr> | Pending \<Rightarrow> pk\<lparr>pk_stream := i'\<rparr>)"
    using assms(1) None by (auto simp: pk_peek_def split: poll.splits prod.splits)
  from p show ?thesis
  proof (cases rule: poll_inputs_cases)
    case (request req)
    then show ?thesis using None pk'
      by (auto simp: input_defs input_size_def List.map_filter_simps intro!: exI [of _ "[req]"])
  next
    case (error e)
    then show ?thesis using None pk'
      by (auto simp: input_defs input_size_def List.map_filter_simps intro!: exI [of _ "[]"])
  next
    case (requeue r)
    then show ?thesis using None pk'
      by (auto simp: input_defs input_size_def intro!: exI [of _ "[]"])
  next
    case ended
    then show ?thesis using None pk'
      by (cases "in_shutdown (pk_stream pk)") (auto simp: input_defs input_size_def List.map_filter_simps intro!: exI [of _ "[]"])
  next
    case pending
    then show ?thesis using None pk'
      by (cases pk) (auto simp: input_defs input_size_def intro!: exI [of _ "[]"])
  qed
qed


definition waiting_input :: "('dt, 'e, 'q) split_inputs \<Rightarrow> bool" where
  "waiting_input pk \<longleftrightarrow> (\<exists>e. pk_peeked pk = Some (Some (Inl e))) \<or> pk_peeked pk = None \<and> in_channel (pk_stream pk) = []"

definition given :: "'a option poll \<Rightarrow> 'a list" where
  "given a = (case a of Ready (Some x) \<Rightarrow> [x] | _ \<Rightarrow> [])"

lemma given_simps [simp]: "given (Ready (Some x)) = [x]" "given (Ready None) = []" "given Pending = []"
  by (simp_all add: given_def)

lemma consume_moves:
  "pk_peeked pk = Some (Some (Inr r)) \<Longrightarrow> moves now pk [] [] [r] (pk\<lparr>pk_peeked := None\<rparr>) \<and> peeked_ok (pk\<lparr>pk_peeked := None\<rparr>)"
  "pk_peeked pk = Some (Some (Inl (QueueError e))) \<Longrightarrow> moves now pk [] [e] [] (pk\<lparr>pk_peeked := None\<rparr>) \<and> peeked_ok (pk\<lparr>pk_peeked := None\<rparr>)"
  by (simp_all add: input_defs)

lemma ok_poll_moves:
  assumes "peeked_ok pk"
  shows "\<exists>a pk' reqs. ok_poll pick now pk = Some (a, pk') \<and> peeked_ok pk' \<and> moves now pk reqs [] (given a) pk'
     \<and> (case a of Ready (Some r) \<Rightarrow> input_size pk' < input_size pk
        | Ready None \<Rightarrow> pk_peeked pk' = Some None \<and> in_shutdown (pk_stream pk')
        | Pending \<Rightarrow> waiting_input pk' \<and> (pk' = pk \<or> input_size pk' < input_size pk))"
proof -
  obtain a pk1 where p: "pk_peek (poll_inputs pick now) pk = (a, pk1)" by fastforce
  from peek_moves [OF this assms] obtain reqs where m: "peeked_ok pk1" "moves now pk reqs [] [] pk1"
    "case a of Ready x \<Rightarrow> pk_peeked pk1 = Some x | Pending \<Rightarrow> pk_peeked pk1 = None \<and> in_channel (pk_stream pk1) = []"
    "pk1 = pk \<or> input_size pk1 < input_size pk \<or> a = Ready None" by blast
  consider (ok) r where "a = Ready (Some (Inr r))" | (err) e where "a = Ready (Some (Inl e))" | (fin) "a = Ready None" | (wait) "a = Pending"
    by (metis option.exhaust poll.exhaust sum.exhaust)
  then show ?thesis
  proof cases
    case ok
    let ?pk = "pk1\<lparr>pk_peeked := None\<rparr>"
    have "ok_poll pick now pk = Some (Ready (Some r), ?pk)"
      using p m(3) ok by (simp add: ok_poll_def split_oks_poll_def split_case_poll_def pk_poll_next_def)
    moreover have "moves now pk reqs [] [r] ?pk" "peeked_ok ?pk"
      using moves_trans [OF m(2) conjunct1 [OF consume_moves(1)], of r] consume_moves(1) [of pk1 r now] m(3) ok by auto
    moreover have "input_size ?pk < input_size pk" using m(3,4) ok by (auto simp: input_size_def)
    ultimately show ?thesis by (intro exI [of _ "Ready (Some r)"] exI [of _ ?pk] exI [of _ reqs]) simp
  next
    case err
    then have "ok_poll pick now pk = Some (Pending, pk1)"
      using p by (simp add: ok_poll_def split_oks_poll_def split_case_poll_def)
    moreover have "waiting_input pk1" using m(3) err by (simp add: waiting_input_def)
    ultimately show ?thesis using m err by (intro exI [of _ Pending] exI [of _ pk1] exI [of _ reqs]) auto
  next
    case fin
    then have "ok_poll pick now pk = Some (Ready None, pk1)"
      using p by (simp add: ok_poll_def split_oks_poll_def split_case_poll_def)
    moreover have "in_shutdown (pk_stream pk1)" using m(1,3) fin by (simp add: peeked_ok_def)
    ultimately show ?thesis using m fin by (intro exI [of _ "Ready None"] exI [of _ pk1] exI [of _ reqs]) auto
  next
    case wait
    then have "ok_poll pick now pk = Some (Pending, pk1)"
      using p by (simp add: ok_poll_def split_oks_poll_def split_case_poll_def)
    moreover have "waiting_input pk1" using m(3) wait by (simp add: waiting_input_def)
    ultimately show ?thesis using m wait by (intro exI [of _ Pending] exI [of _ pk1] exI [of _ reqs]) auto
  qed
qed

lemma err_poll_moves:
  assumes "peeked_ok pk"
  shows "\<exists>a pk' reqs errs. err_poll pick now pk = Some (a, pk') \<and> peeked_ok pk' \<and> moves now pk reqs errs [] pk'
     \<and> given a = map QueueError errs \<and> (a = Ready None \<longrightarrow> pk_peeked pk' = Some None \<and> in_shutdown (pk_stream pk'))"
proof -
  obtain a pk1 where p: "pk_peek (poll_inputs pick now) pk = (a, pk1)" by fastforce
  from peek_moves [OF this assms] obtain reqs where m: "peeked_ok pk1" "moves now pk reqs [] [] pk1"
    "case a of Ready x \<Rightarrow> pk_peeked pk1 = Some x | Pending \<Rightarrow> pk_peeked pk1 = None \<and> in_channel (pk_stream pk1) = []" by blast
  consider (err) e where "a = Ready (Some (Inl (QueueError e)))" | (fin) "a = Ready None"
    | (wait) "a = Pending \<or> (\<exists>r. a = Ready (Some (Inr r)))"
  proof -
    have "\<exists>e. x = QueueError e" if "a = Ready (Some (Inl x))" for x using m(1,3) that by (simp add: peeked_ok_def)
    then show ?thesis using that by (metis option.exhaust poll.exhaust sum.exhaust)
  qed
  then show ?thesis
  proof cases
    case err
    let ?pk = "pk1\<lparr>pk_peeked := None\<rparr>"
    have "err_poll pick now pk = Some (Ready (Some (QueueError e)), ?pk)"
      using p m(3) err by (simp add: err_poll_def split_errs_poll_def split_case_poll_def pk_poll_next_def)
    moreover have "moves now pk reqs [e] [] ?pk" "peeked_ok ?pk"
      using moves_trans [OF m(2) conjunct1 [OF consume_moves(2)], of e] consume_moves(2) [of pk1 e now] m(3) err by auto
    ultimately show ?thesis by (intro exI [of _ "Ready (Some (QueueError e))"] exI [of _ ?pk] exI [of _ reqs] exI [of _ "[e]"]) simp
  next
    case fin
    then have "err_poll pick now pk = Some (Ready None, pk1)"
      using p by (simp add: err_poll_def split_errs_poll_def split_case_poll_def)
    moreover have "in_shutdown (pk_stream pk1)" using m(1,3) fin by (simp add: peeked_ok_def)
    ultimately show ?thesis using m fin by (intro exI [of _ "Ready None"] exI [of _ pk1] exI [of _ reqs] exI [of _ "[]"]) auto
  next
    case wait
    then have "err_poll pick now pk = Some (Pending, pk1)"
      using p by (auto simp: err_poll_def split_errs_poll_def split_case_poll_def)
    then show ?thesis using m by (intro exI [of _ Pending] exI [of _ pk1] exI [of _ reqs] exI [of _ "[]"]) auto
  qed
qed

subsection \<open>The requests of one poll\<close>

text \<open>
  The answers that the stream of requests gives as often as it is polled at one instant, until
  polls have no effect any more; the end is repeated, since the scheduler fuses the stream.
\<close>

function ok_answers :: "(('dt, 'q) inputs \<Rightarrow> bool) \<Rightarrow> instant \<Rightarrow> ('dt, 'e, 'q) split_inputs \<Rightarrow> 'dt ref_key schedule_request stream_script" where
  "ok_answers pick now pk =
     (case ok_poll pick now pk of
        None \<Rightarrow> []
      | Some (a, pk') \<Rightarrow>
          if a = Ready None then [Ready None, Ready None]
          else if input_size pk' < input_size pk then a # ok_answers pick now pk'
          else [])"
  by auto
termination by (relation "measure (\<lambda>(pick, now, pk). input_size pk)") auto

declare ok_answers.simps [simp del]

fun ok_skip :: "(('dt, 'q) inputs \<Rightarrow> bool) \<Rightarrow> instant \<Rightarrow> nat \<Rightarrow> ('dt, 'e, 'q) split_inputs \<Rightarrow> ('dt, 'e, 'q) split_inputs" where
  "ok_skip pick now 0 pk = pk"
| "ok_skip pick now (Suc n) pk = (case ok_poll pick now pk of Some (a, pk') \<Rightarrow> ok_skip pick now n pk' | None \<Rightarrow> pk)"

lemma ok_skip_moves:
  assumes "peeked_ok pk" and "n \<le> length (ok_answers pick now pk)"
  shows "peeked_ok (ok_skip pick now n pk)
     \<and> (\<exists>reqs. moves now pk reqs [] (concat (map given (take n (ok_answers pick now pk)))) (ok_skip pick now n pk))"
  using assms
proof (induction n arbitrary: pk)
  case 0
  then show ?case using moves_refl by auto
next
  case (Suc n)
  obtain a pk' reqs where p: "ok_poll pick now pk = Some (a, pk')" "peeked_ok pk'" "moves now pk reqs [] (given a) pk'"
    and a: "case a of Ready (Some r) \<Rightarrow> input_size pk' < input_size pk
        | Ready None \<Rightarrow> pk_peeked pk' = Some None \<and> in_shutdown (pk_stream pk')
        | Pending \<Rightarrow> waiting_input pk' \<and> (pk' = pk \<or> input_size pk' < input_size pk)"
    using ok_poll_moves [OF Suc.prems(1)] by blast
  show ?case
  proof (cases "a = Ready None")
    case True
    then have "ok_poll pick now pk' = Some (Ready None, pk')"
      using a by (simp add: ok_poll_def split_oks_poll_def split_case_poll_def pk_peek_def)
    moreover have "n = 0 \<or> n = Suc 0" using Suc.prems(2) p True by (auto simp: ok_answers.simps [of _ _ pk])
    ultimately show ?thesis using p True by (auto simp: ok_answers.simps [of _ _ pk])
  next
    case False
    then have less: "input_size pk' < input_size pk"
      using Suc.prems(2) p(1) by (auto simp: ok_answers.simps [of _ _ pk] split: if_splits)
    then have ans: "ok_answers pick now pk = a # ok_answers pick now pk'" using p(1) False by (simp add: ok_answers.simps [of _ _ pk])
    from Suc.IH [OF p(2)] Suc.prems(2) ans obtain reqs' where
      "peeked_ok (ok_skip pick now n pk')" "moves now pk' reqs' [] (concat (map given (take n (ok_answers pick now pk')))) (ok_skip pick now n pk')" by auto
    then show ?thesis using moves_trans [OF p(3)] p(1) ans by fastforce
  qed
qed

text \<open>The answers end in the end of the stream, or with a request stream that has nothing to give.\<close>

lemma ok_answers_end:
  assumes "peeked_ok pk"
  shows "(\<exists>xs. ok_answers pick now pk = xs @ [Ready None, Ready None] \<and> Ready None \<notin> set xs) \<or> Ready None \<notin> set (ok_answers pick now pk)"
  using assms
proof (induction pick now pk rule: ok_answers.induct)
  case (1 pick now pk)
  obtain a pk' where p: "ok_poll pick now pk = Some (a, pk')" "peeked_ok pk'" using ok_poll_moves [OF "1.prems"] by blast
  show ?case
  proof (cases "a \<noteq> Ready None \<and> input_size pk' < input_size pk")
    case True
    then have "ok_answers pick now pk = a # ok_answers pick now pk'" using p(1) by (simp add: ok_answers.simps [of _ _ pk])
    with "1.IH" [OF p(1) refl] True p(2) show ?thesis by (metis append_Cons list.set_intros(1) set_ConsD)
  next
    case False
    then have "ok_answers pick now pk = [] \<or> ok_answers pick now pk = [Ready None, Ready None]" using p(1) by (auto simp: ok_answers.simps [of _ _ pk])
    then show ?thesis by (metis append_Nil empty_iff empty_set)
  qed
qed

lemma ok_skip_waiting:
  assumes "peeked_ok pk" and "n \<le> length (ok_answers pick now pk)"
    and "0 < n \<and> ok_answers pick now pk ! (n - 1) = Pending \<or> n = length (ok_answers pick now pk) \<and> Ready None \<notin> set (ok_answers pick now pk)"
  shows "waiting_input (ok_skip pick now n pk)"
  using assms
proof (induction n arbitrary: pk)
  case 0
  obtain a pk' where p: "ok_poll pick now pk = Some (a, pk')"
    and a: "case a of Ready (Some r) \<Rightarrow> input_size pk' < input_size pk
        | Ready None \<Rightarrow> pk_peeked pk' = Some None \<and> in_shutdown (pk_stream pk')
        | Pending \<Rightarrow> waiting_input pk' \<and> (pk' = pk \<or> input_size pk' < input_size pk)"
    using ok_poll_moves [OF "0.prems"(1)] by blast
  have "ok_answers pick now pk = []" using 0 by simp
  then have "a \<noteq> Ready None" "\<not> input_size pk' < input_size pk" using p by (auto simp: ok_answers.simps [of _ _ pk] split: if_splits)
  then show ?case using p a by (auto split: poll.splits option.splits)
next
  case (Suc n)
  obtain a pk' where p: "ok_poll pick now pk = Some (a, pk')" "peeked_ok pk'"
    and a: "case a of Ready (Some r) \<Rightarrow> input_size pk' < input_size pk
        | Ready None \<Rightarrow> pk_peeked pk' = Some None \<and> in_shutdown (pk_stream pk')
        | Pending \<Rightarrow> waiting_input pk' \<and> (pk' = pk \<or> input_size pk' < input_size pk)"
    using ok_poll_moves [OF Suc.prems(1)] by blast
  show ?case
  proof (cases "a = Ready None")
    case True
    then have "ok_answers pick now pk = [Ready None, Ready None]" using p by (simp add: ok_answers.simps [of _ _ pk])
    then show ?thesis using Suc.prems(2,3) by (auto simp: less_Suc_eq nth_Cons split: nat.splits)
  next
    case False
    then have less: "input_size pk' < input_size pk"
      using Suc.prems(2) p(1) by (auto simp: ok_answers.simps [of _ _ pk] split: if_splits)
    then have ans: "ok_answers pick now pk = a # ok_answers pick now pk'" using p(1) False by (simp add: ok_answers.simps [of _ _ pk])
    show ?thesis
    proof (cases "n = 0 \<and> a = Pending")
      case True
      then show ?thesis using p a by simp
    next
      case False
      have "0 < n \<and> ok_answers pick now pk' ! (n - 1) = Pending \<or> n = length (ok_answers pick now pk') \<and> Ready None \<notin> set (ok_answers pick now pk')"
        using Suc.prems(3) ans False by (cases n) auto
      then show ?thesis using Suc.IH [OF p(2)] Suc.prems(2) ans p(1) by simp
    qed
  qed
qed

section \<open>An abstract machine for reconciliations\<close>

text \<open>
  What a controller promises, without queues, timers and futures. A request waits in the inbox
  until it is scheduled, which merges it into the demand for its object. A reconciliation starts
  only when it is due and none of the same object is running, and it satisfies the demand of that
  moment. When it finishes it may ask for another one. Events carry the instant they happen at.
\<close>

datatype 'm task_event =
    Requested "'m schedule_request"
  | Scheduled "'m schedule_request"
  | Waited
  | Started 'm
  | Finished 'm "instant option"

record 'm tasks =
  inbox :: "'m schedule_request multiset"
  demand :: "'m \<Rightarrow> msg_state"
  running :: "'m set"

definition due :: "instant \<Rightarrow> msg_state \<Rightarrow> bool" where
  "due now v \<longleftrightarrow> v = Held \<or> (\<exists>t \<le> now. v = Due t)"

definition again_requests :: "'m \<Rightarrow> instant option \<Rightarrow> 'm schedule_request list" where
  "again_requests m again = (case again of None \<Rightarrow> [] | Some t \<Rightarrow> [\<lparr>message = m, req_run_at = t\<rparr>])"

inductive task_step :: "'m tasks \<Rightarrow> instant \<times> 'm task_event \<Rightarrow> 'm tasks \<Rightarrow> bool" where
  requested: "task_step t (now, Requested r) (t\<lparr>inbox := add_mset r (inbox t)\<rparr>)"
| scheduled: "r \<in># inbox t \<Longrightarrow> task_step t (now, Scheduled r)
     (t\<lparr>inbox := inbox t - {#r#}, demand := (demand t)(message r := merge_request (demand t (message r)) (req_run_at r))\<rparr>)"
| waited: "\<forall>m. d m = demand t m \<or> due now (demand t m) \<and> d m = Held \<Longrightarrow> task_step t (now, Waited) (t\<lparr>demand := d\<rparr>)"
| started: "due now (demand t m) \<Longrightarrow> m \<notin> running t \<Longrightarrow>
     task_step t (now, Started m) (t\<lparr>demand := (demand t)(m := Absent), running := insert m (running t)\<rparr>)"
| finished: "m \<in> running t \<Longrightarrow> task_step t (now, Finished m again)
     (t\<lparr>running := running t - {m}, inbox := inbox t + mset (again_requests m again)\<rparr>)"

inductive_cases task_step_cases: "task_step t (now, e) t'"

inductive task_run :: "'m tasks \<Rightarrow> (instant \<times> 'm task_event) list \<Rightarrow> 'm tasks \<Rightarrow> bool" where
  idle: "task_run t [] t"
| more: "task_step t e t' \<Longrightarrow> task_run t' es t'' \<Longrightarrow> task_run t (e # es) t''"

inductive_simps task_run_simps [simp]: "task_run t [] t'" "task_run t (e # es) t'"

lemma task_run_append: "task_run t (es @ fs) t'' \<longleftrightarrow> (\<exists>t'. task_run t es t' \<and> task_run t' fs t'')"
  by (induction es arbitrary: t) auto

lemma scheduled_run:
  "task_run \<lparr>inbox = I + mset rs, demand = v, running = R\<rparr> (map (\<lambda>r. (now, Scheduled r)) rs) \<lparr>inbox = I, demand = merge_all rs v, running = R\<rparr>"
proof (induction rs arbitrary: v)
  case (Cons r rs)
  let ?v = "v(message r := merge_request (v (message r)) (req_run_at r))"
  have "task_step \<lparr>inbox = I + mset (r # rs), demand = v, running = R\<rparr> (now, Scheduled r) \<lparr>inbox = I + mset rs, demand = ?v, running = R\<rparr>"
    using task_step.scheduled [of r "\<lparr>inbox = I + mset (r # rs), demand = v, running = R\<rparr>" now] by simp
  then show ?case using Cons.IH [of ?v] by (auto simp del: fun_upd_apply)
qed simp

lemma requested_run:
  "task_run \<lparr>inbox = I, demand = v, running = R\<rparr> (map (\<lambda>r. (now, Requested r)) rs) \<lparr>inbox = I + mset rs, demand = v, running = R\<rparr>"
proof (induction rs arbitrary: I)
  case (Cons r rs)
  have "task_step \<lparr>inbox = I, demand = v, running = R\<rparr> (now, Requested r) \<lparr>inbox = add_mset r I, demand = v, running = R\<rparr>"
    using task_step.requested [of "\<lparr>inbox = I, demand = v, running = R\<rparr>" now r] by simp
  then show ?case using Cons.IH [of "add_mset r I"] by auto
qed simp

section \<open>What a poll of the runner does to the tasks\<close>

text \<open>What a poll of the scheduler leaves of the answers of its requests.\<close>

fun rest :: "'a stream_script \<Rightarrow> 'a stream_script" where
  "rest [] = []"
| "rest (Ready (Some x) # rs) = rest rs"
| "rest (Ready None # rs) = [Ready None]"
| "rest (Pending # rs) = rs"

lemma drain_requests_rest: "drain_requests E rs s = Inr (b, s') \<Longrightarrow> requests s' = rest rs"
  by (induction E rs s rule: drain_requests.induct) (auto simp: rbind_eq_Inr)

definition poll_events :: "'m schedule_request stream_script \<Rightarrow> 'm option poll \<Rightarrow> 'm task_event list" where
  "poll_events rs r = map Scheduled (ready_items rs) @ (if stream_ends rs then [] else Waited # map Started (given r))"

lemma poll_spec_run:
  assumes "poll_spec now can rs v r v'" and "\<And>m. can m \<Longrightarrow> m \<notin> R"
  shows "task_run \<lparr>inbox = I + mset (ready_items rs), demand = v, running = R\<rparr> (map (Pair now) (poll_events rs r))
     \<lparr>inbox = I, demand = v', running = R \<union> set (given r)\<rparr>"
proof -
  let ?v1 = "merge_all (ready_items rs) v"
  let ?t = "\<lparr>inbox = I, demand = ?v1, running = R\<rparr>"
  have sched: "task_run \<lparr>inbox = I + mset (ready_items rs), demand = v, running = R\<rparr> (map (Pair now) (map Scheduled (ready_items rs))) ?t"
    using scheduled_run [of I "ready_items rs" v R now] by (simp add: comp_def)
  have wait: "task_step ?t (now, Waited) \<lparr>inbox = I, demand = d, running = R\<rparr>" if "\<forall>m. d m = ?v1 m \<or> d m = hold_expired now can ?v1 m" for d
  proof -
    have "hold_expired now can ?v1 m = ?v1 m \<or> due now (?v1 m) \<and> hold_expired now can ?v1 m = Held" for m
      by (cases "?v1 m") (simp_all add: hold_expired_def due_def)
    then have "\<forall>m. d m = ?v1 m \<or> due now (?v1 m) \<and> d m = Held" using that by metis
    then show ?thesis using task_step.waited [of d ?t now] by simp
  qed
  show ?thesis
  proof (cases "stream_ends rs")
    case True
    then show ?thesis using assms(1) sched by (simp add: poll_spec_def poll_events_def)
  next
    case False
    show ?thesis
    proof (cases r)
      case Pending
      then have "pop_spec now can ?v1 Pending v'" using assms(1) False by (simp add: poll_spec_def Let_def)
      then show ?thesis using sched wait [of v'] False Pending by (auto simp: poll_events_def task_run_append pop_spec_def)
    next
      case (Ready x)
      with assms(1) False obtain m where m: "x = Some m" "pop_spec now can ?v1 (Ready m) v'" by (auto simp: poll_spec_def Let_def split: option.splits)
      then have tk: "takeable now can m (?v1 m)" "v' m = Absent" and oth: "\<forall>k. k \<noteq> m \<longrightarrow> v' k = ?v1 k \<or> v' k = hold_expired now can ?v1 k"
        by (auto simp: pop_spec_def)
      let ?d = "v'(m := ?v1 m)"
      have "task_step \<lparr>inbox = I, demand = ?d, running = R\<rparr> (now, Started m) \<lparr>inbox = I, demand = v', running = insert m R\<rparr>"
        using task_step.started [of now "\<lparr>inbox = I, demand = ?d, running = R\<rparr>" m] tk assms(2)
        by (simp add: takeable_def due_def fun_upd_idem)
      moreover have "\<forall>k. ?d k = ?v1 k \<or> ?d k = hold_expired now can ?v1 k" using oth by auto
      ultimately show ?thesis using sched wait [of ?d] False Ready m(1) by (fastforce simp: poll_events_def task_run_append)
    qed
  qed
qed

text \<open>The answers that were consumed: with the end of the stream, the end is left.\<close>

definition consumed :: "'a stream_script \<Rightarrow> 'a stream_script \<Rightarrow> 'a stream_script \<Rightarrow> bool" where
  "consumed rs c rs' \<longleftrightarrow> Ready None \<notin> set c \<and> (rs = c @ rs' \<or> (\<exists>xs. rs = c @ Ready None # xs) \<and> rs' = [Ready None])"

lemma consumed_rest:
  "\<exists>c. consumed rs c (rest rs) \<and> concat (map given c) = ready_items rs
     \<and> (if stream_ends rs then rest rs = [Ready None] \<and> (\<exists>xs. rs = c @ Ready None # xs) else rs = c @ rest rs \<and> (c \<noteq> [] \<and> last c = Pending \<or> rest rs = []))"
proof (induction rs rule: rest.induct)
  case (2 x rs)
  then obtain c where "consumed rs c (rest rs)" "concat (map given c) = ready_items rs"
    "if stream_ends rs then rest rs = [Ready None] \<and> (\<exists>xs. rs = c @ Ready None # xs) else rs = c @ rest rs \<and> (c \<noteq> [] \<and> last c = Pending \<or> rest rs = [])"
    by blast
  then show ?case by (intro exI [of _ "Ready (Some x) # c"]) (auto simp: consumed_def)
next
  case (3 rs)
  then show ?case by (intro exI [of _ "[]"]) (simp add: consumed_def)
next
  case (4 rs)
  then show ?case by (intro exI [of _ "[Pending]"]) (simp add: consumed_def)
qed (simp add: consumed_def)

definition loop_trace :: "instant \<Rightarrow> ('q, 'm, 'r, 'e) runner \<Rightarrow> ('q, 'm, 'r, 'e) runner \<Rightarrow> 'm schedule_request stream_script \<Rightarrow> 'm task_event list \<Rightarrow> bool" where
  "loop_trace now rn rn' c es \<longleftrightarrow>
     consumed (requests (run_scheduler rn)) c (requests (run_scheduler rn'))
     \<and> (ended (run_scheduler rn') \<and> (\<exists>xs. requests (run_scheduler rn) = c @ Ready None # xs)
        \<or> requests (run_scheduler rn) = c @ requests (run_scheduler rn') \<and> (c \<noteq> [] \<and> last c = Pending \<or> requests (run_scheduler rn') = []))
     \<and> (\<forall>e \<in> set es. case e of Scheduled r \<Rightarrow> True | Waited \<Rightarrow> True | Started m \<Rightarrow> True | _ \<Rightarrow> False)
     \<and> (\<forall>I. task_run \<lparr>inbox = I + mset (concat (map given c)), demand = view (run_scheduler rn), running = dom (slots rn)\<rparr>
          (map (Pair now) es) \<lparr>inbox = I, demand = view (run_scheduler rn'), running = dom (slots rn')\<rparr>)"

context delay_queue
begin

lemma hold_unless_rest:
  assumes inv: "sched_inv content s" and poll: "hold_unless_poll_next E now can s = Some (Inr (r, s'))"
  shows "requests s' = rest (requests s)"
proof -
  obtain s1 where s1: "drain_requests E (requests s) s = Inr (stream_ends (requests s), s1)" "sched_inv content s1"
    using drain_requests_ok [OF inv] by blast
  have r1: "requests s1 = rest (requests s)" using drain_requests_rest [OF s1(1)] .
  obtain p s2 where "poll_pop_queue_message E now can s1 = Some (Inr (p, s2))" "requests s2 = requests s1"
    using poll_pop_ok [OF s1(2)] by blast
  then show ?thesis using poll s1(1) r1 by (cases "stream_ends (requests s)"; cases p) (auto simp: hold_unless_poll_next_def)
qed

lemma runner_loop_trace:
  assumes "runner_inv content rn" and "runner_loop E now run_msg active rn = Some (Inr (r, rn'))"
  shows "\<exists>c es. loop_trace now rn rn' c es"
  using assms
proof (induction "work (run_scheduler rn)" arbitrary: rn rule: less_induct)
  case less
  let ?s = "run_scheduler rn"
  have inv: "sched_inv content ?s" "finite (dom (slots rn))" using less.prems(1) by (auto simp: runner_inv_def)
  obtain p s' where ps: "hold_unless_poll_next E now (runner_can_take rn) ?s = Some (Inr (p, s'))"
    "sched_inv content s'" "poll_spec now (runner_can_take rn) (requests ?s) (view ?s) p (view s')"
    using hold_unless_ok [OF inv(1)] by blast
  have rs': "requests s' = rest (requests ?s)" using hold_unless_rest [OF inv(1) ps(1)] .
  obtain c where c: "consumed (requests ?s) c (requests s')" "concat (map given c) = ready_items (requests ?s)"
    "if stream_ends (requests ?s) then requests s' = [Ready None] \<and> (\<exists>xs. requests ?s = c @ Ready None # xs)
     else requests ?s = c @ requests s' \<and> (c \<noteq> [] \<and> last c = Pending \<or> requests s' = [])"
    using consumed_rest [of "requests ?s"] rs' by metis
  let ?es = "poll_events (requests ?s) p"
  have kinds: "\<forall>e \<in> set ?es. case e of Scheduled r \<Rightarrow> True | Waited \<Rightarrow> True | Started m \<Rightarrow> True | _ \<Rightarrow> False"
    by (auto simp: poll_events_def)
  have run: "task_run \<lparr>inbox = I + mset (concat (map given c)), demand = view ?s, running = dom (slots rn)\<rparr> (map (Pair now) ?es)
      \<lparr>inbox = I, demand = view s', running = dom (slots rn) \<union> set (given p)\<rparr>" for I
  proof -
    have "m \<notin> dom (slots rn)" if "runner_can_take rn m" for m using that by (simp add: runner_can_take_def fhm_contains_key_def domIff)
    from poll_spec_run [OF ps(3) this] show ?thesis using c(2) by simp
  qed
  show ?case
  proof (cases "\<exists>m. p = Ready (Some m)")
    case False
    then have rn': "rn' = rn\<lparr>run_scheduler := s'\<rparr>" "given p = []"
      using less.prems(2) ps(1) by (cases p; auto simp: runner_loop.simps [of E now run_msg active rn] split: option.splits)+
    then have "loop_trace now rn rn' c ?es"
      unfolding loop_trace_def using c kinds run by (auto simp: ended_def split: if_splits)
    then show ?thesis by blast
  next
    case True
    then obtain m where m: "p = Ready (Some m)" by blast
    let ?rn = "rn\<lparr>run_scheduler := s', slots := (slots rn)(m \<mapsto> run_msg m)\<rparr>"
    have free: "slots rn m = None" using poll_spec_taken [OF ps(3) [unfolded m]] by (simp add: runner_can_take_def fhm_contains_key_def)
    have ne: "\<not> stream_ends (requests ?s)" using ps(3) m by (auto simp: poll_spec_def)
    have "runner_loop E now run_msg active ?rn = Some (Inr (r, rn'))"
      using less.prems(2) ps(1) m free by (subst (asm) runner_loop.simps) (simp add: fhm_insert_def)
    moreover have "runner_inv content ?rn" using ps(2) inv(2) by (simp add: runner_inv_def)
    moreover have "work (run_scheduler ?rn) < work ?s" using hold_unless_progress [OF inv(1) ps(1) [unfolded m]] by simp
    ultimately obtain c2 es2 where t2: "loop_trace now ?rn rn' c2 es2" using less.hyps [of ?rn] by blast
    have q: "requests ?s = c @ requests s'" "Ready None \<notin> set c" using c ne by (simp_all add: consumed_def)
    have "task_run \<lparr>inbox = I + mset (concat (map given (c @ c2))), demand = view ?s, running = dom (slots rn)\<rparr> (map (Pair now) (?es @ es2))
        \<lparr>inbox = I, demand = view (run_scheduler rn'), running = dom (slots rn')\<rparr>" for I
    proof -
      let ?J = "I + mset (concat (map given c2))"
      have "task_run \<lparr>inbox = ?J, demand = view s', running = dom (slots rn) \<union> set (given p)\<rparr> (map (Pair now) es2)
          \<lparr>inbox = I, demand = view (run_scheduler rn'), running = dom (slots rn')\<rparr>"
        using t2 m by (simp add: loop_trace_def)
      moreover have "I + mset (concat (map given (c @ c2))) = ?J + mset (concat (map given c))" by (simp add: ac_simps)
      ultimately show ?thesis using run [of ?J] unfolding map_append task_run_append by metis
    qed
    moreover have "consumed (requests ?s) (c @ c2) (requests (run_scheduler rn'))"
      "ended (run_scheduler rn') \<and> (\<exists>xs. requests ?s = (c @ c2) @ Ready None # xs)
        \<or> requests ?s = (c @ c2) @ requests (run_scheduler rn') \<and> (c @ c2 \<noteq> [] \<and> last (c @ c2) = Pending \<or> requests (run_scheduler rn') = [])"
      using t2 q by (auto simp: loop_trace_def consumed_def)
    moreover have "\<forall>e \<in> set (?es @ es2). case e of Scheduled r \<Rightarrow> True | Waited \<Rightarrow> True | Started m \<Rightarrow> True | _ \<Rightarrow> False"
      using t2 kinds by (auto simp: loop_trace_def)
    ultimately have "loop_trace now rn rn' (c @ c2) (?es @ es2)" unfolding loop_trace_def by blast
    then show ?thesis by blast
  qed
qed

lemma runner_poll_cases:
  assumes inv: "runner_inv content rn" and ord: "hash_order iter"
    and poll: "runner_poll_next E iter now run_msg rn = Some (Inr (r, rn'))"
  obtains (stopped) "stopped rn" "r = Ready None" "rn' = rn"
    | (result) x m fut where "r = Ready (Some (Inr x))" "slots rn m = Some fut" "answers fut (Ready x)"
        "dom (slots rn') = dom (slots rn) - {m}" "run_scheduler rn' = run_scheduler rn"
    | (failed) e where "r = Ready (Some (Inl (Readiness e)))" "dom (slots rn') = dom (slots rn)" "run_scheduler rn' = run_scheduler rn"
    | (looped) c es where "r = Pending \<or> r = Ready None" "loop_trace now rn rn' c es"
proof (cases "stopped rn")
  case True
  then have "r = Ready None" "rn' = rn" using poll by (simp_all add: runner_poll_next_def)
  with True show ?thesis by (rule stopped)
next
  case ns: False
  obtain sp sl where sp: "fhm_poll_next iter (slots rn) = (sp, sl)" by fastforce
  have fp: "fhm_poll_spec (slots rn) sp sl" using fhm_poll_ok [OF ord _ sp] inv by (simp add: runner_inv_def)
  show ?thesis
  proof (cases "\<exists>x. sp = Ready (Some x)")
    case True
    then obtain x where x: "sp = Ready (Some x)" by blast
    then obtain m fut where m: "slots rn m = Some fut" "answers fut (Ready x)" "sl m = None"
      and oth: "\<And>j. j \<noteq> m \<Longrightarrow> sl j = slots rn j \<or> (\<exists>g. slots rn j = Some g \<and> answers g Pending \<and> sl j = Some (advance g))"
      using fp by (auto simp: fhm_poll_spec_def)
    have "j \<in> dom sl \<longleftrightarrow> j \<in> dom (slots rn) \<and> j \<noteq> m" for j
      using m(3) oth [of j] by (cases "j = m"; cases "slots rn j") auto
    then have "dom sl = dom (slots rn) - {m}" by blast
    then show ?thesis using result [of x m fut] poll ns sp x m by (auto simp: runner_poll_next_def)
  next
    case False
    then have d: "dom sl = dom (slots rn)" using fp by (auto simp: fhm_poll_spec_def split: poll.splits option.splits)
    obtain g fut where g: "poll_fuse (ready_to_execute_after rn) = (g, fut)" by fastforce
    show ?thesis
    proof (cases "\<exists>e. g = Ready (Inl e)")
      case True
      then show ?thesis using failed poll ns sp False g d by (cases sp) (auto simp: runner_poll_next_def Let_def split: option.splits)
    next
      case gate: False
      define rn1 where "rn1 = (case g of Ready _ \<Rightarrow> rn\<lparr>slots := sl, ready_to_execute_after := fut, is_ready_to_execute := True\<rparr>
          | Pending \<Rightarrow> rn\<lparr>slots := sl, ready_to_execute_after := fut\<rparr>)"
      have loop: "runner_loop E now run_msg (sp = Pending) rn1 = Some (Inr (r, rn'))"
        using poll ns sp False g gate
        by (cases sp; cases g) (auto simp: runner_poll_next_def rn1_def Let_def split: option.splits sum.splits)
      have rn1: "run_scheduler rn1 = run_scheduler rn" "slots rn1 = sl" by (simp_all add: rn1_def split: poll.splits)
      have inv1: "runner_inv content rn1" using inv rn1 fhm_poll_finite [OF fp] by (simp add: runner_inv_def)
      obtain c es where "loop_trace now rn1 rn' c es" using runner_loop_trace [OF inv1 loop] by blast
      then have "loop_trace now rn rn' c es" using rn1 d by (simp add: loop_trace_def)
      moreover have "r = Pending \<or> r = Ready None" using runner_loop_ok [OF inv1, of now run_msg "sp = Pending"] loop by (auto simp: loop_spec_def split: if_splits)
      ultimately show ?thesis using looped by blast
    qed
  qed
qed

end

section \<open>The applier\<close>

record ('que, 'dt, 'k, 'e, 'q) applier =
  al_inputs :: "('dt, 'e, 'q) split_inputs"
  al_runner :: "('que, 'dt ref_key, ('dt, 'e, 'q) controller_error + 'dt ref_key \<times> 'k \<times> ('e + action), unit) runner"
  al_via_done :: bool

definition applier_new :: "'que \<Rightarrow> ('q + 'dt reconcile_request) stream_script \<Rightarrow> (unit + unit) future \<Rightarrow> ('que, 'dt, 'k, 'e, 'q) applier" where
  "applier_new timers user_queue wait_until_ready =
     \<lparr>al_inputs = pk_new \<lparr>in_queue = user_queue, in_shutdown = False, in_channel = []\<rparr>,
      al_runner = delay_tasks_until (runner_new (scheduler_new timers []) :: (_, _, _, unit) runner) wait_until_ready, al_via_done = False\<rparr>"

definition key_ref :: "'dt ref_key \<Rightarrow> 'dt kref" where
  "key_ref key = \<lparr>kr_dyntype = fst key, kr_name = fst (snd key), kr_namespace = snd (snd key), kr_extra = extra_default\<rparr>"

text \<open>The future that the runner starts for a request: the reconciler on the stored object, or the error.\<close>

definition run_request :: "'dt resource_class \<Rightarrow> ('dt ref_key \<Rightarrow> 'k \<Rightarrow> ('e + action) future) \<Rightarrow> ('dt ref_key \<Rightarrow> ('dt, 'k) store_writer) \<Rightarrow> 'dt ref_key
     \<Rightarrow> (('dt, 'e, 'q) controller_error + 'dt ref_key \<times> 'k \<times> ('e + action)) future" where
  "run_request K reconciler st key =
     (case store_get (st key) (key_ref key) of
        Some obj \<Rightarrow> map (map_poll (\<lambda>res. Inr (key, obj, res))) (reconciler key obj)
      | None \<Rightarrow> [Ready (Inl (ObjectNotFound (kref_erase K (key_ref key))))])"

text \<open>
  In the poll that completes the reconciler, its result goes through \<open>RescheduleReconciliation\<close>.
  Every clone of the sender has a slot of its own in the channel and the receiver is kept, so
  that the first send of a clone is accepted at once.
\<close>

definition finish_request :: "('k \<Rightarrow> 'e \<Rightarrow> action) \<Rightarrow> instant \<Rightarrow> 'dt ref_key \<times> 'k \<times> ('e + action)
     \<Rightarrow> (('e + action) \<times> 'dt ref_key schedule_request list) option" where
  "finish_request error_policy now = (\<lambda>(key, obj, res).
     (case reschedule_poll (reschedule_new now res (error_policy obj) (key_ref key) \<lparr>tx_ready = Ready (Inr ()), tx_sent = []\<rparr>) of
        Some (Ready r, f) \<Rightarrow> Some (r, map key_request (tx_sent (reschedule_tx f)))
      | _ \<Rightarrow> None))"

definition send_requests :: "'dt ref_key schedule_request list \<Rightarrow> ('dt, 'e, 'q) split_inputs \<Rightarrow> ('dt, 'e, 'q) split_inputs" where
  "send_requests rs pk = pk\<lparr>pk_stream := (pk_stream pk)\<lparr>in_channel := in_channel (pk_stream pk) @ rs\<rparr>\<rparr>"

text \<open>
  The environment of one poll: the instant, the store as it is when the request of a key is
  started, since polling the queue may change it, what the reconciler, which may have state and
  effects, does when it is called for a key in this poll, and which stream the two selections ask
  first.
\<close>

record ('dt, 'k, 'e, 'q) turn =
  at_instant :: instant
  with_store :: "'dt ref_key \<Rightarrow> ('dt, 'k) store_writer"
  reconciler_at :: "'dt ref_key \<Rightarrow> 'k \<Rightarrow> ('e + action) future"
  queue_first :: "('dt, 'q) inputs \<Rightarrow> bool"
  via_first :: bool

record ('que, 'dt, 'k, 'e) applier_env =
  ae_sched :: "('que, 'dt ref_key) sched_env"
  ae_iter :: "'dt ref_key set \<Rightarrow> 'dt ref_key list"
  ae_class :: "'dt resource_class"
  ae_error_policy :: "'k \<Rightarrow> 'e \<Rightarrow> action"

type_synonym ('dt, 'e, 'q) applier_item = "('dt, 'e, 'q) controller_error + 'dt kref \<times> action"

definition via_poll :: "('que, 'dt, 'k, 'e) applier_env \<Rightarrow> ('dt, 'k, 'e, 'q) turn
     \<Rightarrow> (runner_panic, ('que, 'dt, 'k, 'e, 'q) applier, ('dt, 'e, 'q) applier_item) try_poll" where
  "via_poll A u s =
     (if al_via_done s then Some (Inr (Ready None, s))
      else
        let answers = ok_answers (queue_first u) (at_instant u) (al_inputs s);
            rn = (al_runner s)\<lparr>run_scheduler := (run_scheduler (al_runner s))\<lparr>requests := answers\<rparr>\<rparr>
        in case runner_poll_next (ae_sched A) (ae_iter A) (at_instant u) (run_request (ae_class A) (reconciler_at u) (with_store u)) rn of
             None \<Rightarrow> None
           | Some (Inl p) \<Rightarrow> Some (Inl p)
           | Some (Inr (r, rn')) \<Rightarrow>
               let pk = ok_skip (queue_first u) (at_instant u) (length answers - length (requests (run_scheduler rn'))) (al_inputs s);
                   s' = s\<lparr>al_inputs := pk, al_runner := rn'\<rparr>
               in case r of
                    Pending \<Rightarrow> Some (Inr (Pending, s'))
                  | Ready None \<Rightarrow> Some (Inr (Ready None, s'\<lparr>al_via_done := True\<rparr>))
                  | Ready (Some (Inl err)) \<Rightarrow> Some (Inr (Ready (Some (Inl (RunnerError err))), s'))
                  | Ready (Some (Inr (Inl err))) \<Rightarrow> Some (Inr (Ready (Some (Inl err)), s'))
                  | Ready (Some (Inr (Inr (key, obj, res)))) \<Rightarrow>
                      map_option (\<lambda>(result, sent). Inr (Ready (Some (applier_output (ae_class A) (key_ref key, result))),
                          s'\<lparr>al_inputs := send_requests sent pk\<rparr>))
                        (finish_request (ae_error_policy A) (at_instant u) (key, obj, res)))"

definition errs_poll :: "('dt, 'k, 'e, 'q) turn
     \<Rightarrow> (runner_panic, ('que, 'dt, 'k, 'e, 'q) applier, ('dt, 'e, 'q) applier_item) try_poll" where
  "errs_poll u s =
     map_option (\<lambda>(r, pk). Inr (map_poll (map_option Inl) r, s\<lparr>al_inputs := pk\<rparr>)) (err_poll (queue_first u) (at_instant u) (al_inputs s))"

definition applier_poll :: "('que, 'dt, 'k, 'e) applier_env \<Rightarrow> ('dt, 'k, 'e, 'q) turn
     \<Rightarrow> (runner_panic, ('que, 'dt, 'k, 'e, 'q) applier, ('dt, 'e, 'q) applier_item) try_poll" where
  "applier_poll A u = select_try (via_first u) (via_poll A u) (errs_poll u)"

fun applier_polls :: "('que, 'dt, 'k, 'e) applier_env \<Rightarrow> ('dt, 'k, 'e, 'q) turn list \<Rightarrow> ('que, 'dt, 'k, 'e, 'q) applier
     \<Rightarrow> (runner_panic + ('dt, 'e, 'q) applier_item option poll list \<times> ('que, 'dt, 'k, 'e, 'q) applier) option" where
  "applier_polls A [] s = Some (Inr ([], s))"
| "applier_polls A (u # us) s =
     (case applier_poll A u s of
        Some (Inr (r, s1)) \<Rightarrow>
          (case applier_polls A us s1 of
             Some (Inr (rs, s2)) \<Rightarrow> Some (Inr (r # rs, s2))
           | Some (Inl p) \<Rightarrow> Some (Inl p)
           | None \<Rightarrow> None)
      | Some (Inl p) \<Rightarrow> Some (Inl p)
      | None \<Rightarrow> None)"


section \<open>The applier refines the abstract machine\<close>

definition tasks_of :: "('que, 'dt, 'k, 'e, 'q) applier \<Rightarrow> 'dt ref_key tasks" where
  "tasks_of s = \<lparr>inbox = inbox_of (al_inputs s), demand = view (run_scheduler (al_runner s)), running = dom (slots (al_runner s))\<rparr>"

definition outcome_of :: "'dt resource_class \<Rightarrow> 'dt ref_key \<Rightarrow> ('dt, 'e, 'q) controller_error + 'dt ref_key \<times> 'k \<times> ('e + action) \<Rightarrow> bool" where
  "outcome_of K m x \<longleftrightarrow> x = Inl (ObjectNotFound (kref_erase K (key_ref m))) \<or> (\<exists>obj res. x = Inr (m, obj, res))"

definition slots_named :: "'dt resource_class \<Rightarrow> ('dt ref_key, ('dt, 'e, 'q) controller_error + 'dt ref_key \<times> 'k \<times> ('e + action)) future_hash_map \<Rightarrow> bool" where
  "slots_named K sl \<longleftrightarrow> (\<forall>m fut x. sl m = Some fut \<and> Ready x \<in> set fut \<longrightarrow> outcome_of K m x)"

definition applier_inv :: "('que, 'dt, 'k, 'e) applier_env \<Rightarrow> ('que \<Rightarrow> queue_key \<rightharpoonup> 'dt ref_key \<times> instant)
     \<Rightarrow> ('que, 'dt, 'k, 'e, 'q) applier \<Rightarrow> bool" where
  "applier_inv A content s \<longleftrightarrow> runner_inv content (al_runner s) \<and> peeked_ok (al_inputs s)
     \<and> slots_named (ae_class A) (slots (al_runner s))"

text \<open>The requests and results that a trace contains, and how a result is reported.\<close>

definition requested_in :: "'m task_event list \<Rightarrow> 'm schedule_request list" where
  "requested_in es = List.map_filter (\<lambda>e. case e of Requested r \<Rightarrow> Some r | _ \<Rightarrow> None) es"

definition finished_in :: "'m task_event list \<Rightarrow> ('m \<times> instant option) list" where
  "finished_in es = List.map_filter (\<lambda>e. case e of Finished m again \<Rightarrow> Some (m, again) | _ \<Rightarrow> None) es"

lemma events_in_simps [simp]:
  "requested_in [] = []" "requested_in (es @ fs) = requested_in es @ requested_in fs" "requested_in (map (Requested \<circ> f) rs) = map f rs"
  "finished_in [] = []" "finished_in (es @ fs) = finished_in es @ finished_in fs" "finished_in (map (Requested \<circ> f) rs) = []"
  "requested_in [Finished m again] = []" "finished_in [Finished m again] = [(m, again)]"
  by (simp_all add: requested_in_def finished_in_def List.map_filter_simps) (induction rs; simp add: List.map_filter_simps)+

lemma loop_events:
  assumes "\<forall>e \<in> set es. case e of Scheduled r \<Rightarrow> True | Waited \<Rightarrow> True | Started m \<Rightarrow> True | _ \<Rightarrow> False"
  shows "requested_in es = [] \<and> finished_in es = []"
  using assms by (induction es) (auto simp: requested_in_def finished_in_def List.map_filter_simps split: task_event.splits)

lemma event_mem:
  "Requested r \<in> set es \<Longrightarrow> r \<in> set (requested_in es)"
  "Finished m again \<in> set es \<Longrightarrow> finished_in es = [] \<Longrightarrow> False"
  by (induction es) (auto simp: requested_in_def finished_in_def List.map_filter_simps split: task_event.splits)

definition requeue_at :: "instant \<Rightarrow> action \<Rightarrow> instant option" where
  "requeue_at now action = map_option ((+) now) (requeue_after action)"

definition reported :: "('que, 'dt, 'k, 'e) applier_env \<Rightarrow> instant \<Rightarrow> ('dt, 'e, 'q) applier_item list \<Rightarrow> ('dt ref_key \<times> instant option) list \<Rightarrow> 'q list \<Rightarrow> bool" where
  "reported A now items fs errs \<longleftrightarrow>
     (case items of
        [] \<Rightarrow> fs = [] \<and> errs = []
      | [Inr (obj_ref, action)] \<Rightarrow> fs = [(key_of obj_ref, requeue_at now action)] \<and> errs = []
      | [Inl (ReconcilerFailed e obj_ref)] \<Rightarrow> errs = [] \<and>
          (case fs of [(m, again)] \<Rightarrow> obj_ref = kref_erase (ae_class A) (key_ref m) \<and> (\<exists>obj. again = requeue_at now (ae_error_policy A obj e)) | _ \<Rightarrow> False)
      | [Inl (ObjectNotFound obj_ref)] \<Rightarrow> errs = [] \<and>
          (case fs of [(m, again)] \<Rightarrow> obj_ref = kref_erase (ae_class A) (key_ref m) \<and> again = None | _ \<Rightarrow> False)
      | [Inl (QueueError e)] \<Rightarrow> errs = [e] \<and> fs = []
      | [Inl (RunnerError e)] \<Rightarrow> errs = [] \<and> fs = []
      | _ \<Rightarrow> False)"

text \<open>
  One poll, or a part of one, at an instant: it follows the machine through the events \<open>es\<close>, takes
  requests from the front of the queue, and passes on the errors \<open>errs\<close> of the queue.
\<close>

definition follows_tasks :: "('que, 'dt, 'k, 'e) applier_env \<Rightarrow> ('que \<Rightarrow> queue_key \<rightharpoonup> 'dt ref_key \<times> instant) \<Rightarrow> instant
     \<Rightarrow> ('que, 'dt, 'k, 'e, 'q) applier \<Rightarrow> 'dt ref_key task_event list \<Rightarrow> 'q list \<Rightarrow> ('que, 'dt, 'k, 'e, 'q) applier \<Rightarrow> bool" where
  "follows_tasks A content now s es errs s' \<longleftrightarrow>
     applier_inv A content s' \<and> task_run (tasks_of s) (map (Pair now) es) (tasks_of s')
     \<and> (\<exists>reqs. asks (al_inputs s) = reqs @ asks (al_inputs s') \<and> requested_in es = map (ask now) reqs)
     \<and> errors_left (al_inputs s) = errs @ errors_left (al_inputs s')"

lemma follows_tasks_refl: "applier_inv A content s \<Longrightarrow> follows_tasks A content now s [] [] s"
  by (simp add: follows_tasks_def)

lemma follows_tasks_trans:
  "follows_tasks A content now s1 es1 errs1 s2 \<Longrightarrow> follows_tasks A content now s2 es2 errs2 s3
     \<Longrightarrow> follows_tasks A content now s1 (es1 @ es2) (errs1 @ errs2) s3"
  by (auto simp: follows_tasks_def task_run_append)

lemma inbox_send: "inbox_of (send_requests rs pk) = inbox_of pk + mset rs"
  "asks (send_requests rs pk) = asks pk" "errors_left (send_requests rs pk) = errors_left pk" "peeked_ok (send_requests rs pk) = peeked_ok pk"
  by (simp_all add: input_defs send_requests_def)

lemma finish_request_eq:
  "finish_request ep now (key, obj, res) =
     Some (res, again_requests key (requeue_at now (case res of Inl e \<Rightarrow> ep obj e | Inr action \<Rightarrow> action)))"
  by (cases res; cases "requeue_after (case res of Inl e \<Rightarrow> ep obj e | Inr action \<Rightarrow> action)")
    (simp_all add: finish_request_def reschedule_new_def reschedule_poll_def requeue_at_def again_requests_def key_request_def
      key_ref_def key_of_def)

lemma key_of_ref [simp]: "key_of (key_ref key) = key"
  by (simp add: key_of_def key_ref_def)

lemma run_request_outcome: "Ready x \<in> set (run_request K reconciler st m) \<Longrightarrow> outcome_of K m x"
proof -
  assume "Ready x \<in> set (run_request K reconciler st m)"
  moreover have "\<exists>res. x = Inr (m, obj, res)" if "Ready x = map_poll (\<lambda>res. Inr (m, obj, res)) p" for obj p using that by (cases p) auto
  ultimately show ?thesis by (auto simp: run_request_def outcome_of_def split: option.splits)
qed

lemma slot_outcomes:
  assumes "slots_spec (run_request (ae_class A) reconciler st) rn r rn'"
    and "slots_named (ae_class A) (slots rn)"
  shows "slots_named (ae_class A) (slots rn')"
  unfolding slots_named_def
proof (intro allI impI, elim conjE)
  fix m fut x assume f: "slots rn' m = Some fut" "Ready x \<in> set fut"
  have adv: "set (advance g) \<subseteq> set g" for g :: "'z future" by (cases g) (auto simp: advance_def)
  have "case slots rn m of Some g \<Rightarrow> slot_kept r g (slots rn' m)
      | None \<Rightarrow> slots rn' m = None \<or> slots rn' m = Some (run_request (ae_class A) reconciler st m) \<and> is_ready_to_execute rn'"
    using assms(1) unfolding slots_spec_def by blast
  then consider g where "slots rn m = Some g" "set fut \<subseteq> set g" | "fut = run_request (ae_class A) reconciler st m"
    using f(1) adv by (cases "slots rn m") (auto simp: slot_kept_def)
  then show "outcome_of (ae_class A) m x"
  proof cases
    case 1
    then show ?thesis using assms(2) f(2) unfolding slots_named_def by blast
  next
    case 2
    then show ?thesis using f(2) run_request_outcome by fast
  qed
qed

text \<open>The part of the input that a poll of the runner consumed is what the trace of its loop consumed.\<close>

lemma first_eq: "xs @ y # zs = xs' @ y # zs' \<Longrightarrow> y \<notin> set xs \<Longrightarrow> y \<notin> set xs' \<Longrightarrow> xs = xs'"
proof (induction xs arbitrary: xs')
  case Nil
  then show ?case by (cases xs') auto
next
  case (Cons x xs)
  then show ?case by (cases xs') auto
qed

lemma skipped_answers:
  assumes "peeked_ok pk" and "ok_answers pick now pk = ans"
    and "loop_trace now rn rn' c es" and "requests (run_scheduler rn) = ans"
  defines "n \<equiv> length ans - length (requests (run_scheduler rn'))"
  shows "n \<le> length ans \<and> concat (map given (take n ans)) = concat (map given c)
     \<and> (if ended (run_scheduler rn') then 0 < n \<and> ans ! (n - 1) = Ready None
        else 0 < n \<and> ans ! (n - 1) = Pending \<or> n = length ans \<and> Ready None \<notin> set ans)"
proof -
  from assms(3) consider (cut) "ans = c @ requests (run_scheduler rn')" "c \<noteq> [] \<and> last c = Pending \<or> requests (run_scheduler rn') = []" "Ready None \<notin> set c"
    | (fin) xs where "ended (run_scheduler rn')" "ans = c @ Ready None # xs" "Ready None \<notin> set c"
    unfolding loop_trace_def consumed_def assms(4) by blast
  then show ?thesis
  proof cases
    case cut
    then have n: "n = length c" unfolding n_def by simp
    moreover have "ans ! (length c - 1) = last c" if "c \<noteq> []" using cut(1) that by (simp add: nth_append last_conv_nth)
    moreover have "\<not> ended (run_scheduler rn')"
    proof
      assume "ended (run_scheduler rn')"
      then have "ans = c @ [Ready None]" using cut(1) by (simp add: ended_def)
      then show False using ok_answers_end [OF assms(1), of pick now] assms(2) cut(3) by auto
    qed
    ultimately show ?thesis using cut by auto
  next
    case fin
    then obtain ys where ys: "ans = ys @ [Ready None, Ready None]" "Ready None \<notin> set ys" using ok_answers_end [OF assms(1), of pick now] assms(2) by auto
    have "c = ys" using first_eq [of c "Ready None" xs ys "[Ready None]"] fin(2,3) ys by simp
    moreover have "requests (run_scheduler rn') = [Ready None]" using fin(1) by (simp add: ended_def)
    ultimately show ?thesis using ys fin(1) by (simp add: n_def)
  qed
qed

lemma ok_skip_shutdown:
  assumes "peeked_ok pk" and "n \<le> length (ok_answers pick now pk)" and "0 < n" and "ok_answers pick now pk ! (n - 1) = Ready None"
  shows "in_shutdown (pk_stream (ok_skip pick now n pk))"
  using assms
proof (induction n arbitrary: pk)
  case (Suc n)
  obtain a pk' where p: "ok_poll pick now pk = Some (a, pk')" "peeked_ok pk'"
    and a: "case a of Ready (Some r) \<Rightarrow> input_size pk' < input_size pk
        | Ready None \<Rightarrow> pk_peeked pk' = Some None \<and> in_shutdown (pk_stream pk')
        | Pending \<Rightarrow> waiting_input pk' \<and> (pk' = pk \<or> input_size pk' < input_size pk)"
    using ok_poll_moves [OF Suc.prems(1)] by blast
  show ?case
  proof (cases "a = Ready None")
    case True
    then have "ok_poll pick now pk' = Some (Ready None, pk')" "in_shutdown (pk_stream pk')"
      using a by (simp_all add: ok_poll_def split_oks_poll_def split_case_poll_def pk_peek_def)
    moreover have "n = 0 \<or> n = Suc 0" using Suc.prems(2) p True by (auto simp: ok_answers.simps [of _ _ pk])
    ultimately show ?thesis using p by auto
  next
    case False
    then have "input_size pk' < input_size pk"
      using Suc.prems(2) p(1) by (auto simp: ok_answers.simps [of _ _ pk] split: if_splits)
    then have ans: "ok_answers pick now pk = a # ok_answers pick now pk'" using p(1) False by (simp add: ok_answers.simps [of _ _ pk])
    then have "0 < n" using Suc.prems(4) False by (cases n) auto
    then show ?thesis using Suc.IH [OF p(2)] Suc.prems(2,4) ans p(1) by (simp add: nth_Cons')
  qed
qed simp

text \<open>What a poll says about the state it leaves: at a pause, everything that can be started was started.\<close>

definition settled :: "instant \<Rightarrow> ('que, 'dt, 'k, 'e, 'q) applier \<Rightarrow> bool" where
  "settled now s \<longleftrightarrow> (\<exists>e. pk_peeked (al_inputs s) = Some (Some (Inl e))) \<or> inbox (tasks_of s) = {#}
     \<and> (is_ready_to_execute (al_runner s) \<longrightarrow> (\<forall>m. due now (demand (tasks_of s) m) \<longrightarrow> m \<in> running (tasks_of s)))"

lemma settledI: "waiting_input (al_inputs s) \<Longrightarrow> \<not> starved now (al_runner s) \<Longrightarrow> settled now s"
  unfolding settled_def waiting_input_def starved_def tasks_of_def inbox_of_def due_def domIff tasks.simps
  by (elim disjE conjE) (blast, simp, metis)

definition via_spec :: "('dt, 'k, 'e, 'q) turn \<Rightarrow> ('que, 'dt, 'k, 'e, 'q) applier \<Rightarrow> ('dt, 'e, 'q) applier_item option poll \<Rightarrow> ('que, 'dt, 'k, 'e, 'q) applier \<Rightarrow> bool" where
  "via_spec u s r s' \<longleftrightarrow>
     (r = Pending \<longrightarrow> in_shutdown (pk_stream (al_inputs s')) \<or> settled (at_instant u) s')
     \<and> (al_via_done s' \<longleftrightarrow> r = Ready None)"

lemma via_poll_follows:
  fixes A :: "('que, 'dt, 'k, 'e) applier_env" and u :: "('dt, 'k, 'e, 'q) turn"
  assumes dq: "delay_queue (ae_sched A) content" and ord: "hash_order (ae_iter A)" and inv: "applier_inv A content s"
  shows "\<exists>r s' es. via_poll A u s = Some (Inr (r, s')) \<and> follows_tasks A content (at_instant u) s es [] s'
     \<and> reported A (at_instant u) (given r) (finished_in es) [] \<and> via_spec u s r s'"
proof (cases "al_via_done s")
  case True
  then show ?thesis using follows_tasks_refl [OF inv, of "at_instant u"]
    by (intro exI [of _ "Ready None"] exI [of _ s] exI [of _ "[]"]) (simp add: via_poll_def reported_def via_spec_def)
next
  case open_stream: False
  define ans where "ans = ok_answers (queue_first u) (at_instant u) (al_inputs s)"
  define rn where "rn = (al_runner s)\<lparr>run_scheduler := (run_scheduler (al_runner s))\<lparr>requests := ans\<rparr>\<rparr>"
  define run_msg :: "'dt ref_key \<Rightarrow> (('dt, 'e, 'q) controller_error + 'dt ref_key \<times> 'k \<times> ('e + action)) future"
    where "run_msg = run_request (ae_class A) (reconciler_at u) (with_store u)"
  have inv': "runner_inv content rn" "peeked_ok (al_inputs s)" "slots rn = slots (al_runner s)" "view (run_scheduler rn) = view (run_scheduler (al_runner s))"
    using inv by (auto simp: applier_inv_def rn_def runner_inv_def)
  obtain r rn' where p: "runner_poll_next (ae_sched A) (ae_iter A) (at_instant u) run_msg rn = Some (Inr (r, rn'))"
    "runner_inv content rn'" "runner_spec (at_instant u) run_msg rn r rn'"
    using delay_queue.runner_poll_ok [OF dq inv'(1) ord] by blast
  define pk where "pk = ok_skip (queue_first u) (at_instant u) (length ans - length (requests (run_scheduler rn'))) (al_inputs s)"
  define s1 where "s1 = s\<lparr>al_inputs := pk, al_runner := rn'\<rparr>"
  have poll: "via_poll A u s = (case r of
        Pending \<Rightarrow> Some (Inr (Pending, s1))
      | Ready None \<Rightarrow> Some (Inr (Ready None, s1\<lparr>al_via_done := True\<rparr>))
      | Ready (Some (Inl err)) \<Rightarrow> Some (Inr (Ready (Some (Inl (RunnerError err))), s1))
      | Ready (Some (Inr (Inl err))) \<Rightarrow> Some (Inr (Ready (Some (Inl err)), s1))
      | Ready (Some (Inr (Inr (key, obj, res)))) \<Rightarrow>
          map_option (\<lambda>(result, sent). Inr (Ready (Some (applier_output (ae_class A) (key_ref key, result))), s1\<lparr>al_inputs := send_requests sent pk\<rparr>))
            (finish_request (ae_error_policy A) (at_instant u) (key, obj, res)))"
    using p(1) open_stream by (simp add: via_poll_def Let_def ans_def rn_def run_msg_def pk_def s1_def split: poll.split option.split sum.split)
  have outcomes: "slots_named (ae_class A) (slots rn')"
  proof (cases "stopped rn")
    case True
    then show ?thesis using p(3) inv inv'(3) by (simp add: runner_spec_def applier_inv_def)
  next
    case False
    then have "slots_spec run_msg rn r rn'" using p(3) by (simp add: runner_spec_def)
    from slot_outcomes [OF this [unfolded run_msg_def]] show ?thesis using inv inv'(3) by (simp add: applier_inv_def)
  qed
  have idle: "pk = al_inputs s" if "run_scheduler rn' = run_scheduler rn" using that by (simp add: pk_def rn_def)
  from inv'(1) ord p(1) show ?thesis
  proof (cases rule: delay_queue.runner_poll_cases [OF dq, consumes 3, case_names stopped result failed looped])
    case stopped
    then have "follows_tasks A content (at_instant u) s [] [] (s1\<lparr>al_via_done := True\<rparr>)"
      using inv inv' idle outcomes p(2) by (simp add: follows_tasks_def applier_inv_def tasks_of_def s1_def)
    then show ?thesis using poll stopped
      by (intro exI [of _ "Ready None"] exI [of _ "s1\<lparr>al_via_done := True\<rparr>"] exI [of _ "[]"]) (simp add: reported_def via_spec_def)
  next
    case (failed e)
    then have "follows_tasks A content (at_instant u) s [] [] s1"
      using inv inv' idle outcomes p(2) by (simp add: follows_tasks_def applier_inv_def tasks_of_def s1_def)
    then show ?thesis using poll failed open_stream
      by (intro exI [of _ "Ready (Some (Inl (RunnerError (Readiness e))))"] exI [of _ s1] exI [of _ "[]"]) (simp add: reported_def via_spec_def s1_def)
  next
    case (looped c es)
    let ?n = "length ans - length (requests (run_scheduler rn'))"
    have "requests (run_scheduler rn) = ans" by (simp add: rn_def)
    note sk = skipped_answers [OF inv'(2) ans_def [symmetric] looped(2) this]
    have n: "?n \<le> length ans" "concat (map given (take ?n ans)) = concat (map given c)"
      "if ended (run_scheduler rn') then 0 < ?n \<and> ans ! (?n - 1) = Ready None
       else 0 < ?n \<and> ans ! (?n - 1) = Pending \<or> ?n = length ans \<and> Ready None \<notin> set ans"
      using sk by blast+
    obtain reqs where pk: "peeked_ok pk" "moves (at_instant u) (al_inputs s) reqs [] (concat (map given c)) pk"
      using ok_skip_moves [OF inv'(2), of ?n "queue_first u" "at_instant u"] n(1,2) by (auto simp: ans_def pk_def)
    let ?es = "map Requested (map (ask (at_instant u)) reqs) @ es"
    have "task_run (tasks_of s) (map (Pair (at_instant u)) ?es) (tasks_of s1)"
    proof -
      let ?t = "\<lparr>inbox = inbox_of (al_inputs s) + mset (map (ask (at_instant u)) reqs), demand = view (run_scheduler rn), running = dom (slots rn)\<rparr>"
      have "task_run (tasks_of s) (map (Pair (at_instant u)) (map Requested (map (ask (at_instant u)) reqs))) ?t"
        using requested_run [of "inbox_of (al_inputs s)" "view (run_scheduler rn)" "dom (slots rn)" "at_instant u" "map (ask (at_instant u)) reqs"] inv'(3,4)
        by (simp add: tasks_of_def comp_def)
      moreover have "?t = \<lparr>inbox = inbox_of pk + mset (concat (map given c)), demand = view (run_scheduler rn), running = dom (slots rn)\<rparr>"
        using pk(2) by (simp add: moves_def)
      then have "task_run ?t (map (Pair (at_instant u)) es) (tasks_of s1)" using looped(2) by (simp add: loop_trace_def tasks_of_def s1_def)
      ultimately show ?thesis unfolding map_append task_run_append by blast
    qed
    moreover have none: "requested_in es = [] \<and> finished_in es = []" using looped(2) unfolding loop_trace_def by (intro loop_events) blast
    ultimately have f: "follows_tasks A content (at_instant u) s ?es [] s1" "follows_tasks A content (at_instant u) s ?es [] (s1\<lparr>al_via_done := True\<rparr>)"
      using pk outcomes p(2) by (auto simp: follows_tasks_def applier_inv_def tasks_of_def s1_def moves_def)
    have settled: "in_shutdown (pk_stream (al_inputs s1)) \<or> settled (at_instant u) s1" if "r = Pending"
    proof (cases "ended (run_scheduler rn')")
      case True
      then have "in_shutdown (pk_stream pk)" using ok_skip_shutdown [OF inv'(2)] n unfolding ans_def pk_def by simp
      then show ?thesis by (simp add: s1_def)
    next
      case False
      then have "waiting_input pk" using ok_skip_waiting [OF inv'(2)] n unfolding ans_def pk_def by simp
      moreover have "\<not> starved (at_instant u) rn'" using p(3) that False by (simp add: runner_spec_def split: if_splits)
      ultimately show ?thesis using settledI [of s1] by (simp add: s1_def)
    qed
    from looped(1) show ?thesis
    proof
      assume "r = Pending"
      then show ?thesis using poll f(1) none settled open_stream
        by (intro exI [of _ Pending] exI [of _ s1] exI [of _ ?es]) (simp add: reported_def via_spec_def s1_def)
    next
      assume "r = Ready None"
      then show ?thesis using poll f(2) none
        by (intro exI [of _ "Ready None"] exI [of _ "s1\<lparr>al_via_done := True\<rparr>"] exI [of _ ?es]) (simp add: reported_def via_spec_def)
    qed
  next
    case (result x m fut)
    have "Ready x \<in> set fut" using result(3) by (cases fut) (auto simp: answers_def)
    then have "outcome_of (ae_class A) m x" using inv inv'(3) result(2) unfolding applier_inv_def slots_named_def by metis
    moreover have m: "m \<in> running (tasks_of s)" using result(2) inv'(3) by (auto simp: tasks_of_def)
    have fin: "follows_tasks A content (at_instant u) s [Finished m again] [] (s1\<lparr>al_inputs := send_requests (again_requests m again) pk\<rparr>)" for again
    proof -
      have "task_step (tasks_of s) (at_instant u, Finished m again) (tasks_of (s1\<lparr>al_inputs := send_requests (again_requests m again) pk\<rparr>))"
        using task_step.finished [OF m, of "at_instant u" again] result(4,5) idle inv'(3,4) by (simp add: tasks_of_def s1_def inbox_send)
      then show ?thesis using idle result(5) inv'(2) outcomes p(2) by (simp add: follows_tasks_def applier_inv_def inbox_send s1_def)
    qed
    ultimately consider (missing) "x = Inl (ObjectNotFound (kref_erase (ae_class A) (key_ref m)))" | (finished) obj res where "x = Inr (m, obj, res)"
      unfolding outcome_of_def by blast
    then show ?thesis
    proof cases
      case missing
      have "s1\<lparr>al_inputs := send_requests (again_requests m None) pk\<rparr> = s1" by (cases s) (simp add: again_requests_def send_requests_def s1_def)
      then have "follows_tasks A content (at_instant u) s [Finished m None] [] s1" using fin [of None] by simp
      then show ?thesis using poll result(1) missing open_stream
        by (intro exI [of _ "Ready (Some (Inl (ObjectNotFound (kref_erase (ae_class A) (key_ref m)))))"] exI [of _ s1] exI [of _ "[Finished m None]"])
          (auto simp: reported_def via_spec_def s1_def)
    next
      case finished
      let ?again = "requeue_at (at_instant u) (case res of Inl e \<Rightarrow> ae_error_policy A obj e | Inr action \<Rightarrow> action)"
      let ?s = "s1\<lparr>al_inputs := send_requests (again_requests m ?again) pk\<rparr>"
      have "via_poll A u s = Some (Inr (Ready (Some (applier_output (ae_class A) (key_ref m, res))), ?s))"
        using poll result(1) finished by (simp add: finish_request_eq)
      moreover have "reported A (at_instant u) [applier_output (ae_class A) (key_ref m, res)] [(m, ?again)] []"
        by (cases res) (auto simp: reported_def applier_output_def)
      ultimately show ?thesis using fin [of ?again] open_stream
        by (intro exI [of _ "Ready (Some (applier_output (ae_class A) (key_ref m, res)))"] exI [of _ ?s] exI [of _ "[Finished m ?again]"])
          (simp add: via_spec_def s1_def)
    qed
  qed
qed

lemma errs_poll_follows:
  fixes A :: "('que, 'dt, 'k, 'e) applier_env" and u :: "('dt, 'k, 'e, 'q) turn"
  assumes inv: "applier_inv A content s"
  shows "\<exists>r s' es errs. errs_poll u s = Some (Inr (r, s')) \<and> follows_tasks A content (at_instant u) s es errs s'
     \<and> reported A (at_instant u) (given r) (finished_in es) errs \<and> al_runner s' = al_runner s \<and> al_via_done s' = al_via_done s
     \<and> demand (tasks_of s') = demand (tasks_of s) \<and> set es \<subseteq> range Requested
     \<and> (r = Ready None \<or> in_shutdown (pk_stream (al_inputs s)) \<longrightarrow> in_shutdown (pk_stream (al_inputs s')))
     \<and> (r = Pending \<longrightarrow> (\<forall>e. pk_peeked (al_inputs s) \<noteq> Some (Some (Inl e))))"
proof -
  obtain a pk reqs errs where p: "err_poll (queue_first u) (at_instant u) (al_inputs s) = Some (a, pk)" "peeked_ok pk"
    "moves (at_instant u) (al_inputs s) reqs errs [] pk" "given a = map QueueError errs" "a = Ready None \<longrightarrow> in_shutdown (pk_stream pk)"
    using err_poll_moves [of "al_inputs s" "queue_first u" "at_instant u"] inv by (auto simp: applier_inv_def)
  let ?s = "s\<lparr>al_inputs := pk\<rparr>" and ?es = "map (Requested \<circ> ask (at_instant u)) reqs" and ?r = "map_poll (map_option Inl) a"
  have poll: "errs_poll u s = Some (Inr (?r, ?s))" using p(1) by (simp add: errs_poll_def)
  have "task_run (tasks_of s) (map (Pair (at_instant u)) ?es) (tasks_of ?s)"
    using requested_run [of "inbox_of (al_inputs s)" "view (run_scheduler (al_runner s))" "dom (slots (al_runner s))" "at_instant u" "map (ask (at_instant u)) reqs"] p(3)
    by (simp add: tasks_of_def moves_def comp_def)
  then have "follows_tasks A content (at_instant u) s ?es errs ?s"
    using inv p(2,3) by (auto simp: follows_tasks_def applier_inv_def moves_def)
  moreover have "reported A (at_instant u) (given ?r) [] errs" "?r = Ready None \<longleftrightarrow> a = Ready None" "?r = Pending \<longleftrightarrow> a = Pending"
    using p(4) by (cases a; auto simp: reported_def given_def split: option.splits)+
  moreover have "in_shutdown (pk_stream (al_inputs s)) \<longrightarrow> in_shutdown (pk_stream pk)" using p(3) by (simp add: moves_def)
  moreover have "a \<noteq> Pending" if "pk_peeked (al_inputs s) = Some (Some (Inl e))" for e
    using p(1) that by (auto simp: err_poll_def split_errs_poll_def split_case_poll_def pk_peek_def pk_poll_next_def)
  ultimately show ?thesis using poll p(5)
    by (intro exI [of _ ?r] exI [of _ ?s] exI [of _ ?es] exI [of _ errs]) (auto simp: tasks_of_def)
qed

subsection \<open>Demand is kept until it is met\<close>

definition owed :: "'m tasks \<Rightarrow> 'm schedule_request \<Rightarrow> bool" where
  "owed t r \<longleftrightarrow> r \<in># inbox t \<or> demand t (message r) = Held \<or> (\<exists>i \<le> req_run_at r. demand t (message r) = Due i)"

lemma in_remove_other: "r \<noteq> q \<Longrightarrow> r \<in># I - {#q#} \<longleftrightarrow> r \<in># I"
  by (simp add: in_diff_count)

lemma owed_step: "task_step t (now, e) t' \<Longrightarrow> owed t r \<Longrightarrow> e \<noteq> Started (message r) \<Longrightarrow> owed t' r"
proof (induction t "(now, e)" t' rule: task_step.induct)
  case (scheduled q t)
  show ?case
  proof (cases "message q = message r")
    case True
    then have "merge_request (demand t (message r)) (req_run_at q) = Held
        \<or> (\<exists>i \<le> req_run_at r. merge_request (demand t (message r)) (req_run_at q) = Due i)" if "r \<notin># inbox t - {#q#}"
    proof -
      have "r \<in># inbox t \<Longrightarrow> r = q" using that in_remove_other [of r q "inbox t"] by (cases "r = q") simp_all
      then consider "r = q" | "demand t (message r) = Held" | i where "i \<le> req_run_at r" "demand t (message r) = Due i"
        using scheduled.prems(1) unfolding owed_def by blast
      then show ?thesis
      proof cases
        case 1
        then show ?thesis by (cases "demand t (message q)") simp_all
      qed (simp_all add: min_le_iff_disj)
    qed
    with True show ?thesis by (auto simp: owed_def)
  next
    case False
    then have "q \<noteq> r" by auto
    with False scheduled.prems show ?thesis by (auto simp: owed_def in_remove_other)
  qed
next
  case (waited d t)
  then show ?case unfolding owed_def by simp metis
next
  case (started t m)
  then show ?case by (auto simp: owed_def)
qed (auto simp: owed_def)

lemma owed_run:
  "task_run t es t' \<Longrightarrow> owed t r \<Longrightarrow> owed t' r \<or> Started (message r) \<in> snd ` set es"
proof (induction rule: task_run.induct)
  case (more t e t' es t'')
  then show ?case using owed_step [of t "fst e" "snd e" t' r] by (cases "snd e = Started (message r)") auto
qed simp

lemma settled_owed:
  assumes "settled now s" "\<forall>e. pk_peeked (al_inputs s) \<noteq> Some (Some (Inl e))" "is_ready_to_execute (al_runner s)"
    and "owed (tasks_of s) r" "req_run_at r \<le> now"
  shows "message r \<in> running (tasks_of s)"
proof -
  have "inbox (tasks_of s) = {#}" and run: "\<And>m. due now (demand (tasks_of s) m) \<Longrightarrow> m \<in> running (tasks_of s)"
    using assms(1-3) unfolding settled_def by auto
  then have "due now (demand (tasks_of s) (message r))" using assms(4,5) by (auto simp: owed_def due_def)
  then show ?thesis by (rule run)
qed

text \<open>
  A pending poll has started everything that was due before it, unless the applier is shutting
  down, its runner has given up, or an error waits to be passed on by the next poll.
\<close>

definition pause_spec :: "('dt, 'k, 'e, 'q) turn \<Rightarrow> ('que, 'dt, 'k, 'e, 'q) applier \<Rightarrow> 'dt ref_key task_event list \<Rightarrow> ('que, 'dt, 'k, 'e, 'q) applier \<Rightarrow> bool" where
  "pause_spec u s es s' \<longleftrightarrow>
     al_via_done s' \<or> in_shutdown (pk_stream (al_inputs s')) \<or> (\<exists>e. pk_peeked (al_inputs s') = Some (Some (Inl e)))
     \<or> \<not> is_ready_to_execute (al_runner s')
     \<or> (\<forall>q. owed (tasks_of s) q \<and> req_run_at q \<le> at_instant u \<longrightarrow> Started (message q) \<in> set es \<or> message q \<in> running (tasks_of s'))"

lemma reported_nothing: "reported A now [] fs errs \<longleftrightarrow> fs = [] \<and> errs = []"
  by (simp add: reported_def)

lemma owed_follows:
  assumes "follows_tasks A content now s es errs s'" "owed (tasks_of s) q"
  shows "owed (tasks_of s') q \<or> Started (message q) \<in> set es"
proof -
  have "task_run (tasks_of s) (map (Pair now) es) (tasks_of s')" using assms(1) by (simp add: follows_tasks_def)
  from owed_run [OF this assms(2)] show ?thesis by auto
qed

lemma applier_poll_follows:
  fixes A :: "('que, 'dt, 'k, 'e) applier_env" and u :: "('dt, 'k, 'e, 'q) turn"
  assumes dq: "delay_queue (ae_sched A) content" and ord: "hash_order (ae_iter A)" and inv: "applier_inv A content s"
  shows "\<exists>r s' es errs. applier_poll A u s = Some (Inr (r, s')) \<and> follows_tasks A content (at_instant u) s es errs s'
     \<and> reported A (at_instant u) (given r) (finished_in es) errs \<and> (r = Pending \<longrightarrow> pause_spec u s es s')"
proof (cases "via_first u")
  case True
  obtain r1 s1 es1 where v: "via_poll A u s = Some (Inr (r1, s1))" "follows_tasks A content (at_instant u) s es1 [] s1"
    "reported A (at_instant u) (given r1) (finished_in es1) []" "via_spec u s r1 s1" using via_poll_follows [OF dq ord inv] by blast
  show ?thesis
  proof (cases "\<exists>x. r1 = Ready (Some x)")
    case item: True
    then have "applier_poll A u s = Some (Inr (r1, s1))" using v(1) True by (auto simp: applier_poll_def select_try_def)
    then show ?thesis using v(2,3) item by (intro exI [of _ r1] exI [of _ s1] exI [of _ es1] exI [of _ "[]"]) auto
  next
    case no_item: False
    then have g1: "given r1 = []" by (cases r1) (auto simp: given_def split: option.splits)
    have "applier_inv A content s1" using v(2) by (simp add: follows_tasks_def)
    then obtain r2 s2 es2 errs where e: "errs_poll u s1 = Some (Inr (r2, s2))" "follows_tasks A content (at_instant u) s1 es2 errs s2"
      "reported A (at_instant u) (given r2) (finished_in es2) errs" "al_runner s2 = al_runner s1" "al_via_done s2 = al_via_done s1"
      "r2 = Ready None \<or> in_shutdown (pk_stream (al_inputs s1)) \<longrightarrow> in_shutdown (pk_stream (al_inputs s2))"
      "r2 = Pending \<longrightarrow> (\<forall>e. pk_peeked (al_inputs s1) \<noteq> Some (Some (Inl e)))"
      using errs_poll_follows by blast
    define r where "r = (if r2 = Ready None then (if r1 = Ready None then Ready None else Pending) else r2)"
    have "applier_poll A u s = Some (Inr (r, s2))"
      using v(1) e(1) no_item True
      by (cases r1; cases r2) (auto simp: applier_poll_def select_try_def r_def split: option.splits)
    moreover have "follows_tasks A content (at_instant u) s (es1 @ es2) errs s2" using follows_tasks_trans [OF v(2) e(2)] by simp
    moreover have "reported A (at_instant u) (given r) (finished_in (es1 @ es2)) errs"
      using v(3) e(3) g1 by (auto simp: reported_nothing r_def)
    moreover have "pause_spec u s (es1 @ es2) s2" if "r = Pending"
    proof (cases "r1 = Pending \<and> settled (at_instant u) s1 \<and> r2 = Pending \<and> is_ready_to_execute (al_runner s1)")
      case True
      have "message q \<in> running (tasks_of s2)" if "owed (tasks_of s1) q" "req_run_at q \<le> at_instant u" for q
        using settled_owed [of "at_instant u" s1 q] True e(4,7) that by (simp add: tasks_of_def)
      then show ?thesis using owed_follows [OF v(2)] by (auto simp: pause_spec_def)
    next
      case False
      then show ?thesis using v(4) e(4,5,6) that no_item by (cases r1) (auto simp: pause_spec_def via_spec_def r_def split: if_splits)
    qed
    ultimately show ?thesis by blast
  qed
next
  case False
  obtain r1 s1 es1 errs where e: "errs_poll u s = Some (Inr (r1, s1))" "follows_tasks A content (at_instant u) s es1 errs s1"
    "reported A (at_instant u) (given r1) (finished_in es1) errs"
    using errs_poll_follows [OF inv] by blast
  show ?thesis
  proof (cases "\<exists>x. r1 = Ready (Some x)")
    case item: True
    then have "applier_poll A u s = Some (Inr (r1, s1))" using e(1) False by (auto simp: applier_poll_def select_try_def)
    then show ?thesis using e item by (intro exI [of _ r1] exI [of _ s1] exI [of _ es1] exI [of _ errs]) auto
  next
    case no_item: False
    then have g1: "given r1 = []" by (cases r1) (auto simp: given_def split: option.splits)
    have "applier_inv A content s1" using e(2) by (simp add: follows_tasks_def)
    then obtain r2 s2 es2 where v: "via_poll A u s1 = Some (Inr (r2, s2))" "follows_tasks A content (at_instant u) s1 es2 [] s2"
      "reported A (at_instant u) (given r2) (finished_in es2) []" "via_spec u s1 r2 s2" using via_poll_follows [OF dq ord] by blast
    define r where "r = (if r2 = Ready None then (if r1 = Ready None then Ready None else Pending) else r2)"
    have "applier_poll A u s = Some (Inr (r, s2))"
      using v(1) e(1) no_item False
      by (cases r1; cases r2) (auto simp: applier_poll_def select_try_def r_def split: option.splits)
    moreover have "follows_tasks A content (at_instant u) s (es1 @ es2) errs s2" using follows_tasks_trans [OF e(2) v(2)] by simp
    moreover have "reported A (at_instant u) (given r) (finished_in (es1 @ es2)) errs"
      using v(3) e(3) g1 by (auto simp: reported_nothing r_def)
    moreover have "pause_spec u s (es1 @ es2) s2" if "r = Pending"
    proof (cases "settled (at_instant u) s2 \<and> is_ready_to_execute (al_runner s2) \<and> (\<forall>e. pk_peeked (al_inputs s2) \<noteq> Some (Some (Inl e)))")
      case True
      have "owed (tasks_of s2) q \<or> Started (message q) \<in> set (es1 @ es2)" if "owed (tasks_of s) q" for q
        using owed_follows [OF e(2) that] owed_follows [OF v(2)] by auto
      then show ?thesis using settled_owed [of "at_instant u" s2] True by (auto simp: pause_spec_def)
    next
      case False
      then show ?thesis using v(4) that by (auto simp: pause_spec_def via_spec_def r_def split: if_splits)
    qed
    ultimately show ?thesis by blast
  qed
qed

section \<open>Runs of the applier\<close>

text \<open>The protocol of a run: for every poll its environment, its answer, the events of the machine and the errors passed on.\<close>

record ('dt, 'k, 'e, 'q) poll_log =
  log_turn :: "('dt, 'k, 'e, 'q) turn"
  log_answer :: "('dt, 'e, 'q) applier_item option poll"
  log_events :: "'dt ref_key task_event list"
  log_errors :: "'q list"

definition log_ok :: "('que, 'dt, 'k, 'e) applier_env \<Rightarrow> ('dt, 'k, 'e, 'q) poll_log \<Rightarrow> bool" where
  "log_ok A l \<longleftrightarrow> reported A (at_instant (log_turn l)) (given (log_answer l)) (finished_in (log_events l)) (log_errors l)
     \<and> (\<forall>r \<in> set (requested_in (log_events l)). req_run_at r = at_instant (log_turn l) + 1)"

definition trace_of :: "('dt, 'k, 'e, 'q) poll_log list \<Rightarrow> (instant \<times> 'dt ref_key task_event) list" where
  "trace_of ls = concat (map (\<lambda>l. map (Pair (at_instant (log_turn l))) (log_events l)) ls)"

lemma trace_of_simps [simp]: "trace_of [] = []" "trace_of (l # ls) = map (Pair (at_instant (log_turn l))) (log_events l) @ trace_of ls"
  "trace_of (ls @ ks) = trace_of ls @ trace_of ks"
  by (simp_all add: trace_of_def)

definition asked_in :: "('dt, 'k, 'e, 'q) poll_log list \<Rightarrow> 'dt ref_key list" where
  "asked_in ls = concat (map (\<lambda>l. map message (requested_in (log_events l))) ls)"

definition run_log :: "('que, 'dt, 'k, 'e) applier_env \<Rightarrow> ('que, 'dt, 'k, 'e, 'q) applier \<Rightarrow> ('dt, 'k, 'e, 'q) poll_log list
     \<Rightarrow> ('que, 'dt, 'k, 'e, 'q) applier \<Rightarrow> bool" where
  "run_log A s ls s' \<longleftrightarrow>
     applier_polls A (map log_turn ls) s = Some (Inr (map log_answer ls, s')) \<and> list_all (log_ok A) ls
     \<and> task_run (tasks_of s) (trace_of ls) (tasks_of s')
     \<and> map (key_of \<circ> rr_obj_ref) (asks (al_inputs s)) = asked_in ls @ map (key_of \<circ> rr_obj_ref) (asks (al_inputs s'))
     \<and> errors_left (al_inputs s) = concat (map log_errors ls) @ errors_left (al_inputs s')"

lemma run_log_refl: "run_log A s [] s"
  by (simp add: run_log_def asked_in_def)

lemma run_log_Cons:
  assumes "applier_poll A (log_turn l) s = Some (Inr (log_answer l, s1))"
    and "follows_tasks A content (at_instant (log_turn l)) s (log_events l) (log_errors l) s1"
    and "reported A (at_instant (log_turn l)) (given (log_answer l)) (finished_in (log_events l)) (log_errors l)"
    and "run_log A s1 ls s2"
  shows "run_log A s (l # ls) s2"
proof -
  obtain reqs where reqs: "asks (al_inputs s) = reqs @ asks (al_inputs s1)" "requested_in (log_events l) = map (ask (at_instant (log_turn l))) reqs"
    using assms(2) by (auto simp: follows_tasks_def)
  have "map message (requested_in (log_events l)) = map (key_of \<circ> rr_obj_ref) reqs" using reqs(2) by (simp add: ask_def)
  moreover have "log_ok A l" using assms(3) reqs(2) by (auto simp: log_ok_def ask_def)
  moreover have "task_run (tasks_of s) (trace_of (l # ls)) (tasks_of s2)"
    using assms(2,4) by (auto simp: follows_tasks_def run_log_def task_run_append)
  ultimately show ?thesis using assms reqs(1) by (simp add: run_log_def asked_in_def follows_tasks_def)
qed

lemma applier_runs:
  fixes A :: "('que, 'dt, 'k, 'e) applier_env" and us :: "('dt, 'k, 'e, 'q) turn list"
  assumes dq: "delay_queue (ae_sched A) content" and ord: "hash_order (ae_iter A)" and inv: "applier_inv A content s"
  shows "\<exists>ls s'. map log_turn ls = us \<and> run_log A s ls s' \<and> applier_inv A content s'"
  using inv
proof (induction us arbitrary: s)
  case Nil
  then show ?case using run_log_refl by force
next
  case (Cons u us)
  obtain r s1 es errs where p: "applier_poll A u s = Some (Inr (r, s1))" "follows_tasks A content (at_instant u) s es errs s1"
    "reported A (at_instant u) (given r) (finished_in es) errs"
    using applier_poll_follows [OF dq ord Cons.prems] by blast
  then have "applier_inv A content s1" by (simp add: follows_tasks_def)
  from Cons.IH [OF this] obtain ls s' where ls: "map log_turn ls = us" "run_log A s1 ls s'" "applier_inv A content s'" by blast
  let ?l = "\<lparr>log_turn = u, log_answer = r, log_events = es, log_errors = errs\<rparr>"
  have "run_log A s (?l # ls) s'" using p ls(2) by (intro run_log_Cons) simp_all
  then show ?case using ls by (intro exI [of _ "?l # ls"] exI [of _ s']) simp
qed

lemma applier_polls_append:
  "applier_polls A (us @ vs) s =
     (case applier_polls A us s of
        Some (Inr (rs, s1)) \<Rightarrow> (case applier_polls A vs s1 of Some (Inr (ts, s2)) \<Rightarrow> Some (Inr (rs @ ts, s2)) | Some (Inl p) \<Rightarrow> Some (Inl p) | None \<Rightarrow> None)
      | Some (Inl p) \<Rightarrow> Some (Inl p)
      | None \<Rightarrow> None)"
  by (induction us arbitrary: s) (auto split: option.splits sum.splits prod.splits)

lemma run_log_append: "run_log A s ls s1 \<Longrightarrow> run_log A s1 ks s2 \<Longrightarrow> run_log A s (ls @ ks) s2"
  by (auto simp: run_log_def applier_polls_append task_run_append asked_in_def)

definition idle_tasks :: "'m tasks" where
  "idle_tasks = \<lparr>inbox = {#}, demand = (\<lambda>_. Absent), running = {}\<rparr>"

lemma applier_new_inv:
  assumes "content timers = Map.empty"
  shows "applier_inv A content (applier_new timers user_queue wait_until_ready)" "tasks_of (applier_new timers user_queue wait_until_ready) = idle_tasks"
  using assms
  by (simp_all add: applier_inv_def applier_new_def runner_inv_def delay_tasks_until_def runner_new_def scheduler_new_def sched_inv_def
      fhm_default_def pk_new_def peeked_ok_def slots_named_def tasks_of_def idle_tasks_def inbox_of_def view_def fun_eq_iff)

text \<open>An event that asks for a reconciliation leaves it owed until one starts.\<close>

fun asks_for :: "'m task_event \<Rightarrow> 'm schedule_request \<Rightarrow> bool" where
  "asks_for (Requested r) q \<longleftrightarrow> q = r"
| "asks_for (Finished m (Some t)) q \<longleftrightarrow> q = \<lparr>message = m, req_run_at = t\<rparr>"
| "asks_for _ q \<longleftrightarrow> False"

lemma asked_owed: "task_step t (now, e) t' \<Longrightarrow> asks_for e q \<Longrightarrow> owed t' q"
proof (induction t "(now, e)" t' rule: task_step.induct)
  case (finished m t again)
  then show ?case by (cases again) (auto simp: owed_def again_requests_def)
qed (auto simp: owed_def)

lemma asked_then:
  assumes "task_run t (xs @ (n, e) # ys) t'" and "asks_for e q"
  shows "owed t' q \<or> Started (message q) \<in> snd ` set ys"
proof -
  obtain t1 t2 where "task_step t1 (n, e) t2" "task_run t2 ys t'" using assms(1) by (auto simp: task_run_append)
  then show ?thesis using asked_owed [OF _ assms(2)] owed_run by blast
qed

lemma event_split:
  assumes "as @ bs = xs @ c # ys"
  obtains ys' where "as = xs @ c # ys'" "ys = ys' @ bs" | "c \<in> set bs"
  using assms by (auto simp: append_eq_append_conv2 append_eq_Cons_conv)

section \<open>A run\<close>

text \<open>
  One request for an object of the store, then a quiet queue that ends after \<open>n\<close> more polls. The
  reconciler is pending once and then asks for a requeue.
\<close>

definition demo_key :: "unit ref_key" where
  "demo_key = ((), ''pod'', Some ''ns'')"

definition demo_env :: "(unit ref_key list_queue, unit, nat, unit) applier_env" where
  "demo_env = \<lparr>ae_sched = lq_env sorted_list_of_set, ae_iter = sorted_list_of_set,
     ae_class = \<lparr>kind_of = (\<lambda>_. ''Pod''), group_of = (\<lambda>_. []), version_of = (\<lambda>_. ''v1''), api_version_of = (\<lambda>_. ''v1''), plural_of = (\<lambda>_. ''pods'')\<rparr>,
     ae_error_policy = (\<lambda>_ _. await_change)\<rparr>"

definition demo_turn :: "instant \<Rightarrow> (unit, nat, unit, unit) turn" where
  "demo_turn now = \<lparr>at_instant = now, with_store = (\<lambda>_. (writer_new ())\<lparr>w_store := [demo_key \<mapsto> 1]\<rparr>),
     reconciler_at = (\<lambda>_ _. [Pending, Ready (Inr \<lparr>requeue_after = Some 10\<rparr>)]), queue_first = (\<lambda>_. True), via_first = True\<rparr>"

definition quiet :: "nat \<Rightarrow> ('q + 'dt reconcile_request) stream_script" where
  "quiet n = replicate n Pending @ [Ready None]"

definition demo_queue :: "(unit + unit reconcile_request) stream_script" where
  "demo_queue = Ready (Some (Inr \<lparr>rr_obj_ref = key_ref demo_key, rr_reason = Unknown\<rparr>)) # quiet 5"

definition demo_start :: "(unit ref_key list_queue, unit, nat, unit, unit) applier" where
  "demo_start = applier_new [] demo_queue [Ready (Inr ())]"

definition quiet_input :: "nat \<Rightarrow> ('dt, 'e, 'q) split_inputs" where
  "quiet_input n = \<lparr>pk_peeked = None, pk_stream = \<lparr>in_queue = quiet n, in_shutdown = False, in_channel = []\<rparr>\<rparr>"

lemmas demo_defs = demo_env_def demo_turn_def demo_start_def demo_queue_def applier_new_def pk_new_def delay_tasks_until_def runner_new_def scheduler_new_def fhm_default_def
lemmas input_polls = ok_poll_def err_poll_def split_oks_poll_def split_errs_poll_def split_case_poll_def pk_peek_def pk_poll_next_def poll_inputs_def
  select_poll_def poll_queue_def poll_channel_def applier_input_def key_request_def

lemma quiet_polls:
  "ok_poll (\<lambda>_. True) now (quiet_input (Suc n)) = Some (Pending, quiet_input n)"
  "err_poll (\<lambda>_. True) now (quiet_input (Suc n)) = Some (Pending, quiet_input n)"
  "ok_poll (\<lambda>_. True) now (quiet_input 0) = Some (Ready None, \<lparr>pk_peeked = Some None, pk_stream = \<lparr>in_queue = [], in_shutdown = True, in_channel = []\<rparr>\<rparr>)"
  by (simp_all add: quiet_input_def quiet_def input_polls)

lemma quiet_size: "input_size (quiet_input n) < input_size (quiet_input (Suc n))"
  by (simp add: quiet_input_def quiet_def input_size_def)

lemma quiet_answers: "ok_answers (\<lambda>_. True) now (quiet_input n) = replicate n Pending @ [Ready None, Ready None]"
proof (induction n)
  case 0
  then show ?case by (subst ok_answers.simps) (simp add: quiet_polls)
next
  case (Suc n)
  then show ?case by (subst ok_answers.simps) (simp add: quiet_polls quiet_size)
qed

lemma quiet_skip: "ok_skip (\<lambda>_. True) now k (quiet_input (k + n)) = quiet_input n"
  by (induction k) (simp_all add: quiet_polls)

lemma demo_first_poll: "ok_poll (\<lambda>_. True) now (al_inputs demo_start) = Some (Ready (Some \<lparr>message = demo_key, req_run_at = now + 1\<rparr>), quiet_input 5)"
  by (simp add: demo_defs input_polls quiet_input_def)

lemma demo_answers:
  "ok_answers (\<lambda>_. True) now (al_inputs demo_start) = Ready (Some \<lparr>message = demo_key, req_run_at = now + 1\<rparr>) # replicate 5 Pending @ [Ready None, Ready None]"
proof -
  have "input_size (quiet_input 5) < input_size (al_inputs demo_start)" by (simp add: demo_defs quiet_input_def quiet_def input_size_def)
  then show ?thesis by (subst ok_answers.simps) (simp add: demo_first_poll quiet_answers)
qed

text \<open>The states between the polls: what is left of the queue, the timers of the scheduler and the running futures.\<close>

definition demo_state :: "nat \<Rightarrow> nat \<Rightarrow> unit ref_key list_queue
     \<Rightarrow> (unit ref_key, (unit, unit, unit) controller_error + unit ref_key \<times> nat \<times> (unit + action)) future_hash_map
     \<Rightarrow> (unit ref_key list_queue, unit, nat, unit, unit) applier" where
  "demo_state n k q sl =
     \<lparr>al_inputs = quiet_input n,
      al_runner = \<lparr>run_scheduler = \<lparr>queue = q, scheduled = map_of (map (\<lambda>(key, m, t). (m, \<lparr>run_at = t, entry_queue_key = key\<rparr>)) q),
          pending = {}, requests = replicate k Pending @ [Ready None, Ready None]\<rparr>,
        slots = sl, ready_to_execute_after = [], is_ready_to_execute = True, stopped = False\<rparr>, al_via_done = False\<rparr>"

lemma demo_errs: "errs_poll (demo_turn now) (demo_state (Suc n) k q sl) = Some (Inr (Pending, demo_state n k q sl))"
  by (simp add: errs_poll_def demo_state_def demo_turn_def quiet_polls)

lemma demo_poll:
  assumes "runner_poll_next (ae_sched demo_env) (ae_iter demo_env) now (run_request (ae_class demo_env) (reconciler_at (demo_turn now)) (with_store (demo_turn now)))
      ((al_runner s)\<lparr>run_scheduler := (run_scheduler (al_runner s))\<lparr>requests := ok_answers (\<lambda>_. True) now (al_inputs s)\<rparr>\<rparr>)
      = Some (Inr (Pending, al_runner (demo_state (Suc n) k q sl)))"
    and "ok_skip (\<lambda>_. True) now (length (ok_answers (\<lambda>_. True) now (al_inputs s)) - (k + 2)) (al_inputs s) = quiet_input (Suc n)"
    and "\<not> al_via_done s"
  shows "applier_poll demo_env (demo_turn now) s = Some (Inr (Pending, demo_state n k q sl))"
proof -
  have t: "at_instant (demo_turn now) = now" "queue_first (demo_turn now) = (\<lambda>_. True)" "via_first (demo_turn now)"
    by (simp_all add: demo_turn_def)
  have "s\<lparr>al_inputs := quiet_input (Suc n), al_runner := al_runner (demo_state (Suc n) k q sl)\<rparr> = demo_state (Suc n) k q sl"
    using assms(3) by (cases s) (simp add: demo_state_def)
  moreover have "length (requests (run_scheduler (al_runner (demo_state (Suc n) k q sl)))) = k + 2" by (simp add: demo_state_def)
  ultimately have "via_poll A (demo_turn now) s = Some (Inr (Pending, demo_state (Suc n) k q sl))" if "A = demo_env" for A
    using assms(1-3) by (simp add: via_poll_def Let_def t that)
  then show ?thesis using demo_errs by (simp add: applier_poll_def select_try_def t)
qed

lemmas scheduler_polls = hold_unless_poll_next_def schedule_message_def lq_env_def lq_insert_at_def poll_pop_queue_message_def lq_poll_expired_def
  runner_can_take_def fhm_insert_def fhm_contains_key_def

lemma demo_poll1: "applier_poll demo_env (demo_turn 0) demo_start = Some (Inr (Pending, demo_state 3 4 [(Suc 0, demo_key, 1)] Map.empty))"
proof (rule demo_poll)
  have "ok_skip (\<lambda>_. True) 0 2 (al_inputs demo_start) = quiet_input 4"
    by (simp add: numeral_2_eq_2 demo_first_poll quiet_polls(1) [of 0 4, simplified])
  then show "ok_skip (\<lambda>_. True) 0 (length (ok_answers (\<lambda>_. True) 0 (al_inputs demo_start)) - (4 + 2)) (al_inputs demo_start) = quiet_input (Suc 3)"
    by (simp add: demo_answers)
  show "runner_poll_next (ae_sched demo_env) (ae_iter demo_env) 0 (run_request (ae_class demo_env) (reconciler_at (demo_turn 0)) (with_store (demo_turn 0)))
      ((al_runner demo_start)\<lparr>run_scheduler := (run_scheduler (al_runner demo_start))\<lparr>requests := ok_answers (\<lambda>_. True) 0 (al_inputs demo_start)\<rparr>\<rparr>)
      = Some (Inr (Pending, al_runner (demo_state (Suc 3) 4 [(Suc 0, demo_key, 1)] Map.empty)))"
    apply (simp add: demo_answers)
    apply (simp add: demo_defs runner_poll_next_def fhm_poll_next_def)
    apply (subst runner_loop.simps)
    apply (simp add: scheduler_polls eval_nat_numeral)
    apply (subst pop_loop.simps)
    apply (simp add: scheduler_polls demo_state_def eval_nat_numeral)
    done
qed (simp add: demo_defs)

lemma demo_poll2:
  "applier_poll demo_env (demo_turn 5) (demo_state 3 4 [(Suc 0, demo_key, 1)] Map.empty)
     = Some (Inr (Pending, demo_state 0 1 [] [demo_key \<mapsto> [Pending, Ready (Inr (demo_key, 1, Inr \<lparr>requeue_after = Some 10\<rparr>))]]))"
proof (rule demo_poll)
  let ?s = "demo_state 3 4 [(Suc 0, demo_key, 1)] Map.empty" and ?sl = "[demo_key \<mapsto> [Pending, Ready (Inr (demo_key, 1, Inr \<lparr>requeue_after = Some 10\<rparr>))]]"
  have inputs: "al_inputs ?s = quiet_input 3" by (simp add: demo_state_def)
  show "ok_skip (\<lambda>_. True) 5 (length (ok_answers (\<lambda>_. True) 5 (al_inputs ?s)) - (1 + 2)) (al_inputs ?s) = quiet_input (Suc 0)"
    using quiet_skip [of 5 2 1] unfolding inputs quiet_answers by simp
  show "runner_poll_next (ae_sched demo_env) (ae_iter demo_env) 5 (run_request (ae_class demo_env) (reconciler_at (demo_turn 5)) (with_store (demo_turn 5)))
      ((al_runner ?s)\<lparr>run_scheduler := (run_scheduler (al_runner ?s))\<lparr>requests := ok_answers (\<lambda>_. True) 5 (al_inputs ?s)\<rparr>\<rparr>)
      = Some (Inr (Pending, al_runner (demo_state (Suc 0) 1 [] ?sl)))"
    unfolding inputs quiet_answers
    apply (simp add: demo_state_def demo_env_def demo_turn_def runner_poll_next_def fhm_poll_next_def eval_nat_numeral)
    apply (subst runner_loop.simps)
    apply (simp add: scheduler_polls)
    apply (subst pop_loop.simps)
    apply (simp add: scheduler_polls)
    apply (subst runner_loop.simps)
    apply (simp add: scheduler_polls)
    apply (subst pop_loop.simps)
    apply (simp add: scheduler_polls run_request_def demo_key_def key_ref_def key_of_def store_get_def)
    done
qed (simp add: demo_state_def)

lemma demo_polls:
  "applier_polls demo_env [demo_turn 0, demo_turn 5] (applier_new [] demo_queue [Ready (Inr ())])
     = Some (Inr ([Pending, Pending], demo_state 0 1 [] [demo_key \<mapsto> [Pending, Ready (Inr (demo_key, 1, Inr \<lparr>requeue_after = Some 10\<rparr>))]]))"
  using demo_poll1 demo_poll2 by (simp add: demo_start_def)

lemma demo_env_ok: "delay_queue (ae_sched demo_env) lq_content" "hash_order (ae_iter demo_env)" "lq_content [] = Map.empty"
  using lq.delay_queue_axioms sorted_order.hash_order_axioms by (simp_all add: demo_env_def lq_content_def)

section \<open>Properties\<close>




end
