(* ===== verification/Rt_Shutdown.thy ===== *)
theory Rt_Shutdown
  imports Rt_Applier
begin

text \<open>
  How a run of the \<open>applier\<close> of \<open>kube-runtime/src/controller/mod.rs\<close> ends. When the queue of the
  user has ended, the channel of reschedules is closed, the running reconciliations are polled to
  their end and reported, and the stream ends. When the store can never become ready, the runner
  stops, and the stream of requests has no consumer any more. Also a concrete run of the applier,
  at which the theorems about it are instantiated.
\<close>

section \<open>Progress of the running reconciliations\<close>

definition completes :: "('k, 'r) future_hash_map \<Rightarrow> bool" where
  "completes sl \<longleftrightarrow> (\<forall>m fut. sl m = Some fut \<longrightarrow> (\<exists>x. Ready x \<in> set fut))"

definition polls_left :: "('k, 'r) future_hash_map \<Rightarrow> nat" where
  "polls_left sl = (\<Sum>m \<in> dom sl. length (the (sl m)))"

lemma stream_poll_cases [case_names item over pending]:
  obtains x where "p = Ready (Some x)" | "p = Ready None" | "p = Pending"
  by (metis option.exhaust poll.exhaust)

lemma answers_length:
  "Ready x \<in> set fut \<Longrightarrow> answers fut Pending \<Longrightarrow> length (advance fut) < length fut \<and> Ready x \<in> set (advance fut)"
  by (cases fut) (auto simp: answers_def advance_def)

lemma completes_advance:
  assumes "completes sl" and "\<And>j g. sl' j = Some g \<Longrightarrow> sl j = Some g \<or> (\<exists>f. sl j = Some f \<and> answers f Pending \<and> g = advance f)"
  shows "completes sl'"
  unfolding completes_def
proof (intro allI impI)
  fix m g assume "sl' m = Some g"
  with assms(2) consider "sl m = Some g" | f where "sl m = Some f" "answers f Pending" "g = advance f" by blast
  then show "\<exists>x. Ready x \<in> set g"
  proof cases
    case 2
    then obtain x where "Ready x \<in> set f" using assms(1) unfolding completes_def by blast
    then show ?thesis using answers_length [of x f] 2 by auto
  qed (use assms(1) in \<open>auto simp: completes_def\<close>)
qed

text \<open>Every poll of the map finds it empty, or removes a completed future, or advances all of them.\<close>

lemma fhm_progress:
  assumes spec: "fhm_poll_spec sl p sl'" and fin: "finite (dom sl)" and comp: "completes sl"
  shows "case p of
       Ready None \<Rightarrow> dom sl = {} \<and> sl' = Map.empty
     | Pending \<Rightarrow> dom sl' = dom sl \<and> completes sl' \<and> polls_left sl' < polls_left sl
     | Ready (Some x) \<Rightarrow> completes sl' \<and> polls_left sl' < polls_left sl
         \<and> (\<exists>m fut. sl m = Some fut \<and> Ready x \<in> set fut \<and> dom sl' = dom sl - {m})"
proof (cases p rule: stream_poll_cases)
  case (item x)
  then obtain m fut where m: "sl m = Some fut" "answers fut (Ready x)" "sl' m = None"
    and oth: "\<And>j. j \<noteq> m \<Longrightarrow> sl' j = sl j \<or> (\<exists>g. sl j = Some g \<and> answers g Pending \<and> sl' j = Some (advance g))"
    using spec by (auto simp: fhm_poll_spec_def)
  have fut: "Ready x \<in> set fut" "0 < length fut" using m(2) by (cases fut; simp add: answers_def)+
  have dom: "dom sl' = dom sl - {m}"
  proof (rule set_eqI)
    fix j show "j \<in> dom sl' \<longleftrightarrow> j \<in> dom sl - {m}" using oth [of j] m(3) by (cases "j = m") (auto dest: sym)
  qed
  have old: "sl j = Some g \<or> (\<exists>f. sl j = Some f \<and> answers f Pending \<and> g = advance f)" if "sl' j = Some g" for j g
    using oth [of j] m(3) that by (cases "j = m") auto
  have "length (the (sl' j)) \<le> length (the (sl j))" if "j \<in> dom sl - {m}" for j
  proof -
    from that obtain f where f: "sl j = Some f" by blast
    then obtain y where "Ready y \<in> set f" using comp unfolding completes_def by blast
    then show ?thesis using oth [of j] that f answers_length [of y f] by auto
  qed
  then have "polls_left sl' \<le> (\<Sum>j \<in> dom sl - {m}. length (the (sl j)))" unfolding polls_left_def dom by (intro sum_mono)
  also have "\<dots> < polls_left sl"
    unfolding polls_left_def using fin m(1) fut(2) by (subst sum.remove [of _ m]) auto
  finally have "polls_left sl' < polls_left sl" .
  then show ?thesis using item m(1) fut(1) dom completes_advance [OF comp old] by auto
next
  case over
  then show ?thesis using spec by (simp add: fhm_poll_spec_def)
next
  case pending
  then have sl': "sl' = map_option advance \<circ> sl" "sl \<noteq> Map.empty" "\<And>m f. sl m = Some f \<Longrightarrow> answers f Pending"
    using spec by (auto simp: fhm_poll_spec_def)
  then have dom: "dom sl' = dom sl" by auto
  have less: "length (the (sl' j)) < length (the (sl j))" if "j \<in> dom sl" for j
  proof -
    from that obtain f where f: "sl j = Some f" by blast
    then obtain y where "Ready y \<in> set f" using comp unfolding completes_def by blast
    then show ?thesis using answers_length [of y f] f sl' by simp
  qed
  have "dom sl \<noteq> {}" using sl'(2) by simp
  then have "polls_left sl' < polls_left sl" unfolding polls_left_def dom using less by (intro sum_strict_mono [OF fin]) auto
  moreover have "completes sl'" using sl' by (intro completes_advance [OF comp]) auto
  ultimately show ?thesis using pending dom by simp
qed

section \<open>The input after the queue has ended\<close>

text \<open>
  The queue has ended, so that the channel is closed, and no error waits to be passed on. At most
  one request, which was peeked, is left.
\<close>

definition closing :: "('dt, 'e, 'q) split_inputs \<Rightarrow> bool" where
  "closing pk \<longleftrightarrow> in_shutdown (pk_stream pk) \<and> (\<forall>e. pk_peeked pk \<noteq> Some (Some (Inl e)))"

definition drained :: "('dt, 'e, 'q) split_inputs \<Rightarrow> bool" where
  "drained pk \<longleftrightarrow> in_shutdown (pk_stream pk) \<and> pk_peeked pk = Some None"

definition last_requests :: "('dt, 'e, 'q) split_inputs \<Rightarrow> 'dt ref_key schedule_request list" where
  "last_requests pk = (case pk_peeked pk of Some (Some (Inr r)) \<Rightarrow> [r] | _ \<Rightarrow> [])"

lemma drained_closing: "drained pk \<Longrightarrow> closing pk"
  by (simp add: drained_def closing_def)

lemma closing_send [simp]: "closing (send_requests rs pk) = closing pk"
  by (simp add: closing_def send_requests_def)

lemma closed_input: "in_shutdown i \<Longrightarrow> poll_inputs pick now i = (Ready None, i)"
  by (simp add: poll_inputs_def select_poll_def poll_queue_def poll_channel_def)

lemmas split_polls = ok_poll_def err_poll_def split_oks_poll_def split_errs_poll_def split_case_poll_def pk_peek_def pk_poll_next_def

lemma drained_polls:
  assumes "drained pk"
  shows "ok_poll pick now pk = Some (Ready None, pk)" "err_poll pick now pk = Some (Ready None, pk)"
    "ok_skip pick now n pk = pk" "ok_answers pick now pk = [Ready None, Ready None]"
proof -
  show p: "ok_poll pick now pk = Some (Ready None, pk)" "err_poll pick now pk = Some (Ready None, pk)"
    using assms by (simp_all add: drained_def split_polls)
  show "ok_skip pick now n pk = pk" by (induction n) (simp_all add: p)
  show "ok_answers pick now pk = [Ready None, Ready None]" by (subst ok_answers.simps) (simp add: p)
qed

lemma closing_cases [consumes 1, case_names drained request fresh]:
  assumes "closing pk"
  obtains "drained pk" | r where "pk_peeked pk = Some (Some (Inr r))" | "pk_peeked pk = None"
  using assms unfolding closing_def drained_def by (metis option.exhaust sum.exhaust)

lemma closing_fresh:
  assumes "in_shutdown (pk_stream pk)" "pk_peeked pk = None"
  shows "ok_poll pick now pk = Some (Ready None, pk\<lparr>pk_peeked := Some None\<rparr>)" "err_poll pick now pk = Some (Ready None, pk\<lparr>pk_peeked := Some None\<rparr>)"
    "drained (pk\<lparr>pk_peeked := Some None\<rparr>)"
  using assms by (cases pk; simp add: split_polls closed_input drained_def)+

text \<open>Polling the requests gives the one that is left, if there is one, and then the end.\<close>

lemma closing_answers:
  assumes "closing pk"
  shows "ok_answers pick now pk = map (Ready \<circ> Some) (last_requests pk) @ [Ready None, Ready None]
     \<and> drained (ok_skip pick now (Suc (length (last_requests pk))) pk)"
  using assms
proof (cases rule: closing_cases)
  case drained
  then have "last_requests pk = []" by (simp add: last_requests_def drained_def)
  then show ?thesis using drained by (simp only: drained_polls) simp
next
  case (request r)
  let ?pk = "pk\<lparr>pk_peeked := None\<rparr>"
  have p: "ok_poll pick now pk = Some (Ready (Some r), ?pk)" "input_size ?pk < input_size pk" using request by (simp_all add: split_polls input_size_def)
  have sh: "in_shutdown (pk_stream ?pk)" "pk_peeked ?pk = None" using assms by (simp_all add: closing_def)
  note fresh = closing_fresh [OF sh]
  show ?thesis using p request fresh by (simp add: ok_answers.simps [of _ _ pk] ok_answers.simps [of _ _ ?pk] last_requests_def)
next
  case fresh
  then have "in_shutdown (pk_stream pk)" using assms by (simp add: closing_def)
  note f = closing_fresh [OF this fresh]
  then show ?thesis using fresh by (simp add: ok_answers.simps [of _ _ pk] last_requests_def)
qed

lemma closing_errs:
  assumes "closing pk"
  shows "\<exists>a pk'. err_poll pick now pk = Some (a, pk') \<and> closing pk' \<and> given a = [] \<and> (a = Ready None \<longleftrightarrow> drained pk') \<and> (drained pk \<longrightarrow> pk' = pk)"
  using assms
proof (cases rule: closing_cases)
  case drained
  then show ?thesis using drained_closing by (simp add: drained_polls)
next
  case (request r)
  then show ?thesis using assms by (simp add: split_polls drained_def)
next
  case fresh
  then have "in_shutdown (pk_stream pk)" using assms by (simp add: closing_def)
  from closing_fresh [OF this fresh] show ?thesis using fresh by (auto simp: drained_def closing_def)
qed
section \<open>Polls of the applier that is shutting down\<close>

definition gate_passes :: "('que, 'm, 'r, unit) runner \<Rightarrow> bool" where
  "gate_passes rn \<longleftrightarrow> \<not> stopped rn \<and> Ready (Inl ()) \<notin> set (ready_to_execute_after rn)"

lemma gate_poll:
  assumes "gate_passes rn"
  obtains g where "poll_fuse (ready_to_execute_after rn) = (Pending, g)" "Ready (Inl ()) \<notin> set g"
    | g where "poll_fuse (ready_to_execute_after rn) = (Ready (Inr ()), g)" "Ready (Inl ()) \<notin> set g"
proof (cases "ready_to_execute_after rn" rule: poll_fuse.cases)
  case (2 r ps)
  then show ?thesis using assms that by (cases r) (auto simp: gate_passes_def)
qed (use assms that in \<open>auto simp: gate_passes_def\<close>)

context delay_queue
begin

lemma drain_to_end:
  "sched_inv content s \<Longrightarrow> \<exists>sch. drain_requests E (map (Ready \<circ> Some) rs @ Ready None # xs) s = Inr (True, sch)
     \<and> sched_inv content sch \<and> requests sch = [Ready None]"
proof (induction rs arbitrary: s)
  case (Cons r rs)
  obtain s' where "schedule_message E s r = Inr s'" "sched_inv content s'" using schedule_message_ok [OF Cons.prems] by blast
  then show ?case using Cons.IH [of s'] by (simp add: rbind_def)
qed simp

text \<open>The runner at the end of its requests starts nothing: its answer is that of the map of futures.\<close>

lemma runner_closing:
  assumes inv: "sched_inv content (run_scheduler rn)" and gate: "gate_passes rn"
    and req: "requests (run_scheduler rn) = map (Ready \<circ> Some) rs @ [Ready None, Ready None]"
    and poll: "fhm_poll_next iter (slots rn) = (p, sl)"
  shows "\<exists>rn'. runner_poll_next E iter now run_msg rn = Some (Inr (map_poll (map_option Inr) p, rn'))
     \<and> slots rn' = sl \<and> gate_passes rn' \<and> sched_inv content (run_scheduler rn')
     \<and> (if \<exists>x. p = Ready (Some x) then run_scheduler rn' = run_scheduler rn else requests (run_scheduler rn') = [Ready None])"
proof (cases p rule: stream_poll_cases)
  case (item x)
  then show ?thesis using assms by (simp add: runner_poll_next_def gate_passes_def)
next
  have "\<exists>sch. drain_requests E (requests (run_scheduler rn)) (run_scheduler rn) = Inr (True, sch) \<and> sched_inv content sch \<and> requests sch = [Ready None]"
    using drain_to_end [OF inv] req by simp
  then obtain sch where "hold_unless_poll_next E now can (run_scheduler rn) = Some (Inr (Ready None, sch))" "sched_inv content sch" "requests sch = [Ready None]" for can
    by (auto simp: hold_unless_poll_next_def)
  then have loop: "runner_loop E now run_msg active (rn\<lparr>slots := sl, ready_to_execute_after := g\<rparr>) =
      Some (Inr (if active then Pending else Ready None, rn\<lparr>slots := sl, ready_to_execute_after := g, run_scheduler := sch\<rparr>))"
    "runner_loop E now run_msg active (rn\<lparr>slots := sl, ready_to_execute_after := g, is_ready_to_execute := True\<rparr>) =
      Some (Inr (if active then Pending else Ready None, rn\<lparr>slots := sl, ready_to_execute_after := g, is_ready_to_execute := True, run_scheduler := sch\<rparr>))"
    for active g by (subst runner_loop.simps, simp)+
  have sch: "sched_inv content sch" "requests sch = [Ready None]" by fact+
  {
    case over
    then show ?thesis using poll sch gate
      by (cases rule: gate_poll [OF gate]) (simp_all add: runner_poll_next_def loop gate_passes_def)
  next
    case pending
    then show ?thesis using poll sch gate
      by (cases rule: gate_poll [OF gate]) (simp_all add: runner_poll_next_def loop gate_passes_def)
  }
qed

end
text \<open>The item that reports the end of the reconciliation of an object: its result, its error, or that it is gone.\<close>

definition item_of :: "'dt resource_class \<Rightarrow> 'dt ref_key \<Rightarrow> ('dt, 'e, 'q) applier_item \<Rightarrow> bool" where
  "item_of K m item \<longleftrightarrow>
     (case item of
        Inr (obj_ref, action) \<Rightarrow> key_of obj_ref = m
      | Inl (ReconcilerFailed e obj_ref) \<Rightarrow> obj_ref = kref_erase K (key_ref m)
      | Inl (ObjectNotFound obj_ref) \<Rightarrow> obj_ref = kref_erase K (key_ref m)
      | Inl _ \<Rightarrow> False)"

definition shutting_down :: "('que, 'dt, 'k, 'e) applier_env \<Rightarrow> ('que \<Rightarrow> queue_key \<rightharpoonup> 'dt ref_key \<times> instant)
     \<Rightarrow> ('que, 'dt, 'k, 'e, 'q) applier \<Rightarrow> bool" where
  "shutting_down A content s \<longleftrightarrow> applier_inv A content s \<and> closing (al_inputs s) \<and> gate_passes (al_runner s) \<and> completes (slots (al_runner s))"

definition closing_spec :: "('que, 'dt, 'k, 'e) applier_env \<Rightarrow> ('que, 'dt, 'k, 'e, 'q) applier \<Rightarrow> ('dt, 'e, 'q) applier_item option poll
     \<Rightarrow> ('que, 'dt, 'k, 'e, 'q) applier \<Rightarrow> bool" where
  "closing_spec A s r s' \<longleftrightarrow>
     (if al_via_done s' then drained (al_inputs s') \<and> given r = [] \<and> slots (al_runner s) = Map.empty \<and> slots (al_runner s') = Map.empty
      else polls_left (slots (al_runner s')) < polls_left (slots (al_runner s))
        \<and> (case r of
             Pending \<Rightarrow> dom (slots (al_runner s')) = dom (slots (al_runner s))
           | Ready None \<Rightarrow> False
           | Ready (Some item) \<Rightarrow> (\<exists>m \<in> dom (slots (al_runner s)). item_of (ae_class A) m item
               \<and> dom (slots (al_runner s')) = dom (slots (al_runner s)) - {m})))"

lemma via_item:
  assumes "outcome_of (ae_class A) m x"
  shows "\<exists>item sent. item_of (ae_class A) m item \<and>
     (case x of Inl err \<Rightarrow> item = Inl err
      | Inr (key, obj, res) \<Rightarrow> map_option (map_prod (\<lambda>result. applier_output (ae_class A) (key_ref key, result)) id)
          (finish_request (ae_error_policy A) now (key, obj, res)) = Some (item, sent))"
proof -
  from assms consider "x = Inl (ObjectNotFound (kref_erase (ae_class A) (key_ref m)))" | obj res where "x = Inr (m, obj, res)"
    unfolding outcome_of_def by blast
  then show ?thesis
  proof cases
    case 1
    then show ?thesis by (simp add: item_of_def)
  next
    case 2
    have "item_of (ae_class A) m (applier_output (ae_class A) (key_ref m, res))" by (cases res) (simp_all add: item_of_def applier_output_def)
    then show ?thesis using 2 by (simp add: finish_request_eq)
  qed
qed

lemma closing_via:
  assumes dq: "delay_queue (ae_sched A) content" and ord: "hash_order (ae_iter A)" and sd: "shutting_down A content s" and nd: "\<not> al_via_done s"
  shows "\<exists>r s'. via_poll A u s = Some (Inr (r, s')) \<and> shutting_down A content s' \<and> closing_spec A s r s'
     \<and> (al_via_done s' \<longleftrightarrow> r = Ready None) \<and> (given r = [] \<longrightarrow> drained (al_inputs s'))"
proof -
  let ?ans = "ok_answers (queue_first u) (at_instant u) (al_inputs s)" and ?rs = "last_requests (al_inputs s)"
  define rn where "rn = (al_runner s)\<lparr>run_scheduler := (run_scheduler (al_runner s))\<lparr>requests := ?ans\<rparr>\<rparr>"
  have ans: "?ans = map (Ready \<circ> Some) ?rs @ [Ready None, Ready None]"
    and skip: "drained (ok_skip (queue_first u) (at_instant u) (Suc (length ?rs)) (al_inputs s))"
    using closing_answers sd by (auto simp: shutting_down_def)
  have rn: "sched_inv content (run_scheduler rn)" "gate_passes rn" "requests (run_scheduler rn) = map (Ready \<circ> Some) ?rs @ [Ready None, Ready None]"
    "finite (dom (slots rn))" "slots rn = slots (al_runner s)" "completes (slots rn)" "slots_named (ae_class A) (slots rn)"
    using sd ans by (auto simp: rn_def shutting_down_def applier_inv_def runner_inv_def gate_passes_def)
  obtain p sl where p: "fhm_poll_next (ae_iter A) (slots rn) = (p, sl)" by fastforce
  note prog = fhm_progress [OF fhm_poll_ok [OF ord rn(4) p] rn(4,6)]
  obtain rn' where rn': "runner_poll_next (ae_sched A) (ae_iter A) (at_instant u) (run_request (ae_class A) (reconciler_at u) (with_store u)) rn
        = Some (Inr (map_poll (map_option Inr) p, rn'))" "slots rn' = sl" "gate_passes rn'"
    "if \<exists>x. p = Ready (Some x) then run_scheduler rn' = run_scheduler rn else requests (run_scheduler rn') = [Ready None]"
    using delay_queue.runner_closing [OF dq rn(1-3) p] by blast
  obtain r s' es where v: "via_poll A u s = Some (Inr (r, s'))" "follows_tasks A content (at_instant u) s es [] s'"
    using via_poll_follows [OF dq ord, of s u] sd unfolding shutting_down_def by blast
  then have inv: "applier_inv A content s'" by (simp add: follows_tasks_def)
  note vp = v(1) [unfolded via_poll_def Let_def rn_def [symmetric] if_not_P [OF nd] rn'(1) option.case sum.case prod.case]
  show ?thesis
  proof (cases p rule: stream_poll_cases)
    case (item x)
    then obtain m fut where m: "slots rn m = Some fut" "Ready x \<in> set fut" "dom sl = dom (slots rn) - {m}" using prog by auto
    then have "outcome_of (ae_class A) m x" using rn(7) unfolding slots_named_def by blast
    from via_item [OF this, of "at_instant u"] obtain i sent where i: "item_of (ae_class A) m i"
      "case x of Inl err \<Rightarrow> i = Inl err
       | Inr (key, obj, res) \<Rightarrow> map_option (map_prod (\<lambda>result. applier_output (ae_class A) (key_ref key, result)) id)
           (finish_request (ae_error_policy A) (at_instant u) (key, obj, res)) = Some (i, sent)" by blast
    have "length ?ans - length (requests (run_scheduler rn')) = 0" using rn'(4) item by (simp add: rn_def)
    then have "r = Ready (Some i) \<and> al_runner s' = rn' \<and> \<not> al_via_done s' \<and> (\<exists>qs. al_inputs s' = send_requests qs (al_inputs s) \<or> al_inputs s' = al_inputs s)"
      using vp item i(2) nd by (cases x) (auto split: option.splits)
    moreover from this have "closing (al_inputs s')" using sd by (auto simp: shutting_down_def)
    ultimately show ?thesis using v(1) inv rn' rn(5) i(1) m prog item by (auto simp: shutting_down_def closing_spec_def)
  next
    case over
    have "length ?ans - length (requests (run_scheduler rn')) = Suc (length ?rs)" using rn'(4) over ans by simp
    then have "r = Ready None \<and> al_runner s' = rn' \<and> al_via_done s' \<and> drained (al_inputs s')" using vp over skip by auto
    then show ?thesis using v(1) inv rn' rn(5) prog over drained_closing by (auto simp: shutting_down_def closing_spec_def completes_def)
  next
    case pending
    have "length ?ans - length (requests (run_scheduler rn')) = Suc (length ?rs)" using rn'(4) pending ans by simp
    then have "r = Pending \<and> al_runner s' = rn' \<and> \<not> al_via_done s' \<and> drained (al_inputs s')" using vp pending skip nd by auto
    then show ?thesis using v(1) inv rn' rn(5) prog pending drained_closing by (auto simp: shutting_down_def closing_spec_def)
  qed
qed

lemma closing_errs_poll:
  assumes "shutting_down A content s"
  shows "\<exists>r s'. errs_poll u s = Some (Inr (r, s')) \<and> shutting_down A content s' \<and> given r = [] \<and> al_runner s' = al_runner s
     \<and> al_via_done s' = al_via_done s \<and> (drained (al_inputs s) \<longrightarrow> r = Ready None \<and> s' = s)"
proof -
  obtain a pk where p: "err_poll (queue_first u) (at_instant u) (al_inputs s) = Some (a, pk)" "closing pk" "given a = []"
    "a = Ready None \<longleftrightarrow> drained pk" "drained (al_inputs s) \<longrightarrow> pk = al_inputs s"
    using closing_errs [of "al_inputs s" "queue_first u" "at_instant u"] assms by (auto simp: shutting_down_def)
  show ?thesis using p assms
    by (cases a rule: stream_poll_cases) (auto simp: errs_poll_def shutting_down_def applier_inv_def peeked_ok_def closing_def)
qed

lemma closing_poll:
  assumes dq: "delay_queue (ae_sched A) content" and ord: "hash_order (ae_iter A)" and sd: "shutting_down A content s" and nd: "\<not> al_via_done s"
  shows "\<exists>r s'. applier_poll A u s = Some (Inr (r, s')) \<and> shutting_down A content s' \<and> closing_spec A s r s'"
proof (cases "via_first u")
  case True
  obtain r s1 where v: "via_poll A u s = Some (Inr (r, s1))" "shutting_down A content s1" "closing_spec A s r s1"
    "al_via_done s1 \<longleftrightarrow> r = Ready None" "given r = [] \<longrightarrow> drained (al_inputs s1)" using closing_via [OF assms] by blast
  show ?thesis
  proof (cases "given r = []")
    case none: True
    then have "errs_poll u s1 = Some (Inr (Ready None, s1))" using closing_errs_poll [OF v(2), of u] v(5) by auto
    then have "applier_poll A u s = Some (Inr (r, s1))" using v(1) none True
      by (cases r rule: stream_poll_cases) (simp_all add: applier_poll_def select_try_def)
    then show ?thesis using v by blast
  next
    case False
    then have "applier_poll A u s = Some (Inr (r, s1))" using v(1) True
      by (cases r rule: stream_poll_cases) (simp_all add: applier_poll_def select_try_def)
    then show ?thesis using v by blast
  qed
next
  case False
  obtain r1 s1 where e: "errs_poll u s = Some (Inr (r1, s1))" "shutting_down A content s1" "given r1 = []" "al_runner s1 = al_runner s" "\<not> al_via_done s1"
    using closing_errs_poll [OF sd, of u] nd by auto
  obtain r2 s2 where v: "via_poll A u s1 = Some (Inr (r2, s2))" "shutting_down A content s2" "closing_spec A s1 r2 s2"
    "al_via_done s2 \<longleftrightarrow> r2 = Ready None" using closing_via [OF dq ord e(2,5)] by blast
  let ?r = "if r2 = Ready None \<and> r1 \<noteq> Ready None then Pending else r2"
  have "applier_poll A u s = Some (Inr (?r, s2))" using e(1,3) v(1) False
    by (cases r1 rule: stream_poll_cases; cases r2 rule: stream_poll_cases) (simp_all add: applier_poll_def select_try_def)
  moreover have "closing_spec A s ?r s2" using v(3,4) unfolding closing_spec_def e(4) by (auto split: if_splits)
  ultimately show ?thesis using v(2) by blast
qed

lemma closed_polls:
  assumes "drained (al_inputs s)" "al_via_done s"
  shows "applier_polls A us s = Some (Inr (replicate (length us) (Ready None), s))"
proof -
  have "via_poll A u s = Some (Inr (Ready None, s))" "errs_poll u s = Some (Inr (Ready None, s))" for u
    using assms by (simp_all add: via_poll_def errs_poll_def drained_polls)
  then have "applier_poll A u s = Some (Inr (Ready None, s))" for u by (simp add: applier_poll_def select_try_def)
  then show ?thesis by (induction us) simp_all
qed

lemma applier_polls_length: "applier_polls A us s = Some (Inr (rs, s')) \<Longrightarrow> length rs = length us"
  by (induction us arbitrary: s rs) (auto split: option.splits sum.splits prod.splits)

text \<open>All polls until the end: the reports are those of the running reconciliations.\<close>

lemma closing_run:
  fixes A :: "('que, 'dt, 'k, 'e) applier_env" and us :: "('dt, 'k, 'e, 'q) turn list"
  assumes dq: "delay_queue (ae_sched A) content" and ord: "hash_order (ae_iter A)"
    and "shutting_down A content s" and "\<not> al_via_done s" and "Suc (polls_left (slots (al_runner s))) < length us"
  shows "\<exists>rs s' ms. applier_polls A us s = Some (Inr (rs, s')) \<and> last rs = Ready None \<and> running (tasks_of s') = {}
     \<and> distinct ms \<and> set ms = dom (slots (al_runner s)) \<and> list_all2 (item_of (ae_class A)) ms (concat (map given rs))"
  using assms(3-)
proof (induction us arbitrary: s)
  case (Cons u us)
  obtain r s1 where p: "applier_poll A u s = Some (Inr (r, s1))" "shutting_down A content s1" "closing_spec A s r s1"
    using closing_poll [OF dq ord Cons.prems(1,2)] by blast
  show ?case
  proof (cases "al_via_done s1")
    case True
    then have "drained (al_inputs s1)" "given r = []" "slots (al_runner s) = Map.empty" "slots (al_runner s1) = Map.empty"
      using p(3) by (simp_all add: closing_spec_def)
    moreover have "us \<noteq> []" using Cons.prems(3) by auto
    moreover have "concat (map given (replicate n (Ready None))) = []" for n :: nat by (induction n) simp_all
    ultimately show ?thesis using p(1) closed_polls [OF _ True, of A us] by (simp add: tasks_of_def)
  next
    case False
    then have "Suc (polls_left (slots (al_runner s1))) < length us" using p(3) Cons.prems(3) by (simp add: closing_spec_def)
    from Cons.IH [OF p(2) False this] obtain rs s' ms where ih: "applier_polls A us s1 = Some (Inr (rs, s'))" "last rs = Ready None"
      "running (tasks_of s') = {}" "distinct ms" "set ms = dom (slots (al_runner s1))" "list_all2 (item_of (ae_class A)) ms (concat (map given rs))" by blast
    have run: "applier_polls A (u # us) s = Some (Inr (r # rs, s'))" using p(1) ih(1) by simp
    have "rs \<noteq> []" using applier_polls_length [OF ih(1)] \<open>Suc _ < length us\<close> by auto
    then have last: "last (r # rs) = Ready None" using ih(2) by simp
    show ?thesis
    proof (cases r rule: stream_poll_cases)
      case (item i)
      then obtain m where "m \<in> dom (slots (al_runner s))" "item_of (ae_class A) m i" "dom (slots (al_runner s1)) = dom (slots (al_runner s)) - {m}"
        using p(3) False by (auto simp: closing_spec_def)
      then have "distinct (m # ms)" "set (m # ms) = dom (slots (al_runner s))" "list_all2 (item_of (ae_class A)) (m # ms) (concat (map given (r # rs)))"
        using ih item by auto
      then show ?thesis using run last ih(3) by blast
    next
      case over
      then show ?thesis using p(3) False by (simp add: closing_spec_def)
    next
      case pending
      then have "dom (slots (al_runner s1)) = dom (slots (al_runner s))" using p(3) False by (simp add: closing_spec_def)
      then show ?thesis using run last ih pending by (intro exI [of _ "r # rs"] exI [of _ s'] exI [of _ ms]) simp
    qed
  qed
qed simp
section \<open>The applier whose store never becomes ready\<close>

text \<open>The runner has stopped, and a request was peeked that nothing will take any more.\<close>

lemma stopped_via:
  "stopped (al_runner s) \<Longrightarrow> \<exists>s'. via_poll A u s = Some (Inr (Ready None, s')) \<and> stopped (al_runner s') \<and> al_inputs s' = al_inputs s"
  by (simp add: via_poll_def runner_poll_next_def Let_def)

lemma stuck_errs: "pk_peeked (al_inputs s) = Some (Some (Inr r)) \<Longrightarrow> errs_poll u s = Some (Inr (Pending, s))"
  by (simp add: errs_poll_def split_polls)

lemma stuck_poll:
  assumes "stopped (al_runner s)" and "pk_peeked (al_inputs s) = Some (Some (Inr r))"
  shows "\<exists>s'. applier_poll A u s = Some (Inr (Pending, s')) \<and> stopped (al_runner s') \<and> al_inputs s' = al_inputs s"
proof -
  obtain s' where s': "via_poll A u s = Some (Inr (Ready None, s'))" "stopped (al_runner s')" "al_inputs s' = al_inputs s"
    using stopped_via [OF assms(1)] by blast
  then show ?thesis using stuck_errs [OF assms(2), of u] stuck_errs [of s' r u] assms(2) by (auto simp: applier_poll_def select_try_def)
qed

lemma stuck_polls:
  assumes "stopped (al_runner s)" and "pk_peeked (al_inputs s) = Some (Some (Inr r))"
  shows "\<exists>s'. applier_polls A us s = Some (Inr (replicate (length us) Pending, s'))"
  using assms
proof (induction us arbitrary: s)
  case (Cons u us)
  obtain s1 where s1: "applier_poll A u s = Some (Inr (Pending, s1))" "stopped (al_runner s1)" "al_inputs s1 = al_inputs s"
    using stuck_poll [OF Cons.prems] by blast
  then show ?case using Cons.IH [of s1] Cons.prems(2) by auto
qed simp

text \<open>The next poll of the errors peeks the request, and leaves it to a stream of requests that is not polled any more.\<close>

definition request_next :: "('dt, 'e, 'q) split_inputs \<Rightarrow> bool" where
  "request_next pk \<longleftrightarrow> (case pk_peeked pk of
     Some (Some (Inr r)) \<Rightarrow> True
   | None \<Rightarrow> in_channel (pk_stream pk) = [] \<and> \<not> in_shutdown (pk_stream pk)
       \<and> (\<exists>req q. in_queue (pk_stream pk) = Ready (Some (Inr req)) # q)
   | _ \<Rightarrow> False)"

lemma peeks_request:
  assumes "request_next (al_inputs s)"
  shows "\<exists>s' r. errs_poll u s = Some (Inr (Pending, s')) \<and> al_runner s' = al_runner s \<and> al_via_done s' = al_via_done s \<and> pk_peeked (al_inputs s') = Some (Some (Inr r))"
proof (cases "pk_peeked (al_inputs s)")
  case None
  then show ?thesis using assms by (cases "queue_first u (pk_stream (al_inputs s))")
    (auto simp: request_next_def errs_poll_def split_polls poll_inputs_def select_poll_def poll_queue_def poll_channel_def applier_input_def)
next
  case (Some x)
  then obtain r where "pk_peeked (al_inputs s) = Some (Some (Inr r))" using assms by (auto simp: request_next_def split: option.splits sum.splits)
  then show ?thesis using stuck_errs by auto
qed

lemma stopped_polls:
  assumes "stopped (al_runner s)" "request_next (al_inputs s)"
  shows "\<exists>s'. applier_polls A us s = Some (Inr (replicate (length us) Pending, s'))"
proof (cases us)
  case (Cons u us')
  have "\<exists>s' r. applier_poll A u s = Some (Inr (Pending, s')) \<and> stopped (al_runner s') \<and> pk_peeked (al_inputs s') = Some (Some (Inr r))"
  proof (cases "via_first u")
    case True
    obtain s1 where s1: "via_poll A u s = Some (Inr (Ready None, s1))" "stopped (al_runner s1)" "al_inputs s1 = al_inputs s"
      using stopped_via [OF assms(1)] by blast
    then have "request_next (al_inputs s1)" using assms(2) by simp
    from peeks_request [OF this, of u] s1(1,2) True show ?thesis by (force simp: applier_poll_def select_try_def)
  next
    case False
    obtain s1 r where s1: "errs_poll u s = Some (Inr (Pending, s1))" "al_runner s1 = al_runner s" "pk_peeked (al_inputs s1) = Some (Some (Inr r))"
      using peeks_request [OF assms(2)] by blast
    then obtain s2 where "via_poll A u s1 = Some (Inr (Ready None, s2))" "stopped (al_runner s2)" "al_inputs s2 = al_inputs s1"
      using stopped_via [of s1] assms(1) by auto
    then show ?thesis using s1 False by (auto simp: applier_poll_def select_try_def)
  qed
  then obtain s1 r where s1: "applier_poll A u s = Some (Inr (Pending, s1))" "stopped (al_runner s1)" "pk_peeked (al_inputs s1) = Some (Some (Inr r))" by blast
  then show ?thesis using stuck_polls [OF s1(2,3), of A us'] Cons by auto
qed simp

lemma readiness_via:
  assumes "hash_order (ae_iter A)" and "slots (al_runner s) = Map.empty" "ready_to_execute_after (al_runner s) = [Ready (Inl ())]"
    "\<not> stopped (al_runner s)" "\<not> al_via_done s"
  shows "\<exists>s'. via_poll A u s = Some (Inr (Ready (Some (Inl (RunnerError (Readiness ())))), s')) \<and> stopped (al_runner s') \<and> al_inputs s' = al_inputs s"
proof -
  have "set (ae_iter A {}) = {}" using hash_order.iter_keys [OF assms(1), of "{}"] by simp
  then show ?thesis using assms by (simp add: via_poll_def runner_poll_next_def Let_def fhm_poll_next_def)
qed

section \<open>The end of a run\<close>

text \<open>The run of the applier goes on: the queue ends while the reconciliation is still running.\<close>

definition demo_end :: "(unit ref_key list_queue, unit, nat, unit, unit) applier" where
  "demo_end = \<lparr>al_inputs = \<lparr>pk_peeked = Some None, pk_stream = \<lparr>in_queue = [], in_shutdown = True, in_channel = []\<rparr>\<rparr>,
     al_runner = \<lparr>run_scheduler = \<lparr>queue = [], scheduled = Map.empty, pending = {}, requests = [Ready None]\<rparr>,
       slots = [demo_key \<mapsto> [Ready (Inr (demo_key, 1, Inr \<lparr>requeue_after = Some 10\<rparr>))]], ready_to_execute_after = [],
       is_ready_to_execute = True, stopped = False\<rparr>, al_via_done = False\<rparr>"

lemma demo_poll3:
  "applier_poll demo_env (demo_turn 6) (demo_state 0 1 [] [demo_key \<mapsto> [Pending, Ready (Inr (demo_key, 1, Inr \<lparr>requeue_after = Some 10\<rparr>))]])
     = Some (Inr (Pending, demo_end))" (is "applier_poll _ _ ?s = _")
proof -
  let ?rn = "(al_runner ?s)\<lparr>run_scheduler := (run_scheduler (al_runner ?s))\<lparr>requests := [Ready None, Ready None]\<rparr>\<rparr>"
  have t: "at_instant (demo_turn 6) = 6" "queue_first (demo_turn 6) = (\<lambda>_. True)" "via_first (demo_turn 6)"
    by (simp_all add: demo_turn_def)
  define s where "s = ?s"
  have i: "al_inputs s = quiet_input 0" "\<not> al_via_done s" by (simp_all add: s_def demo_state_def)
  have ans: "ok_answers (\<lambda>_. True) 6 (al_inputs s) = [Ready None, Ready None]" by (simp add: i quiet_answers)
  have skip: "ok_skip (\<lambda>_. True) 6 (Suc 0) (al_inputs s) = al_inputs demo_end" by (simp add: i quiet_polls demo_end_def)
  have "runner_poll_next (ae_sched demo_env) (ae_iter demo_env) 6 run_msg ?rn = Some (Inr (Pending, al_runner demo_end))" for run_msg
    unfolding runner_poll_next_def
    by (simp add: demo_state_def demo_env_def fhm_poll_next_def, subst runner_loop.simps)
      (simp add: hold_unless_poll_next_def demo_end_def)
  note rn = this [folded s_def]
  have len: "length (requests (run_scheduler (al_runner demo_end))) = Suc 0" by (simp add: demo_end_def)
  have "s\<lparr>al_inputs := al_inputs demo_end, al_runner := al_runner demo_end\<rparr> = demo_end" by (simp add: s_def demo_state_def demo_end_def)
  then have "via_poll demo_env (demo_turn 6) s = Some (Inr (Pending, demo_end))"
    using i(2) by (simp add: via_poll_def Let_def t ans rn len skip del: ok_skip.simps)
  moreover have "errs_poll (demo_turn 6) demo_end = Some (Inr (Ready None, demo_end))"
    by (simp add: errs_poll_def split_polls demo_end_def)
  ultimately show ?thesis unfolding s_def [symmetric] by (simp add: applier_poll_def select_try_def t)
qed

lemma demo_to_end: "applier_polls demo_env [demo_turn 0, demo_turn 5, demo_turn 6] (applier_new [] demo_queue [Ready (Inr ())]) = Some (Inr ([Pending, Pending, Pending], demo_end))"
  using applier_polls_append [of demo_env "[demo_turn 0, demo_turn 5]" "[demo_turn 6]"] demo_polls demo_poll3 by simp

section \<open>Properties\<close>



text \<open>
  C40: when the store can never become ready, because its writer was dropped, the applier
  reports the runner's error once and then neither goes on nor ends. If the queue has a request,
  the poll of the errors peeks it and leaves it to the runner, whose stream has ended, so that
  every later poll is pending, also when the queue ends or has errors to pass on.
\<close>

theorem applier_readiness_failure:
  fixes A :: "('que, 'dt, 'k, 'e) applier_env" and us :: "('dt, 'k, 'e, 'q) turn list"
  assumes "hash_order (ae_iter A)"
  shows "\<exists>s. applier_polls A (u # us) (applier_new timers (Ready (Some (Inr req)) # user_queue) [Ready (Inl ())])
     = Some (Inr (Ready (Some (Inl (RunnerError (Readiness ())))) # replicate (length us) Pending, s))"
proof -
  define s0 :: "('que, 'dt, 'k, 'e, 'q) applier" where "s0 = applier_new timers (Ready (Some (Inr req)) # user_queue) [Ready (Inl ())]"
  have s0: "slots (al_runner s0) = Map.empty" "ready_to_execute_after (al_runner s0) = [Ready (Inl ())]" "\<not> stopped (al_runner s0)" "\<not> al_via_done s0" "request_next (al_inputs s0)"
    by (simp_all add: s0_def applier_new_def delay_tasks_until_def runner_new_def fhm_default_def pk_new_def request_next_def)
  have "\<exists>s1. applier_poll A u s0 = Some (Inr (Ready (Some (Inl (RunnerError (Readiness ())))), s1)) \<and> stopped (al_runner s1) \<and> request_next (al_inputs s1)"
  proof (cases "via_first u")
    case True
    obtain s1 where "via_poll A u s0 = Some (Inr (Ready (Some (Inl (RunnerError (Readiness ())))), s1))" "stopped (al_runner s1)" "al_inputs s1 = al_inputs s0"
      using readiness_via [OF assms s0(1-4)] by blast
    then show ?thesis using True s0(5) by (auto simp: applier_poll_def select_try_def)
  next
    case False
    obtain s1 r where s1: "errs_poll u s0 = Some (Inr (Pending, s1))" "al_runner s1 = al_runner s0" "al_via_done s1 = al_via_done s0" "pk_peeked (al_inputs s1) = Some (Some (Inr r))"
      using peeks_request [OF s0(5)] by blast
    then obtain s2 where "via_poll A u s1 = Some (Inr (Ready (Some (Inl (RunnerError (Readiness ())))), s2))" "stopped (al_runner s2)" "al_inputs s2 = al_inputs s1"
      using readiness_via [OF assms, of s1 u] s0 by auto
    then show ?thesis using False s1 by (auto simp: applier_poll_def select_try_def request_next_def)
  qed
  then obtain s1 where s1: "applier_poll A u s0 = Some (Inr (Ready (Some (Inl (RunnerError (Readiness ())))), s1))" "stopped (al_runner s1)" "request_next (al_inputs s1)" by blast
  obtain s2 where "applier_polls A us s1 = Some (Inr (replicate (length us) Pending, s2))" using stopped_polls [OF s1(2,3)] by blast
  then show ?thesis unfolding s0_def [symmetric] using s1(1) by simp
qed

theorem applier_readiness_failure_witness:
  "\<exists>s. applier_polls demo_env [demo_turn 0, demo_turn 1, demo_turn 2] (applier_new [] demo_queue [Ready (Inl ())])
     = Some (Inr ([Ready (Some (Inl (RunnerError (Readiness ())))), Pending, Pending], s))"
  unfolding demo_queue_def
  using applier_readiness_failure [OF demo_env_ok(2), of "demo_turn 0" "[demo_turn 1, demo_turn 2]"] by (simp add: numeral_2_eq_2)
end
