(* ===== verification/Cl_Stack.thy ===== *)
theory Cl_Stack
  imports Cl_Config
begin

text \<open>
  How a client is put together from a configuration: \<open>kube-client/src/client/tls.rs\<close> and the
  connectors of \<open>config_ext.rs\<close>, the service of \<open>middleware\<close> that adds credentials, the stack of
  layers in \<open>builder.rs\<close>, and the constructors of \<open>Client\<close> on top of it, built without the
  features \<open>gzip\<close>, \<open>oidc\<close> and \<open>oauth\<close>. A service is a function from a request and a state to an
  answer and a state; a layer is a function from services to services; a panic is \<open>None\<close>.

  The TLS libraries, the HTTP transport, the tracing layer, the buffer in front of a service,
  base64, random bytes and URIs are parameters.
\<close>

section \<open>Keys and certificates for rustls\<close>

datatype pem_item =
    X509Certificate bytes
  | PKCS8Key bytes
  | RSAKey bytes
  | ECKey bytes
  | OtherItem

datatype rustls_error =
    InvalidIdentityPem string
  | MissingPrivateKey
  | MissingCertificate
  | InvalidPrivateKey string
  | UnknownPrivateKeyFormat
  | AddRootCertificate string

record rustls_env =
  read_all :: "bytes \<Rightarrow> string + pem_item list"
  root_add :: "bytes \<Rightarrow> string + unit"
  single_cert :: "bytes list \<Rightarrow> bytes \<Rightarrow> string + unit"

record client_keys =
  cert_chain :: "bytes list"
  pkcs8_key :: "bytes option"
  rsa_key :: "bytes option"
  ec_key :: "bytes option"

fun client_auth_loop :: "pem_item list \<Rightarrow> client_keys \<Rightarrow> rustls_error + client_keys" where
  "client_auth_loop [] k = Inr k"
| "client_auth_loop (item # items) k =
     (case item of
        X509Certificate cert \<Rightarrow> client_auth_loop items (k\<lparr>cert_chain := cert_chain k @ [cert]\<rparr>)
      | PKCS8Key key \<Rightarrow> client_auth_loop items (k\<lparr>pkcs8_key := Some key\<rparr>)
      | RSAKey key \<Rightarrow> client_auth_loop items (k\<lparr>rsa_key := Some key\<rparr>)
      | ECKey key \<Rightarrow> client_auth_loop items (k\<lparr>ec_key := Some key\<rparr>)
      | OtherItem \<Rightarrow> Inl UnknownPrivateKeyFormat)"

definition client_auth :: "rustls_env \<Rightarrow> bytes \<Rightarrow> rustls_error + bytes list \<times> bytes" where
  "client_auth T data =
     rbind (map_err InvalidIdentityPem (read_all T data)) (\<lambda>items.
     rbind (client_auth_loop items \<lparr>cert_chain = [], pkcs8_key = None, rsa_key = None, ec_key = None\<rparr>) (\<lambda>k.
     rbind (ok_or (opt_or (opt_or (pkcs8_key k) (rsa_key k)) (ec_key k)) MissingPrivateKey) (\<lambda>private_key.
       if cert_chain k = [] then Inl MissingCertificate else Inr (cert_chain k, private_key))))"

fun root_store_loop :: "rustls_env \<Rightarrow> bytes list \<Rightarrow> bytes list \<Rightarrow> rustls_error + bytes list" where
  "root_store_loop T [] store = Inr store"
| "root_store_loop T (der # ders) store =
     rbind (map_err AddRootCertificate (root_add T der)) (\<lambda>_. root_store_loop T ders (store @ [der]))"

definition root_store :: "rustls_env \<Rightarrow> bytes list \<Rightarrow> rustls_error + bytes list" where
  "root_store T root_certs = root_store_loop T root_certs []"

datatype tls_roots = NativeRoots | RootCertStore "bytes list"

datatype cert_verifier = DefaultVerifier | NoCertificateVerification

record rustls_config =
  rc_roots :: tls_roots
  rc_identity :: "(bytes list \<times> bytes) option"
  rc_verifier :: cert_verifier

text \<open>What a verifier says to a certificate that the library's own verifier judges by \<open>check\<close>.\<close>

fun verify_server_cert :: "(bytes \<Rightarrow> string + unit) \<Rightarrow> cert_verifier \<Rightarrow> bytes \<Rightarrow> string + unit" where
  "verify_server_cert check DefaultVerifier cert = check cert"
| "verify_server_cert check NoCertificateVerification cert = Inr ()"

definition rustls_client_config :: "rustls_env \<Rightarrow> bytes option \<Rightarrow> bytes list option \<Rightarrow> bool \<Rightarrow> rustls_error + rustls_config" where
  "rustls_client_config T client_pem root_certs accept_invalid =
     rbind (case root_certs of
              Some ders \<Rightarrow> rbind (root_store T ders) (\<lambda>store. Inr (RootCertStore store))
            | None \<Rightarrow> Inr NativeRoots) (\<lambda>roots.
     rbind (case client_pem of
              Some pem \<Rightarrow>
                rbind (client_auth T pem) (\<lambda>(chain, pkey).
                rbind (map_err InvalidPrivateKey (single_cert T chain pkey)) (\<lambda>_. Inr (Some (chain, pkey))))
            | None \<Rightarrow> Inr None) (\<lambda>identity.
       Inr \<lparr>rc_roots = roots, rc_identity = identity,
            rc_verifier = (if accept_invalid then NoCertificateVerification else DefaultVerifier)\<rparr>))"

section \<open>Keys and certificates for OpenSSL\<close>

datatype ssl_connector_error =
    CreateBuilder string
  | DeserializeCertificateChain string
  | DeserializePrivateKey string
  | SetPrivateKey string
  | GetLeafCertificate
  | SetLeafCertificate string
  | AppendCertificate string
  | DeserializeRootCertificate string
  | AddSslRootCertificate string

datatype openssl_error = CreateHttpsConnector string | CreateSslConnector ssl_connector_error

record ('x, 'key, 'b) openssl_env =
  ssl_builder :: "string + 'b"
  stack_from_pem :: "bytes \<Rightarrow> string + 'x list"
  set_certificate :: "'x \<Rightarrow> 'b \<Rightarrow> string + 'b"
  add_extra_chain_cert :: "'x \<Rightarrow> 'b \<Rightarrow> string + 'b"
  private_key_from_pem :: "bytes \<Rightarrow> string + 'key"
  set_private_key :: "'key \<Rightarrow> 'b \<Rightarrow> string + 'b"
  x509_from_der :: "bytes \<Rightarrow> string + 'x"
  store_add_cert :: "'x \<Rightarrow> 'b \<Rightarrow> string + 'b"
  with_builder :: "'b \<Rightarrow> string + unit"

fun append_chain :: "('x, 'key, 'b) openssl_env \<Rightarrow> 'x list \<Rightarrow> 'b \<Rightarrow> ssl_connector_error + 'b" where
  "append_chain S [] b = Inr b"
| "append_chain S (cert # chain) b = rbind (map_err AppendCertificate (add_extra_chain_cert S cert b)) (append_chain S chain)"

fun add_root_certs :: "('x, 'key, 'b) openssl_env \<Rightarrow> bytes list \<Rightarrow> 'b \<Rightarrow> ssl_connector_error + 'b" where
  "add_root_certs S [] b = Inr b"
| "add_root_certs S (der # ders) b =
     rbind (map_err DeserializeRootCertificate (x509_from_der S der)) (\<lambda>cert.
     rbind (map_err AddSslRootCertificate (store_add_cert S cert b)) (add_root_certs S ders))"

definition ssl_set_identity :: "('x, 'key, 'b) openssl_env \<Rightarrow> bytes \<Rightarrow> 'b \<Rightarrow> ssl_connector_error + 'b" where
  "ssl_set_identity S pem b =
     rbind (map_err DeserializeCertificateChain (stack_from_pem S pem)) (\<lambda>ders.
       case ders of
         [] \<Rightarrow> Inl GetLeafCertificate
       | leaf_cert # chain \<Rightarrow>
           rbind (map_err SetLeafCertificate (set_certificate S leaf_cert b)) (\<lambda>b.
           rbind (append_chain S chain b) (\<lambda>b.
           rbind (map_err DeserializePrivateKey (private_key_from_pem S pem)) (\<lambda>pkey.
             map_err SetPrivateKey (set_private_key S pkey b)))))"

definition ssl_connector_builder :: "('x, 'key, 'b) openssl_env \<Rightarrow> bytes option \<Rightarrow> bytes list option \<Rightarrow> ssl_connector_error + 'b" where
  "ssl_connector_builder S client_pem root_certs =
     rbind (map_err CreateBuilder (ssl_builder S)) (\<lambda>b.
     rbind (case client_pem of Some pem \<Rightarrow> ssl_set_identity S pem b | None \<Rightarrow> Inr b) (\<lambda>b.
       case root_certs of Some ders \<Rightarrow> add_root_certs S ders b | None \<Rightarrow> Inr b))"

section \<open>Connectors\<close>

text \<open>
  The features decide which connector a client gets; with both, OpenSSL wins. The connector for
  plain HTTP does not enforce the scheme.
\<close>

record tls_features =
  feature_openssl :: bool
  feature_rustls :: bool

datatype 'b tls_connector =
    HttpOnly
  | Rustls rustls_config "string option"
  | Openssl 'b bool

record 'b connector =
  cn_tls :: "'b tls_connector"
  cn_connect_timeout :: "nat option"
  cn_read_timeout :: "nat option"
  cn_write_timeout :: "nat option"

record ('w, 'doc, 'val, 'x, 'key, 'b) stack_env =
  se_auth :: "'w auth_env"
  se_config :: "('doc, 'val, uri_parts) cfg_env"
  se_rustls :: rustls_env
  se_openssl :: "('x, 'key, 'b) openssl_env"
  rustls_display :: "rustls_error \<Rightarrow> string"
  openssl_display :: "openssl_error \<Rightarrow> string"
  auth_display :: "auth_error \<Rightarrow> string"
  infer_display :: "infer_config_error \<Rightarrow> string"
  base64_encode :: "string \<Rightarrow> string"
  authorization_value :: "string \<Rightarrow> string option"
  uri_build :: "uri_parts \<Rightarrow> uri_parts option"
  uri_path_and_query :: "string \<Rightarrow> string option"
  uri_to_string :: "uri_parts \<Rightarrow> string"
  http_call :: "'b connector \<Rightarrow> client_request \<Rightarrow> 'w \<Rightarrow> (box_error + http_response) \<times> 'w"

definition config_rustls_client_config :: "('w, 'doc, 'val, 'x, 'key, 'b) stack_env \<Rightarrow> uri_parts config \<Rightarrow> 'w
     \<Rightarrow> (kube_error + rustls_config) \<times> 'w" where
  "config_rustls_client_config V c w =
     (case tls_identity (se_auth V) (se_config V) c w of
        (identity, w') \<Rightarrow> (map_err (KTls \<circ> rustls_display V)
          (rustls_client_config (se_rustls V) identity (cf_root_cert c) (cf_accept_invalid_certs c)), w'))"

definition rustls_https_connector :: "('w, 'doc, 'val, 'x, 'key, 'b) stack_env \<Rightarrow> uri_parts config \<Rightarrow> 'w
     \<Rightarrow> (kube_error + 'b tls_connector) \<times> 'w" where
  "rustls_https_connector V c w =
     (case config_rustls_client_config V c w of
        (r, w') \<Rightarrow> (rbind r (\<lambda>config. Inr (Rustls config (cf_tls_server_name c))), w'))"

definition openssl_ssl_connector_builder :: "('w, 'doc, 'val, 'x, 'key, 'b) stack_env \<Rightarrow> uri_parts config \<Rightarrow> 'w
     \<Rightarrow> (kube_error + 'b) \<times> 'w" where
  "openssl_ssl_connector_builder V c w =
     (case tls_identity (se_auth V) (se_config V) c w of
        (identity, w') \<Rightarrow> (map_err (\<lambda>e. KTls (openssl_display V (CreateSslConnector e)))
          (ssl_connector_builder (se_openssl V) identity (cf_root_cert c)), w'))"

definition openssl_https_connector :: "('w, 'doc, 'val, 'x, 'key, 'b) stack_env \<Rightarrow> uri_parts config \<Rightarrow> 'w
     \<Rightarrow> (kube_error + 'b tls_connector) \<times> 'w" where
  "openssl_https_connector V c w =
     (case openssl_ssl_connector_builder V c w of
        (r, w') \<Rightarrow> (rbind r (\<lambda>b.
          rbind (map_err (\<lambda>e. KTls (openssl_display V (CreateHttpsConnector e))) (with_builder (se_openssl V) b)) (\<lambda>_.
            Inr (Openssl b (\<not> cf_accept_invalid_certs c)))), w'))"

definition client_connector :: "('w, 'doc, 'val, 'x, 'key, 'b) stack_env \<Rightarrow> tls_features \<Rightarrow> uri_parts config \<Rightarrow> 'w
     \<Rightarrow> (kube_error + 'b connector) \<times> 'w" where
  "client_connector V F c w =
     (case (if feature_openssl F then openssl_https_connector V c w
            else if feature_rustls F then rustls_https_connector V c w
            else (Inr HttpOnly, w)) of
        (r, w') \<Rightarrow> (rbind r (\<lambda>tls. Inr \<lparr>cn_tls = tls, cn_connect_timeout = cf_connect_timeout c,
            cn_read_timeout = cf_read_timeout c, cn_write_timeout = cf_write_timeout c\<rparr>), w'))"

section \<open>Services and layers\<close>

type_synonym 's call = "client_request \<Rightarrow> 's \<Rightarrow> ((box_error + http_response) \<times> 's) option"

text \<open>
  The state of the stack: what the authorization layer holds, a fixed header or a token that is
  refreshed behind its lock, and the world.
\<close>

datatype auth_service = AddAuthorization string | FilterToken refreshable_token

record 'w stack_state =
  sk_auth :: "auth_service option"
  sk_world :: 'w

definition base_uri_call :: "('w, 'doc, 'val, 'x, 'key, 'b) stack_env \<Rightarrow> uri_parts \<Rightarrow> 's call \<Rightarrow> 's call" where
  "base_uri_call V base inner req s =
     (case set_base_uri (uri_build V) base (uri_path_and_query V (uri (cq_http req))) of
        None \<Rightarrow> None
      | Some u \<Rightarrow> inner (req\<lparr>cq_http := (cq_http req)\<lparr>uri := uri_to_string V u\<rparr>\<rparr>) s)"

text \<open>\<open>AddAuthorizationLayer\<close> makes its header value when it is built, and panics when it is not a valid one.\<close>

definition auth_service_of :: "('w, 'doc, 'val, 'x, 'key, 'b) stack_env \<Rightarrow> auth_layer \<Rightarrow> auth_service option" where
  "auth_service_of V layer =
     (case layer of
        LayerBasic user pass \<Rightarrow> map_option AddAuthorization (authorization_value V (''Basic '' @ base64_encode V (user @ '':'' @ pass)))
      | LayerBearer token \<Rightarrow> map_option AddAuthorization (authorization_value V (''Bearer '' @ token))
      | LayerRefreshing r \<Rightarrow> Some (FilterToken r))"

definition auth_call :: "('w, 'doc, 'val, 'x, 'key, 'b) stack_env \<Rightarrow> 'w stack_state call \<Rightarrow> 'w stack_state call" where
  "auth_call V inner req s =
     (case sk_auth s of
        None \<Rightarrow> inner req s
      | Some (AddAuthorization value) \<Rightarrow>
          inner (req\<lparr>cq_http := (cq_http req)\<lparr>headers := header_insert ''authorization'' value (headers (cq_http req))\<rparr>\<rparr>) s
      | Some (FilterToken r) \<Rightarrow>
          (case auth_check (se_auth V) r (cq_http req) (sk_world s) of
             None \<Rightarrow> None
           | Some (res, r', w') \<Rightarrow>
               let s' = \<lparr>sk_auth = Some (FilterToken r'), sk_world = w'\<rparr> in
               (case res of
                  Inl e \<Rightarrow> Some (Inl (BoxOther (auth_display V e)), s')
                | Inr http \<Rightarrow> inner (req\<lparr>cq_http := http\<rparr>) s')))"

definition extra_call :: "(string \<times> string) list \<Rightarrow> 's call \<Rightarrow> 's call" where
  "extra_call extra inner req s = inner (req\<lparr>cq_http := extra_headers_call extra (cq_http req)\<rparr>) s"

definition transport_call :: "('w, 'doc, 'val, 'x, 'key, 'b) stack_env \<Rightarrow> 'b connector \<Rightarrow> 'w stack_state call" where
  "transport_call V conn req s = (case http_call V conn req (sk_world s) of (r, w') \<Rightarrow> Some (r, s\<lparr>sk_world := w'\<rparr>))"

section \<open>The builder\<close>

record 'svc client_builder =
  cb_service :: 'svc
  cb_default_ns :: string

definition client_builder_new :: "'svc \<Rightarrow> string \<Rightarrow> 'svc client_builder" where
  "client_builder_new service ns = \<lparr>cb_service = service, cb_default_ns = ns\<rparr>"

definition with_layer :: "('svc \<Rightarrow> 'svc') \<Rightarrow> 'svc client_builder \<Rightarrow> 'svc' client_builder" where
  "with_layer layer b = \<lparr>cb_service = layer (cb_service b), cb_default_ns = cb_default_ns b\<rparr>"

definition client_build :: "('s call \<Rightarrow> 's service) \<Rightarrow> 's call client_builder \<Rightarrow> 's client" where
  "client_build buffer b = client_new (buffer (cb_service b)) (cb_default_ns b)"

definition option_auth :: "('w, 'doc, 'val, 'x, 'key, 'b) stack_env \<Rightarrow> auth_layer option \<Rightarrow> auth_service option option" where
  "option_auth V layer = (case layer of None \<Rightarrow> Some None | Some l \<Rightarrow> map_option Some (auth_service_of V l))"

text \<open>
  The default stack of a configuration, the outermost layer first: base URI, credentials, extra
  headers, tracing, transport. The result comes with the state that the stack starts in.
\<close>

definition client_builder_try_from :: "('w, 'doc, 'val, 'x, 'key, 'b) stack_env \<Rightarrow> tls_features
     \<Rightarrow> ('w stack_state call \<Rightarrow> 'w stack_state call) \<Rightarrow> uri_parts config \<Rightarrow> 'w
     \<Rightarrow> ((kube_error + 'w stack_state call client_builder \<times> auth_service option) \<times> 'w) option" where
  "client_builder_try_from V F trace c w =
     (case client_connector V F c w of
        (Inl e, w1) \<Rightarrow> Some (Inl e, w1)
      | (Inr conn, w1) \<Rightarrow>
          (case config_auth_layer (se_auth V) c w1 of
             (Inl e, w2) \<Rightarrow> Some (Inl (KAuth (auth_display V e)), w2)
           | (Inr layer, w2) \<Rightarrow>
               (case option_auth V layer of
                  None \<Rightarrow> None
                | Some auth \<Rightarrow>
                    (case extra_headers_layer (se_auth V) c of
                       Inl e \<Rightarrow> Some (Inl e, w2)
                     | Inr extra \<Rightarrow>
                         Some (Inr (client_builder_new
                             (base_uri_call V (cf_cluster_url c) (auth_call V (extra_call extra (trace (transport_call V conn)))))
                             (cf_default_namespace c), auth), w2)))))"

definition client_try_from :: "('w, 'doc, 'val, 'x, 'key, 'b) stack_env \<Rightarrow> tls_features
     \<Rightarrow> ('w stack_state call \<Rightarrow> 'w stack_state call) \<Rightarrow> ('w stack_state call \<Rightarrow> 'w stack_state service) \<Rightarrow> uri_parts config \<Rightarrow> 'w
     \<Rightarrow> ((kube_error + 'w stack_state client \<times> auth_service option) \<times> 'w) option" where
  "client_try_from V F trace buffer c w =
     map_option (\<lambda>(r, w'). (rbind r (\<lambda>(b, auth). Inr (client_build buffer b, auth)), w')) (client_builder_try_from V F trace c w)"

definition try_default :: "('w, 'doc, 'val, 'x, 'key, 'b) stack_env \<Rightarrow> tls_features
     \<Rightarrow> ('w stack_state call \<Rightarrow> 'w stack_state call) \<Rightarrow> ('w stack_state call \<Rightarrow> 'w stack_state service) \<Rightarrow> 'w
     \<Rightarrow> ((kube_error + 'w stack_state client \<times> auth_service option) \<times> 'w) option" where
  "try_default V F trace buffer w =
     (case config_infer (se_config V) of
        Inl e \<Rightarrow> Some (Inl (KInferConfig (infer_display V e)), w)
      | Inr c \<Rightarrow> client_try_from V F trace buffer c w)"

definition sec_websocket_key :: "(bytes \<Rightarrow> string) \<Rightarrow> bytes \<Rightarrow> string" where
  "sec_websocket_key encode random = encode random"

section \<open>What the parameters promise\<close>

text \<open>
  A transport that keeps a log of what it was asked to send, with which connector; the clock, the
  file system and processes leave it alone.
\<close>

locale logged_transport =
  fixes V :: "('w, 'doc, 'val, 'x, 'key, 'b) stack_env" and sent :: "'w \<Rightarrow> ('b connector \<times> client_request) list"
  assumes http_sent: "http_call V conn req w = (r, w') \<Longrightarrow> sent w' = sent w @ [(conn, req)]"
    and now_sent: "utc_now (se_auth V) w = (t, w') \<Longrightarrow> sent w' = sent w"
    and read_sent: "fs_read (se_auth V) path w = (f, w') \<Longrightarrow> sent w' = sent w"
    and run_sent: "run_command (se_auth V) cmd w = (out, w') \<Longrightarrow> sent w' = sent w"

text \<open>
  The buffer in front of a service answers what the service answers; when the service panics, or
  has panicked before, it answers with an error.
\<close>

locale worker_buffer =
  fixes buffer :: "'s call \<Rightarrow> 's service"
  assumes ready_keeps: "svc_ready (buffer f) s = (ready, s') \<Longrightarrow> s' = s"
    and call_answers: "f req s = Some (r, s') \<Longrightarrow> svc_call (buffer f) req s = (r, s')"
    and call_panics: "f req s = None \<Longrightarrow> \<exists>e. svc_call (buffer f) req s = (Inl e, s)"

text \<open>Any transport with a log beside its world, and a buffer that calls the service at once.\<close>

definition log_auth :: "'w auth_env \<Rightarrow> ('w \<times> 'l) auth_env" where
  "log_auth A = \<lparr>utc_now = (\<lambda>(w, l). map_prod id (\<lambda>w'. (w', l)) (utc_now A w)),
     fs_read = (\<lambda>path (w, l). map_prod id (\<lambda>w'. (w', l)) (fs_read A path w)),
     run_command = (\<lambda>cmd (w, l). map_prod id (\<lambda>w'. (w', l)) (run_command A cmd w)),
     parse_datetime = parse_datetime A, to_rfc3339 = to_rfc3339 A, json_of_slice = json_of_slice A, json_to_string = json_to_string A,
     jsonpath_select = jsonpath_select A, header_value = header_value A, command_debug = command_debug A, error_debug = error_debug A,
     shape_error = shape_error A\<rparr>"

definition log_stack :: "('w, 'doc, 'val, 'x, 'key, 'b) stack_env
     \<Rightarrow> ('w \<times> ('b connector \<times> client_request) list, 'doc, 'val, 'x, 'key, 'b) stack_env" where
  "log_stack V = \<lparr>se_auth = log_auth (se_auth V), se_config = se_config V, se_rustls = se_rustls V, se_openssl = se_openssl V,
     rustls_display = rustls_display V, openssl_display = openssl_display V, auth_display = auth_display V, infer_display = infer_display V,
     base64_encode = base64_encode V, authorization_value = authorization_value V, uri_build = uri_build V,
     uri_path_and_query = uri_path_and_query V, uri_to_string = uri_to_string V,
     http_call = (\<lambda>conn req (w, l). map_prod id (\<lambda>w'. (w', l @ [(conn, req)])) (http_call V conn req w))\<rparr>"

definition direct_buffer :: "'s call \<Rightarrow> 's service" where
  "direct_buffer f = \<lparr>svc_ready = (\<lambda>s. (Inr (), s)),
     svc_call = (\<lambda>req s. case f req s of Some answer \<Rightarrow> answer | None \<Rightarrow> (Inl (BoxOther ''buffer closed''), s))\<rparr>"

interpretation recorded: logged_transport "log_stack V" snd
  by unfold_locales (auto simp: log_stack_def log_auth_def map_prod_def split: prod.splits)

interpretation direct: worker_buffer direct_buffer
  by unfold_locales (auto simp: direct_buffer_def)

section \<open>Credentials do not send requests\<close>

definition keeps :: "('w \<Rightarrow> 'l) \<Rightarrow> ('w, 'a) act \<Rightarrow> bool" where
  "keeps sent m \<longleftrightarrow> (\<forall>w r w'. m w = (r, w') \<longrightarrow> sent w' = sent w)"

lemma keeps_of: "keeps sent (act_of r)"
  by (simp add: keeps_def act_of_def)

lemma keeps_bind: "keeps sent m \<Longrightarrow> (\<And>a. keeps sent (f a)) \<Longrightarrow> keeps sent (act_bind m f)"
  by (fastforce simp: keeps_def act_bind_def split: prod.splits sum.splits)

lemma keeps_if: "keeps sent m \<Longrightarrow> keeps sent n \<Longrightarrow> keeps sent (if b then m else n)"
  by simp

context logged_transport
begin

lemma keeps_now: "keeps sent (act_now (se_auth V))"
  using now_sent by (auto simp: keeps_def act_now_def split: prod.splits)

lemma keeps_token_file: "keeps sent (token_file_new (se_auth V) path)"
  unfolding token_file_new_def
  by (intro keeps_bind keeps_now keeps_of) (auto simp: keeps_def dest: read_sent split: prod.splits)

lemma keeps_run: "keeps sent (run_checked (se_auth V) start_error shown cmd)"
  using run_sent by (auto simp: keeps_def run_checked_def split: prod.splits sum.splits)

lemma keeps_exec: "keeps sent (auth_exec (se_auth V) xc)"
  by (auto simp: auth_exec_def Let_def intro: keeps_bind keeps_of keeps_run split: option.split)

lemma keeps_gcp: "keeps sent (gcp_from_command (se_auth V) config)"
  by (auto simp: gcp_from_command_def Let_def intro: keeps_bind keeps_of keeps_run split: option.split)

lemma keeps_provider: "keeps sent (token_from_provider (se_auth V) provider)"
  by (auto simp: token_from_provider_def token_from_gcp_provider_def Let_def
      intro!: keeps_bind keeps_of keeps_now keeps_gcp keeps_if split: option.split)

lemma keeps_try_from: "keeps sent (auth_try_from (se_auth V) info)"
  by (auto simp: auth_try_from_def intro: keeps_bind keeps_of keeps_provider keeps_token_file keeps_exec split: option.split)

lemma expiring_sent: "is_expiring (se_auth V) tf w = (b, w') \<Longrightarrow> sent w' = sent w"
  using now_sent by (auto simp: is_expiring_def split: prod.splits)

lemma file_token_sent: "token_file_token (se_auth V) tf w = (token, tf', w') \<Longrightarrow> sent w' = sent w"
  using now_sent read_sent expiring_sent
  by (fastforce simp: token_file_token_def Let_def split: prod.splits if_splits)

text \<open>A header of a refreshed token is the bearer header of some token.\<close>

lemma to_header_sent:
  assumes "to_header (se_auth V) r w = Some (h, r', w')"
  shows "sent w' = sent w \<and> (\<forall>v. h = Inr v \<longrightarrow> (\<exists>token. bearer_header (se_auth V) token = Inr v))"
proof (cases r)
  case (RExec token expire info)
  have "sent w2 = sent w1" if "auth_try_from (se_auth V) info w1 = (a, w2)" for a w1 w2
    using keeps_try_from that by (auto simp: keeps_def)
  then show ?thesis using assms RExec now_sent
    by (fastforce simp: to_header_def split: prod.splits if_splits sum.splits option.splits)
next
  case (RFile tf)
  then show ?thesis using assms expiring_sent file_token_sent
    by (fastforce simp: to_header_def cached_token_def split: prod.splits if_splits option.splits)
qed

end
section \<open>What is on the wire\<close>

text \<open>
  The connector that a configuration asks for, and how a request on the wire follows from the
  request that was made: below the cluster URL, with the credentials in place of any it had, and
  with the impersonation headers at its end.
\<close>

definition connector_of :: "tls_features \<Rightarrow> uri_parts config \<Rightarrow> 'b connector \<Rightarrow> bool" where
  "connector_of F c conn \<longleftrightarrow>
     cn_connect_timeout conn = cf_connect_timeout c \<and> cn_read_timeout conn = cf_read_timeout c \<and> cn_write_timeout conn = cf_write_timeout c
     \<and> (case cn_tls conn of
          HttpOnly \<Rightarrow> \<not> feature_openssl F \<and> \<not> feature_rustls F
        | Rustls config name \<Rightarrow> \<not> feature_openssl F \<and> feature_rustls F \<and> name = cf_tls_server_name c
            \<and> rc_roots config = (case cf_root_cert c of None \<Rightarrow> NativeRoots | Some ders \<Rightarrow> RootCertStore ders)
            \<and> (rc_verifier config = NoCertificateVerification \<longleftrightarrow> cf_accept_invalid_certs c)
        | Openssl b verify \<Rightarrow> feature_openssl F \<and> (\<not> verify \<longleftrightarrow> cf_accept_invalid_certs c))"

definition credentials_in :: "('w, 'doc, 'val, 'x, 'key, 'b) stack_env \<Rightarrow> auth_service option \<Rightarrow> (string \<times> string) list \<Rightarrow> (string \<times> string) list \<Rightarrow> bool" where
  "credentials_in V auth hs hs' \<longleftrightarrow>
     (case auth of
        None \<Rightarrow> hs' = hs
      | Some (AddAuthorization value) \<Rightarrow> hs' = header_insert ''authorization'' value hs
      | Some (FilterToken _) \<Rightarrow> \<exists>token value. bearer_header (se_auth V) token = Inr value \<and> hs' = header_insert ''authorization'' value hs)"

definition wire_of :: "('w, 'doc, 'val, 'x, 'key, 'b) stack_env \<Rightarrow> uri_parts config \<Rightarrow> auth_service option \<Rightarrow> client_request \<Rightarrow> client_request \<Rightarrow> bool" where
  "wire_of V c auth q r \<longleftrightarrow>
     cq_op r = cq_op q \<and> req_method (cq_http r) = req_method (cq_http q) \<and> body (cq_http r) = body (cq_http q)
     \<and> (\<exists>u. set_base_uri (uri_build V) (cf_cluster_url c) (uri_path_and_query V (uri (cq_http q))) = Some u \<and> uri (cq_http r) = uri_to_string V u)
     \<and> (\<exists>hs extra. extra_headers_layer (se_auth V) c = Inr extra \<and> credentials_in V auth (headers (cq_http q)) hs \<and> headers (cq_http r) = hs @ extra)"

fun same_credentials :: "auth_service option \<Rightarrow> auth_service option \<Rightarrow> bool" where
  "same_credentials (Some (FilterToken _)) a \<longleftrightarrow> (\<exists>r. a = Some (FilterToken r))"
| "same_credentials auth a \<longleftrightarrow> a = auth"

lemma root_store_loop_Inr: "root_store_loop T ders store = Inr store' \<Longrightarrow> store' = store @ ders"
  by (induction ders arbitrary: store) (fastforce simp: rbind_eq_Inr)+

lemma rustls_config_of:
  assumes "rustls_client_config T identity roots invalid = Inr config"
  shows "rc_roots config = (case roots of None \<Rightarrow> NativeRoots | Some ders \<Rightarrow> RootCertStore ders)
     \<and> (rc_verifier config = NoCertificateVerification \<longleftrightarrow> invalid)"
  using assms
  by (cases roots; cases invalid) (auto simp: rustls_client_config_def rbind_eq_Inr root_store_def dest!: root_store_loop_Inr)

lemma client_connector_of:
  assumes "client_connector V F c w = (Inr conn, w')"
  shows "connector_of F c conn"
proof (cases "feature_openssl F")
  case True
  then show ?thesis using assms
    by (auto simp: client_connector_def openssl_https_connector_def rbind_eq_Inr connector_of_def split: prod.splits)
next
  case False
  show ?thesis
  proof (cases "feature_rustls F")
    case True
    then obtain identity config where "rustls_client_config (se_rustls V) identity (cf_root_cert c) (cf_accept_invalid_certs c) = Inr config"
      "cn_tls conn = Rustls config (cf_tls_server_name c)" "cn_connect_timeout conn = cf_connect_timeout c"
      "cn_read_timeout conn = cf_read_timeout c" "cn_write_timeout conn = cf_write_timeout c"
      using assms False by (auto simp: client_connector_def rustls_https_connector_def config_rustls_client_config_def rbind_eq_Inr
          map_err_eq_Inr split: prod.splits)
    then show ?thesis using rustls_config_of True False by (auto simp: connector_of_def)
  next
    case False
    then show ?thesis using assms \<open>\<not> feature_openssl F\<close> by (auto simp: client_connector_def connector_of_def)
  qed
qed

lemma client_try_from_parts:
  assumes "client_try_from V F trace buffer c w = Some (Inr (cl, auth), w')"
  obtains conn extra where "connector_of F c conn" "extra_headers_layer (se_auth V) c = Inr extra"
    "cl_inner cl = buffer (base_uri_call V (cf_cluster_url c) (auth_call V (extra_call extra (trace (transport_call V conn)))))"
    "cl_default_ns cl = cf_default_namespace c"
  using assms client_connector_of [of V F c w]
  by (auto simp: client_try_from_def client_builder_try_from_def rbind_eq_Inr client_build_def client_new_def client_builder_new_def
      split: prod.splits sum.splits option.splits)

text \<open>One call of the stack: an error, or exactly one request on the wire.\<close>

definition call_spec :: "('w, 'doc, 'val, 'x, 'key, 'b) stack_env \<Rightarrow> ('w \<Rightarrow> ('b connector \<times> client_request) list) \<Rightarrow> uri_parts config \<Rightarrow> auth_service option
     \<Rightarrow> 'b connector \<Rightarrow> client_request \<Rightarrow> 'w stack_state \<Rightarrow> 'e + http_response \<Rightarrow> 'w stack_state \<Rightarrow> ('b connector \<times> client_request) option \<Rightarrow> bool" where
  "call_spec V sent c auth conn q s res s' wire \<longleftrightarrow>
     same_credentials auth (sk_auth s')
     \<and> (case wire of
          None \<Rightarrow> isl res \<and> sent (sk_world s') = sent (sk_world s)
        | Some (conn', r) \<Rightarrow> conn' = conn \<and> wire_of V c auth q r \<and> sent (sk_world s') = sent (sk_world s) @ [(conn, r)])"

lemma header_cases:
  fixes auth a :: "auth_service option"
  assumes "same_credentials auth a"
  obtains "auth = None" "a = None" | v where "auth = Some (AddAuthorization v)" "a = auth" | r0 r where "auth = Some (FilterToken r0)" "a = Some (FilterToken r)"
  using assms by (cases "(auth, a)" rule: same_credentials.cases) auto

context logged_transport
begin

lemma transport_sends:
  assumes "extra_headers_layer (se_auth V) c = Inr extra" and "credentials_in V auth (headers (cq_http q)) hs" and "same_credentials auth (sk_auth s1)"
    and "sent (sk_world s1) = sent (sk_world s)"
    and "set_base_uri (uri_build V) (cf_cluster_url c) (uri_path_and_query V (uri (cq_http q))) = Some u"
  shows "\<exists>res s' wire. extra_call extra (transport_call V conn)
        (q\<lparr>cq_http := (cq_http q)\<lparr>uri := uri_to_string V u, headers := hs\<rparr>\<rparr>) s1 = Some (res, s') \<and> call_spec V sent c auth conn q s res s' wire"
proof -
  let ?r = "q\<lparr>cq_http := (cq_http q)\<lparr>uri := uri_to_string V u, headers := hs @ extra\<rparr>\<rparr>"
  obtain res w' where h: "http_call V conn ?r (sk_world s1) = (res, w')" by fastforce
  have "wire_of V c auth q ?r" using assms(1,2,5) by (auto simp: wire_of_def)
  then have "call_spec V sent c auth conn q s res (s1\<lparr>sk_world := w'\<rparr>) (Some (conn, ?r))"
    using http_sent [OF h] assms(3,4) by (simp add: call_spec_def)
  then show ?thesis using h by (auto simp: extra_call_def transport_call_def extra_headers_call_def)
qed

lemma stack_call:
  assumes extra: "extra_headers_layer (se_auth V) c = Inr extra" and auth: "same_credentials auth (sk_auth s)"
  shows "case base_uri_call V (cf_cluster_url c) (auth_call V (extra_call extra (transport_call V conn))) q s of
      None \<Rightarrow> True | Some (res, s') \<Rightarrow> \<exists>wire. call_spec V sent c auth conn q s res s' wire"
proof (cases "set_base_uri (uri_build V) (cf_cluster_url c) (uri_path_and_query V (uri (cq_http q)))")
  case None
  then show ?thesis by (simp add: base_uri_call_def)
next
  case (Some u)
  let ?q = "q\<lparr>cq_http := (cq_http q)\<lparr>uri := uri_to_string V u\<rparr>\<rparr>"
  have upd: "?q\<lparr>cq_http := (cq_http ?q)\<lparr>headers := hs\<rparr>\<rparr> = q\<lparr>cq_http := (cq_http q)\<lparr>uri := uri_to_string V u, headers := hs\<rparr>\<rparr>" for hs by simp
  have go: "case extra_call extra (transport_call V conn) (?q\<lparr>cq_http := (cq_http ?q)\<lparr>headers := hs\<rparr>\<rparr>) s1 of
      None \<Rightarrow> True | Some (res, s') \<Rightarrow> \<exists>wire. call_spec V sent c auth conn q s res s' wire"
    if "credentials_in V auth (headers (cq_http q)) hs" "same_credentials auth (sk_auth s1)" "sent (sk_world s1) = sent (sk_world s)" for hs s1
    using transport_sends [OF extra that Some, of conn] unfolding upd by auto
  from auth show ?thesis
  proof (cases rule: header_cases)
    case 1
    have "?q\<lparr>cq_http := (cq_http ?q)\<lparr>headers := headers (cq_http q)\<rparr>\<rparr> = ?q" by simp
    then show ?thesis using go [of "headers (cq_http q)" s] 1 Some auth by (simp add: base_uri_call_def auth_call_def credentials_in_def)
  next
    case (2 v)
    then show ?thesis using go [of "header_insert ''authorization'' v (headers (cq_http q))" s] Some auth
      by (simp add: base_uri_call_def auth_call_def credentials_in_def)
  next
    case (3 r0 r)
    show ?thesis
    proof (cases "to_header (se_auth V) r (sk_world s)")
      case None
      then show ?thesis using 3 Some by (simp add: base_uri_call_def auth_call_def auth_check_def)
    next
      case h: (Some x)
      obtain h r' w' where x: "to_header (se_auth V) r (sk_world s) = Some (h, r', w')" using h by (cases x) auto
      let ?s1 = "\<lparr>sk_auth = Some (FilterToken r'), sk_world = w'\<rparr>"
      note hs = to_header_sent [OF x]
      show ?thesis
      proof (cases h)
        case (Inl e)
        then have "call_spec V sent c auth conn q s (Inl (BoxOther (auth_display V e)) :: box_error + http_response) ?s1 None"
          using hs 3 by (simp add: call_spec_def)
        then show ?thesis using Inl x 3 Some by (auto simp: base_uri_call_def auth_call_def auth_check_def Let_def)
      next
        case (Inr v)
        then have "credentials_in V auth (headers (cq_http q)) (header_insert ''authorization'' v (headers (cq_http q)))"
          using hs 3 by (auto simp: credentials_in_def)
        from go [OF this, of ?s1] show ?thesis using Inr x hs 3 Some by (simp add: base_uri_call_def auth_call_def auth_check_def Let_def)
      qed
    qed
  qed
qed

end
text \<open>A sequence of requests through one client.\<close>

fun sends :: "'s client \<Rightarrow> client_request list \<Rightarrow> 's \<Rightarrow> (kube_error + http_response) list \<times> 's" where
  "sends cl [] s = ([], s)"
| "sends cl (q # qs) s =
     (case send cl q s of (r, s1) \<Rightarrow> (case sends cl qs s1 of (rs, s2) \<Rightarrow> (r # rs, s2)))"

lemma send_spec:
  assumes log: "logged_transport V sent" and buf: "worker_buffer buffer"
    and "extra_headers_layer (se_auth V) c = Inr extra" and cred: "same_credentials auth (sk_auth s)"
    and cl: "cl_inner cl = buffer (base_uri_call V (cf_cluster_url c) (auth_call V (extra_call extra (transport_call V conn))))"
    and send: "send cl q s = (res, s')"
  shows "\<exists>wire. call_spec V sent c auth conn q s res s' wire"
proof -
  let ?f = "base_uri_call V (cf_cluster_url c) (auth_call V (extra_call extra (transport_call V conn)))"
  obtain ready s1 where r: "svc_ready (buffer ?f) s = (ready, s1)" by fastforce
  then have s1: "s1 = s" using worker_buffer.ready_keeps [OF buf] by blast
  have quiet: "call_spec V sent c auth conn q s (Inl e :: kube_error + http_response) s None" for e using cred by (simp add: call_spec_def)
  show ?thesis
  proof (cases ready)
    case (Inl e)
    then show ?thesis using send r s1 cl quiet by (auto simp: send_def)
  next
    case (Inr u)
    show ?thesis
    proof (cases "?f q s")
      case None
      then obtain e where "svc_call (buffer ?f) q s = (Inl e, s)" using worker_buffer.call_panics [OF buf] by blast
      then show ?thesis using send r s1 Inr cl quiet by (auto simp: send_def)
    next
      case (Some x)
      obtain a s2 where x: "?f q s = Some (a, s2)" using Some by (cases x) auto
      from logged_transport.stack_call [OF log assms(3) cred, of conn q] x obtain wire where w: "call_spec V sent c auth conn q s a s2 wire" by auto
      have "svc_call (buffer ?f) q s = (a, s2)" using worker_buffer.call_answers [OF buf, of ?f q s a s2] x by blast
      then have res: "s' = s2" "res = (case a of Inl e \<Rightarrow> Inl (unbox_error e) | Inr y \<Rightarrow> Inr y)"
        using send r s1 Inr cl by (auto simp: send_def split: sum.splits)
      have "isl res = isl a" using res(2) by (cases a) auto
      then have "call_spec V sent c auth conn q s res s' wire" using w res(1) by (cases wire) (auto simp: call_spec_def)
      then show ?thesis by blast
    qed
  qed
qed

lemma sends_spec:
  assumes log: "logged_transport V sent" and buf: "worker_buffer buffer"
    and extra: "extra_headers_layer (se_auth V) c = Inr extra" and conn: "connector_of F c conn"
    and cl: "cl_inner cl = buffer (base_uri_call V (cf_cluster_url c) (auth_call V (extra_call extra (transport_call V conn))))"
  shows "same_credentials auth (sk_auth s) \<Longrightarrow> sends cl qs s = (rs, s') \<Longrightarrow>
     \<exists>wires. sent (sk_world s') = sent (sk_world s) @ List.map_filter id wires
       \<and> list_all2 (\<lambda>(q, res) wire. case wire of None \<Rightarrow> isl res | Some (conn, r) \<Rightarrow> connector_of F c conn \<and> wire_of V c auth q r) (zip qs rs) wires
       \<and> length rs = length qs"
proof (induction qs arbitrary: s rs)
  case Nil
  then show ?case by (simp add: List.map_filter_simps)
next
  case (Cons q qs)
  obtain r s1 where r: "send cl q s = (r, s1)" by fastforce
  obtain rs1 where rs1: "sends cl qs s1 = (rs1, s')" "rs = r # rs1" using Cons.prems(2) r by (auto split: prod.splits)
  obtain wire where w: "call_spec V sent c auth conn q s r s1 wire" using send_spec [OF log buf extra Cons.prems(1) cl r] by blast
  then have "same_credentials auth (sk_auth s1)" by (simp add: call_spec_def)
  from Cons.IH [OF this rs1(1)] obtain wires where
    ih: "sent (sk_world s') = sent (sk_world s1) @ List.map_filter id wires"
      "list_all2 (\<lambda>(q, res) wire. case wire of None \<Rightarrow> isl res | Some (conn, r) \<Rightarrow> connector_of F c conn \<and> wire_of V c auth q r) (zip qs rs1) wires"
      "length rs1 = length qs" by blast
  show ?case
  proof (intro exI [of _ "wire # wires"] conjI)
    show "sent (sk_world s') = sent (sk_world s) @ List.map_filter id (wire # wires)"
      using w ih(1) by (cases wire) (auto simp: call_spec_def List.map_filter_simps)
    show "list_all2 (\<lambda>(q, res) wire. case wire of None \<Rightarrow> isl res | Some (conn, r) \<Rightarrow> connector_of F c conn \<and> wire_of V c auth q r) (zip (q # qs) rs) (wire # wires)"
      using w ih(2) conn rs1(2) by (cases wire) (auto simp: call_spec_def)
    show "length rs = length (q # qs)" using ih(3) rs1(2) by simp
  qed
qed

section \<open>Which key identifies a client\<close>

definition certs_of :: "pem_item list \<Rightarrow> bytes list" where
  "certs_of items = List.map_filter (\<lambda>i. case i of X509Certificate c \<Rightarrow> Some c | _ \<Rightarrow> None) items"

definition keys_of :: "pem_item list \<Rightarrow> bytes list \<times> bytes list \<times> bytes list" where
  "keys_of items = (List.map_filter (\<lambda>i. case i of PKCS8Key k \<Rightarrow> Some k | _ \<Rightarrow> None) items,
     List.map_filter (\<lambda>i. case i of RSAKey k \<Rightarrow> Some k | _ \<Rightarrow> None) items,
     List.map_filter (\<lambda>i. case i of ECKey k \<Rightarrow> Some k | _ \<Rightarrow> None) items)"

definition last_opt :: "'a list \<Rightarrow> 'a option" where
  "last_opt xs = (if xs = [] then None else Some (last xs))"

lemma client_auth_loop_eq:
  "client_auth_loop items k =
     (if OtherItem \<in> set items then Inl UnknownPrivateKeyFormat
      else case keys_of items of (p, r, e) \<Rightarrow>
        Inr \<lparr>cert_chain = cert_chain k @ certs_of items, pkcs8_key = opt_or (last_opt p) (pkcs8_key k),
             rsa_key = opt_or (last_opt r) (rsa_key k), ec_key = opt_or (last_opt e) (ec_key k)\<rparr>)"
  by (induction items k rule: client_auth_loop.induct)
    (auto simp: certs_of_def keys_of_def last_opt_def List.map_filter_simps split: pem_item.splits)

section \<open>Properties\<close>


definition sample_cfg :: "(string, kubeconfig, uri_parts) cfg_env" where
  "sample_cfg = \<lparr>kc_base = \<lparr>read_to_string = read_to_string sample_env, read_file = read_file sample_env, yaml_documents = yaml_documents sample_env,
       yaml_value = yaml_value sample_env, yaml_from_value = yaml_from_value sample_env, base64_decode = base64_decode sample_env,
       path_parent = path_parent sample_env, path_is_relative = path_is_relative sample_env, path_join = path_join sample_env,
       path_to_str = path_to_str sample_env, home_dir = home_dir sample_env, env_var_os = env_var_os sample_env, env_var = env_var sample_env,
       split_paths = split_paths sample_env, parse_certs = parse_certs sample_env, parse_uri = (\<lambda>t. Inl ''invalid'')\<rparr>,
     pem_parse_many = (\<lambda>b. Inr []), parse_ip = (\<lambda>h. None)\<rparr>"

definition sample_stack :: "(int, string, kubeconfig, bytes, bytes, unit) stack_env" where
  "sample_stack = \<lparr>se_auth = ticking_env (\<lambda>p w. ''token''), se_config = sample_cfg,
     se_rustls = \<lparr>read_all = (\<lambda>b. Inr []), root_add = (\<lambda>b. Inr ()), single_cert = (\<lambda>c k. Inr ())\<rparr>,
     se_openssl = \<lparr>ssl_builder = Inr (), stack_from_pem = (\<lambda>b. Inr []), set_certificate = (\<lambda>x b. Inr b), add_extra_chain_cert = (\<lambda>x b. Inr b),
       private_key_from_pem = Inr, set_private_key = (\<lambda>k b. Inr b), x509_from_der = Inr, store_add_cert = (\<lambda>x b. Inr b), with_builder = Inr\<rparr>,
     rustls_display = (\<lambda>e. ''tls''), openssl_display = (\<lambda>e. ''tls''), auth_display = (\<lambda>e. ''auth''), infer_display = (\<lambda>e. ''config''),
     base64_encode = (\<lambda>s. s), authorization_value = Some, uri_build = (\<lambda>p. if parts_complete p then Some p else None), uri_path_and_query = Some,
     uri_to_string = (\<lambda>u. unwrap_or (up_path_and_query u) []),
     http_call = (\<lambda>conn req w. (Inr \<lparr>rs_status = 200, rs_headers = [], rs_body = []\<rparr>, w + 1))\<rparr>"

definition sample_config :: "uri_parts config" where
  "sample_config = (config_new \<lparr>up_scheme = Some ''https'', up_authority = Some ''host'', up_path_and_query = Some ''/''\<rparr>)
     \<lparr>cf_auth_info := auth_info_default\<lparr>ai_token_file := Some ''file'', ai_impersonate := Some ''user''\<rparr>\<rparr>"

lemmas sample_defs = log_stack_def log_auth_def sample_stack_def sample_config_def config_new_def auth_info_default_def ticking_env_def

lemma sample_auth:
  "auth_try_from (se_auth (log_stack sample_stack)) (cf_auth_info sample_config) (w, l)
     = (Inr (AuthRefreshable (RFile \<lparr>tf_path = ''file'', tf_token = ''token'', tf_expires_at = w + 61\<rparr>)), (w + 1, l))"
  by (simp add: sample_defs auth_try_from_def act_bind_def act_of_def token_file_new_def act_now_def)

lemma sample_connector:
  "client_connector (log_stack sample_stack) \<lparr>feature_openssl = False, feature_rustls = True\<rparr> sample_config (0, [])
     = (Inr \<lparr>cn_tls = Rustls \<lparr>rc_roots = NativeRoots, rc_identity = None, rc_verifier = DefaultVerifier\<rparr> None,
          cn_connect_timeout = Some DEFAULT_CONNECT_TIMEOUT, cn_read_timeout = Some DEFAULT_READ_TIMEOUT, cn_write_timeout = None\<rparr>, (1, []))"
proof -
  have "config_identity_pem (se_config (log_stack sample_stack)) sample_config = None"
    by (simp add: sample_defs config_identity_pem_def identity_pem_def load_client_certificate_def load_from_base64_or_file_def split: sum.split)
  then show ?thesis
    by (simp add: client_connector_def rustls_https_connector_def config_rustls_client_config_def tls_identity_def exec_identity_pem_def sample_auth)
      (simp add: sample_defs rustls_client_config_def)
qed

lemma sample_client:
  "\<exists>cl auth. client_try_from (log_stack sample_stack) \<lparr>feature_openssl = False, feature_rustls = True\<rparr> (\<lambda>f. f) direct_buffer sample_config (0, [])
     = Some (Inr (cl, auth), (2, []))"
proof -
  have "config_auth_layer (se_auth (log_stack sample_stack)) sample_config (1, [])
      = (Inr (Some (LayerRefreshing (RFile \<lparr>tf_path = ''file'', tf_token = ''token'', tf_expires_at = 62\<rparr>))), (2, []))"
    by (simp add: config_auth_layer_def act_bind_def sample_auth act_of_def)
  moreover have "extra_headers_layer (se_auth (log_stack sample_stack)) sample_config = Inr [(''impersonate-user'', ''user'')]"
    by (simp add: sample_defs extra_headers_layer_def)
  ultimately show ?thesis
    by (simp add: client_try_from_def client_builder_try_from_def sample_connector option_auth_def auth_service_of_def)
qed


text \<open>
  C26: which certificate and key identify a client to a rustls connection: all certificates of the
  PEM data in order, and the last PKCS8 key, or without one the last RSA key, or without one the
  last EC key; anything else in the data, a missing key or a missing certificate is an error, in
  this order.
\<close>

theorem client_auth_exact:
  "client_auth T pem =
     (case read_all T pem of
        Inl e \<Rightarrow> Inl (InvalidIdentityPem e)
      | Inr items \<Rightarrow>
          (case keys_of items of (pkcs8, rsa, ec) \<Rightarrow>
             if OtherItem \<in> set items then Inl UnknownPrivateKeyFormat
             else if pkcs8 = [] \<and> rsa = [] \<and> ec = [] then Inl MissingPrivateKey
             else if certs_of items = [] then Inl MissingCertificate
             else Inr (certs_of items, last (if pkcs8 \<noteq> [] then pkcs8 else if rsa \<noteq> [] then rsa else ec))))"
  by (auto simp: client_auth_def client_auth_loop_eq last_opt_def split: sum.splits prod.splits)

text \<open>The OpenSSL connector does not look at the server name of the configuration.\<close>

lemma openssl_ignores_server_name:
  "openssl_https_connector V (c\<lparr>cf_tls_server_name := name\<rparr>) w = openssl_https_connector V c w"
  by (simp add: openssl_https_connector_def openssl_ssl_connector_builder_def tls_identity_def exec_identity_pem_def config_identity_pem_def)

end
