(* ===== verification/Core_Object.thy ===== *)
theory Core_Object
  imports De_Derive Core_Response "HOL-Library.AList"
begin

text \<open>
  Objects on the wire: \<open>kube-core/src/object.rs\<close>, \<open>dynamic.rs\<close>, \<open>metadata.rs\<close> and \<open>watch.rs\<close>
  read from and written to JSON values, with the accessors of the wrappers. \<open>DynamicObject\<close>,
  \<open>Object\<close> and \<open>PartialObjectMeta\<close> flatten their type fields, and \<open>DynamicObject\<close> all members it
  does not know; \<open>WatchEvent\<close> is tagged by its member \<open>type\<close>.

  The formats of \<open>ObjectMeta\<close> and \<open>ListMeta\<close>, which another crate defines, are parameters.
\<close>

section \<open>Flattened fields\<close>

text \<open>
  A struct with flattened fields is read from an object only. Its own fields are read by name;
  what is left of the members is handed to the flattened fields in their order.
\<close>

fun read_flat :: "field list \<Rightarrow> json \<Rightarrow> (json list \<times> (string \<times> json) list) option" where
  "read_flat fs (JObj ms) =
     map_option (\<lambda>vs. (vs, filter (\<lambda>m. fst m \<notin> fst ` set fs) ms)) (from_members fs ms)"
| "read_flat fs _ = None"

text \<open>
  \<open>TypeMeta\<close> as a flattened field: it takes members out of those that are left, one by one, and
  stops at the first that is repeated or no string. The members it has taken are gone also when
  it fails, and a flattened \<open>Option\<close> turns the failure into \<open>None\<close>.
\<close>

fun flat_types :: "string option \<Rightarrow> string option \<Rightarrow> (string \<times> json) list \<Rightarrow> type_meta option \<times> (string \<times> json) list" where
  "flat_types a k [] =
     ((case (a, k) of (Some a, Some k) \<Rightarrow> Some \<lparr>tm_api_version = a, tm_kind = k\<rparr> | _ \<Rightarrow> None), [])"
| "flat_types a k ((n, v) # ms) =
     (if n = ''apiVersion'' then
        (if a \<noteq> None then (None, ms)
         else case read_string v of None \<Rightarrow> (None, ms) | Some s \<Rightarrow> flat_types (Some s) k ms)
      else if n = ''kind'' then
        (if k \<noteq> None then (None, ms)
         else case read_string v of None \<Rightarrow> (None, ms) | Some s \<Rightarrow> flat_types a (Some s) ms)
      else apsnd ((#) (n, v)) (flat_types a k ms))"

definition types_members :: "type_meta option \<Rightarrow> (string \<times> json) list" where
  "types_members types =
     (case types of
        None \<Rightarrow> []
      | Some t \<Rightarrow> put ''apiVersion'' (JStr (tm_api_version t)) @ put ''kind'' (JStr (tm_kind t)))"

text \<open>A map of JSON values, to which members are added in their order: the last of a name stays.\<close>

definition json_map :: "(string \<times> json) list \<Rightarrow> (string \<times> json) list" where
  "json_map ms = fold (\<lambda>(k, v). AList.update k v) ms []"

section \<open>Partial metadata and dynamic objects\<close>

record meta_serde =
  ms_to_json :: "object_meta \<Rightarrow> json"
  ms_of_json :: "json \<Rightarrow> object_meta option"

definition read_metadata_or_default :: "meta_serde \<Rightarrow> json \<Rightarrow> object_meta option" where
  "read_metadata_or_default C v =
     (case v of
        JObj ms \<Rightarrow>
          (if filter (\<lambda>m. fst m = ''metadata'') ms = [] then Some object_meta_default
           else Option.bind (from_members [required ''metadata''] ms) (\<lambda>vs. ms_of_json C (hd vs)))
      | _ \<Rightarrow> None)"

definition partial_json :: "meta_serde \<Rightarrow> partial_object_meta \<Rightarrow> json" where
  "partial_json C p = JObj (types_members (pom_types p) @ put ''metadata'' (ms_to_json C (pom_metadata p)))"

definition read_partial :: "meta_serde \<Rightarrow> json \<Rightarrow> partial_object_meta option" where
  "read_partial C v =
     Option.bind (read_metadata_or_default C v) (\<lambda>metadata.
     Option.bind (read_flat [defaulted ''metadata'' JNull] v) (\<lambda>(_, rest).
       Some \<lparr>pom_types = fst (flat_types None None rest), pom_metadata = metadata\<rparr>))"

text \<open>
  The member \<open>data\<close> is a JSON value of any form, but only an object can be flattened; whether
  null can, as nothing, depends on the release of serde.
\<close>

fun flatten_data :: "bool \<Rightarrow> json \<Rightarrow> (string \<times> json) list option" where
  "flatten_data unit_flattens (JObj ms) = Some ms"
| "flatten_data unit_flattens JNull = (if unit_flattens then Some [] else None)"
| "flatten_data unit_flattens _ = None"

definition dynamic_to_value :: "bool \<Rightarrow> meta_serde \<Rightarrow> dynamic_object \<Rightarrow> json option" where
  "dynamic_to_value unit_flattens C obj =
     map_option (\<lambda>ms. JObj (json_map (types_members (do_types obj) @ put ''metadata'' (ms_to_json C (do_metadata obj)) @ ms)))
       (flatten_data unit_flattens (do_data obj))"

definition read_dynamic :: "meta_serde \<Rightarrow> json \<Rightarrow> dynamic_object option" where
  "read_dynamic C v =
     Option.bind (read_metadata_or_default C v) (\<lambda>metadata.
     Option.bind (read_flat [defaulted ''metadata'' JNull] v) (\<lambda>(_, rest).
       case flat_types None None rest of
         (types, rest) \<Rightarrow> Some \<lparr>do_types = types, do_metadata = metadata, do_data = JObj (json_map rest)\<rparr>))"

definition dynamic_try_parse :: "bool \<Rightarrow> meta_serde \<Rightarrow> (json \<Rightarrow> 'k option) \<Rightarrow> dynamic_object \<Rightarrow> 'k option" where
  "dynamic_try_parse unit_flattens C from_value obj = Option.bind (dynamic_to_value unit_flattens C obj) from_value"

section \<open>Objects with spec and status\<close>

record ('p, 'u) object_serde =
  os_meta :: meta_serde
  os_spec_to_json :: "'p \<Rightarrow> json"
  os_spec_of_json :: "json \<Rightarrow> 'p option"
  os_status_to_json :: "'u \<Rightarrow> json"
  os_status_of_json :: "json \<Rightarrow> 'u option"

definition object_json :: "('p, 'u) object_serde \<Rightarrow> ('p, 'u) kobject \<Rightarrow> json" where
  "object_json C obj =
     JObj (types_members (ob_types obj) @ put ''metadata'' (ms_to_json (os_meta C) (ob_metadata obj))
         @ put ''spec'' (os_spec_to_json C (ob_spec obj))
         @ (case ob_status obj of None \<Rightarrow> [] | Some st \<Rightarrow> put ''status'' (os_status_to_json C st)))"

definition read_object :: "('p, 'u) object_serde \<Rightarrow> json \<Rightarrow> ('p, 'u) kobject option" where
  "read_object C v =
     (case read_flat [required ''metadata'', required ''spec'', defaulted ''status'' JNull] v of
        Some ([m, s, t], rest) \<Rightarrow>
          Option.bind (ms_of_json (os_meta C) m) (\<lambda>m. Option.bind (os_spec_of_json C s) (\<lambda>s.
          Option.bind (read_option (os_status_of_json C) t) (\<lambda>t.
            Some \<lparr>ob_types = fst (flat_types None None rest), ob_metadata = m, ob_spec = s, ob_status = t\<rparr>)))
      | _ \<Rightarrow> None)"

definition object_class :: "api_resource resource_class" where
  "object_class = \<lparr>kind_of = ar_kind, group_of = ar_group, version_of = ar_version,
     api_version_of = ar_api_version, plural_of = ar_plural\<rparr>"

definition object_spec :: "('p, 'u) kobject \<Rightarrow> 'p" where
  "object_spec obj = ob_spec obj"

definition object_spec_mut :: "('p \<Rightarrow> 'p) \<Rightarrow> ('p, 'u) kobject \<Rightarrow> ('p, 'u) kobject" where
  "object_spec_mut f obj = obj\<lparr>ob_spec := f (ob_spec obj)\<rparr>"

definition object_status :: "('p, 'u) kobject \<Rightarrow> 'u option" where
  "object_status obj = ob_status obj"

definition object_status_mut :: "('u option \<Rightarrow> 'u option) \<Rightarrow> ('p, 'u) kobject \<Rightarrow> ('p, 'u) kobject" where
  "object_status_mut f obj = obj\<lparr>ob_status := f (ob_status obj)\<rparr>"

section \<open>Lists\<close>

definition deserialize_null_as_default :: "(json \<Rightarrow> 'a option) \<Rightarrow> 'a \<Rightarrow> json \<Rightarrow> 'a option" where
  "deserialize_null_as_default read default_value v = map_option (\<lambda>opt. unwrap_or opt default_value) (read_option read v)"

definition object_list_json :: "(list_meta \<Rightarrow> json) \<Rightarrow> ('k \<Rightarrow> json) \<Rightarrow> 'k object_list \<Rightarrow> json" where
  "object_list_json write_meta write l =
     JObj (put ''metadata'' (write_meta (ol_metadata l)) @ put ''items'' (JArr (map write (ol_items l))))"

definition read_object_list :: "(json \<Rightarrow> list_meta option) \<Rightarrow> (json \<Rightarrow> 'k option) \<Rightarrow> json \<Rightarrow> 'k object_list option" where
  "read_object_list read_meta read v =
     (case read_struct [required ''metadata'', required ''items''] v of
        Some [m, is] \<Rightarrow>
          Option.bind (read_meta m) (\<lambda>m. Option.bind (deserialize_null_as_default (read_vec read) [] is) (\<lambda>items.
            Some \<lparr>ol_metadata = m, ol_items = items\<rparr>))
      | _ \<Rightarrow> None)"

definition object_list_iter :: "'k object_list \<Rightarrow> 'k list" where
  "object_list_iter l = ol_items l"

definition object_list_iter_mut :: "('k \<Rightarrow> 'k) \<Rightarrow> 'k object_list \<Rightarrow> 'k object_list" where
  "object_list_iter_mut f l = l\<lparr>ol_items := map f (ol_items l)\<rparr>"

section \<open>Watch events\<close>

definition bookmark_json :: "bookmark \<Rightarrow> json" where
  "bookmark_json b =
     JObj (types_members (Some (bm_types b)) @ put ''metadata'' (JObj (put ''resourceVersion'' (JStr (bm_resource_version b)))))"

definition read_bookmark :: "json \<Rightarrow> bookmark option" where
  "read_bookmark v =
     (case read_flat [required ''metadata''] v of
        Some ([m], rest) \<Rightarrow>
          (case (read_struct [required ''resourceVersion''] m, fst (flat_types None None rest)) of
             (Some [rv], Some types) \<Rightarrow> map_option (\<lambda>rv. \<lparr>bm_types = types, bm_resource_version = rv\<rparr>) (read_string rv)
           | _ \<Rightarrow> None)
      | _ \<Rightarrow> None)"

definition tagged :: "string \<Rightarrow> json \<Rightarrow> json" where
  "tagged ty obj = JObj (put ''type'' (JStr ty) @ put ''object'' obj)"

fun watch_event_json :: "('k \<Rightarrow> json) \<Rightarrow> 'k watch_event \<Rightarrow> json" where
  "watch_event_json write (WAdded k) = tagged ''ADDED'' (write k)"
| "watch_event_json write (WModified k) = tagged ''MODIFIED'' (write k)"
| "watch_event_json write (WDeleted k) = tagged ''DELETED'' (write k)"
| "watch_event_json write (WBookmark b) = tagged ''BOOKMARK'' (bookmark_json b)"
| "watch_event_json write (WError e) = tagged ''ERROR'' (error_response_json e)"

definition read_watch_event :: "(json \<Rightarrow> 'k option) \<Rightarrow> json \<Rightarrow> 'k watch_event option" where
  "read_watch_event read v =
     (case read_struct [required ''type'', required ''object''] v of
        Some [JStr ty, obj] \<Rightarrow>
          (if ty = ''ADDED'' then map_option WAdded (read obj)
           else if ty = ''MODIFIED'' then map_option WModified (read obj)
           else if ty = ''DELETED'' then map_option WDeleted (read obj)
           else if ty = ''BOOKMARK'' then map_option WBookmark (read_bookmark obj)
           else if ty = ''ERROR'' then map_option WError (read_error_response obj)
           else None)
      | _ \<Rightarrow> None)"

fun watch_event_debug :: "(error_response \<Rightarrow> string) \<Rightarrow> 'k watch_event \<Rightarrow> string" where
  "watch_event_debug dbg (WAdded _) = ''Added event''"
| "watch_event_debug dbg (WModified _) = ''Modified event''"
| "watch_event_debug dbg (WDeleted _) = ''Deleted event''"
| "watch_event_debug dbg (WBookmark _) = ''Bookmark event''"
| "watch_event_debug dbg (WError e) = ''Error event: '' @ dbg e"

section \<open>Lemmas\<close>

lemma update_new: "k \<notin> fst ` set al \<Longrightarrow> AList.update k v al = al @ [(k, v)]"
  by (induction al) auto

lemma json_map_append:
  "distinct (map fst (acc @ ms)) \<Longrightarrow> fold (\<lambda>(k, v). AList.update k v) ms acc = acc @ ms"
proof (induction ms arbitrary: acc)
  case (Cons m ms)
  then show ?case by (cases m) (simp add: update_new)
qed simp

lemma json_map_distinct: "distinct (map fst ms) \<Longrightarrow> json_map ms = ms"
  unfolding json_map_def using json_map_append [of "[]" ms] by simp

lemma flat_types_none:
  "\<lbrakk>''apiVersion'' \<notin> fst ` set ms; ''kind'' \<notin> fst ` set ms\<rbrakk> \<Longrightarrow> flat_types a k ms = (fst (flat_types a k []), ms)"
  by (induction ms) auto

lemma flat_types_members:
  assumes "''apiVersion'' \<notin> fst ` set ms" "''kind'' \<notin> fst ` set ms"
  shows "flat_types None None (types_members types @ ms) = (types, ms)"
  using flat_types_none [OF assms] by (cases types) (simp_all add: types_members_def put_def)

lemma filter_types_members [simp]:
  "filter (\<lambda>m. fst m = ''metadata'') (types_members types) = []"
  "filter (\<lambda>m. fst m \<noteq> ''metadata'') (types_members types) = types_members types"
  by (cases types; simp add: types_members_def put_def)+

text \<open>A dynamic object is read back from what it is written to, when its data is an object without the names of its own members.\<close>

definition own_members :: "string set" where
  "own_members = {''apiVersion'', ''kind'', ''metadata''}"

lemma read_dynamic_members:
  assumes "fst ` set ms \<inter> own_members = {}" "distinct (map fst ms)" "ms_of_json C j = Some metadata"
  shows "read_dynamic C (JObj (types_members types @ put ''metadata'' j @ ms))
         = Some \<lparr>do_types = types, do_metadata = metadata, do_data = JObj ms\<rparr>"
proof -
  have ms: "''apiVersion'' \<notin> fst ` set ms" "''kind'' \<notin> fst ` set ms" "''metadata'' \<notin> fst ` set ms"
    using assms(1) by (auto simp: own_members_def)
  then have "filter (\<lambda>m. fst m = ''metadata'') ms = []" "filter (\<lambda>m. fst m \<noteq> ''metadata'') ms = ms"
    by (force simp: filter_empty_conv filter_id_conv)+
  then show ?thesis using assms(2,3) flat_types_members [OF ms(1,2), of types]
    by (simp add: read_dynamic_def read_metadata_or_default_def field_defs put_def json_map_distinct)
qed

lemma dynamic_to_value_members:
  assumes "fst ` set ms \<inter> own_members = {}" "distinct (map fst ms)" "do_data obj = JObj ms"
  shows "dynamic_to_value u C obj = Some (JObj (types_members (do_types obj) @ put ''metadata'' (ms_to_json C (do_metadata obj)) @ ms))"
proof -
  have "distinct (map fst (types_members (do_types obj) @ put ''metadata'' (ms_to_json C (do_metadata obj)) @ ms))"
    using assms(1,2) by (cases "do_types obj") (auto simp: own_members_def types_members_def put_def)
  then show ?thesis using assms(3) by (simp add: dynamic_to_value_def json_map_distinct del: map_append)
qed

lemma dynamic_roundtrip:
  assumes "do_data obj = JObj ms" "fst ` set ms \<inter> own_members = {}" "distinct (map fst ms)"
    and "ms_of_json C (ms_to_json C (do_metadata obj)) = Some (do_metadata obj)"
  shows "Option.bind (dynamic_to_value u C obj) (read_dynamic C) = Some obj"
  using assms by (simp add: dynamic_to_value_members read_dynamic_members)

text \<open>An object with only one of its type fields loses it: the flattened types take it and fail.\<close>

lemma dynamic_drops_lone_type:
  "read_dynamic C (JObj [(''apiVersion'', JStr v)]) = Some \<lparr>do_types = None, do_metadata = object_meta_default, do_data = JObj []\<rparr>"
  by (simp add: read_dynamic_def read_metadata_or_default_def field_defs json_map_def)

lemma read_object_json:
  assumes "ms_of_json (os_meta C) (ms_to_json (os_meta C) (ob_metadata obj)) = Some (ob_metadata obj)"
    and "os_spec_of_json C (os_spec_to_json C (ob_spec obj)) = Some (ob_spec obj)"
    and "\<And>t. ob_status obj = Some t \<Longrightarrow> os_status_of_json C (os_status_to_json C t) = Some t \<and> os_status_to_json C t \<noteq> JNull"
  shows "read_object C (object_json C obj) = Some obj"
proof -
  have "fst (flat_types None None (types_members (ob_types obj))) = ob_types obj"
    using flat_types_members [of "[]"] by simp
  then show ?thesis using assms
    by (cases "ob_types obj"; cases "ob_status obj") (simp_all add: read_object_def object_json_def field_defs types_members_def put_def)
qed

lemma read_object_list_json:
  "\<lbrakk>read_meta (write_meta (ol_metadata l)) = Some (ol_metadata l); \<And>k. k \<in> set (ol_items l) \<Longrightarrow> read (write k) = Some k\<rbrakk>
   \<Longrightarrow> read_object_list read_meta read (object_list_json write_meta write l) = Some l"
  by (simp add: read_object_list_def object_list_json_def field_defs put_def deserialize_null_as_default_def read_all_map unwrap_or_def)

text \<open>A list whose items are null is the empty list; one without items is an error.\<close>

lemma read_object_list_null:
  "read_object_list read_meta read (JObj [(''metadata'', m), (''items'', JNull)])
     = map_option (\<lambda>m. \<lparr>ol_metadata = m, ol_items = []\<rparr>) (read_meta m)"
  "read_object_list read_meta read (JObj [(''metadata'', m)]) = None"
  by (cases "read_meta m"; simp add: read_object_list_def field_defs deserialize_null_as_default_def unwrap_or_def)+

lemma read_bookmark_json: "read_bookmark (bookmark_json b) = Some b"
  using flat_types_members [of "[]" "Some (bm_types b)"]
  by (simp add: read_bookmark_def bookmark_json_def field_defs put_def)

lemma watch_event_roundtrip:
  "(\<And>k. k \<in> set_watch_event ev \<Longrightarrow> read (write k) = Some k) \<Longrightarrow> read_watch_event read (watch_event_json write ev) = Some ev"
  by (cases ev) (simp_all add: read_watch_event_def tagged_def field_defs put_def read_bookmark_json)

section \<open>Derived types and the wrappers\<close>

definition root_meta_serde :: "('s, 't) root_serde \<Rightarrow> meta_serde" where
  "root_meta_serde C = \<lparr>ms_to_json = meta_to_json C, ms_of_json = meta_of_json C\<rparr>"

definition root_object_serde :: "('s, 't) root_serde \<Rightarrow> ('s, 't) object_serde" where
  "root_object_serde C =
     \<lparr>os_meta = root_meta_serde C, os_spec_to_json = spec_to_json C, os_spec_of_json = spec_of_json C,
      os_status_to_json = status_to_json C, os_status_of_json = status_of_json C\<rparr>"

definition root_types :: "generated \<Rightarrow> type_meta" where
  "root_types G = \<lparr>tm_api_version = api_version_of (derived_class G) (), tm_kind = kind_of (derived_class G) ()\<rparr>"

definition root_data :: "('s, 't) root_serde \<Rightarrow> ('s, 't) root_obj \<Rightarrow> (string \<times> json) list" where
  "root_data C r = put ''spec'' (spec_to_json C (ro_spec r)) @ (case ro_status r of None \<Rightarrow> [] | Some st \<Rightarrow> put ''status'' (status_to_json C st))"

lemma root_data_own: "fst ` set (root_data C r) \<inter> own_members = {}" "distinct (map fst (root_data C r))"
  by (auto simp: root_data_def own_members_def put_def split: option.splits)

lemma serialize_root_members:
  assumes "gn_status G = None \<longrightarrow> ro_status r = None"
  shows "serialize_root G C r = JObj (types_members (Some (root_types G)) @ put ''metadata'' (meta_to_json C (ro_metadata r)) @ root_data C r)"
    and "serialize_root G C r = object_json (root_object_serde C)
           \<lparr>ob_types = Some (root_types G), ob_metadata = ro_metadata r, ob_spec = ro_spec r, ob_status = ro_status r\<rparr>"
  using assms by (auto simp: serialize_root_def types_members_def root_types_def root_data_def put_def object_json_def
      root_object_serde_def root_meta_serde_def split: option.splits)

lemma read_partial_members:
  assumes "ms_of_json C j = Some metadata" "fst ` set ms \<inter> own_members = {}"
  shows "read_partial C (JObj (types_members types @ put ''metadata'' j @ ms)) = Some \<lparr>pom_types = types, pom_metadata = metadata\<rparr>"
proof -
  have ms: "''apiVersion'' \<notin> fst ` set ms" "''kind'' \<notin> fst ` set ms" "''metadata'' \<notin> fst ` set ms"
    using assms(2) by (auto simp: own_members_def)
  then have "filter (\<lambda>m. fst m = ''metadata'') ms = []" "filter (\<lambda>m. fst m \<noteq> ''metadata'') ms = ms"
    by (force simp: filter_empty_conv filter_id_conv)+
  then show ?thesis using assms(1) flat_types_members [OF ms(1,2), of types]
    by (simp add: read_partial_def read_metadata_or_default_def field_defs put_def)
qed

text \<open>
  C25: the JSON form of a generated custom resource is understood in the same way by every type that
  can stand for it. Read as a \<open>DynamicObject\<close> it has the types and the metadata of the resource,
  is written to the same JSON again, and \<open>try_parse\<close> recovers the object; read as an \<open>Object\<close> it
  has the same spec and status; read as \<open>PartialObjectMeta\<close> the same types and metadata; and a
  watch event of the object in any of these forms is read as an event of what it holds.
\<close>

theorem object_forms_agree:
  assumes meta: "meta_of_json C (meta_to_json C (ro_metadata r)) = Some (ro_metadata r)"
    and spec: "spec_of_json C (spec_to_json C (ro_spec r)) = Some (ro_spec r)"
    and status: "\<And>t. ro_status r = Some t \<Longrightarrow> status_of_json C (status_to_json C t) = Some t \<and> status_to_json C t \<noteq> JNull"
    and no_status: "gn_status G = None \<longrightarrow> ro_status r = None"
  shows "(\<exists>obj. read_dynamic (root_meta_serde C) (serialize_root G C r) = Some obj
             \<and> do_types obj = Some (root_types G) \<and> do_metadata obj = ro_metadata r
             \<and> dynamic_to_value u (root_meta_serde C) obj = Some (serialize_root G C r)
             \<and> dynamic_try_parse u (root_meta_serde C) (deserialize_root G C) obj = Some r)
         \<and> read_object (root_object_serde C) (serialize_root G C r)
             = Some \<lparr>ob_types = Some (root_types G), ob_metadata = ro_metadata r, ob_spec = ro_spec r, ob_status = ro_status r\<rparr>
         \<and> read_partial (root_meta_serde C) (serialize_root G C r)
             = Some \<lparr>pom_types = Some (root_types G), pom_metadata = ro_metadata r\<rparr>
         \<and> read_watch_event (deserialize_root G C) (tagged ''MODIFIED'' (serialize_root G C r)) = Some (WModified r)"
proof -
  let ?v = "serialize_root G C r" and ?M = "root_meta_serde C"
  let ?obj = "\<lparr>do_types = Some (root_types G), do_metadata = ro_metadata r, do_data = JObj (root_data C r)\<rparr>"
  have M: "ms_of_json ?M (meta_to_json C (ro_metadata r)) = Some (ro_metadata r)" "ms_to_json ?M = meta_to_json C"
    using meta by (simp_all add: root_meta_serde_def)
  have v: "?v = JObj (types_members (Some (root_types G)) @ put ''metadata'' (meta_to_json C (ro_metadata r)) @ root_data C r)"
    using no_status by (rule serialize_root_members)
  have parsed: "deserialize_root G C ?v = Some r"
    using meta spec status no_status by (rule derived_roundtrip)
  have obj: "read_dynamic ?M ?v = Some ?obj" "dynamic_to_value u ?M ?obj = Some ?v"
    unfolding v using read_dynamic_members [OF root_data_own M(1)] dynamic_to_value_members [OF root_data_own, of ?obj C r]
    by (simp_all add: M(2))
  have "dynamic_try_parse u ?M (deserialize_root G C) ?obj = Some r"
    using obj(2) parsed by (simp add: dynamic_try_parse_def)
  moreover have "read_object (root_object_serde C) ?v
      = Some \<lparr>ob_types = Some (root_types G), ob_metadata = ro_metadata r, ob_spec = ro_spec r, ob_status = ro_status r\<rparr>"
    unfolding serialize_root_members(2) [OF no_status]
    by (rule read_object_json) (use meta spec status in \<open>simp_all add: root_object_serde_def root_meta_serde_def\<close>)
  moreover have "read_partial ?M ?v = Some \<lparr>pom_types = Some (root_types G), pom_metadata = ro_metadata r\<rparr>"
    unfolding v using M(1) root_data_own(1) by (rule read_partial_members)
  moreover have "read_watch_event (deserialize_root G C) (tagged ''MODIFIED'' ?v) = Some (WModified r)"
    using parsed by (simp add: read_watch_event_def tagged_def field_defs put_def)
  ultimately show ?thesis using obj by auto
qed

theorem object_forms_agree_witness:
  "\<exists>obj. read_dynamic (root_meta_serde named_serde) (serialize_root foo_generated named_serde (root_new ''a'' ''spec'')) = Some obj
     \<and> m_name (do_metadata obj) = Some ''a''
     \<and> dynamic_try_parse False (root_meta_serde named_serde) (deserialize_root foo_generated named_serde) obj = Some (root_new ''a'' ''spec'')"
proof -
  let ?r = "root_new ''a'' ''spec'' :: (string, bool) root_obj"
  have "meta_of_json named_serde (meta_to_json named_serde (ro_metadata ?r)) = Some (ro_metadata ?r)"
    "spec_of_json named_serde (spec_to_json named_serde (ro_spec ?r)) = Some (ro_spec ?r)"
    "ro_status ?r = None" "m_name (ro_metadata ?r) = Some ''a''"
    by (simp_all add: named_serde_def root_new_def object_meta_default_def)
  then show ?thesis using object_forms_agree [of named_serde ?r foo_generated False] by auto
qed

end
