(* ===== verification/Spec2Isabelle.thy ===== *)
theory Spec2Isabelle
  imports Core_Version Core_Request Core_Resource Rt_Runner Rt_Reflector Rt_Controller Rt_Finalizer
    Cl_Kubeconfig Cl_Discovery Rt_Streams Rt_Backoff Core_Response Cl_Client Cl_Api Cl_Entry Rt_Wait
    Core_Duration Core_Schema Rt_Run Rt_Events Cl_Config Cl_Portforward Cl_Remote Cl_Oidc Cl_Oauth
    De_Derive Rt_Shutdown Cl_Stack Core_Object
begin

text \<open>
  A verification library for kube, the Rust client and controller runtime for Kubernetes.

  \<^bold>\<open>The program.\<close> \<open>kube-core\<close> holds the data every other crate shares: API versions, group and
  kind names, resource descriptions and their URL paths, object metadata, watch events, statuses
  and review answers, durations, schemas of custom resources, and the builders that turn request
  parameters into HTTP requests. \<open>kube-client\<close> sends those requests: a configuration (from
  kubeconfig files or from inside a cluster) gives credentials, headers and a base URI; the
  client turns responses into values, errors and watch events; \<open>Api\<close> has one call per operation,
  with an entry API for read, change and commit on top; attached processes and forwarded ports
  share one WebSocket connection between several channels; discovery asks a server for its
  resources. \<open>kube-derive\<close> generates the resource traits and the definition of a custom resource
  from a type. \<open>kube-runtime\<close> is the controller machinery: a watcher turns list and watch calls into
  a stream of events; a reflector feeds the events to a store; stream adaptors flatten, filter
  and back off; triggers turn objects into reconcile requests; the controller merges its trigger
  streams until it is shut down; a scheduler delays and deduplicates the requests; a runner
  starts one reconciliation per object at a time; a finished reconciliation may send a request
  back to the scheduler; the finalizer wrapper makes a reconciler run cleanup before an object
  goes away; conditions wait for a state of an object, and a recorder posts events about it.

  \<^bold>\<open>The theories\<close>, in the order of their dependencies, and the files under \<open>src/\<close> they model:

  \<^item> \<open>Prelude\<close>: Rust's \<open>Result\<close> and \<open>Option\<close> combinators, \<open>Poll\<close> and polled streams, hash map
    iteration order (locale \<open>hash_order\<close>), JSON values, byte strings with \<open>strip_prefix\<close>,
    \<open>split\<close> and decimal numbers, and the lemmas about them.
  \<^item> \<open>Core_Version\<close>: \<open>kube-core/src/version.rs\<close>, the version parser and its two orders (as
    instances of \<open>linorder\<close>).
  \<^item> \<open>Core_Params\<close>, \<open>Core_Request\<close>: \<open>kube-core/src/params.rs\<close>, \<open>request.rs\<close>, \<open>subresource.rs\<close>,
    \<open>util.rs\<close>. One record per parameter struct, one definition per builder method and request.
    The locale \<open>form_serializer\<close> is the contract of the \<open>form_urlencoded\<close> crate, interpreted by
    percent encoding with its decoder.
  \<^item> \<open>Core_Resource\<close>: \<open>kube-core/src/gvk.rs\<close>, \<open>discovery.rs\<close>, \<open>resource.rs\<close>, \<open>metadata.rs\<close>,
    \<open>dynamic.rs\<close>, \<open>object.rs\<close>, \<open>watch.rs\<close>, \<open>error.rs\<close>. The \<open>Resource\<close> trait is a record of its
    functions.
  \<^item> \<open>Core_Serde\<close>, \<open>Core_Response\<close>: the derived JSON forms, and \<open>kube-core/src/response.rs\<close>,
    \<open>admission.rs\<close> and \<open>conversion/types.rs\<close>.
  \<^item> \<open>Core_Duration\<close>: \<open>kube-core/src/duration.rs\<close>. The number parser is the locale \<open>go_numbers\<close>,
    interpreted on whole numbers.
  \<^item> \<open>Core_Schema\<close>: \<open>kube-core/src/crd.rs\<close> and \<open>schema.rs\<close>.
  \<^item> \<open>Rt_Scheduler\<close>: \<open>kube-runtime/src/scheduler.rs\<close>. The timer queue of \<open>tokio-util\<close> is the
    locale \<open>delay_queue\<close>, interpreted by an association list of keys, messages and instants.
  \<^item> \<open>Rt_Runner\<close>: \<open>controller/future_hash_map.rs\<close> and \<open>controller/runner.rs\<close>.
  \<^item> \<open>Rt_Watcher\<close>: \<open>watcher.rs\<close>, events, configuration and the state machine.
  \<^item> \<open>Rt_Reflector\<close>: \<open>reflector/object_ref.rs\<close>, \<open>reflector/store.rs\<close>, \<open>reflector/mod.rs\<close>. The
    API server a watcher talks to is the locale \<open>watched_collection\<close>, interpreted by a server
    that keeps a log of changes.
  \<^item> \<open>Rt_Streams\<close>: \<open>kube-runtime/src/utils\<close> (\<open>event_flatten.rs\<close>, \<open>event_modify.rs\<close>, \<open>predicate.rs\<close>,
    \<open>stream_subscribe.rs\<close>, \<open>mod.rs\<close>, \<open>watch_ext.rs\<close>). The locales \<open>stream_adaptor\<close> and
    \<open>prompt_adaptor\<close> are what a stream on top of a stream promises; every adaptor interprets them.
  \<^item> \<open>Rt_Backoff\<close>: \<open>utils/stream_backoff.rs\<close>, \<open>backoff_reset_timer.rs\<close>, \<open>delayed_init.rs\<close> and the
    default policy of \<open>watcher.rs\<close>. Policies are the locale \<open>lasting_policy\<close>.
  \<^item> \<open>Rt_Controller\<close>: \<open>controller/mod.rs\<close>, the triggers, the closures of the applier and the
    rescheduling future.
  \<^item> \<open>Rt_Run\<close>: the rest of \<open>controller/mod.rs\<close>, the builder, its trigger streams with the store
    they share, shutdown, and the queue that \<open>run\<close> hands to the applier.
  \<^item> \<open>Rt_Applier\<close>: \<open>applier\<close> of \<open>controller/mod.rs\<close> as a closed loop, with \<open>trystream_try_via\<close> of
    \<open>utils/mod.rs\<close>: the queue, the channel of reschedules, the split of requests and errors, the
    scheduler and the runner, and an abstract machine of demands and running reconciliations.
  \<^item> \<open>Rt_Shutdown\<close>: how a run of the applier ends, and a concrete run.
  \<^item> \<open>Rt_Wait\<close>, \<open>Rt_Events\<close>: \<open>wait.rs\<close> and \<open>events.rs\<close>, on the calls of \<open>Cl_Api\<close>.
  \<^item> \<open>Rt_Finalizer\<close>: \<open>finalizer.rs\<close>, run as steps of a cluster with stale views, other writers
    and failures; JSON patching is the locale \<open>json_patch_server\<close>, interpreted by RFC 6902 on
    finalizer lists.
  \<^item> \<open>Cl_Kubeconfig\<close>: \<open>kube-client/src/config/file_config.rs\<close> and \<open>file_loader.rs\<close>, with the
    error types of \<open>config/mod.rs\<close>.
  \<^item> \<open>Cl_Discovery\<close>: \<open>kube-client/src/discovery\<close>.
  \<^item> \<open>Cl_Client\<close>: \<open>kube-client/src/client/mod.rs\<close>, \<open>upgrade.rs\<close>, \<open>middleware\<close>, \<open>error.rs\<close>. The
    line codec is the locale \<open>line_codec\<close>, interpreted by a codec with a buffer.
  \<^item> \<open>Cl_Api\<close>: \<open>kube-client/src/api\<close> (\<open>mod.rs\<close>, \<open>core_methods.rs\<close>, \<open>subresource.rs\<close>, \<open>util\<close>). The
    locale \<open>single_send\<close> is what the ways to send a request have in common.
  \<^item> \<open>Cl_Entry\<close>: \<open>api/entry.rs\<close>. Access to the metadata of a kind is the locale \<open>meta_access\<close>.
  \<^item> \<open>Cl_Auth\<close>: \<open>client/auth/mod.rs\<close>, built without \<open>oidc\<close> and \<open>oauth\<close>. A clock that never goes
    back is the locale \<open>steady_world\<close>.
  \<^item> \<open>Cl_Oidc\<close>, \<open>Cl_Oauth\<close>: \<open>client/auth/oidc.rs\<close> and \<open>oauth.rs\<close>, with the branches of
    \<open>auth/mod.rs\<close> for these features. An issuer that keeps a log of the exchanges is the locale
    \<open>logged_issuer\<close>, interpreted by any issuer with its exchanges recorded.
  \<^item> \<open>Cl_Portforward\<close>: \<open>api/portforward.rs\<close>, the loops as senders and the receiver of one bounded
    channel, polled in any order.
  \<^item> \<open>Cl_Remote\<close>: \<open>api/remote_command.rs\<close>, the message loop as a selection between three sources.
  \<^item> \<open>Cl_Config\<close>: \<open>config/mod.rs\<close>, \<open>config/incluster_config.rs\<close> and, from \<open>client/config_ext.rs\<close>,
    the layers of a configuration and its TLS identity.
  \<^item> \<open>Cl_Stack\<close>: \<open>client/tls.rs\<close>, the connectors of \<open>config_ext.rs\<close>, \<open>client/builder.rs\<close> and the
    constructors of \<open>Client\<close>. A transport that keeps a log is the locale \<open>logged_transport\<close>,
    interpreted by any transport with its log; the buffer in front of the service is the locale
    \<open>worker_buffer\<close>.
  \<^item> \<open>De_Derive\<close>: \<open>kube-derive/src/custom_resource.rs\<close>, the macro as a function from attributes to
    the constants of the generated code, and the generated methods over these constants.
  \<^item> \<open>Core_Object\<close>: the JSON forms of \<open>metadata.rs\<close>, \<open>dynamic.rs\<close>, \<open>object.rs\<close> and \<open>watch.rs\<close>,
    with their flattened and tagged members, and the accessors of the wrappers.

  \<^bold>\<open>How code becomes definitions.\<close> A struct is a record and an enum a datatype with the source's
  constructors. A method that takes \<open>&mut self\<close> returns the new state. \<open>Result\<close> is a sum with
  \<open>Inl\<close> for the error. A panic is \<open>None\<close>, or \<open>Inl\<close> of a panic type where the state machine has
  several. Calls that reach the service, the
  file system or a process take and return the state of that world. Futures and streams that are polled are scripts of poll answers; a stream that is only
  mapped is the list of its items. Time is a natural number passed in at every poll. Hash maps
  are maps, and where the code iterates over one, the order is a parameter. Integers of a fixed
  width are words. Strings are lists of bytes.

  \<^bold>\<open>Loops.\<close> Four loops of the code have no syntactic bound: taking expired messages from the
  timer queue (\<open>pop_loop\<close>), starting futures (\<open>runner_loop\<close>), stepping the watcher until it
  has an item (\<open>watcher_step\<close>) and parsing a duration (\<open>parse_loop\<close>). They are partial functions into \<open>option\<close> where \<open>None\<close> is
  non-termination; no fuel is used. That polls of the scheduler and of the runner return is part
  of the refinement theorems; that the watcher returns an item is a theorem of its own, whose
  hypotheses exclude only a watch whose stream holds nothing but bookmarks; that the duration
  parser returns is \<open>duration_from_str_terminates\<close>. The recursion over subresource names in
  discovery, the polls that skip items and the requests that the scheduler takes from the selected
  inputs in one poll (\<open>ok_answers\<close>) are total functions with a termination proof.

  \<^bold>\<open>What is shown.\<close>

  \<^item> Scheduler: every poll refines an abstract map from messages to absent, due or held
    (\<open>hold_unless_refines\<close>); scheduling keeps the earlier instant (\<open>schedule_message_dedup\<close>).
  \<^item> Runner: polls return, meet their contract and never replace a running future; the readiness
    gate; and that the stream may report its end while a future it just started is running.
  \<^item> Watcher and reflector: the effect of every watch item; a store behind any number of watcher
    items mirrors the server; the semantics of single events and of \<open>watch_object\<close>.
  \<^item> Controller: owners are triggered by their children and only by them, requeues are sent once
    and at the right time; and across components, in this theory, a reported object is reconciled
    as reported. The builder keeps an invariant, under which an update is in the store when its
    request is handed over, every update is handed over, and a bulk request covers the store.
  \<^item> Applier: the closed loop refines the abstract machine, in which nothing starts before it is due
    or twice at once; when it pauses, everything that is due was started or is held by a running
    reconciliation of its object; after the end of the queue it reports what runs, each once, and
    ends within a bound; and when the store can never become ready it may be pending for ever.
  \<^item> Streams: flattening, filtering, splitting and subscribing lose, repeat and reorder nothing;
    backoff keeps to its policy and loses nothing; waiting returns at the first decisive item.
  \<^item> Finalizer: an applied object disappears only after a successful cleanup, and other
    controllers' finalizers are not touched, in every run.
  \<^item> Requests: list, watch and patch requests decode to the parameters they were built from;
    which parameters are refused. Resources: URL paths are injective, erasure is faithful,
    \<open>apiVersion\<close> strings round trip. Versions: the parser and the priority order.
  \<^item> Responses and data: JSON forms are read back; durations are sums of their parts, and their
    order is that of signed numbers; merged CRDs keep all versions; rewritten schemas are
    structural and keep every property and enum value.
  \<^item> Client and calls: the outcome of every response, watch bodies cut at any point, WebSocket
    handshakes, the join with the base URI; calls that change objects are sent once; an entry
    never forgets a change; a refused watch is never listed again. What a client sends follows its
    configuration: base URI, credentials, headers, TLS and time-outs; and which key of an identity
    is used.
  \<^item> Configuration and credentials: where a configuration comes from, impersonation headers, that
    refreshing credentials never panics and how old a token may be. The exchanges with an OpenID
    issuer follow a protocol, and a token is used without asking only while it is valid.
  \<^item> Streams over WebSocket: for every schedule and failure, the channels of a forwarded port and
    of an attached process are kept apart, in order and without gaps; the loops of port forwarding
    cannot block each other, and close the connection once, after the last byte.
  \<^item> Derived types: the generated definition describes the generated type, objects are read back
    from their JSON, and the dynamic API guesses the same resource from the same names. Dynamic
    objects, typed objects, partial metadata and watch events agree on that JSON.
  \<^item> Kubeconfig: merging keeps the first value and is associative; what the loader picks.
  \<^item> Discovery: capabilities of listed names, versions in order of stability, and agreement of the
    cache with the one-shot queries.

  \<^bold>\<open>What is a parameter.\<close> Code outside the repository: \<open>form_urlencoded\<close>, \<open>http\<close>, \<open>serde_json\<close>
  and \<open>serde_yaml\<close>, \<open>schemars\<close>' walk over nested schemas, \<open>chrono\<close>, JSON paths, the PEM parser, the
  delay queue, backoff policies, the line codec, the HTTP service, the API server, the file
  system, processes, signals and the environment, base64, the clock, floating point parsing and
  multiplication, WebSocket connections, pipes and the executor that polls a task, the parsers
  \<open>syn\<close> and \<open>darling\<close>, \<open>tame-oauth\<close>, the TLS libraries, the HTTP transport, the tracing layer and
  the buffer of a client, the formats of the types of \<open>k8s-openapi\<close>, user reconcilers and error
  policies.

  \<^bold>\<open>What is not modelled.\<close> The facade crates, which re-export, and the examples and end-to-end
  tests, which are programs on top of the library; tracing spans and log lines; the text of most
  error messages; the tokens that the derive macro prints; response decompression (feature
  \<open>gzip\<close>); and \<open>body.rs\<close>, which hands on the chunks of a body.
  The scheduler and the runner are proved for messages of any type, compared by equality; the
  requests of a controller are compared without their reason (\<open>request_eq\<close>), so for them a message
  is an object reference and the reason it was first scheduled for is not tracked.
  Concurrency inside a poll does not arise, since every component is polled by one task; the lock
  of the store is not modelled, and a reader sees the store after some prefix of the events. A
  call of the finalizer wrapper is one step of the cluster, on any version ever served.
\<close>

section \<open>Properties that span components\<close>

lemma applied_key: "apply_watcher_event meta w ev = Some w' \<Longrightarrow> obj \<in> set (into_iter_applied ev) \<Longrightarrow>
   \<exists>key. obj_key meta (w_dyntype w) obj = Some key
     \<and> (\<exists>obj' \<in> set (into_iter_applied ev). obj_key meta (w_dyntype w) obj' = Some key \<and> w_store w' key = Some obj')"
proof (cases ev)
  case (Restarted objs)
  assume ev: "apply_watcher_event meta w ev = Some w'" and obj: "obj \<in> set (into_iter_applied ev)"
  then have c: "collect_objs meta (w_dyntype w) objs Map.empty = Some (w_store w')"
    by (auto simp: apply_watcher_event_def Restarted split: option.splits if_splits)
  then obtain key where key: "obj_key meta (w_dyntype w) obj = Some key"
    using obj collect_objs_None [of meta "w_dyntype w" objs Map.empty] by (cases "obj_key meta (w_dyntype w) obj") (auto simp: Restarted obj_key_None)
  let ?f = "List.find (\<lambda>x. obj_key meta (w_dyntype w) x = Some key) (rev objs)"
  obtain obj' where "?f = Some obj'"
    using key obj by (cases ?f) (auto simp: Restarted find_None_iff)
  then show ?thesis using collect_objs_lookup [OF c, of key] key
    by (auto simp: Restarted dest: find_Some_D)
qed (auto simp: apply_watcher_event_def split: option.splits if_splits)

lemma trigger_self_total:
  fixes meta :: "'k \<Rightarrow> object_meta"
  assumes "\<forall>obj \<in> set objs. obj_key meta dt obj \<noteq> None"
  shows "\<exists>reqs. trigger_self meta dt (map Inr objs :: ('q + 'k) list) = Some (map Inr reqs)
     \<and> list_all2 (\<lambda>obj req. obj_key meta dt obj = Some (key_of (rr_obj_ref req)) \<and> rr_reason req = ObjectUpdated) objs reqs"
  using assms
proof (induction objs)
  case (Cons obj objs)
  then obtain reqs where "trigger_self meta dt (map Inr objs :: ('q + 'k) list) = Some (map Inr reqs)"
    "list_all2 (\<lambda>obj req. obj_key meta dt obj = Some (key_of (rr_obj_ref req)) \<and> rr_reason req = ObjectUpdated) objs reqs" by auto
  moreover obtain r where "from_obj_with (meta obj) dt = Some r" "obj_key meta dt obj = Some (key_of r)"
    using Cons.prems by (auto simp: obj_key_def)
  ultimately show ?case
    by (intro exI [of _ "\<lparr>rr_obj_ref = r, rr_reason = ObjectUpdated\<rparr> # reqs"]) (simp add: trigger_self_def)
qed (simp add: trigger_self_def)

lemma store_get_present: "w_store w (key_of r) = Some obj \<Longrightarrow> store_get w r = Some obj"
  by (simp add: store_get_def)

text \<open>
  C11: an object that the watcher reports is reconciled as it was reported. After the reflector
  has applied an event that does not panic, the trigger of the controller turns the applied
  objects of the event into one request each, in order; and the applier, asked to run such a
  request, finds it in the store and calls the reconciler on a reported object with the same
  reference, which is the object itself for a single change. Deletions trigger nothing.
\<close>

theorem applied_objects_are_reconciled:
  fixes meta :: "'k \<Rightarrow> object_meta" and w :: "('dt, 'k) store_writer" and reconciler :: "'k \<Rightarrow> 'e + action"
  assumes "apply_watcher_event meta w ev = Some w'"
  shows "\<exists>reqs. trigger_self meta (w_dyntype w) (map Inr (into_iter_applied ev) :: ('q + 'k) list) = Some (map Inr reqs)
    \<and> list_all2 (\<lambda>obj req. obj_key meta (w_dyntype w) obj = Some (key_of (rr_obj_ref req))
        \<and> (\<exists>obj' \<in> set (into_iter_applied ev). obj_key meta (w_dyntype w) obj' = obj_key meta (w_dyntype w) obj
             \<and> (applier_run_msg K reconciler error_policy w' now tx req :: ('dt, 'e, 'q) controller_error + _)
               = Inr (rr_obj_ref req, reschedule_new now (reconciler obj') (error_policy obj') (rr_obj_ref req) tx)))
        (into_iter_applied ev) reqs"
proof -
  have "\<forall>obj \<in> set (into_iter_applied ev). obj_key meta (w_dyntype w) obj \<noteq> None"
    using applied_key [OF assms] by fastforce
  from trigger_self_total [OF this] obtain reqs where
    t: "trigger_self meta (w_dyntype w) (map Inr (into_iter_applied ev) :: ('q + 'k) list) = Some (map Inr reqs)"
    and l: "list_all2 (\<lambda>obj req. obj_key meta (w_dyntype w) obj = Some (key_of (rr_obj_ref req)) \<and> rr_reason req = ObjectUpdated)
      (into_iter_applied ev) reqs" by blast
  have run: "\<exists>obj' \<in> set (into_iter_applied ev). obj_key meta (w_dyntype w) obj' = obj_key meta (w_dyntype w) obj
      \<and> (applier_run_msg K reconciler error_policy w' now tx req :: ('dt, 'e, 'q) controller_error + _)
        = Inr (rr_obj_ref req, reschedule_new now (reconciler obj') (error_policy obj') (rr_obj_ref req) tx)"
    if "obj \<in> set (into_iter_applied ev)" "obj_key meta (w_dyntype w) obj = Some (key_of (rr_obj_ref req))" for obj req
    using applied_key [OF assms that(1)] that(2) by (auto simp: applier_run_msg_def dest!: store_get_present)
  from l have "list_all2 (\<lambda>obj req. obj_key meta (w_dyntype w) obj = Some (key_of (rr_obj_ref req))
        \<and> (\<exists>obj' \<in> set (into_iter_applied ev). obj_key meta (w_dyntype w) obj' = obj_key meta (w_dyntype w) obj
             \<and> (applier_run_msg K reconciler error_policy w' now tx req :: ('dt, 'e, 'q) controller_error + _)
               = Inr (rr_obj_ref req, reschedule_new now (reconciler obj') (error_policy obj') (rr_obj_ref req) tx)))
        (into_iter_applied ev) reqs"
    by (rule list.rel_mono_strong) (use run in blast)
  with t show ?thesis by blast
qed

definition idle_sender :: "api_resource sender" where
  "idle_sender = \<lparr>tx_ready = Ready (Inr ()), tx_sent = []\<rparr>"

theorem applied_objects_are_reconciled_witness:
  "\<exists>w' req. apply_watcher_event (\<lambda>m. m) (writer_new pod_resource) (Applied guarded_object) = Some w'
     \<and> trigger_self (\<lambda>m. m) pod_resource [Inr guarded_object :: unit + object_meta] = Some [Inr req]
     \<and> (\<exists>r. (applier_run_msg dynamic_class (\<lambda>_. Inr await_change :: unit + action) (\<lambda>_ _. await_change) w' 5 idle_sender req
          :: (api_resource, unit, unit) controller_error + _) = Inr r)"
proof -
  have "m_name guarded_object \<noteq> None" by (simp add: guarded_object_def)
  then obtain w' where w': "apply_watcher_event (\<lambda>m. m) (writer_new pod_resource) (Applied guarded_object) = Some w'"
    by (cases "apply_watcher_event (\<lambda>m. m) (writer_new pod_resource) (Applied guarded_object)")
      (auto simp: apply_watcher_event_def writer_new_def obj_key_cases split: option.splits)
  from applied_objects_are_reconciled [OF w', of dynamic_class "\<lambda>_. Inr await_change :: unit + action" "\<lambda>_ _. await_change" 5 idle_sender]
  show ?thesis using w' by (auto simp: writer_new_def list_all2_Cons1)
qed

end
